(* ===== verification/Prelude.thy ===== *)
theory Prelude
  imports Main "HOL-Library.Word" "HOL-Library.Monad_Syntax"
begin

unbundle bit_operations_syntax

section \<open>Shared vocabulary of the development\<close>

text \<open>
  Types and access primitives shared by the models of the C sources.

  \<^item> A \<open>uint8_t\<close> is a \<open>byte\<close> (an 8 bit word); a C array is the list of its
    cells, so its length is the memory that really belongs to it.
  \<^item> The option monad carries undefined behaviour: \<open>None\<close> is an access outside
    an array (or, for loops given by \<^theory_text>\<open>partial_function\<close>, no return at
    all), \<open>Some\<close> is a defined execution. Every theorem that says \<open>\<exists>r. f x = Some r\<close>
    is therefore a memory safety (and termination) statement.
  \<^item> The error return of a C function (\<open>-1\<close>, \<open>NULL\<close>, \<open>0\<close>) is the value \<open>Fail\<close>
    of the type \<open>ret\<close>; it is a defined execution.
  \<^item> An encoder \<open>int enc(..., uint8_t* buffer, int bufPos)\<close> that returns the new
    position is a function on pairs (buffer, position).
  \<^item> Positions and lengths (C \<open>int\<close>) are naturals: the code only ever compares them
    and adds to them, and the theorems bound them by the buffer's size.
\<close>

type_synonym byte = "8 word"
type_synonym wstate = "byte list \<times> nat"
type_synonym writer = "wstate \<Rightarrow> wstate option"

datatype 'a ret = Fail | Ret 'a

named_theorems mem_defs \<open>unfolding rules of the memory access primitives\<close>
named_theorems writer_intros \<open>introduction rules for the writer specification\<close>

declare Option.bind_cong [fundef_cong]

lemma nat_plus:
  "(n :: nat) + 2 = Suc (Suc n)" "n + 3 = Suc (Suc (Suc n))" "n + 4 = Suc (Suc (Suc (Suc n)))"
  "n + 5 = Suc (Suc (Suc (Suc (Suc n))))" "n + 6 = Suc (Suc (Suc (Suc (Suc (Suc n)))))"
  "n + 7 = Suc (Suc (Suc (Suc (Suc (Suc (Suc n))))))"
  "n + 8 = Suc (Suc (Suc (Suc (Suc (Suc (Suc (Suc n)))))))"
  by simp_all

subsection \<open>Reading and writing arrays\<close>

definition rd :: "byte list \<Rightarrow> nat \<Rightarrow> byte option" where
  "rd buf i = (if i < length buf then Some (buf ! i) else None)"

definition wr :: "byte list \<Rightarrow> nat \<Rightarrow> byte \<Rightarrow> byte list option" where
  "wr buf i v = (if i < length buf then Some (buf[i := v]) else None)"

text \<open>The C statement \<open>buffer[bufPos++] = v\<close>.\<close>

definition put :: "byte \<Rightarrow> writer" where
  "put v s = (case s of (buf, pos) \<Rightarrow> do { buf' \<leftarrow> wr buf pos v; Some (buf', Suc pos) })"

text \<open>The loop \<open>for (i = a; i < a + n; i++) buffer[bufPos++] = src[i]\<close>, and \<open>memcpy\<close>
  followed by \<open>bufPos += n\<close>.\<close>

fun put_from :: "byte list \<Rightarrow> nat \<Rightarrow> nat \<Rightarrow> writer" where
  "put_from src a 0 s = Some s"
| "put_from src a (Suc n) s =
     do { b \<leftarrow> rd src a; s' \<leftarrow> put b s; put_from src (Suc a) n s' }"

text \<open>The loop \<open>for (i = 0; i < n; i++) dst[i] = src[pos + i]\<close> into a fresh array: the
  \<open>n\<close> cells read from \<open>pos\<close> on.\<close>

fun rd_block :: "byte list \<Rightarrow> nat \<Rightarrow> nat \<Rightarrow> byte list option" where
  "rd_block src pos 0 = Some []"
| "rd_block src pos (Suc n) =
     do { b \<leftarrow> rd src pos; bs \<leftarrow> rd_block src (Suc pos) n; Some (b # bs) }"

text \<open>\<open>memcpy(dst + dpos, src + spos, n)\<close>; both ranges have to lie inside their arrays.\<close>

definition memcpy :: "byte list \<Rightarrow> nat \<Rightarrow> byte list \<Rightarrow> nat \<Rightarrow> nat \<Rightarrow> byte list option" where
  "memcpy dst dpos src spos n =
     do { bs \<leftarrow> rd_block src spos n;
          if dpos + n \<le> length dst then Some (take dpos dst @ bs @ drop (dpos + n) dst) else None }"

lemma rd_Some [simp]: "i < length buf \<Longrightarrow> rd buf i = Some (buf ! i)"
  by (simp add: rd_def)

lemma rd_None [simp]: "length buf \<le> i \<Longrightarrow> rd buf i = None"
  by (simp add: rd_def)

lemma rd_eq_Some [simp]: "rd buf i = Some v \<longleftrightarrow> i < length buf \<and> buf ! i = v"
  by (simp add: rd_def)

lemma rd_eq_None [simp]: "rd buf i = None \<longleftrightarrow> length buf \<le> i"
  by (simp add: rd_def not_less)

lemma wr_Some [simp]: "i < length buf \<Longrightarrow> wr buf i v = Some (buf[i := v])"
  by (simp add: wr_def)

lemma wr_eq_None [simp]: "wr buf i v = None \<longleftrightarrow> length buf \<le> i"
  by (simp add: wr_def not_less)

lemma put_in [simp]: "pos < length buf \<Longrightarrow> put v (buf, pos) = Some (buf[pos := v], Suc pos)"
  by (simp add: put_def)

lemma put_out [simp]: "length buf \<le> pos \<Longrightarrow> put v (buf, pos) = None"
  by (simp add: put_def wr_def)

lemma rd_block_eq:
  "rd_block src pos n =
     (if n = 0 \<or> pos + n \<le> length src then Some (take n (drop pos src)) else None)"
proof (induction n arbitrary: pos)
  case (Suc n)
  show ?case
  proof (cases "pos < length src")
    case True
    then have "take (Suc n) (drop pos src) = src ! pos # take n (drop (Suc pos) src)"
      by (simp add: Cons_nth_drop_Suc [symmetric])
    with True Suc show ?thesis by auto
  qed (simp add: rd_def)
qed simp

lemma rd_block_length: "rd_block src pos n = Some bs \<Longrightarrow> length bs = n"
  by (auto simp: rd_block_eq split: if_splits)

subsection \<open>The specification of a writer\<close>

text \<open>
  \<open>patch buf pos bs\<close> is the buffer with \<open>bs\<close> stored from \<open>pos\<close> on. A writer \<open>w\<close>
  \<open>writes\<close> the bytes \<open>bs\<close> when, from any position inside the buffer, it stores exactly
  \<open>bs\<close> there, advances by their number and touches nothing else if they fit, and is
  undefined if they do not.
\<close>

definition patch :: "byte list \<Rightarrow> nat \<Rightarrow> byte list \<Rightarrow> byte list" where
  "patch buf pos bs = take pos buf @ bs @ drop (pos + length bs) buf"

definition writes :: "writer \<Rightarrow> byte list \<Rightarrow> bool" where
  "writes w bs \<longleftrightarrow>
     (\<forall>buf pos. pos \<le> length buf \<longrightarrow>
        w (buf, pos) =
          (if pos + length bs \<le> length buf then Some (patch buf pos bs, pos + length bs)
           else None))"

lemma length_patch [simp]: "pos + length bs \<le> length buf \<Longrightarrow> length (patch buf pos bs) = length buf"
  by (simp add: patch_def)

lemma patch_Nil [simp]: "patch buf pos [] = buf"
  by (simp add: patch_def)

lemma patch_patch:
  "pos + length a + length b \<le> length buf \<Longrightarrow>
   patch (patch buf pos a) (pos + length a) b = patch buf pos (a @ b)"
  by (simp add: patch_def ac_simps)

lemma take_patch: "pos \<le> length buf \<Longrightarrow> take (pos + length bs) (patch buf pos bs) = take pos buf @ bs"
  by (simp add: patch_def)

lemma take_patch_0: "take (length bs) (patch buf 0 bs) = bs"
  by (simp add: patch_def)

lemma patch_single: "pos < length buf \<Longrightarrow> patch buf pos [v] = buf[pos := v]"
  by (simp add: patch_def upd_conv_take_nth_drop)

lemma memcpy_eq:
  "spos + n \<le> length src \<Longrightarrow> dpos + n \<le> length dst \<Longrightarrow>
   memcpy dst dpos src spos n = Some (patch dst dpos (take n (drop spos src)))"
  by (simp add: memcpy_def rd_block_eq patch_def min_absorb2)

lemma writesI:
  assumes "\<And>buf pos. pos + length bs \<le> length buf \<Longrightarrow>
             w (buf, pos) = Some (patch buf pos bs, pos + length bs)"
    and "\<And>buf pos. pos \<le> length buf \<Longrightarrow> length buf < pos + length bs \<Longrightarrow> w (buf, pos) = None"
  shows "writes w bs"
  using assms by (auto simp: writes_def)

lemma writesD:
  "writes w bs \<Longrightarrow> pos + length bs \<le> length buf \<Longrightarrow>
   w (buf, pos) = Some (patch buf pos bs, pos + length bs)"
  by (simp add: writes_def)

lemma writesD_None:
  "writes w bs \<Longrightarrow> pos \<le> length buf \<Longrightarrow> length buf < pos + length bs \<Longrightarrow> w (buf, pos) = None"
  by (simp add: writes_def)

lemma writes_Some [writer_intros]: "writes Some []"
  by (rule writesI) simp_all

lemma writes_put [writer_intros]: "writes (put v) [v]"
  by (rule writesI) (simp_all add: patch_single)

lemma writes_bind [writer_intros]:
  assumes f: "writes f a" and g: "writes g b"
  shows "writes (\<lambda>s. f s \<bind> g) (a @ b)"
proof (rule writesI)
  fix buf :: "byte list" and pos :: nat
  assume "pos + length (a @ b) \<le> length buf"
  then show "f (buf, pos) \<bind> g = Some (patch buf pos (a @ b), pos + length (a @ b))"
    using writesD [OF f, of pos buf] writesD [OF g, of "pos + length a" "patch buf pos a"]
    by (simp add: patch_patch)
next
  fix buf :: "byte list" and pos :: nat
  assume le: "pos \<le> length buf" and lt: "length buf < pos + length (a @ b)"
  show "f (buf, pos) \<bind> g = None"
  proof (cases "pos + length a \<le> length buf")
    case True
    then show ?thesis
      using lt writesD [OF f, of pos buf] writesD_None [OF g, of "pos + length a" "patch buf pos a"]
      by simp
  next
    case False
    then show ?thesis using writesD_None [OF f, of pos buf] le by simp
  qed
qed

lemma writes_put_from:
  "a + n \<le> length src \<Longrightarrow> writes (put_from src a n) (take n (drop a src))"
proof (induction n arbitrary: a)
  case 0
  have "put_from src a 0 = Some" by (rule ext) simp
  then show ?case by (simp add: writes_Some)
next
  case (Suc n)
  then have rd: "rd src a = Some (src ! a)"
    and split: "take (Suc n) (drop a src) = [src ! a] @ take n (drop (Suc a) src)"
    by (simp_all add: Cons_nth_drop_Suc [symmetric])
  have "put_from src a (Suc n) = (\<lambda>s. put (src ! a) s \<bind> put_from src (Suc a) n)"
    by (rule ext) (simp add: rd)
  moreover from Suc have "writes (put_from src (Suc a) n) (take n (drop (Suc a) src))" by simp
  ultimately show ?case
    unfolding split by (simp only: writes_bind [OF writes_put])
qed

lemma writes_put_all [writer_intros]: "writes (put_from src 0 (length src)) src"
  using writes_put_from [of 0 "length src" src] by simp

lemma writes_cong: "writes w a \<Longrightarrow> a = b \<Longrightarrow> writes w b"
  by simp

subsection \<open>Finding bytes in a buffer\<close>

text \<open>\<open>has buf pos bs\<close>: the cells from \<open>pos\<close> on hold \<open>bs\<close>. Round trip proofs take it
  apart with the rules below while a decoder walks over the bytes an encoder wrote.\<close>

definition has :: "byte list \<Rightarrow> nat \<Rightarrow> byte list \<Rightarrow> bool" where
  "has buf pos bs \<longleftrightarrow> take (length bs) (drop pos buf) = bs"

lemma has_Nil [simp]: "has buf pos []"
  by (simp add: has_def)

lemma has_Cons [simp]:
  "has buf pos (b # bs) \<longleftrightarrow> pos < length buf \<and> buf ! pos = b \<and> has buf (Suc pos) bs"
proof (cases "pos < length buf")
  case True
  then show ?thesis by (simp add: has_def Cons_nth_drop_Suc [symmetric])
qed (simp add: has_def)

lemma has_append [simp]: "has buf pos (a @ b) \<longleftrightarrow> has buf pos a \<and> has buf (pos + length a) b"
  by (induction a arbitrary: pos) auto

lemma has_rd: "has buf pos bs \<Longrightarrow> i < length bs \<Longrightarrow> rd buf (pos + i) = Some (bs ! i)"
proof (induction bs arbitrary: pos i)
  case (Cons b bs)
  then show ?case using Cons.IH [of "Suc pos" "i - 1"] by (cases i) auto
qed simp

lemma has_length: "has buf pos bs \<Longrightarrow> bs \<noteq> [] \<Longrightarrow> pos + length bs \<le> length buf"
proof (induction bs arbitrary: pos)
  case (Cons b bs)
  then show ?case using Cons.IH [of "Suc pos"] by (cases "bs = []") auto
qed simp

lemma has_drop: "has buf pos bs \<Longrightarrow> has buf (pos + k) (drop k bs)"
proof (cases "k \<le> length bs")
  case True
  assume "has buf pos bs"
  then have "has buf pos (take k bs @ drop k bs)" by simp
  with True show ?thesis by (simp only: has_append) (simp add: min_absorb2)
qed simp

lemma has_take: "pos + n \<le> length buf \<Longrightarrow> has buf pos (take n (drop pos buf))"
  by (simp add: has_def)

lemma has_patch: "pos + length bs \<le> length buf \<Longrightarrow> has (patch buf pos bs) pos bs"
  by (simp add: has_def patch_def)

lemma has_self [simp]: "has bs 0 bs"
  by (simp add: has_def)

lemma rd_block_has: "has buf pos bs \<Longrightarrow> rd_block buf pos (length bs) = Some bs"
  by (induction bs arbitrary: pos) auto

lemma writes_has:
  assumes "writes w bs" and "pos \<le> length buf" and "w (buf, pos) = Some (buf', pos')"
  shows "buf' = patch buf pos bs" and "pos' = pos + length bs" and "pos + length bs \<le> length buf"
    and "length buf' = length buf" and "has buf' pos bs"
proof -
  show fit: "pos + length bs \<le> length buf"
    using assms writesD_None [OF assms(1,2)] by (metis not_less option.distinct(1))
  with assms writesD [OF assms(1) fit] show "buf' = patch buf pos bs" "pos' = pos + length bs" by simp_all
  with fit show "length buf' = length buf" "has buf' pos bs" by (simp_all add: has_patch)
qed

end
