(* ===== verification/Hal_Socket.thy ===== *)
theory Hal_Socket
  imports Prelude
begin

section \<open>TCP sockets\<close>

text \<open>
  Model of the three socket functions the transport layer calls: \<open>Socket_read\<close>, \<open>Socket_write\<close>
  and \<open>Handleset_waitReady\<close> of \<open>hal/socket/linux/socket_linux.c\<close>. The operating system below
  them (\<open>recv\<close>, \<open>send\<close>, \<open>poll\<close>) is a parameter: a socket carries the answers the system calls
  will give, in order, as three lists, and the theorems quantify over them. An empty list
  stands for a system that has nothing to deliver (\<open>EAGAIN\<close>), accepts everything it is given,
  and reports the socket as ready. \<open>sent\<close> collects the bytes the system accepted.
\<close>

datatype recv_result = Recv_data "byte list" | Recv_EAGAIN | Recv_error
datatype send_result = Send_accept nat | Send_EAGAIN | Send_error
datatype poll_result = Poll_ready nat | Poll_EINTR | Poll_error

record Socket =
  fd :: int
  rx :: "recv_result list"
  tx :: "send_result list"
  polls :: "poll_result list"
  sent :: "byte list"

text \<open>\<open>recv\<close> delivers at most \<open>sz\<close> bytes; what is left of a segment is delivered by the next
  call. The result \<open>Recv_data []\<close> is the return value 0, the end of the stream.\<close>

definition recv :: "Socket \<Rightarrow> nat \<Rightarrow> Socket \<times> recv_result" where
  "recv self sz =
     (case rx self of
        [] \<Rightarrow> (self, Recv_EAGAIN)
      | e # es \<Rightarrow>
          (case e of
             Recv_data bs \<Rightarrow>
               (self\<lparr>rx := if length bs \<le> sz then es else Recv_data (drop sz bs) # es\<rparr>, Recv_data (take sz bs))
           | _ \<Rightarrow> (self\<lparr>rx := es\<rparr>, e)))"

definition send :: "Socket \<Rightarrow> byte list \<Rightarrow> Socket \<times> send_result" where
  "send self bs =
     (case tx self of
        [] \<Rightarrow> (self\<lparr>sent := sent self @ bs\<rparr>, Send_accept (length bs))
      | e # es \<Rightarrow>
          (case e of
             Send_accept n \<Rightarrow>
               (self\<lparr>tx := es, sent := sent self @ take n bs\<rparr>, Send_accept (min n (length bs)))
           | _ \<Rightarrow> (self\<lparr>tx := es\<rparr>, e)))"

text \<open>\<open>Socket_read(self, buf + off, size)\<close>: the new socket, the array and the C result. The
  array has to have room for \<open>size\<close> bytes.\<close>

definition Socket_read :: "Socket \<Rightarrow> byte list \<Rightarrow> nat \<Rightarrow> nat \<Rightarrow> (Socket \<times> byte list \<times> int) option" where
  "Socket_read self buf off sz =
     (if fd self = -1 then Some (self, buf, -1)
      else if length buf < off + sz then None
      else case recv self sz of
             (self, Recv_data bs) \<Rightarrow>
               if bs = [] then Some (self, buf, -1) else Some (self, patch buf off bs, int (length bs))
           | (self, Recv_EAGAIN) \<Rightarrow> Some (self, buf, 0)
           | (self, Recv_error) \<Rightarrow> Some (self, buf, -1))"

definition Socket_write :: "Socket \<Rightarrow> byte list \<Rightarrow> nat \<Rightarrow> (Socket \<times> int) option" where
  "Socket_write self buf sz =
     (if fd self = -1 then Some (self, -1)
      else do {
        bs \<leftarrow> rd_block buf 0 sz;
        case send self bs of
          (self, Send_accept n) \<Rightarrow> Some (self, int n)
        | (self, Send_EAGAIN) \<Rightarrow> Some (self, 0)
        | (self, Send_error) \<Rightarrow> Some (self, -1) })"

text \<open>The handle set of a connection holds its one socket.\<close>

definition Handleset_waitReady :: "Socket \<Rightarrow> Socket \<times> int" where
  "Handleset_waitReady self =
     (case polls self of
        [] \<Rightarrow> (self, 1)
      | e # es \<Rightarrow>
          (self\<lparr>polls := es\<rparr>,
           case e of Poll_ready n \<Rightarrow> int n | Poll_EINTR \<Rightarrow> 0 | Poll_error \<Rightarrow> -1))"

subsection \<open>The byte streams of a socket\<close>

text \<open>The bytes a socket is going to deliver, in order, and a bound on the number of calls that
  can be made before they are delivered.\<close>

fun rx_bytes :: "recv_result list \<Rightarrow> byte list" where
  "rx_bytes [] = []"
| "rx_bytes (Recv_data bs # es) = bs @ rx_bytes es"
| "rx_bytes (_ # es) = rx_bytes es"

fun rx_work :: "recv_result list \<Rightarrow> nat" where
  "rx_work [] = 0"
| "rx_work (Recv_data bs # es) = Suc (length bs) + rx_work es"
| "rx_work (_ # es) = Suc (rx_work es)"

text \<open>A socket that stays open and reports no errors: data may still come in pieces of any size,
  with any number of empty reads and timeouts between them.\<close>

definition rx_benign :: "Socket \<Rightarrow> bool" where
  "rx_benign self \<longleftrightarrow> fd self \<noteq> -1 \<and> Recv_data [] \<notin> set (rx self) \<and> Recv_error \<notin> set (rx self) \<and>
     Poll_error \<notin> set (polls self)"

text \<open>An open socket that accepts everything at once.\<close>

definition tx_free :: "Socket \<Rightarrow> bool" where
  "tx_free self \<longleftrightarrow> fd self \<noteq> -1 \<and> tx self = []"

lemma Socket_write_spec:
  assumes "sz \<le> length buf"
  shows "\<exists>s n. Socket_write self buf sz = Some (s, n) \<and> rx s = rx self \<and> polls s = polls self \<and> fd s = fd self \<and>
           (n = -1 \<and> sent s = sent self \<or>
            (\<exists>k. n = int k \<and> k \<le> sz \<and> sent s = sent self @ take k buf)) \<and>
           (tx_free self \<longrightarrow> n = int sz \<and> tx_free s)"
proof (cases "fd self = -1")
  case False
  have bs: "rd_block buf 0 sz = Some (take sz buf)" using assms by (simp add: rd_block_eq)
  show ?thesis
  proof (cases "tx self")
    case Nil
    then have "Socket_write self buf sz = Some (self\<lparr>sent := sent self @ take sz buf\<rparr>, int sz)"
      using False assms bs by (simp add: Socket_write_def send_def)
    then show ?thesis by (intro exI conjI, assumption) (use False Nil in \<open>auto simp: tx_free_def intro: exI [of _ sz]\<close>)
  next
    case (Cons e es)
    show ?thesis
    proof (cases e)
      case (Send_accept n)
      have "Socket_write self buf sz = Some (self\<lparr>tx := es, sent := sent self @ take (min n sz) buf\<rparr>, int (min n sz))"
        using False assms bs Cons Send_accept by (simp add: Socket_write_def send_def)
      then show ?thesis by (intro exI conjI, assumption) (use Cons in \<open>auto simp: tx_free_def intro: exI [of _ "min n sz"]\<close>)
    qed (use False assms bs Cons in \<open>simp_all add: Socket_write_def send_def tx_free_def\<close>)
  qed
qed (simp add: Socket_write_def tx_free_def)

text \<open>One read: the error result, or a prefix of the stream moved into the array.\<close>

lemma Socket_read_spec:
  assumes "off + sz \<le> length buf" and "0 < sz"
  shows "\<exists>s bs n. Socket_read self buf off sz = Some (s, patch buf off bs, n) \<and> length bs \<le> sz \<and>
           tx s = tx self \<and> sent s = sent self \<and> polls s = polls self \<and> fd s = fd self \<and>
           rx_bytes (rx self) = bs @ rx_bytes (rx s) \<and> rx_work (rx s) \<le> rx_work (rx self) \<and>
           (rx self \<noteq> [] \<and> fd self \<noteq> -1 \<longrightarrow> rx_work (rx s) < rx_work (rx self)) \<and>
           (n = -1 \<and> bs = [] \<or> n = int (length bs)) \<and>
           (rx_benign self \<longrightarrow> rx_benign s \<and> n = int (length bs))"
proof (cases "fd self = -1")
  case True
  then show ?thesis
    by (intro exI [of _ self] exI [of _ "[]"] exI [of _ "-1"]) (simp add: Socket_read_def rx_benign_def)
next
  case False
  note [simp] = Socket_read_def recv_def
  show ?thesis
  proof (cases "rx self")
    case Nil
    then show ?thesis using False assms
      by (intro exI [of _ self] exI [of _ "[]"] exI [of _ 0]) simp
  next
    case (Cons e es)
    show ?thesis
    proof (cases e)
      case (Recv_data bs)
      let ?es = "if length bs \<le> sz then es else Recv_data (drop sz bs) # es"
      show ?thesis
      proof (cases "bs = []")
        case True
        then show ?thesis using False assms Cons Recv_data
          by (intro exI [of _ "self\<lparr>rx := es\<rparr>"] exI [of _ "[]"] exI [of _ "-1"]) (simp add: rx_benign_def)
      next
        case bs: False
        have "rx_bytes (rx self) = take sz bs @ rx_bytes ?es" "rx_work ?es < rx_work (rx self)"
          using Cons Recv_data assms(2) bs by auto
        moreover have "rx_benign self \<longrightarrow> rx_benign (self\<lparr>rx := ?es\<rparr>)"
          using Cons Recv_data by (auto simp: rx_benign_def)
        ultimately show ?thesis using False assms Cons Recv_data bs
          by (intro exI [of _ "self\<lparr>rx := ?es\<rparr>"] exI [of _ "take sz bs"] exI [of _ "int (length (take sz bs))"]) simp
      qed
    next
      case Recv_EAGAIN
      then show ?thesis using False assms Cons
        by (intro exI [of _ "self\<lparr>rx := es\<rparr>"] exI [of _ "[]"] exI [of _ 0]) (simp add: rx_benign_def)
    next
      case Recv_error
      then show ?thesis using False assms Cons
        by (intro exI [of _ "self\<lparr>rx := es\<rparr>"] exI [of _ "[]"] exI [of _ "-1"]) (simp add: rx_benign_def)
    qed
  qed
qed

lemma waitReady_spec:
  "\<exists>s n. Handleset_waitReady self = (s, n) \<and> rx s = rx self \<and> tx s = tx self \<and> sent s = sent self \<and> fd s = fd self \<and>
     length (polls s) \<le> length (polls self) \<and> (n < 1 \<longrightarrow> length (polls s) < length (polls self)) \<and>
     n \<ge> -1 \<and> (rx_benign self \<longrightarrow> rx_benign s \<and> 0 \<le> n)"
proof (cases "polls self")
  case Nil
  then show ?thesis by (simp add: Handleset_waitReady_def)
next
  case (Cons e es)
  then show ?thesis by (cases e) (auto simp: Handleset_waitReady_def rx_benign_def)
qed

end
