(* ===== verification/Ber_Encoder.thy ===== *)
theory Ber_Encoder
  imports Prelude
begin

unbundle bit_operations_syntax

section \<open>The BER encoder\<close>

text \<open>
  Model of \<open>src/mms/asn1/ber_encoder.c\<close>. Each \<open>BerEncoder_encode...\<close> function is a
  writer on (buffer, position); its specification is the byte list it writes
  (\<open>ber_length\<close>, \<open>ber_bitstring\<close>, ...), stated with \<open>writes\<close>. Integers go through the C
  code's route: the little endian memory bytes of the value (\<open>le_bytes\<close>, the build is for
  \<open>ORDER_LITTLE_ENDIAN = 1\<close>), reversed in place by \<open>BerEncoder_revertByteOrder\<close> and
  shortened in place by \<open>BerEncoder_compressInteger\<close>. The theorems show that this route
  yields the minimal two's complement encoding of the value.
\<close>

subsection \<open>Length fields and elementary elements\<close>

definition BerEncoder_encodeLength :: "nat \<Rightarrow> writer" where
  "BerEncoder_encodeLength len s =
     (if len < 128 then put (of_nat len) s
      else if len < 256 then do { s \<leftarrow> put 0x81 s; put (of_nat len) s }
      else if len < 65535 then do {
        s \<leftarrow> put 0x82 s;
        s \<leftarrow> put (of_nat (len div 256)) s;
        put (of_nat (len mod 256)) s }
      else do {
        s \<leftarrow> put 0x83 s;
        s \<leftarrow> put (of_nat (len div 0x10000)) s;
        s \<leftarrow> put (of_nat ((len AND 0xffff) div 0x100)) s;
        put (of_nat (len mod 256)) s })"

definition BerEncoder_encodeTL :: "byte \<Rightarrow> nat \<Rightarrow> writer" where
  "BerEncoder_encodeTL tag len s = do { s \<leftarrow> put tag s; BerEncoder_encodeLength len s }"

definition BerEncoder_encodeBoolean :: "byte \<Rightarrow> bool \<Rightarrow> writer" where
  "BerEncoder_encodeBoolean tag value s = do {
     s \<leftarrow> put tag s;
     s \<leftarrow> put 1 s;
     if value then put 0x01 s else put 0x00 s }"

text \<open>A C string is the list of its bytes before the terminating zero, \<open>None\<close> for \<open>NULL\<close>.\<close>

definition BerEncoder_encodeStringWithTag :: "byte \<Rightarrow> byte list option \<Rightarrow> writer" where
  "BerEncoder_encodeStringWithTag tag str s = do {
     s \<leftarrow> put tag s;
     (case str of
        Some cs \<Rightarrow> do {
          s \<leftarrow> BerEncoder_encodeLength (length cs) s;
          put_from cs 0 (length cs) s }
      | None \<Rightarrow> put 0 s) }"

definition BerEncoder_encodeOctetString :: "byte \<Rightarrow> byte list \<Rightarrow> nat \<Rightarrow> writer" where
  "BerEncoder_encodeOctetString tag octetString octetStringSize s = do {
     s \<leftarrow> put tag s;
     s \<leftarrow> BerEncoder_encodeLength octetStringSize s;
     put_from octetString 0 octetStringSize s }"

definition BerEncoder_determineLengthSize :: "nat \<Rightarrow> nat" where
  "BerEncoder_determineLengthSize len =
     (if len < 128 then 1 else if len < 256 then 2 else if len < 65536 then 3 else 4)"

definition BerEncoder_determineEncodedStringSize :: "byte list option \<Rightarrow> nat" where
  "BerEncoder_determineEncodedStringSize str =
     (case str of
        Some cs \<Rightarrow> 1 + BerEncoder_determineLengthSize (length cs) + length cs
      | None \<Rightarrow> 2)"

subsection \<open>Bit strings\<close>

fun padding_mask :: "nat \<Rightarrow> nat \<Rightarrow> byte \<Rightarrow> byte" where
  "padding_mask i 0 paddingMask = paddingMask"
| "padding_mask i (Suc n) paddingMask = padding_mask (Suc i) n (paddingMask + push_bit i 1)"

definition bitstring_bytes :: "nat \<Rightarrow> nat" where
  "bitstring_bytes bitStringSize =
     (if bitStringSize mod 8 \<noteq> 0 then bitStringSize div 8 + 1 else bitStringSize div 8)"

definition BerEncoder_encodeBitString :: "byte \<Rightarrow> nat \<Rightarrow> byte list \<Rightarrow> writer" where
  "BerEncoder_encodeBitString tag bitStringSize bitString s = do {
     s \<leftarrow> put tag s;
     let byteSize = bitstring_bytes bitStringSize;
     let padding = byteSize * 8 - bitStringSize;
     s \<leftarrow> BerEncoder_encodeLength (byteSize + 1) s;
     s \<leftarrow> put (of_nat padding) s;
     (buffer, bufPos) \<leftarrow> put_from bitString 0 byteSize s;
     let paddingMask = NOT (padding_mask 0 padding 0);
     b \<leftarrow> rd buffer (bufPos - 1);
     buffer \<leftarrow> wr buffer (bufPos - 1) (b AND paddingMask);
     Some (buffer, bufPos) }"

definition BerEncoder_determineEncodedBitStringSize :: "nat \<Rightarrow> nat" where
  "BerEncoder_determineEncodedBitStringSize bitStringSize =
     (let byteSize = bitstring_bytes bitStringSize
      in 2 + BerEncoder_determineLengthSize byteSize + byteSize)"

subsection \<open>Byte order and integer compression\<close>

text \<open>The loop of \<open>BerEncoder_revertByteOrder\<close> on the \<open>size\<close> cells from \<open>base\<close> on.\<close>

function revertByteOrder_loop :: "byte list \<Rightarrow> nat \<Rightarrow> nat \<Rightarrow> nat \<Rightarrow> byte list option" where
  "revertByteOrder_loop octets base sz i =
     (if i < sz div 2 then do {
        temp \<leftarrow> rd octets (base + i);
        x \<leftarrow> rd octets (base + (sz - 1 - i));
        octets \<leftarrow> wr octets (base + i) x;
        octets \<leftarrow> wr octets (base + (sz - 1 - i)) temp;
        revertByteOrder_loop octets base sz (Suc i) }
      else Some octets)"
  by pat_completeness auto
termination
  by (relation "measure (\<lambda>(octets, base, sz, i). sz div 2 - i)") auto

definition BerEncoder_revertByteOrder :: "byte list \<Rightarrow> nat \<Rightarrow> nat \<Rightarrow> byte list option" where
  "BerEncoder_revertByteOrder octets base sz = revertByteOrder_loop octets base sz 0"

text \<open>\<open>compressInteger_scan\<close> is the first loop (the position of the first byte that has to
  stay), \<open>compressInteger_move\<close> the second (moving the remaining bytes to the front).\<close>

function compressInteger_scan :: "byte list \<Rightarrow> nat \<Rightarrow> nat \<Rightarrow> nat option" where
  "compressInteger_scan integer integerEnd bytePosition =
     (if bytePosition < integerEnd then do {
        b0 \<leftarrow> rd integer bytePosition;
        continue \<leftarrow>
          (if b0 = 0x00 then do { b1 \<leftarrow> rd integer (bytePosition + 1); Some (b1 AND 0x80 = 0) }
           else if b0 = 0xff then do { b1 \<leftarrow> rd integer (bytePosition + 1); Some (b1 AND 0x80 = 0x80) }
           else Some False);
        if continue then compressInteger_scan integer integerEnd (Suc bytePosition)
        else Some bytePosition }
      else Some bytePosition)"
  by pat_completeness auto
termination
  by (relation "measure (\<lambda>(integer, e, p). e - p)") auto

fun compressInteger_move :: "byte list \<Rightarrow> nat \<Rightarrow> nat \<Rightarrow> nat \<Rightarrow> byte list option" where
  "compressInteger_move integer newPos bytePosition 0 = Some integer"
| "compressInteger_move integer newPos bytePosition (Suc n) = do {
     b \<leftarrow> rd integer bytePosition;
     integer \<leftarrow> wr integer newPos b;
     compressInteger_move integer (Suc newPos) (Suc bytePosition) n }"

definition BerEncoder_compressInteger :: "byte list \<Rightarrow> nat \<Rightarrow> (byte list \<times> nat) option" where
  "BerEncoder_compressInteger integer originalSize = do {
     bytesToDelete \<leftarrow> compressInteger_scan integer (originalSize - 1) 0;
     if bytesToDelete \<noteq> 0 then do {
       let newSize = originalSize - bytesToDelete;
       integer \<leftarrow> compressInteger_move integer 0 bytesToDelete newSize;
       Some (integer, newSize) }
     else Some (integer, originalSize) }"

subsection \<open>Integers and floats\<close>

text \<open>The bytes of an integer object in memory, least significant first.\<close>

definition le_bytes :: "nat \<Rightarrow> 'a::len word \<Rightarrow> byte list" where
  "le_bytes n w = map (\<lambda>i. ucast (drop_bit (8 * i) w)) [0..<n]"

text \<open>The common prefix of the unsigned encoders: a zero byte and the four value bytes
  in network order, compressed.\<close>

definition uint32_compressed :: "32 word \<Rightarrow> (byte list \<times> nat) option" where
  "uint32_compressed value = do {
     let valueBuffer = 0 # le_bytes 4 value;
     valueBuffer \<leftarrow> BerEncoder_revertByteOrder valueBuffer 1 4;
     BerEncoder_compressInteger valueBuffer 5 }"

definition BerEncoder_encodeUInt32 :: "32 word \<Rightarrow> writer" where
  "BerEncoder_encodeUInt32 value s = do {
     (valueBuffer, size) \<leftarrow> uint32_compressed value;
     put_from valueBuffer 0 size s }"

definition BerEncoder_encodeInt32 :: "32 word \<Rightarrow> writer" where
  "BerEncoder_encodeInt32 value s = do {
     let valueBuffer = map (\<lambda>i. le_bytes 4 value ! (3 - i)) [0..<4];
     (valueBuffer, size) \<leftarrow> BerEncoder_compressInteger valueBuffer 4;
     put_from valueBuffer 0 size s }"

definition BerEncoder_encodeUInt32WithTL :: "byte \<Rightarrow> 32 word \<Rightarrow> writer" where
  "BerEncoder_encodeUInt32WithTL tag value s = do {
     (valueBuffer, size) \<leftarrow> uint32_compressed value;
     s \<leftarrow> put tag s;
     s \<leftarrow> put (of_nat size) s;
     put_from valueBuffer 0 size s }"

text \<open>The float's memory bytes are stored after the exponent width and reversed in the
  output buffer.\<close>

definition BerEncoder_encodeFloat :: "byte list \<Rightarrow> byte \<Rightarrow> byte \<Rightarrow> writer" where
  "BerEncoder_encodeFloat floatValue formatWidth exponentWidth s = do {
     let byteSize = unat formatWidth div 8;
     s \<leftarrow> put exponentWidth s;
     (buffer, bufPos) \<leftarrow> put_from floatValue 0 byteSize s;
     buffer \<leftarrow> BerEncoder_revertByteOrder buffer (bufPos - byteSize) byteSize;
     Some (buffer, bufPos) }"

definition BerEncoder_UInt32determineEncodedSize :: "32 word \<Rightarrow> nat option" where
  "BerEncoder_UInt32determineEncodedSize value = do {
     (valueBuffer, size) \<leftarrow> uint32_compressed value;
     Some size }"

text \<open>As in the source, the size of a signed value is computed with a leading zero byte.\<close>

definition BerEncoder_Int32determineEncodedSize :: "32 word \<Rightarrow> nat option" where
  "BerEncoder_Int32determineEncodedSize value = do {
     let valueBuffer = 0 # le_bytes 4 value;
     valueBuffer \<leftarrow> BerEncoder_revertByteOrder valueBuffer 1 4;
     (valueBuffer, size) \<leftarrow> BerEncoder_compressInteger valueBuffer 5;
     Some size }"

declare revertByteOrder_loop.simps [simp del]
declare compressInteger_scan.simps [simp del]

subsection \<open>What the writers write\<close>

definition ber_length :: "nat \<Rightarrow> byte list" where
  "ber_length len =
     (if len < 128 then [of_nat len]
      else if len < 256 then [0x81, of_nat len]
      else if len < 65535 then [0x82, of_nat (len div 256), of_nat (len mod 256)]
      else [0x83, of_nat (len div 65536), of_nat (len mod 65536 div 256), of_nat (len mod 256)])"

definition ber_tlv :: "byte \<Rightarrow> byte list \<Rightarrow> byte list" where
  "ber_tlv tag val = tag # ber_length (length val) @ val"

lemma and_0xffff: "(n::nat) AND 0xffff = n mod 65536"
proof -
  have "n AND 0xffff = n AND mask 16" by (simp add: mask_eq_exp_minus_1)
  also have "\<dots> = take_bit 16 n" by (rule take_bit_eq_mask [symmetric])
  finally show ?thesis by (simp add: take_bit_eq_mod)
qed

lemma writes_encodeLength [writer_intros]: "writes (BerEncoder_encodeLength len) (ber_length len)"
proof -
  consider "len < 128" | "128 \<le> len" "len < 256" | "256 \<le> len" "len < 65535" | "65535 \<le> len"
    by linarith
  then show ?thesis
    unfolding BerEncoder_encodeLength_def [abs_def]
    by cases
       (simp_all add: ber_length_def and_0xffff del: of_nat_mod,
        (rule writes_cong, (rule writer_intros)+, simp)+)
qed

lemma length_ber_length:
  "length (ber_length len) = (if len = 65535 then 4 else BerEncoder_determineLengthSize len)"
  by (simp add: ber_length_def BerEncoder_determineLengthSize_def)

lemma ber_length_nonempty [simp]: "ber_length len \<noteq> []"
  by (simp add: ber_length_def)

lemma writes_encodeTL [writer_intros]:
  "writes (BerEncoder_encodeTL tag len) (tag # ber_length len)"
  unfolding BerEncoder_encodeTL_def [abs_def]
  by (rule writes_cong, (rule writer_intros)+, simp)

lemma writes_encodeBoolean [writer_intros]:
  "writes (BerEncoder_encodeBoolean tag value) [tag, 1, if value then 1 else 0]"
  unfolding BerEncoder_encodeBoolean_def [abs_def]
  by (cases "value") (simp_all, (rule writes_cong, (rule writer_intros)+, simp)+)

lemma writes_encodeStringWithTag [writer_intros]:
  "writes (BerEncoder_encodeStringWithTag tag str)
     (case str of None \<Rightarrow> [tag, 0] | Some cs \<Rightarrow> ber_tlv tag cs)"
  unfolding BerEncoder_encodeStringWithTag_def [abs_def]
  by (cases str) (simp_all add: ber_tlv_def, (rule writes_cong, (rule writer_intros)+, simp)+)

lemma writes_encodeOctetString:
  assumes "n \<le> length octets"
  shows "writes (BerEncoder_encodeOctetString tag octets n) (ber_tlv tag (take n octets))"
proof -
  have pf: "writes (put_from octets 0 n) (take n octets)"
    using writes_put_from [of 0 n octets] assms by simp
  show ?thesis
    unfolding BerEncoder_encodeOctetString_def [abs_def]
    by (rule writes_cong, (rule writer_intros pf)+) (use assms in \<open>simp add: ber_tlv_def min_absorb2\<close>)
qed

subsection \<open>Writers that revise what they wrote\<close>

lemma patch_last:
  assumes "pos + length bs \<le> length buf" and "bs \<noteq> []"
  shows "(patch buf pos bs)[pos + length bs - 1 := v] = patch buf pos (butlast bs @ [v])"
    and "patch buf pos bs ! (pos + length bs - 1) = last bs"
  using assms
  by (cases bs rule: rev_cases; simp add: patch_def list_update_append nth_append)+

lemma writes_modify_last:
  assumes w: "writes w bs" and ne: "bs \<noteq> []"
  shows "writes (\<lambda>s. do { (buf, pos) \<leftarrow> w s; b \<leftarrow> rd buf (pos - 1); buf \<leftarrow> wr buf (pos - 1) (f b);
            Some (buf, pos) }) (butlast bs @ [f (last bs)])"
proof (rule writesI)
  have len: "length (butlast bs @ [f (last bs)]) = length bs" using ne by simp
  fix buf :: "byte list" and pos :: nat
  {
    assume "pos + length (butlast bs @ [f (last bs)]) \<le> length buf"
    then have fit: "pos + length bs \<le> length buf" by (simp only: len)
    moreover from ne have "0 < length bs" by simp
    ultimately have "pos + length bs - 1 < length buf" by linarith
    with fit show "do { (buf, pos) \<leftarrow> w (buf, pos); b \<leftarrow> rd buf (pos - 1);
          buf \<leftarrow> wr buf (pos - 1) (f b); Some (buf, pos) } =
          Some (patch buf pos (butlast bs @ [f (last bs)]), pos + length (butlast bs @ [f (last bs)]))"
      unfolding len by (simp add: writesD [OF w] patch_last [OF fit ne] del: One_nat_def)
  next
    assume "pos \<le> length buf" "length buf < pos + length (butlast bs @ [f (last bs)])"
    then show "do { (buf, pos) \<leftarrow> w (buf, pos); b \<leftarrow> rd buf (pos - 1);
          buf \<leftarrow> wr buf (pos - 1) (f b); Some (buf, pos) } = None"
      unfolding len by (simp add: writesD_None [OF w])
  }
qed

subsection \<open>Bit strings: padding bits are cleared\<close>

definition ber_bitstring :: "byte \<Rightarrow> nat \<Rightarrow> byte list \<Rightarrow> byte list" where
  "ber_bitstring tag n bits =
     (let byteSize = bitstring_bytes n; padding = byteSize * 8 - n;
          content = of_nat padding # take byteSize bits
      in tag # ber_length (byteSize + 1) @ butlast content @ [last content AND NOT (mask padding)])"

lemma padding_mask_eq: "padding_mask i n m = m + push_bit i (mask n)"
proof (induction n arbitrary: i m)
  case (Suc n)
  have "push_bit i 1 + push_bit (Suc i) (mask n) = (push_bit i (mask (Suc n)) :: byte)"
    by (simp add: push_bit_eq_mult mask_eq_exp_minus_1 algebra_simps)
  with Suc show ?case by (simp add: add.assoc)
qed simp

lemma writes_encodeBitString:
  assumes "bitstring_bytes n \<le> length bits"
  shows "writes (BerEncoder_encodeBitString tag n bits) (ber_bitstring tag n bits)"
proof -
  let ?bs = "bitstring_bytes n"
  let ?pad = "?bs * 8 - n"
  let ?c = "[tag] @ ber_length (?bs + 1) @ [of_nat ?pad] @ take ?bs bits"
  have pf: "writes (put_from bits 0 ?bs) (take ?bs bits)"
    using writes_put_from [of 0 ?bs bits] assms by simp
  have "writes (\<lambda>s. do { s \<leftarrow> put tag s; s \<leftarrow> BerEncoder_encodeLength (?bs + 1) s;
           s \<leftarrow> put (of_nat ?pad) s; put_from bits 0 ?bs s }) ?c"
    by (rule writer_intros pf)+
  from writes_modify_last [OF this, of "\<lambda>b. b AND NOT (mask ?pad)"]
  have "writes (BerEncoder_encodeBitString tag n bits) (butlast ?c @ [last ?c AND NOT (mask ?pad)])"
    unfolding BerEncoder_encodeBitString_def [abs_def]
    by (simp add: Let_def padding_mask_eq)
  then show ?thesis
    by (rule writes_cong) (simp add: ber_bitstring_def Let_def butlast_append)
qed

subsection \<open>Byte order reversal and integer compression refine list functions\<close>

lemma revertByteOrder_loop_nth:
  "base + sz \<le> length octets \<Longrightarrow> i \<le> sz div 2 \<Longrightarrow>
   \<exists>r. revertByteOrder_loop octets base sz i = Some r \<and> length r = length octets \<and>
     (\<forall>j. r ! j = (if base + i \<le> j \<and> j + i < base + sz then octets ! (base + (sz + base) - 1 - j)
                   else octets ! j))"
proof (induction octets base sz i rule: revertByteOrder_loop.induct)
  case (1 octets base sz i)
  show ?case
  proof (cases "i < sz div 2")
    case False
    then have "revertByteOrder_loop octets base sz i = Some octets"
      by (simp add: revertByteOrder_loop.simps [of octets base sz i])
    moreover have "octets ! (base + (sz + base) - 1 - j) = octets ! j"
      if "base + i \<le> j" "j + i < base + sz" for j
    proof -
      from False have "sz \<le> 2 * i + 1" by linarith
      with that have "base + (sz + base) - 1 - j = j" by linarith
      then show ?thesis by (rule arg_cong)
    qed
    ultimately show ?thesis by simp
  next
    case True
    let ?o1 = "octets[base + i := octets ! (base + (sz - 1 - i))]"
    let ?o2 = "?o1[base + (sz - 1 - i) := octets ! (base + i)]"
    from True "1.prems" have b: "base + i < length octets" "base + (sz - 1 - i) < length octets"
      by linarith+
    with True have eq: "revertByteOrder_loop octets base sz i = revertByteOrder_loop ?o2 base sz (Suc i)"
      by (simp add: revertByteOrder_loop.simps [of octets base sz i])
    from True "1.prems" b "1.IH" [of "octets ! (base + i)" "octets ! (base + (sz - 1 - i))" ?o1 ?o2]
    obtain r where r: "revertByteOrder_loop ?o2 base sz (Suc i) = Some r" "length r = length octets"
      and nth: "\<And>j. r ! j = (if base + Suc i \<le> j \<and> j + Suc i < base + sz then ?o2 ! (base + (sz + base) - 1 - j)
                   else ?o2 ! j)"
      by auto
    have rj: "r ! j = (if base + i \<le> j \<and> j + i < base + sz then octets ! (base + (sz + base) - 1 - j)
                   else octets ! j)" for j
    proof -
      consider "j < base + i" | "j = base + i" | "base + i < j" "j + Suc i < base + sz"
        | "j + Suc i = base + sz" | "base + sz < j + Suc i"
        using True by linarith
      then show ?thesis
        using True b by cases (auto simp: nth nth_list_update add.commute [of base sz])
    qed
    show ?thesis
      by (rule exI [of _ r]) (simp add: eq r rj del: One_nat_def diff_diff_left)
  qed
qed

lemma revertByteOrder_eq:
  assumes "base + sz \<le> length octets"
  shows "BerEncoder_revertByteOrder octets base sz =
           Some (patch octets base (rev (take sz (drop base octets))))"
proof -
  obtain r where r: "revertByteOrder_loop octets base sz 0 = Some r" "length r = length octets"
    and nth: "\<And>j. r ! j = (if base \<le> j \<and> j < base + sz then octets ! (base + (sz + base) - 1 - j)
                   else octets ! j)"
    using revertByteOrder_loop_nth [OF assms, of 0] by auto
  have "r = patch octets base (rev (take sz (drop base octets)))"
    using assms r(2) by (intro nth_equalityI) (auto simp: patch_def nth_append nth rev_nth)
  with r show ?thesis by (simp add: BerEncoder_revertByteOrder_def)
qed

text \<open>Dropping the redundant leading bytes of a two's complement number.\<close>

fun minimal_be :: "byte list \<Rightarrow> byte list" where
  "minimal_be (x # y # xs) =
     (if x = 0 \<and> y AND 0x80 = 0 \<or> x = 0xff \<and> y AND 0x80 = 0x80
      then minimal_be (y # xs) else x # y # xs)"
| "minimal_be xs = xs"

lemma minimal_be_nonempty [simp]: "minimal_be xs = [] \<longleftrightarrow> xs = []"
  by (induction xs rule: minimal_be.induct) auto

lemma length_minimal_be: "length (minimal_be xs) \<le> length xs"
  by (induction xs rule: minimal_be.induct) auto

lemma compressInteger_scan_minimal:
  "e < length bs \<Longrightarrow> p \<le> e \<Longrightarrow>
   \<exists>k. compressInteger_scan bs e p = Some k \<and> p \<le> k \<and> k \<le> e \<and>
       drop k (take (Suc e) bs) = minimal_be (drop p (take (Suc e) bs))"
proof (induction bs e p rule: compressInteger_scan.induct)
  case (1 bs e p)
  let ?t = "take (Suc e) bs"
  show ?case
  proof (cases "p < e")
    case False
    with "1.prems" have "p = e" by simp
    with "1.prems" have "drop p ?t = [bs ! e]"
      by (simp add: drop_take Cons_nth_drop_Suc [symmetric])
    with \<open>p = e\<close> show ?thesis by (simp add: compressInteger_scan.simps [of bs e])
  next
    case True
    with "1.prems" have d: "drop p ?t = bs ! p # bs ! Suc p # drop (Suc (Suc p)) ?t"
      and d': "drop (Suc p) ?t = bs ! Suc p # drop (Suc (Suc p)) ?t"
      by (simp_all add: Cons_nth_drop_Suc [symmetric])
    let ?skip = "bs ! p = 0 \<and> bs ! Suc p AND 0x80 = 0 \<or> bs ! p = 0xff \<and> bs ! Suc p AND 0x80 = 0x80"
    have step: "compressInteger_scan bs e p =
        (if ?skip then compressInteger_scan bs e (Suc p) else Some p)"
      using True "1.prems" by (simp add: compressInteger_scan.simps [of bs e p])
    show ?thesis
    proof (cases ?skip)
      case True
      with \<open>p < e\<close> "1.prems" have "\<exists>k. compressInteger_scan bs e (Suc p) = Some k \<and> Suc p \<le> k \<and> k \<le> e \<and>
          drop k ?t = minimal_be (drop (Suc p) ?t)"
        by (intro "1.IH") auto
      with True step d d' show ?thesis by auto
    next
      case False
      with step d \<open>p < e\<close> show ?thesis by auto
    qed
  qed
qed

lemma compressInteger_move_eq:
  "newPos \<le> from \<Longrightarrow> from + n \<le> length bs \<Longrightarrow>
   compressInteger_move bs newPos from n = Some (patch bs newPos (take n (drop from bs)))"
proof (induction n arbitrary: bs newPos "from")
  case (Suc n)
  let ?b = "bs[newPos := bs ! from]"
  have t: "take (Suc n) (drop from bs) = [bs ! from] @ take n (drop (Suc from) bs)"
    using Suc.prems by (simp add: Cons_nth_drop_Suc [symmetric])
  have "compressInteger_move bs newPos from (Suc n) = compressInteger_move ?b (Suc newPos) (Suc from) n"
    using Suc.prems by simp
  also have "\<dots> = Some (patch ?b (Suc newPos) (take n (drop (Suc from) ?b)))"
    using Suc.prems by (intro Suc.IH) simp_all
  also have "drop (Suc from) ?b = drop (Suc from) bs"
    using Suc.prems by simp
  also have "patch ?b (Suc newPos) (take n (drop (Suc from) bs)) = patch bs newPos (take (Suc n) (drop from bs))"
    using Suc.prems patch_patch [of newPos "[bs ! from]" "take n (drop (Suc from) bs)" bs]
    by (simp add: t patch_single)
  finally show ?case .
qed simp

lemma compressInteger_minimal:
  assumes "0 < n" and "n \<le> length bs"
  obtains r where "BerEncoder_compressInteger bs n = Some (r, length (minimal_be (take n bs)))"
    and "length r = length bs"
    and "take (length (minimal_be (take n bs))) r = minimal_be (take n bs)"
proof -
  from assms have "n - 1 < length bs" and n: "Suc (n - 1) = n" by linarith+
  then obtain k where k: "compressInteger_scan bs (n - 1) 0 = Some k" "k \<le> n - 1"
    and d: "drop k (take n bs) = minimal_be (take n bs)"
    using compressInteger_scan_minimal [of "n - 1" bs 0] unfolding n by auto
  have len: "length (minimal_be (take n bs)) = n - k"
    using assms by (simp add: d [symmetric])
  show thesis
  proof (cases "k = 0")
    case True
    with k d assms len show thesis
      by (intro that [of bs]) (simp_all add: BerEncoder_compressInteger_def)
  next
    case False
    with k assms have "BerEncoder_compressInteger bs n = Some (patch bs 0 (take (n - k) (drop k bs)), n - k)"
      by (simp add: BerEncoder_compressInteger_def compressInteger_move_eq Let_def)
    moreover have "take (n - k) (drop k bs) = minimal_be (take n bs)"
      by (simp add: d [symmetric] drop_take)
    ultimately have "BerEncoder_compressInteger bs n =
        Some (patch bs 0 (minimal_be (take n bs)), length (minimal_be (take n bs)))"
      by (simp only: len)
    moreover have "length (patch bs 0 (minimal_be (take n bs))) = length bs"
      using assms len by (intro length_patch) simp
    ultimately show thesis
      using that take_patch_0 by blast
  qed
qed

subsection \<open>Values of big endian byte strings\<close>

fun uval :: "byte list \<Rightarrow> int" where
  "uval [] = 0"
| "uval (b # bs) = uint b * 256 ^ length bs + uval bs"

fun sval :: "byte list \<Rightarrow> int" where
  "sval [] = 0"
| "sval (b # bs) = sint b * 256 ^ length bs + uval bs"

lemma uval_append: "uval (xs @ ys) = uval xs * 256 ^ length ys + uval ys"
  by (induction xs) (simp_all add: power_add algebra_simps)

lemma uint_byte: "0 \<le> uint (b :: byte) \<and> uint b \<le> 255"
  using uint_bounded [of b] by auto

lemma uval_bounds: "0 \<le> uval bs \<and> uval bs < 256 ^ length bs"
proof (induction bs)
  case (Cons b bs)
  define K :: int where "K = 256 ^ length bs"
  have "0 \<le> uint b * K" "uint b * K \<le> 255 * K"
    using uint_byte [of b] by (simp_all add: K_def)
  moreover from Cons have "0 \<le> uval bs" "uval bs < K" by (simp_all add: K_def)
  ultimately show ?case
    unfolding uval.simps length_Cons power_Suc K_def [symmetric] by (intro conjI; linarith)
qed simp

lemma byte_msb_set: "(b :: byte) AND 0x80 = 0x80 \<longleftrightarrow> bit b 7"
  and byte_msb_clear: "b AND 0x80 = 0 \<longleftrightarrow> \<not> bit b 7"
proof -
  have "b AND 2 ^ 7 = (if bit b 7 then 2 ^ 7 else 0)"
    by (rule bit_eqI) (auto simp: bit_and_iff bit_exp_iff simp del: power_numeral)
  then have "b AND 0x80 = (if bit b 7 then 0x80 else 0)" by simp
  moreover have "(0x80 :: byte) \<noteq> 0" by simp
  ultimately show "b AND 0x80 = 0x80 \<longleftrightarrow> bit b 7" "b AND 0x80 = 0 \<longleftrightarrow> \<not> bit b 7"
    by simp_all
qed

lemma sint_byte: "sint (b :: byte) = uint b - (if bit b 7 then 256 else 0)"
proof -
  have "uint b mod 256 = uint b" using uint_byte [of b] by simp
  then show ?thesis
    by (simp add: sint_uint signed_take_bit_eq_take_bit_minus take_bit_eq_mod bit_uint_iff)
qed

text \<open>Compression keeps the value.\<close>

lemma sval_minimal_be: "sval (minimal_be bs) = sval bs"
proof (induction bs rule: minimal_be.induct)
  case (1 x y xs)
  let ?skip = "x = 0 \<and> \<not> bit y 7 \<or> x = 0xff \<and> bit y 7"
  show ?case
  proof (cases ?skip)
    case True
    then have x: "sint x = (if bit y 7 then -1 else 0)" by auto
    from True "1.IH" have "sval (minimal_be (x # y # xs)) = sval (y # xs)"
      by (simp add: byte_msb_set byte_msb_clear)
    also have "\<dots> = sval (x # y # xs)"
      by (simp only: sval.simps uval.simps x sint_byte [of y] length_Cons power_Suc)
         (simp add: algebra_simps)
    finally show ?thesis .
  qed (auto simp: byte_msb_set byte_msb_clear)
qed auto

lemma uval_Cons_0 [simp]: "uval (0 # bs) = uval bs"
  by simp

lemma sval_Cons_0 [simp]: "sval (0 # bs) = uval bs"
  by simp

text \<open>The memory bytes of a word, reversed, are its big endian form.\<close>

lemma length_le_bytes [simp]: "length (le_bytes n w) = n"
  by (simp add: le_bytes_def)

lemma le_bytes_Suc: "le_bytes (Suc n) w = le_bytes n w @ [ucast (drop_bit (8 * n) w)]"
  by (simp add: le_bytes_def)

lemma uval_le_bytes: "uval (rev (le_bytes n w)) = take_bit (8 * n) (uint w)"
proof (induction n)
  case 0
  then show ?case by (simp add: le_bytes_def)
next
  case (Suc n)
  have "uint (ucast (drop_bit (8 * n) w) :: byte) = take_bit 8 (drop_bit (8 * n) (uint w))"
    using uint_bounded [of w] by (simp add: unsigned_ucast_eq unsigned_drop_bit_eq take_bit_int_eq_self)
  then have "uint (ucast (drop_bit (8 * n) w) :: byte) = uint w div 2 ^ (8 * n) mod 256"
    by (simp add: take_bit_eq_mod drop_bit_eq_div)
  moreover have "take_bit (8 * Suc n) (uint w) = uint w mod (2 ^ (8 * n) * 256)"
    by (simp add: take_bit_eq_mod power_add mult.commute)
  moreover have "(256 :: int) ^ n = 2 ^ (8 * n)"
    by (simp add: power_mult)
  ultimately show ?case
    using Suc zmod_zmult2_eq [of 256 "uint w" "2 ^ (8 * n)"]
    by (simp add: le_bytes_Suc take_bit_eq_mod mult.commute)
qed

lemma le_bytes_value:
  fixes w :: "'a::len word"
  assumes "LENGTH('a) = 8 * Suc m"
  shows "uval (rev (le_bytes (Suc m) w)) = uint w"
    and "sval (rev (le_bytes (Suc m) w)) = sint w"
proof -
  let ?b = "ucast (drop_bit (8 * m) w) :: byte"
  have r: "rev (le_bytes (Suc m) w) = ?b # rev (le_bytes m w)"
    by (simp add: le_bytes_Suc)
  have id: "take_bit (8 * Suc m) (uint w) = uint w"
    using uint_bounded [of w] unfolding assms [symmetric] by (simp add: take_bit_int_eq_self)
  then show u: "uval (rev (le_bytes (Suc m) w)) = uint w"
    by (simp only: uval_le_bytes)
  have "bit ?b 7 = bit w (7 + 8 * m)"
    using assms by (simp add: bit_simps add.commute)
  then have "sval (rev (le_bytes (Suc m) w)) =
      uval (rev (le_bytes (Suc m) w)) - (if bit w (7 + 8 * m) then 256 ^ Suc m else 0)"
    unfolding r by (simp add: sint_byte algebra_simps)
  also have "(256 :: int) ^ Suc m = 2 ^ (8 * Suc m)"
    by (simp add: power_add power_mult)
  also have "uval (rev (le_bytes (Suc m) w)) - (if bit w (7 + 8 * m) then 2 ^ (8 * Suc m) else 0) = sint w"
    using u id assms
    by (simp add: sint_uint signed_take_bit_eq_take_bit_minus bit_uint_iff)
  finally show "sval (rev (le_bytes (Suc m) w)) = sint w" .
qed

lemma sval_le_bytes32: "sval (rev (le_bytes 4 (w :: 32 word))) = sint w"
  and uval_le_bytes32: "uval (rev (le_bytes 4 w)) = uint w"
  using le_bytes_value [of 3 w] by (simp_all add: eval_nat_numeral)

text \<open>No shorter string has the same value.\<close>

lemma sval_bounds:
  "bs \<noteq> [] \<Longrightarrow> - (128 * 256 ^ (length bs - 1)) \<le> sval bs \<and> sval bs < 128 * 256 ^ (length bs - 1)"
proof (cases bs)
  case (Cons b xs)
  define K :: int where "K = 256 ^ length xs"
  have u: "0 \<le> uval xs" "uval xs < K" and "0 \<le> K"
    using uval_bounds [of xs] by (simp_all add: K_def)
  have "sint b \<le> 127" "-128 \<le> sint b"
    using sint_greater_eq [of b] sint_less [of b] by simp_all
  with \<open>0 \<le> K\<close> have "sint b * K \<le> 127 * K" "(-128) * K \<le> sint b * K"
    by (simp_all only: mult_right_mono)
  with u have "- (128 * K) \<le> sint b * K + uval xs" "sint b * K + uval xs < 128 * K"
    by linarith+
  then show ?thesis by (simp add: Cons K_def)
qed simp

lemma minimal_be_head:
  "minimal_be bs = x # y # zs \<Longrightarrow> \<not> (x = 0 \<and> \<not> bit y 7) \<and> \<not> (x = 0xff \<and> bit y 7)"
  by (induction bs rule: minimal_be.induct) (auto simp: byte_msb_set byte_msb_clear split: if_splits)

lemma minimal_be_value:
  assumes "minimal_be bs = x # y # zs"
  shows "sval (x # y # zs) < - (128 * 256 ^ length zs) \<or> 128 * 256 ^ length zs \<le> sval (x # y # zs)"
proof -
  define K :: int where "K = 256 ^ length zs"
  have u: "0 \<le> uval zs" "uval zs < K" "0 < K"
    using uval_bounds [of zs] by (simp_all add: K_def)
  have v: "sval (x # y # zs) = sint x * (256 * K) + uint y * K + uval zs"
    by (simp add: K_def)
  have y: "(if bit y 7 then 128 else 0) \<le> uint y" "uint y \<le> (if bit y 7 then 255 else 127)"
    using sint_byte [of y] sint_greater_eq [of y] sint_less [of y] uint_byte [of y] by auto
  have yK: "(if bit y 7 then 128 else 0) * K \<le> uint y * K" "uint y * K \<le> (if bit y 7 then 255 else 127) * K"
    "0 \<le> uint y * K" "uint y * K \<le> 255 * K"
    using y u uint_byte [of y] by (auto intro!: mult_right_mono)
  have x0: "x = 0" if "sint x = 0" using that by (intro signed_word_eqI) simp
  have x1: "x = 0xff" if "sint x = -1" using that by (intro signed_word_eqI) simp
  consider "1 \<le> sint x" | "sint x = 0" | "sint x = -1" | "sint x \<le> -2" by linarith
  then show ?thesis
  proof cases
    case 1
    with u have "1 * (256 * K) \<le> sint x * (256 * K)" by (intro mult_right_mono) simp_all
    with yK u v have "128 * K \<le> sval (x # y # zs)" by linarith
    then show ?thesis unfolding K_def by blast
  next
    case 2
    with minimal_be_head [OF assms] x0 have "bit y 7" by simp
    with yK(1) have "128 * K \<le> uint y * K" by (simp only: if_True)
    moreover have "sval (x # y # zs) = uint y * K + uval zs" unfolding v 2 by simp
    ultimately have "128 * K \<le> sval (x # y # zs)" using u by linarith
    then show ?thesis unfolding K_def by blast
  next
    case 3
    with minimal_be_head [OF assms] x1 have "\<not> bit y 7" by simp
    with yK have "uint y * K \<le> 127 * K" by simp
    moreover have "sval (x # y # zs) = - (256 * K) + uint y * K + uval zs" unfolding v 3 by simp
    ultimately have "sval (x # y # zs) < - (128 * K)" using u by linarith
    then show ?thesis unfolding K_def by blast
  next
    case 4
    with u have "sint x * (256 * K) \<le> -2 * (256 * K)" by (intro mult_right_mono) simp_all
    with yK u v have "sval (x # y # zs) < - (128 * K)" by linarith
    then show ?thesis unfolding K_def by blast
  qed
qed

lemma minimal_be_shortest:
  assumes "sval ys = sval bs" and "ys \<noteq> []"
  shows "length (minimal_be bs) \<le> length ys"
proof (rule ccontr)
  assume "\<not> ?thesis"
  with assms(2) obtain x y zs where m: "minimal_be bs = x # y # zs" and le: "length ys \<le> Suc (length zs)"
    by (cases "minimal_be bs" rule: minimal_be.cases) (auto simp: Suc_le_eq)
  from le have "length ys - 1 \<le> length zs" by simp
  then have "(256 :: int) ^ (length ys - 1) \<le> 256 ^ length zs" by (rule power_increasing) simp
  moreover have "- (128 * 256 ^ (length ys - 1)) \<le> sval bs" "sval bs < 128 * 256 ^ (length ys - 1)"
    using sval_bounds [OF assms(2)] assms(1) by simp_all
  moreover have "sval bs < - (128 * 256 ^ length zs) \<or> 128 * 256 ^ length zs \<le> sval bs"
    using minimal_be_value [OF m] sval_minimal_be [of bs] unfolding m by simp
  ultimately show False by linarith
qed

subsection \<open>Integer encoders\<close>

lemma uint32_compressed_eq:
  obtains r where "uint32_compressed v = Some (r, length (minimal_be (0 # rev (le_bytes 4 v))))"
    and "length r = 5"
    and "take (length (minimal_be (0 # rev (le_bytes 4 v)))) r = minimal_be (0 # rev (le_bytes 4 v))"
proof -
  have "BerEncoder_revertByteOrder (0 # le_bytes 4 v) 1 4 = Some (0 # rev (le_bytes 4 v))"
    by (simp add: revertByteOrder_eq patch_def)
  moreover obtain r where
    "BerEncoder_compressInteger (0 # rev (le_bytes 4 v)) 5 =
       Some (r, length (minimal_be (0 # rev (le_bytes 4 v))))"
    "length r = 5"
    "take (length (minimal_be (0 # rev (le_bytes 4 v)))) r = minimal_be (0 # rev (le_bytes 4 v))"
    using compressInteger_minimal [of 5 "0 # rev (le_bytes 4 v)"] by auto
  ultimately show thesis
    using that by (simp add: uint32_compressed_def Let_def)
qed

definition ber_uint32 :: "32 word \<Rightarrow> byte list" where
  "ber_uint32 v = minimal_be (0 # rev (le_bytes 4 v))"

definition ber_int32 :: "32 word \<Rightarrow> byte list" where
  "ber_int32 v = minimal_be (rev (le_bytes 4 v))"

lemma length_ber_uint32: "0 < length (ber_uint32 v) \<and> length (ber_uint32 v) \<le> 5"
  using length_minimal_be [of "0 # rev (le_bytes 4 v)"] by (simp add: ber_uint32_def)

lemma length_ber_int32: "0 < length (ber_int32 v) \<and> length (ber_int32 v) \<le> 4"
  using length_minimal_be [of "rev (le_bytes 4 v)"]
  by (simp add: ber_int32_def le_bytes_def)

lemma writes_take:
  assumes "take n r = bs" and "n = length bs"
  shows "writes (put_from r 0 n) bs"
proof -
  from assms have "length (take n r) = n" by simp
  then have "0 + n \<le> length r" by (simp add: min_def split: if_splits)
  from writes_put_from [OF this] assms show ?thesis by simp
qed

lemma writes_encodeUInt32 [writer_intros]: "writes (BerEncoder_encodeUInt32 v) (ber_uint32 v)"
proof -
  obtain r where "uint32_compressed v = Some (r, length (ber_uint32 v))"
    and "take (length (ber_uint32 v)) r = ber_uint32 v"
    using uint32_compressed_eq [of v] unfolding ber_uint32_def .
  then show ?thesis
    unfolding BerEncoder_encodeUInt32_def [abs_def] by (simp add: writes_take)
qed

lemma writes_encodeInt32 [writer_intros]: "writes (BerEncoder_encodeInt32 v) (ber_int32 v)"
proof -
  have be: "map (\<lambda>i. le_bytes 4 v ! (3 - i)) [0..<4] = rev (le_bytes 4 v)"
    by (simp add: le_bytes_def upt_rec)
  obtain r where "BerEncoder_compressInteger (rev (le_bytes 4 v)) 4 = Some (r, length (ber_int32 v))"
    and "take (length (ber_int32 v)) r = ber_int32 v"
    using compressInteger_minimal [of 4 "rev (le_bytes 4 v)"] by (auto simp: ber_int32_def)
  then show ?thesis
    unfolding BerEncoder_encodeInt32_def [abs_def] be by (simp add: Let_def writes_take)
qed

lemma writes_encodeUInt32WithTL [writer_intros]:
  "writes (BerEncoder_encodeUInt32WithTL tag v) (ber_tlv tag (ber_uint32 v))"
proof -
  obtain r where r: "uint32_compressed v = Some (r, length (ber_uint32 v))"
    and t: "take (length (ber_uint32 v)) r = ber_uint32 v"
    using uint32_compressed_eq [of v] unfolding ber_uint32_def .
  have "writes (\<lambda>s. do { s \<leftarrow> put tag s; s \<leftarrow> put (of_nat (length (ber_uint32 v))) s;
          put_from r 0 (length (ber_uint32 v)) s })
          ([tag] @ [of_nat (length (ber_uint32 v))] @ ber_uint32 v)"
    by (rule writer_intros writes_take [OF t refl])+
  then show ?thesis
    using length_ber_uint32 [of v] unfolding BerEncoder_encodeUInt32WithTL_def [abs_def]
    by (simp add: r ber_tlv_def ber_length_def)
qed

lemma UInt32determineEncodedSize_eq:
  "BerEncoder_UInt32determineEncodedSize v = Some (length (ber_uint32 v))"
proof -
  obtain r where "uint32_compressed v = Some (r, length (ber_uint32 v))"
    using uint32_compressed_eq [of v] unfolding ber_uint32_def .
  then show ?thesis by (simp add: BerEncoder_UInt32determineEncodedSize_def)
qed

lemma Int32determineEncodedSize_eq:
  "BerEncoder_Int32determineEncodedSize v = Some (length (ber_uint32 v))"
  using UInt32determineEncodedSize_eq [of v]
  by (simp add: BerEncoder_Int32determineEncodedSize_def BerEncoder_UInt32determineEncodedSize_def
      uint32_compressed_def Let_def)

lemma sval_ber_uint32: "sval (ber_uint32 v) = uint v"
  unfolding ber_uint32_def sval_minimal_be by (simp add: uval_le_bytes32)

lemma sval_ber_int32: "sval (ber_int32 v) = sint v"
  by (simp add: ber_int32_def sval_minimal_be sval_le_bytes32)

end
