(* ===== verification/Ber_Decoder.thy ===== *)
theory Ber_Decoder
  imports Ber_Encoder
begin

unbundle bit_operations_syntax

section \<open>The BER decoder\<close>

text \<open>
  Model of \<open>src/mms/asn1/ber_decode.c\<close>. The position and the out parameter \<open>*length\<close> of
  \<open>BerDecoder_decodeLength\<close> are returned together; the error return \<open>-1\<close> is \<open>Fail\<close>. The
  mutual recursion of \<open>BerDecoder_decodeLengthRecursive\<close> and \<open>getIndefiniteLength\<close> is a
  recursion on the nesting depth still allowed, \<open>maxDepth - depth\<close>; the loop of
  \<open>getIndefiniteLength\<close> is the partial function \<open>indefiniteLength_loop\<close>. The theorems show
  that decoding a length never reads outside the given range, always returns, and only
  accepts contents that lie inside the range, and that it inverts the encoder.
\<close>

subsection \<open>Length fields\<close>

partial_function (option) indefiniteLength_loop ::
  "(byte list \<Rightarrow> nat \<Rightarrow> nat \<Rightarrow> (nat \<times> nat) ret option) \<Rightarrow> byte list \<Rightarrow> nat \<Rightarrow> nat \<Rightarrow> nat \<Rightarrow> nat ret option"
where
  "indefiniteLength_loop decLen buffer maxBufPos bufPos len =
     (if bufPos < maxBufPos then do {
        b0 \<leftarrow> rd buffer bufPos;
        eoc \<leftarrow> (if b0 = 0 \<and> bufPos + 1 < maxBufPos
                then do { b1 \<leftarrow> rd buffer (bufPos + 1); Some (b1 = 0) } else Some False);
        if eoc then Some (Ret (len + 2))
        else
          let tagLen = (if b0 AND 0x1f = 0x1f then 2 else 1); bufPos = bufPos + tagLen in
          Option.bind (decLen buffer bufPos maxBufPos)
            (\<lambda>r. case r of
                Fail \<Rightarrow> Some Fail
              | Ret (newBufPos, subLength) \<Rightarrow>
                  indefiniteLength_loop decLen buffer maxBufPos (newBufPos + subLength)
                    (len + tagLen + (subLength + newBufPos - bufPos))) }
      else Some Fail)"

text \<open>The loop over the one to three length octets of the long form.\<close>

fun length_octets :: "byte list \<Rightarrow> nat \<Rightarrow> nat \<Rightarrow> nat \<Rightarrow> nat \<Rightarrow> (nat \<times> nat) ret option" where
  "length_octets buffer maxBufPos 0 bufPos len = Some (Ret (bufPos, len))"
| "length_octets buffer maxBufPos (Suc n) bufPos len =
     (if maxBufPos \<le> bufPos then Some Fail
      else if maxBufPos < bufPos + len then Some Fail
      else do {
        b \<leftarrow> rd buffer bufPos;
        length_octets buffer maxBufPos n (bufPos + 1) (len * 256 + unat b) })"

text \<open>\<open>k\<close> is \<open>maxDepth - depth\<close>: \<open>getIndefiniteLength\<close> fails at once when it is used up,
  and otherwise decodes the nested lengths one level deeper.\<close>

fun decodeLengthRecursive :: "nat \<Rightarrow> byte list \<Rightarrow> nat \<Rightarrow> nat \<Rightarrow> (nat \<times> nat) ret option" where
  "decodeLengthRecursive k buffer bufPos maxBufPos =
     (if maxBufPos \<le> bufPos then Some Fail
      else do {
        len1 \<leftarrow> rd buffer bufPos;
        r \<leftarrow> (if len1 AND 0x80 \<noteq> 0 then
                if unat (len1 AND 0x7f) = 0 then
                  map_option (\<lambda>l. case l of Fail \<Rightarrow> Fail | Ret n \<Rightarrow> Ret (bufPos + 1, n))
                    (case k of
                       0 \<Rightarrow> Some Fail
                     | Suc k' \<Rightarrow> indefiniteLength_loop (decodeLengthRecursive k') buffer maxBufPos (bufPos + 1) 0)
                else if unat (len1 AND 0x7f) < 4 then
                  length_octets buffer maxBufPos (unat (len1 AND 0x7f)) (bufPos + 1) 0
                else Some Fail
              else Some (Ret (bufPos + 1, unat len1)));
        (case r of
           Fail \<Rightarrow> Some Fail
         | Ret (bufPos, len) \<Rightarrow>
             if maxBufPos < bufPos + len then Some Fail else Some (Ret (bufPos, len))) })"

definition BerDecoder_decodeLength :: "byte list \<Rightarrow> nat \<Rightarrow> nat \<Rightarrow> (nat \<times> nat) ret option" where
  "BerDecoder_decodeLength buffer bufPos maxBufPos = decodeLengthRecursive 50 buffer bufPos maxBufPos"

subsection \<open>Primitive values\<close>

text \<open>The \<open>malloc\<close> of \<open>BerDecoder_decodeString\<close> succeeds or not (\<open>mem\<close>); the result is the
  new string with its terminating zero.\<close>

definition BerDecoder_decodeString :: "bool \<Rightarrow> byte list \<Rightarrow> nat \<Rightarrow> nat \<Rightarrow> nat \<Rightarrow> byte list ret option" where
  "BerDecoder_decodeString mem buffer strLen bufPos maxBufPos =
     (if maxBufPos < bufPos then Some Fail
      else if mem then do { bs \<leftarrow> rd_block buffer bufPos strLen; Some (Ret (bs @ [0])) }
      else Some Fail)"

function decodeUint32_loop :: "byte list \<Rightarrow> nat \<Rightarrow> nat \<Rightarrow> nat \<Rightarrow> 32 word \<Rightarrow> 32 word option" where
  "decodeUint32_loop buffer intLen bufPos i v =
     (if i < intLen then do {
        b \<leftarrow> rd buffer (bufPos + i);
        let v = push_bit 8 v + ucast b;
        if i = 3 then Some v else decodeUint32_loop buffer intLen bufPos (Suc i) v }
      else Some v)"
  by pat_completeness auto
termination
  by (relation "measure (\<lambda>(buffer, intLen, bufPos, i, v). intLen - i)") auto

definition BerDecoder_decodeUint32 :: "byte list \<Rightarrow> nat \<Rightarrow> nat \<Rightarrow> 32 word option" where
  "BerDecoder_decodeUint32 buffer intLen bufPos = decodeUint32_loop buffer intLen bufPos 0 0"

fun decodeInt32_loop :: "byte list \<Rightarrow> nat \<Rightarrow> nat \<Rightarrow> 32 word \<Rightarrow> 32 word option" where
  "decodeInt32_loop buffer 0 bufPos v = Some v"
| "decodeInt32_loop buffer (Suc n) bufPos v = do {
     b \<leftarrow> rd buffer bufPos;
     decodeInt32_loop buffer n (Suc bufPos) (push_bit 8 v + ucast b) }"

text \<open>The start value for a negative number is the source's \<open>-0xffffffff\<close>, an unsigned
  expression with the value 1. The result is read with \<open>sint\<close>.\<close>

definition BerDecoder_decodeInt32 :: "byte list \<Rightarrow> nat \<Rightarrow> nat \<Rightarrow> 32 word option" where
  "BerDecoder_decodeInt32 buffer intlen bufPos =
     (if intlen = 0 \<or> 4 < intlen then Some 0
      else do {
        b \<leftarrow> rd buffer bufPos;
        let isNegative = (b AND 0x80 = 0x80);
        decodeInt32_loop buffer intlen bufPos (if isNegative then - 0xffffffff else 0) })"

text \<open>Floats are given by their memory bytes.\<close>

definition BerDecoder_decodeFloat :: "byte list \<Rightarrow> nat \<Rightarrow> byte list option" where
  "BerDecoder_decodeFloat buffer bufPos = map_option rev (rd_block buffer (bufPos + 1) 4)"

definition BerDecoder_decodeDouble :: "byte list \<Rightarrow> nat \<Rightarrow> byte list option" where
  "BerDecoder_decodeDouble buffer bufPos = map_option rev (rd_block buffer (bufPos + 1) 8)"

definition BerDecoder_decodeBoolean :: "byte list \<Rightarrow> nat \<Rightarrow> nat \<Rightarrow> bool option" where
  "BerDecoder_decodeBoolean buffer len bufPos =
     (if len < 1 then Some False else do { b \<leftarrow> rd buffer bufPos; Some (b \<noteq> 0) })"

declare decodeUint32_loop.simps [simp del]
declare indefiniteLength_loop.simps [code]
declare decodeLengthRecursive.simps [simp del]

subsection \<open>Decoding a length is safe, terminates and stays in range\<close>

text \<open>The contract of a length decoder at a position: it returns, and what it accepts lies
  after the position and ends inside the range.\<close>

definition length_ok :: "nat \<Rightarrow> nat \<Rightarrow> (nat \<times> nat) ret option \<Rightarrow> bool" where
  "length_ok bufPos maxBufPos r \<longleftrightarrow>
     r = Some Fail \<or> (\<exists>p l. r = Some (Ret (p, l)) \<and> bufPos < p \<and> p + l \<le> maxBufPos)"

lemma length_okE:
  assumes "length_ok bufPos maxBufPos r"
  obtains "r = Some Fail" | p l where "r = Some (Ret (p, l))" "bufPos < p" "p + l \<le> maxBufPos"
  using assms by (auto simp: length_ok_def)

lemma indefiniteLength_loop_total:
  assumes m: "maxBufPos \<le> length buffer"
    and dec: "\<And>pos. length_ok pos maxBufPos (decLen buffer pos maxBufPos)"
  shows "\<exists>r. indefiniteLength_loop decLen buffer maxBufPos bufPos len = Some r \<and>
           (\<forall>n. r = Ret n \<longrightarrow> len + 2 \<le> n \<and> bufPos + n \<le> maxBufPos + len)"
proof (induction "maxBufPos - bufPos" arbitrary: bufPos len rule: less_induct)
  case less
  note step = indefiniteLength_loop.simps [of decLen buffer maxBufPos bufPos len]
  show ?case
  proof (cases "bufPos < maxBufPos")
    case False
    then show ?thesis by (simp add: step)
  next
    case True
    with m have rd0: "rd buffer bufPos = Some (buffer ! bufPos)" by simp
    let ?eoc = "buffer ! bufPos = 0 \<and> bufPos + 1 < maxBufPos \<and> buffer ! (bufPos + 1) = 0"
    let ?t = "if buffer ! bufPos AND 0x1f = 0x1f then 2 else 1 :: nat"
    show ?thesis
    proof (cases ?eoc)
      case True
      with \<open>bufPos < maxBufPos\<close> m show ?thesis by (simp add: step)
    next
      case False
      have eq: "indefiniteLength_loop decLen buffer maxBufPos bufPos len =
          Option.bind (decLen buffer (bufPos + ?t) maxBufPos)
            (\<lambda>r. case r of Fail \<Rightarrow> Some Fail
              | Ret (newBufPos, subLength) \<Rightarrow>
                  indefiniteLength_loop decLen buffer maxBufPos (newBufPos + subLength)
                    (len + ?t + (subLength + newBufPos - (bufPos + ?t))))"
        using \<open>bufPos < maxBufPos\<close> False m by (auto simp: step Let_def)
      from dec [of "bufPos + ?t"] show ?thesis
      proof (cases rule: length_okE)
        case 1
        then show ?thesis by (simp add: eq)
      next
        case (2 p l)
        let ?len = "len + ?t + (l + p - (bufPos + ?t))"
        have len: "?len + bufPos = len + l + p" and "bufPos < p" using 2(2) by (auto split: if_splits)
        with 2 \<open>bufPos < maxBufPos\<close> have "maxBufPos - (p + l) < maxBufPos - bufPos" by linarith
        then obtain r where r: "indefiniteLength_loop decLen buffer maxBufPos (p + l) ?len = Some r"
          and bnd: "\<And>n. r = Ret n \<Longrightarrow> ?len + 2 \<le> n \<and> p + l + n \<le> maxBufPos + ?len"
          using less [of "p + l" ?len] by blast
        have "len + 2 \<le> n \<and> bufPos + n \<le> maxBufPos + len" if "r = Ret n" for n
          using bnd [OF that] len \<open>bufPos < p\<close> by linarith
        with r 2 show ?thesis by (simp add: eq)
      qed
    qed
  qed
qed

lemma length_octets_ok:
  "maxBufPos \<le> length buffer \<Longrightarrow>
   length_octets buffer maxBufPos n bufPos len = Some Fail \<or>
   (\<exists>l. length_octets buffer maxBufPos n bufPos len = Some (Ret (bufPos + n, l)))"
proof (induction n arbitrary: bufPos len)
  case (Suc n)
  then show ?case using Suc.IH [of "Suc bufPos"] by auto
qed simp

lemma range_check_ok:
  assumes "r = Some Fail \<or> (\<exists>p l. r = Some (Ret (p, l)) \<and> bufPos < p)"
  shows "length_ok bufPos maxBufPos (Option.bind r (\<lambda>r. case r of Fail \<Rightarrow> Some Fail
           | Ret (q, l) \<Rightarrow> if maxBufPos < q + l then Some Fail else Some (Ret (q, l))))"
  using assms
proof
  assume "\<exists>p l. r = Some (Ret (p, l)) \<and> bufPos < p"
  then obtain p l where "r = Some (Ret (p, l))" "bufPos < p" by blast
  then show ?thesis by (cases "maxBufPos < p + l") (simp_all add: length_ok_def)
qed (simp add: length_ok_def)

lemma decodeLengthRecursive_ok:
  "maxBufPos \<le> length buffer \<Longrightarrow> length_ok bufPos maxBufPos (decodeLengthRecursive k buffer bufPos maxBufPos)"
proof (induction k arbitrary: bufPos)
  case 0
  show ?case
  proof (cases "bufPos < maxBufPos")
    case True
    with 0 have rd: "rd buffer bufPos = Some (buffer ! bufPos)" by simp
    note oct = length_octets_ok [OF 0, of "unat (buffer ! bufPos AND 0x7f)" "bufPos + 1" 0]
    from True have "\<not> maxBufPos \<le> bufPos" by simp
    show ?thesis
      unfolding decodeLengthRecursive.simps [of 0] rd if_not_P [OF \<open>\<not> maxBufPos \<le> bufPos\<close>] Option.bind.simps
      by (rule range_check_ok) (use oct in \<open>auto\<close>)
  qed (simp add: decodeLengthRecursive.simps [of 0] length_ok_def)
next
  case (Suc k)
  obtain r where r: "indefiniteLength_loop (decodeLengthRecursive k) buffer maxBufPos (bufPos + 1) 0 = Some r"
    using indefiniteLength_loop_total [where decLen = "decodeLengthRecursive k", OF Suc.prems Suc.IH [OF Suc.prems]]
    by blast
  show ?case
  proof (cases "bufPos < maxBufPos")
    case True
    with Suc.prems have rd: "rd buffer bufPos = Some (buffer ! bufPos)" by simp
    note oct = length_octets_ok [OF Suc.prems, of "unat (buffer ! bufPos AND 0x7f)" "bufPos + 1" 0]
    from True have "\<not> maxBufPos \<le> bufPos" by simp
    show ?thesis
      unfolding decodeLengthRecursive.simps [of "Suc k"] rd if_not_P [OF \<open>\<not> maxBufPos \<le> bufPos\<close>] Option.bind.simps
      by (rule range_check_ok) (use oct r in \<open>auto split: ret.splits\<close>)
  qed (simp add: decodeLengthRecursive.simps [of "Suc k"] length_ok_def)
qed

lemma decodeLength_ok:
  "maxBufPos \<le> length buffer \<Longrightarrow> length_ok bufPos maxBufPos (BerDecoder_decodeLength buffer bufPos maxBufPos)"
  by (simp add: BerDecoder_decodeLength_def decodeLengthRecursive_ok)

text \<open>An indefinite length covers at least its two end-of-contents octets.\<close>

lemma decodeLength_indefinite:
  assumes m: "maxBufPos \<le> length buffer" and b: "rd buffer bufPos = Some 0x80"
    and r: "BerDecoder_decodeLength buffer bufPos maxBufPos = Some (Ret (p, l))"
  shows "2 \<le> l"
proof -
  have lt: "\<not> maxBufPos \<le> bufPos"
    using r unfolding BerDecoder_decodeLength_def by (subst (asm) decodeLengthRecursive.simps) (auto split: if_splits)
  obtain n where n: "indefiniteLength_loop (decodeLengthRecursive 49) buffer maxBufPos (bufPos + 1) 0 = Some n"
    and ge: "\<And>k. n = Ret k \<Longrightarrow> 2 \<le> k"
    using indefiniteLength_loop_total [where decLen = "decodeLengthRecursive 49", OF m decodeLengthRecursive_ok [OF m]]
    by (metis add_0 le_trans)
  have "(0x80 :: byte) AND 0x7f = 0" "(0x80 :: byte) AND 0x80 \<noteq> 0" by simp_all
  moreover have "50 = Suc 49" by simp
  ultimately have "(case n of Fail \<Rightarrow> Some Fail | Ret k \<Rightarrow> if maxBufPos < bufPos + 1 + k then Some Fail else Some (Ret (bufPos + 1, k))) =
      Some (Ret (p, l))"
    using r lt n unfolding BerDecoder_decodeLength_def
    by (subst (asm) decodeLengthRecursive.simps) (cases n; simp add: b split: if_splits)
  with ge show ?thesis by (cases n) (auto split: if_splits)
qed

subsection \<open>Decoding inverts encoding\<close>

lemma unat_byte_of_nat: "n < 256 \<Longrightarrow> unat (of_nat n :: byte) = n"
  by (simp add: unat_of_nat)

lemma byte_small_no_msb:
  assumes "n < 128"
  shows "(of_nat n :: byte) AND 0x80 = 0"
proof -
  from assms have "\<not> odd (n div 128)" by simp
  then have "\<not> bit n 7" by (simp add: bit_iff_odd)
  then show ?thesis by (simp add: byte_msb_clear bit_simps)
qed

lemma length_octets_numeral [simp]:
  "length_octets buffer maxBufPos (numeral k) bufPos len =
     (if maxBufPos \<le> bufPos then Some Fail
      else if maxBufPos < bufPos + len then Some Fail
      else do {
        b \<leftarrow> rd buffer bufPos;
        length_octets buffer maxBufPos (pred_numeral k) (bufPos + 1) (len * 256 + unat b) })"
  by (simp only: numeral_eq_Suc length_octets.simps)

lemma decodeLength_three:
  assumes has: "has buffer pos [0x83, of_nat a, of_nat b, of_nat c]"
    and bytes: "a < 256" "b < 256" "c < 256" and v: "v = (a * 256 + b) * 256 + c"
    and fit: "pos + 4 + v \<le> maxBufPos"
  shows "BerDecoder_decodeLength buffer pos maxBufPos = Some (Ret (pos + 4, v))"
proof -
  define u where "u = a * 256 + b"
  with v have u: "v = u * 256 + c" by simp
  then have rng: "\<not> maxBufPos \<le> Suc (Suc (Suc pos))" "\<not> maxBufPos < Suc (Suc (Suc pos)) + u"
    using fit by simp_all
  moreover from u_def have "a \<le> u" by simp
  with rng have "\<not> maxBufPos < Suc (Suc pos) + a" by simp
  ultimately have "length_octets buffer maxBufPos 3 (Suc pos) 0 = Some (Ret (pos + 4, v))"
    using has bytes by (simp add: u_def [symmetric] u unat_byte_of_nat)
  then show ?thesis
    using has fit unfolding BerDecoder_decodeLength_def
    by (subst decodeLengthRecursive.simps) (simp del: length_octets_numeral)
qed

lemma decodeLength_has:
  assumes has: "has buffer pos (ber_length n)" and n: "n < 2 ^ 24"
    and fit: "pos + length (ber_length n) + n \<le> maxBufPos"
  shows "BerDecoder_decodeLength buffer pos maxBufPos = Some (Ret (pos + length (ber_length n), n))"
proof -
  note defs = BerDecoder_decodeLength_def decodeLengthRecursive.simps [of 50] ber_length_def unat_byte_of_nat
  consider "n < 128" | "128 \<le> n" "n < 256" | "256 \<le> n" "n < 65535" | "65535 \<le> n" by linarith
  then show ?thesis
  proof cases
    case 1
    with assms show ?thesis by (simp add: defs byte_small_no_msb)
  next
    case 2
    with assms show ?thesis by (simp add: defs)
  next
    case 3
    then have "n div 256 < 256" by simp
    moreover have "n div 256 * 256 + n mod 256 = n" by simp
    moreover have "n div 256 \<le> n" by simp
    ultimately show ?thesis using assms 3 by (simp add: defs del: of_nat_mod)
  next
    case 4
    let ?a = "n div 65536" and ?b = "n mod 65536 div 256" and ?c = "n mod 256"
    have v: "(?a * 256 + ?b) * 256 + ?c = n"
      using mod_mult2_eq [of n 256 256] div_mult2_eq [of n 256 256] by simp
    have len: "ber_length n = [0x83, of_nat ?a, of_nat ?b, of_nat ?c]"
      using 4 by (simp add: ber_length_def del: of_nat_mod)
    have "?a < 256" "?b < 256" "?c < 256" using n by simp_all
    then show ?thesis
      using decodeLength_three [of buffer pos ?a ?b ?c n maxBufPos, OF _ _ _ _ v [symmetric]] has fit
      unfolding len by (simp del: has_Cons of_nat_mod add: add.commute)
  qed
qed

text \<open>A length that does not fit into the range is an error.\<close>

lemma decodeLength_too_long:
  assumes "has buffer pos (ber_length n)" and "n < 2 ^ 24" and "maxBufPos \<le> length buffer"
    and "maxBufPos < pos + length (ber_length n) + n"
  shows "BerDecoder_decodeLength buffer pos maxBufPos = Some Fail"
proof -
  note defs = BerDecoder_decodeLength_def decodeLengthRecursive.simps [of 50] ber_length_def unat_byte_of_nat
  consider "n < 128" | "128 \<le> n" "n < 256" | "256 \<le> n" "n < 65535" | "65535 \<le> n" by linarith
  then show ?thesis
  proof cases
    case 1
    with assms show ?thesis by (simp add: defs byte_small_no_msb)
  next
    case 2
    with assms show ?thesis by (simp add: defs)
  next
    case 3
    then have "n div 256 < 256" by simp
    moreover have "n div 256 * 256 + n mod 256 = n" by simp
    ultimately show ?thesis using assms 3 by (simp add: defs del: of_nat_mod)
  next
    case 4
    let ?a = "n div 65536" and ?b = "n mod 65536 div 256" and ?c = "n mod 256"
    have v: "(?a * 256 + ?b) * 256 + ?c = n"
      using mod_mult2_eq [of n 256 256] div_mult2_eq [of n 256 256] by simp
    have len: "ber_length n = [0x83, of_nat ?a, of_nat ?b, of_nat ?c]"
      using 4 by (simp add: ber_length_def del: of_nat_mod)
    have "?a < 256" "?b < 256" "?c < 256" using assms(2) by simp_all
    with v assms show ?thesis unfolding len by (simp add: defs(1,2,4) del: of_nat_mod)
  qed
qed

text \<open>Integers.\<close>

lemma push_bit_8: "push_bit 8 v = v * (256 :: 'a::len word)"
  by (simp add: push_bit_eq_mult)

lemma decodeUint32_loop_has:
  "has buffer (bufPos + i) bs \<Longrightarrow> i \<le> 3 \<Longrightarrow>
   decodeUint32_loop buffer (i + length bs) bufPos i v =
     Some (v * 256 ^ length (take (4 - i) bs) + of_int (uval (take (4 - i) bs)))"
proof (induction bs arbitrary: i v)
  case Nil
  then show ?case by (simp add: decodeUint32_loop.simps)
next
  case (Cons b bs)
  show ?case
  proof (cases "i = 3")
    case True
    with Cons.prems show ?thesis
      by (simp add: decodeUint32_loop.simps [of _ _ _ 3] push_bit_8)
  next
    case False
    with Cons.prems have t: "take (4 - i) (b # bs) = b # take (4 - Suc i) bs"
      by (cases i) (auto simp: take_Cons' Suc_diff_Suc)
    have "decodeUint32_loop buffer (Suc i + length bs) bufPos (Suc i) (v * 256 + of_int (uint b)) =
        Some ((v * 256 + of_int (uint b)) * 256 ^ length (take (4 - Suc i) bs)
          + of_int (uval (take (4 - Suc i) bs)))"
      using Cons.prems False by (intro Cons.IH) simp_all
    with False Cons.prems show ?thesis unfolding t
      by (subst decodeUint32_loop.simps) (simp add: Let_def push_bit_8 algebra_simps)
  qed
qed

lemma decodeUint32_has:
  "has buffer pos bs \<Longrightarrow> BerDecoder_decodeUint32 buffer (length bs) pos = Some (of_int (uval (take 4 bs)))"
  using decodeUint32_loop_has [of buffer pos 0 bs 0] by (simp add: BerDecoder_decodeUint32_def)

lemma decodeUint32_safe:
  "pos + n \<le> length buffer \<Longrightarrow> \<exists>v. BerDecoder_decodeUint32 buffer n pos = Some v"
  using decodeUint32_has [OF has_take, of pos n buffer] by (simp add: min_absorb2)

lemma decodeInt32_loop_has:
  "has buffer pos bs \<Longrightarrow>
   decodeInt32_loop buffer (length bs) pos v = Some (v * 256 ^ length bs + of_int (uval bs))"
  by (induction bs arbitrary: pos v) (auto simp: push_bit_8 algebra_simps)

lemma decodeInt32_has:
  assumes "has buffer pos (b # bs)" and "length bs < 4"
  shows "BerDecoder_decodeInt32 buffer (length (b # bs)) pos =
           Some (of_int (sval (b # bs) + (if bit b 7 then 2 * 256 ^ length (b # bs) else 0)))"
proof -
  have "BerDecoder_decodeInt32 buffer (length (b # bs)) pos =
      decodeInt32_loop buffer (length (b # bs)) pos (if bit b 7 then - 0xffffffff else 0)"
    using assms by (simp add: BerDecoder_decodeInt32_def byte_msb_set Let_def)
  also have "\<dots> = Some ((if bit b 7 then - 0xffffffff else 0) * 256 ^ length (b # bs) + of_int (uval (b # bs)))"
    by (rule decodeInt32_loop_has [OF assms(1)])
  also have "(- 0xffffffff :: 32 word) = 1" by simp
  finally show ?thesis
    by (simp add: sint_byte algebra_simps)
qed

lemma sval_eq_uval: "sval bs = uval bs" if "0 \<le> sval bs"
proof (cases bs)
  case (Cons b xs)
  have "\<not> bit b 7"
  proof
    assume "bit b 7"
    then have "sint b \<le> -1" using uint_byte [of b] by (simp add: sint_byte)
    then have "sint b * 256 ^ length xs \<le> -1 * 256 ^ length xs" by (intro mult_right_mono) simp_all
    with that uval_bounds [of xs] show False by (simp add: Cons)
  qed
  then show ?thesis by (simp add: Cons sint_byte)
qed simp

lemma length_ber_uint32_iff: "length (ber_uint32 v) \<le> 4 \<longleftrightarrow> uint v < 2 ^ 31"
proof
  assume len: "length (ber_uint32 v) \<le> 4"
  then have "(256 :: int) ^ (length (ber_uint32 v) - 1) \<le> 256 ^ 3"
    by (intro power_increasing) simp_all
  moreover have "uint v < 128 * 256 ^ (length (ber_uint32 v) - 1)"
    using sval_bounds [of "ber_uint32 v"] length_ber_uint32 [of v] by (simp add: sval_ber_uint32)
  ultimately show "uint v < 2 ^ 31" by simp
next
  assume "uint v < 2 ^ 31"
  then have "sint v = uint v"
    using signed_take_bit_int_eq_self [of 31 "uint v"] uint_ge_0 [of v] by (simp add: sint_uint)
  then have "sval (rev (le_bytes 4 v)) = sval (0 # rev (le_bytes 4 v))"
    unfolding sval_le_bytes32 by (simp add: uval_le_bytes32)
  then have "length (minimal_be (0 # rev (le_bytes 4 v))) \<le> length (rev (le_bytes 4 v))"
    by (rule minimal_be_shortest) (simp add: le_bytes_def)
  then show "length (ber_uint32 v) \<le> 4" by (simp add: ber_uint32_def)
qed

lemma uval_take_4_ber_uint32:
  "uval (take 4 (ber_uint32 v)) = (if uint v < 2 ^ 31 then uint v else uint v div 256)"
proof -
  have u: "uval (ber_uint32 v) = uint v"
    using sval_eq_uval [of "ber_uint32 v"] by (simp add: sval_ber_uint32)
  show ?thesis
  proof (cases "uint v < 2 ^ 31")
    case True
    then have "length (ber_uint32 v) \<le> 4" by (simp add: length_ber_uint32_iff)
    with True u show ?thesis by simp
  next
    case False
    then have "length (ber_uint32 v) = 5"
      using length_ber_uint32 [of v] length_ber_uint32_iff [of v] by linarith
    then obtain b where "ber_uint32 v = take 4 (ber_uint32 v) @ [b]"
      using take_Suc_conv_app_nth [of 4 "ber_uint32 v"] by auto
    then have "uint v = uval (take 4 (ber_uint32 v)) * 256 + uint b"
      using uval_append [of "take 4 (ber_uint32 v)" "[b]"] u by simp
    with False uint_byte [of b] show ?thesis by simp
  qed
qed

lemma length_ber_int32_neg:
  assumes "sint v < 0"
  shows "length (ber_int32 v) = 4 \<longleftrightarrow> sint v < - (2 ^ 23)"
proof
  assume "length (ber_int32 v) = 4"
  then obtain x y zs where m: "minimal_be (rev (le_bytes 4 v)) = x # y # zs" and z: "length zs = 2"
    by (auto simp: ber_int32_def length_Suc_conv numeral_eq_Suc)
  then have "sval (ber_int32 v) < - (128 * 256 ^ 2) \<or> 128 * 256 ^ 2 \<le> sval (ber_int32 v)"
    using minimal_be_value [OF m] by (simp add: ber_int32_def)
  with assms show "sint v < - (2 ^ 23)" by (simp add: sval_ber_int32)
next
  assume less: "sint v < - (2 ^ 23)"
  show "length (ber_int32 v) = 4"
  proof (rule ccontr)
    assume "\<not> ?thesis"
    then have "length (ber_int32 v) - 1 \<le> 2" using length_ber_int32 [of v] by linarith
    then have "(256 :: int) ^ (length (ber_int32 v) - 1) \<le> 256 ^ 2" by (intro power_increasing) simp_all
    then show False
      using sval_bounds [of "ber_int32 v"] length_ber_int32 [of v] less by (simp add: sval_ber_int32)
  qed
qed

lemma sval_neg_iff: "sval (b # bs) < 0 \<longleftrightarrow> bit b 7"
proof
  assume "sval (b # bs) < 0"
  show "bit b 7"
  proof (rule ccontr)
    assume "\<not> bit b 7"
    then have "sval (b # bs) = uval (b # bs)" by (simp add: sint_byte)
    with uval_bounds [of "b # bs"] \<open>sval (b # bs) < 0\<close> show False by linarith
  qed
next
  assume b: "bit b 7"
  show "sval (b # bs) < 0"
    using sval_eq_uval [of "b # bs"] b by (force simp: sint_byte)
qed

lemma decodeInt32_ber_int32:
  assumes "has buffer pos (ber_int32 v)"
  shows "BerDecoder_decodeInt32 buffer (length (ber_int32 v)) pos =
     Some (if 0 \<le> sint v \<or> sint v < - (2 ^ 23) then v else v + of_nat (2 * 256 ^ length (ber_int32 v)))"
proof -
  obtain b bs where bs: "ber_int32 v = b # bs"
    using length_ber_int32 [of v] by (cases "ber_int32 v") auto
  with length_ber_int32 [of v] have "length bs < 4" by simp
  moreover have "bit b 7 \<longleftrightarrow> sint v < 0"
    using sval_neg_iff [of b bs] by (simp add: bs [symmetric] sval_ber_int32)
  moreover have "(2 * 256 ^ length (ber_int32 v) :: 32 word) = 0" if "sint v < - (2 ^ 23)"
  proof -
    have "length (ber_int32 v) = 4" using length_ber_int32_neg [of v] that by simp
    then show ?thesis by simp
  qed
  ultimately show ?thesis
    using decodeInt32_has [of buffer pos b bs] assms unfolding bs [symmetric]
    by (auto simp: sval_ber_int32)
qed

lemma decodeFloat_has:
  "has buffer (Suc pos) bs \<Longrightarrow> length bs = 4 \<Longrightarrow> BerDecoder_decodeFloat buffer pos = Some (rev bs)"
  "has buffer (Suc pos) bs \<Longrightarrow> length bs = 8 \<Longrightarrow> BerDecoder_decodeDouble buffer pos = Some (rev bs)"
  using rd_block_has [of buffer "Suc pos" bs]
  by (auto simp: BerDecoder_decodeFloat_def BerDecoder_decodeDouble_def)

lemma writes_encodeFloat:
  assumes "unat formatWidth div 8 = length floatValue"
  shows "writes (BerEncoder_encodeFloat floatValue formatWidth exponentWidth) (exponentWidth # rev floatValue)"
proof -
  let ?n = "length floatValue"
  have w: "writes (\<lambda>s. do { s \<leftarrow> put exponentWidth s; put_from floatValue 0 ?n s }) ([exponentWidth] @ floatValue)"
    by (rule writer_intros)+
  have eq: "BerEncoder_encodeFloat floatValue formatWidth exponentWidth s =
      do { (buffer, bufPos) \<leftarrow> do { s \<leftarrow> put exponentWidth s; put_from floatValue 0 ?n s };
           buffer \<leftarrow> BerEncoder_revertByteOrder buffer (bufPos - ?n) ?n;
           Some (buffer, bufPos) }" for s
    by (simp add: BerEncoder_encodeFloat_def assms Let_def)
  show ?thesis
  proof (rule writesI)
    fix buf :: "byte list" and pos :: nat
    assume fit: "pos + length (exponentWidth # rev floatValue) \<le> length buf"
    let ?b = "patch buf pos ([exponentWidth] @ floatValue)"
    have "BerEncoder_revertByteOrder ?b (Suc pos) ?n = Some (patch buf pos ([exponentWidth] @ rev floatValue))"
      using fit by (simp add: revertByteOrder_eq patch_def)
    then show "BerEncoder_encodeFloat floatValue formatWidth exponentWidth (buf, pos) =
        Some (patch buf pos (exponentWidth # rev floatValue), pos + length (exponentWidth # rev floatValue))"
      using writesD [OF w, of pos buf] fit by (simp add: eq)
  next
    fix buf :: "byte list" and pos :: nat
    assume "pos \<le> length buf" "length buf < pos + length (exponentWidth # rev floatValue)"
    then show "BerEncoder_encodeFloat floatValue formatWidth exponentWidth (buf, pos) = None"
      using writesD_None [OF w, of pos buf] by (simp add: eq)
  qed
qed

subsection \<open>Properties\<close>

text \<open>C29: Decoding a length field in any byte range inside the buffer reads nothing outside
  the buffer and returns, also for indefinite lengths nested 50 deep; what it accepts starts
  after the length field's first byte and its contents end inside the range.\<close>

theorem decodeLength_safe:
  assumes "maxBufPos \<le> length buffer"
  shows "\<exists>r. BerDecoder_decodeLength buffer bufPos maxBufPos = Some r \<and>
           (\<forall>p l. r = Ret (p, l) \<longrightarrow> bufPos < p \<and> p + l \<le> maxBufPos)"
  using decodeLength_ok [OF assms, of bufPos] by (auto simp: length_ok_def)

theorem decodeLength_safe_witness:
  "\<exists>r. BerDecoder_decodeLength [0x80, 4, 1, 7, 0, 0] 0 6 = Some r \<and>
     (\<forall>p l. r = Ret (p, l) \<longrightarrow> 0 < p \<and> p + l \<le> 6)"
  using decodeLength_safe [of 6 "[0x80, 4, 1, 7, 0, 0]" 0] by simp

text \<open>A length field below 2^24 written by the encoder is decoded to the same length, and
  the decoder stops at the encoder's final position, whenever the announced contents lie in
  the range that is decoded.\<close>

theorem length_field_roundtrip:
  assumes "BerEncoder_encodeLength n (buf, pos) = Some (buf', pos')" and "pos \<le> length buf"
    and "n < 2 ^ 24" and "pos' + n \<le> maxBufPos"
  shows "BerDecoder_decodeLength buf' pos maxBufPos = Some (Ret (pos', n))"
  using assms writes_has [OF writes_encodeLength assms(2,1)] decodeLength_has [of buf' pos n maxBufPos]
  by simp

theorem length_field_roundtrip_witness:
  "BerDecoder_decodeLength [9, 0x82, 1, 0x2c, 0] 1 304 = Some (Ret (4, 300))"
  using length_field_roundtrip [of 300 "[9, 0, 0, 0, 0]" 1 "[9, 0x82, 1, 0x2c, 0]" 4 304]
  by (simp add: BerEncoder_encodeLength_def)

text \<open>The size that \<open>BerEncoder_determineLengthSize\<close> announces for a length field is the
  number of bytes \<open>BerEncoder_encodeLength\<close> writes, for every length except 65535.\<close>

theorem determineLengthSize_exact:
  assumes "BerEncoder_encodeLength n (buf, pos) = Some (buf', pos')" and "pos \<le> length buf"
  shows "pos' = pos + BerEncoder_determineLengthSize n \<longleftrightarrow> n \<noteq> 65535"
  using writes_has(2) [OF writes_encodeLength assms(2,1)] length_ber_length [of n]
  by (simp add: BerEncoder_determineLengthSize_def)

theorem determineLengthSize_exact_witness:
  "(3 :: nat) = 0 + BerEncoder_determineLengthSize 300 \<longleftrightarrow> (300 :: nat) \<noteq> 65535"
  using determineLengthSize_exact [of 300 "[0, 0, 0]" 0 "[0x82, 1, 0x2c]" 3]
  by (simp add: BerEncoder_encodeLength_def)

text \<open>C37: \<open>BerEncoder_compressInteger\<close> works in place, keeps the two's complement value of
  the integer and produces the shortest byte string with that value.\<close>

theorem compressInteger_value_shortest:
  assumes "0 < n" and "n \<le> length integer"
  shows "\<exists>r m. BerEncoder_compressInteger integer n = Some (r, m) \<and> length r = length integer \<and>
           0 < m \<and> m \<le> n \<and> sval (take m r) = sval (take n integer) \<and>
           (\<forall>ys. ys \<noteq> [] \<longrightarrow> sval ys = sval (take n integer) \<longrightarrow> m \<le> length ys)"
proof -
  obtain r where r: "BerEncoder_compressInteger integer n = Some (r, length (minimal_be (take n integer)))"
    "length r = length integer"
    "take (length (minimal_be (take n integer))) r = minimal_be (take n integer)"
    by (rule compressInteger_minimal [OF assms])
  have "0 < length (minimal_be (take n integer))" "length (minimal_be (take n integer)) \<le> n"
    using assms length_minimal_be [of "take n integer"] by auto
  with r minimal_be_shortest show ?thesis by (auto simp: sval_minimal_be)
qed

theorem compressInteger_value_shortest_witness:
  "\<exists>r m. BerEncoder_compressInteger [0xff, 0xff, 0xff, 0x80] 4 = Some (r, m) \<and> length r = length [0xff :: byte, 0xff, 0xff, 0x80] \<and>
     0 < m \<and> m \<le> 4 \<and> sval (take m r) = sval [0xff, 0xff, 0xff, 0x80] \<and>
     (\<forall>ys. ys \<noteq> [] \<longrightarrow> sval ys = sval [0xff, 0xff, 0xff, 0x80] \<longrightarrow> m \<le> length ys)"
  using compressInteger_value_shortest [of 4 "[0xff, 0xff, 0xff, 0x80]"] by simp

text \<open>C38: An unsigned 32 bit value is written in 1 to 5 bytes whose two's complement value is
  the unsigned value, exactly as many bytes as \<open>BerEncoder_UInt32determineEncodedSize\<close>
  announces; the decoder returns the value when it is below 2^31, and the value shifted right
  by 8 bits otherwise, since it stops after four of the five bytes.\<close>

theorem uint32_roundtrip:
  assumes "BerEncoder_encodeUInt32 v (buf, pos) = Some (buf', pos')" and "pos \<le> length buf"
  shows "BerEncoder_UInt32determineEncodedSize v = Some (pos' - pos) \<and>
    sval (take (pos' - pos) (drop pos buf')) = uint v \<and>
    BerDecoder_decodeUint32 buf' (pos' - pos) pos = Some (if uint v < 2 ^ 31 then v else drop_bit 8 v)"
proof -
  note w = writes_has [OF writes_encodeUInt32 assms(2,1)]
  have "word_of_int (uint v div 256) = drop_bit 8 v"
    by (simp add: drop_bit_eq_div word_div_def)
  then have "BerDecoder_decodeUint32 buf' (pos' - pos) pos = Some (if uint v < 2 ^ 31 then v else drop_bit 8 v)"
    using w decodeUint32_has [of buf' pos "ber_uint32 v"] by (simp add: uval_take_4_ber_uint32)
  with w show ?thesis
    by (simp add: UInt32determineEncodedSize_eq has_def sval_ber_uint32)
qed

theorem uint32_roundtrip_witness:
  "BerDecoder_decodeUint32 [0, 0x80] 2 0 = Some 128"
proof -
  have "BerEncoder_encodeUInt32 128 ([0, 0], 0) = Some ([0, 0x80], 2)" by code_simp
  from uint32_roundtrip [OF this] show ?thesis by simp
qed

text \<open>C39: A signed 32 bit value is written in 1 to 4 bytes with exactly that two's complement
  value. The decoder returns it if it is not negative or needs four bytes; a negative value of
  one to three bytes comes back too large by twice 256 to the number of bytes.\<close>

theorem int32_roundtrip:
  assumes "BerEncoder_encodeInt32 v (buf, pos) = Some (buf', pos')" and "pos \<le> length buf"
  shows "sval (take (pos' - pos) (drop pos buf')) = sint v \<and>
    BerDecoder_decodeInt32 buf' (pos' - pos) pos =
      Some (if 0 \<le> sint v \<or> sint v < - (2 ^ 23) then v else v + of_nat (2 * 256 ^ (pos' - pos)))"
  using writes_has [OF writes_encodeInt32 assms(2,1)] decodeInt32_ber_int32 [of buf' pos v]
  by (simp add: has_def sval_ber_int32)

theorem int32_roundtrip_witness:
  "BerDecoder_decodeInt32 [0xff] 1 0 = Some 511"
proof -
  have "BerEncoder_encodeInt32 (-1) ([0], 0) = Some ([0xff], 1)" by code_simp
  from int32_roundtrip [OF this] show ?thesis by simp
qed

text \<open>A float (or double) of 4 (or 8) memory bytes written with \<open>BerEncoder_encodeFloat\<close>
  is read back byte for byte by \<open>BerDecoder_decodeFloat\<close> (\<open>BerDecoder_decodeDouble\<close>).\<close>

theorem float_roundtrip:
  assumes "BerEncoder_encodeFloat floatValue formatWidth exponentWidth (buf, pos) = Some (buf', pos')"
    and "pos \<le> length buf" and "unat formatWidth = 8 * length floatValue"
  shows "(length floatValue = 4 \<longrightarrow> BerDecoder_decodeFloat buf' pos = Some floatValue) \<and>
         (length floatValue = 8 \<longrightarrow> BerDecoder_decodeDouble buf' pos = Some floatValue)"
proof -
  have "unat formatWidth div 8 = length floatValue" using assms(3) by simp
  from writes_has(5) [OF writes_encodeFloat [OF this] assms(2,1)]
  show ?thesis using decodeFloat_has [of buf' pos "rev floatValue"] by simp
qed

theorem float_roundtrip_witness:
  "BerDecoder_decodeFloat [8, 0x3f, 0x80, 0, 0] 0 = Some [0, 0, 0x80, 0x3f]"
proof -
  have "BerEncoder_encodeFloat [0, 0, 0x80, 0x3f] 32 8 ([1, 1, 1, 1, 1], 0) = Some ([8, 0x3f, 0x80, 0, 0], 5)"
    by code_simp
  from float_roundtrip [OF this] show ?thesis by simp
qed

end
