(* ===== verification/Ber_Integer.thy ===== *)
theory Ber_Integer
  imports Ber_Decoder
begin

unbundle bit_operations_syntax

section \<open>ASN.1 primitive values and BER integers\<close>

text \<open>
  Model of \<open>src/mms/asn1/asn1_ber_primitive_value.c\<close>, \<open>src/mms/asn1/ber_integer.c\<close> and of
  \<open>BerEncoder_encodeAsn1PrimitiveValue\<close>. An \<open>Asn1PrimitiveValue\<close> is a record whose \<open>octets\<close>
  are the cells of the allocated array. The setters return the (possibly updated) object and
  the C result; creation takes the outcome of its \<open>malloc\<close> calls as arguments and returns
  \<open>Fail\<close> for \<open>NULL\<close>. Shifts of signed integers to the left are the wrap-around shifts of
  the words that hold them. The theorems show that the object's invariant is kept and that
  the getters invert the setters, directly and over the wire.
\<close>

text \<open>Both sizes are \<open>uint8_t\<close>: what is stored in them is taken modulo 256.\<close>

record Asn1PrimitiveValue =
  psize :: nat
  maxSize :: nat
  octets :: "byte list"

subsection \<open>Creation, copying and comparison\<close>

definition Asn1PrimitiveValue_create :: "bool \<Rightarrow> bool \<Rightarrow> nat \<Rightarrow> Asn1PrimitiveValue ret option" where
  "Asn1PrimitiveValue_create mem1 mem2 sz =
     (if mem1 then
        let self = \<lparr>psize = 1, maxSize = sz mod 256, octets = replicate sz 0\<rparr> in
        if mem2 then Some (Ret self) else Some Fail
      else Some Fail)"

definition Asn1PrimitiveValue_clone :: "bool \<Rightarrow> bool \<Rightarrow> Asn1PrimitiveValue \<Rightarrow> Asn1PrimitiveValue ret option" where
  "Asn1PrimitiveValue_clone mem1 mem2 self =
     (if mem1 then
        if mem2 then do {
          bs \<leftarrow> rd_block (octets self) 0 (maxSize self);
          Some (Ret \<lparr>psize = psize self, maxSize = maxSize self, octets = bs\<rparr>) }
        else Some Fail
      else Some Fail)"

definition Asn1PrimitivaValue_compare :: "Asn1PrimitiveValue \<Rightarrow> Asn1PrimitiveValue \<Rightarrow> bool option" where
  "Asn1PrimitivaValue_compare self otherValue =
     (if psize self = psize otherValue then do {
        a \<leftarrow> rd_block (octets self) 0 (psize self);
        b \<leftarrow> rd_block (octets otherValue) 0 (psize self);
        Some (a = b) }
      else Some False)"

definition Asn1PrimitiveValue_getSize :: "Asn1PrimitiveValue \<Rightarrow> nat" where
  "Asn1PrimitiveValue_getSize self = psize self"

definition Asn1PrimitiveValue_getMaxSize :: "Asn1PrimitiveValue \<Rightarrow> nat" where
  "Asn1PrimitiveValue_getMaxSize self = maxSize self"

subsection \<open>Integer objects\<close>

definition setIntegerValue ::
  "Asn1PrimitiveValue \<Rightarrow> byte list \<Rightarrow> nat \<Rightarrow> (Asn1PrimitiveValue \<times> bool) option" where
  "setIntegerValue self valueBuffer bufferSize = do {
     valueBuffer \<leftarrow> BerEncoder_revertByteOrder valueBuffer 0 bufferSize;
     (valueBuffer, sz) \<leftarrow> BerEncoder_compressInteger valueBuffer bufferSize;
     if sz \<le> maxSize self then do {
       os \<leftarrow> memcpy (octets self) 0 valueBuffer 0 sz;
       Some (self\<lparr>psize := sz, octets := os\<rparr>, True) }
     else Some (self, False) }"

definition BerInteger_createInt32 :: "bool \<Rightarrow> bool \<Rightarrow> Asn1PrimitiveValue ret option" where
  "BerInteger_createInt32 mem1 mem2 = Asn1PrimitiveValue_create mem1 mem2 5"

definition BerInteger_createFromBuffer ::
  "bool \<Rightarrow> bool \<Rightarrow> byte list \<Rightarrow> nat \<Rightarrow> nat \<Rightarrow> Asn1PrimitiveValue ret option" where
  "BerInteger_createFromBuffer mem1 mem2 buf off sz = do {
     let maxSize = (if 8 < sz then sz else 8);
     r \<leftarrow> Asn1PrimitiveValue_create mem1 mem2 maxSize;
     (case r of
        Fail \<Rightarrow> Some Fail
      | Ret self \<Rightarrow> do {
          os \<leftarrow> memcpy (octets self) 0 buf off sz;
          Some (Ret (self\<lparr>octets := os, psize := sz mod 256\<rparr>)) }) }"

definition BerInteger_setFromBerInteger ::
  "Asn1PrimitiveValue \<Rightarrow> Asn1PrimitiveValue \<Rightarrow> (Asn1PrimitiveValue \<times> bool) option" where
  "BerInteger_setFromBerInteger self val =
     (if psize val \<le> maxSize self then do {
        os \<leftarrow> memcpy (octets self) 0 (octets val) 0 (psize val);
        Some (self\<lparr>psize := psize val, octets := os\<rparr>, True) }
      else Some (self, False))"

definition BerInteger_setInt32 :: "Asn1PrimitiveValue \<Rightarrow> 32 word \<Rightarrow> (Asn1PrimitiveValue \<times> bool) option" where
  "BerInteger_setInt32 self val = setIntegerValue self (le_bytes 4 val) 4"

definition BerInteger_createFromInt32 :: "bool \<Rightarrow> bool \<Rightarrow> 32 word \<Rightarrow> Asn1PrimitiveValue ret option" where
  "BerInteger_createFromInt32 mem1 mem2 val = do {
     r \<leftarrow> BerInteger_createInt32 mem1 mem2;
     (case r of Fail \<Rightarrow> Some Fail
      | Ret asn1Value \<Rightarrow> do { (asn1Value, ok) \<leftarrow> BerInteger_setInt32 asn1Value val; Some (Ret asn1Value) }) }"

definition BerInteger_setUint16 :: "Asn1PrimitiveValue \<Rightarrow> 16 word \<Rightarrow> (Asn1PrimitiveValue \<times> bool) option" where
  "BerInteger_setUint16 self val =
     (let valueBuffer = le_bytes 2 val;
          byteBuffer = [valueBuffer ! 0, valueBuffer ! 1, 0]
      in setIntegerValue self byteBuffer 3)"

definition BerInteger_setUint8 :: "Asn1PrimitiveValue \<Rightarrow> byte \<Rightarrow> (Asn1PrimitiveValue \<times> bool) option" where
  "BerInteger_setUint8 self val = setIntegerValue self (le_bytes 1 val) 1"

definition BerInteger_setUint32 :: "Asn1PrimitiveValue \<Rightarrow> 32 word \<Rightarrow> (Asn1PrimitiveValue \<times> bool) option" where
  "BerInteger_setUint32 self val =
     (let valueBuffer = le_bytes 4 val;
          byteBuffer = [valueBuffer ! 0, valueBuffer ! 1, valueBuffer ! 2, valueBuffer ! 3, 0]
      in setIntegerValue self byteBuffer 5)"

definition BerInteger_createFromUint32 :: "bool \<Rightarrow> bool \<Rightarrow> 32 word \<Rightarrow> Asn1PrimitiveValue ret option" where
  "BerInteger_createFromUint32 mem1 mem2 val = do {
     r \<leftarrow> BerInteger_createInt32 mem1 mem2;
     (case r of Fail \<Rightarrow> Some Fail
      | Ret asn1Value \<Rightarrow> do { (asn1Value, ok) \<leftarrow> BerInteger_setUint32 asn1Value val; Some (Ret asn1Value) }) }"

definition BerInteger_createInt64 :: "bool \<Rightarrow> bool \<Rightarrow> Asn1PrimitiveValue ret option" where
  "BerInteger_createInt64 mem1 mem2 = Asn1PrimitiveValue_create mem1 mem2 9"

definition BerInteger_setInt64 :: "Asn1PrimitiveValue \<Rightarrow> 64 word \<Rightarrow> (Asn1PrimitiveValue \<times> bool) option" where
  "BerInteger_setInt64 self val = setIntegerValue self (le_bytes 8 val) 8"

definition BerInteger_createFromInt64 :: "bool \<Rightarrow> bool \<Rightarrow> 64 word \<Rightarrow> Asn1PrimitiveValue ret option" where
  "BerInteger_createFromInt64 mem1 mem2 val = do {
     r \<leftarrow> BerInteger_createInt64 mem1 mem2;
     (case r of Fail \<Rightarrow> Some Fail
      | Ret asn1Value \<Rightarrow> do { (asn1Value, ok) \<leftarrow> BerInteger_setInt64 asn1Value val; Some (Ret asn1Value) }) }"

text \<open>The loop \<open>*nativeValue = (*nativeValue << 8) | buf[i]\<close> of the three getters.\<close>

fun native_loop :: "byte list \<Rightarrow> nat \<Rightarrow> nat \<Rightarrow> 'a::len word \<Rightarrow> 'a word option" where
  "native_loop buf i 0 nativeValue = Some nativeValue"
| "native_loop buf i (Suc n) nativeValue =
     do { b \<leftarrow> rd buf i; native_loop buf (Suc i) n (push_bit 8 nativeValue OR ucast b) }"

definition BerInteger_toInt32 :: "Asn1PrimitiveValue \<Rightarrow> 32 word option" where
  "BerInteger_toInt32 self = do {
     b \<leftarrow> rd (octets self) 0;
     let nativeValue = (if b AND 0x80 \<noteq> 0 then 0xffffffff else 0);
     native_loop (octets self) 0 (psize self) nativeValue }"

definition BerInteger_toUint32 :: "Asn1PrimitiveValue \<Rightarrow> 32 word option" where
  "BerInteger_toUint32 self = native_loop (octets self) 0 (psize self) 0"

definition BerInteger_toInt64 :: "Asn1PrimitiveValue \<Rightarrow> 64 word option" where
  "BerInteger_toInt64 self = do {
     b \<leftarrow> rd (octets self) 0;
     let nativeValue = (if b AND 0x80 \<noteq> 0 then 0xffffffffffffffff else 0);
     native_loop (octets self) 0 (psize self) nativeValue }"

definition BerEncoder_encodeAsn1PrimitiveValue :: "byte \<Rightarrow> Asn1PrimitiveValue \<Rightarrow> writer" where
  "BerEncoder_encodeAsn1PrimitiveValue tag val s = do {
     s \<leftarrow> put tag s;
     s \<leftarrow> BerEncoder_encodeLength (psize val) s;
     put_from (octets val) 0 (psize val) s }"

subsection \<open>Invariant and stored value\<close>

definition primitive_ok :: "Asn1PrimitiveValue \<Rightarrow> bool" where
  "primitive_ok self \<longleftrightarrow> length (octets self) = maxSize self \<and> psize self \<le> maxSize self \<and> 0 < maxSize self"

definition stored :: "Asn1PrimitiveValue \<Rightarrow> byte list" where
  "stored self = take (psize self) (octets self)"

lemma length_stored: "primitive_ok self \<Longrightarrow> length (stored self) = psize self"
  by (simp add: primitive_ok_def stored_def)

lemma setIntegerValue_eq:
  assumes ok: "primitive_ok self" and n: "0 < n" "length bs = n"
  defines "m \<equiv> minimal_be (rev bs)"
  shows "\<exists>self'. setIntegerValue self bs n = Some (self', length m \<le> maxSize self) \<and>
           primitive_ok self' \<and> maxSize self' = maxSize self \<and>
           (if length m \<le> maxSize self then stored self' = m else self' = self)"
proof -
  have rev: "BerEncoder_revertByteOrder bs 0 n = Some (rev bs)"
    using n by (simp add: revertByteOrder_eq patch_def)
  obtain r where r: "BerEncoder_compressInteger (rev bs) n = Some (r, length m)" "length r = n"
    "take (length m) r = m"
    using compressInteger_minimal [of n "rev bs"] n by (auto simp: m_def)
  have len: "length m \<le> n"
    using length_minimal_be [of "rev bs"] n by (simp add: m_def)
  have "memcpy (octets self) 0 r 0 (length m) = Some (patch (octets self) 0 m)"
    if "length m \<le> maxSize self"
    using that ok len r memcpy_eq [of 0 "length m" r 0 "octets self"] by (simp add: primitive_ok_def)
  with r rev ok show ?thesis
    by (auto simp: setIntegerValue_def primitive_ok_def stored_def take_patch_0)
qed

lemma setter_stored:
  assumes "primitive_ok self" and "0 < n" and "length bs = n"
    and "setIntegerValue self bs n = Some (self', True)"
  shows "primitive_ok self'" and "stored self' = minimal_be (rev bs)"
  using setIntegerValue_eq [OF assms(1-3)] assms(4) by (auto split: if_splits)

subsection \<open>The getters compute the stored value\<close>

lemma shift_or: "push_bit 8 v OR ucast (b :: byte) = v * 256 + ucast b" for v :: "'a::len word"
proof -
  have "push_bit 8 v AND ucast b = (0 :: 'a word)"
    by (rule bit_eqI) (auto simp: bit_simps dest: bit_imp_le_length)
  then show ?thesis by (simp add: push_bit_8 disjunctive_add_eq_or)
qed

lemma native_loop_has:
  "has buf pos bs \<Longrightarrow> native_loop buf pos (length bs) v = Some (v * 256 ^ length bs + of_int (uval bs))"
  by (induction bs arbitrary: pos v) (auto simp: shift_or algebra_simps)

lemma has_stored: "has (octets self) 0 (stored self)"
  by (simp add: has_def stored_def min_def)

lemma native_loop_signed:
  assumes "has buf 0 (b # bs)"
  shows "native_loop buf 0 (length (b # bs)) (if bit b 7 then - 1 else 0) = Some (of_int (sval (b # bs)))"
  unfolding native_loop_has [OF assms] by (simp add: sint_byte algebra_simps)

lemma getters_stored:
  assumes ok: "primitive_ok self" and ne: "0 < psize self"
  shows "BerInteger_toInt32 self = Some (of_int (sval (stored self)))"
    and "BerInteger_toUint32 self = Some (of_int (uval (stored self)))"
    and "BerInteger_toInt64 self = Some (of_int (sval (stored self)))"
proof -
  show "BerInteger_toUint32 self = Some (of_int (uval (stored self)))"
    using native_loop_has [OF has_stored [of self], unfolded length_stored [OF ok], of 0]
    by (simp add: BerInteger_toUint32_def)
  obtain b bs where b: "stored self = b # bs"
    using length_stored [OF ok] ne by (cases "stored self") auto
  then have has: "has (octets self) 0 (b # bs)" and len: "psize self = length (b # bs)"
    using has_stored [of self] length_stored [OF ok] by auto
  from has have rd: "rd (octets self) 0 = Some b" by auto
  have neg: "b AND 0x80 \<noteq> 0 \<longleftrightarrow> bit b 7" using byte_msb_clear [of b] by simp
  have m1: "(0xffffffff :: 32 word) = - 1" "(0xffffffffffffffff :: 64 word) = - 1" by simp_all
  show "BerInteger_toInt32 self = Some (of_int (sval (stored self)))"
    unfolding BerInteger_toInt32_def rd Option.bind.simps Let_def neg m1 b len
    by (rule native_loop_signed [OF has])
  show "BerInteger_toInt64 self = Some (of_int (sval (stored self)))"
    unfolding BerInteger_toInt64_def rd Option.bind.simps Let_def neg m1 b len
    by (rule native_loop_signed [OF has])
qed

lemma writes_encodeAsn1PrimitiveValue:
  assumes "primitive_ok val"
  shows "writes (BerEncoder_encodeAsn1PrimitiveValue tag val) (ber_tlv tag (stored val))"
proof -
  have pf: "writes (put_from (octets val) 0 (psize val)) (stored val)"
    using writes_put_from [of 0 "psize val" "octets val"] assms by (simp add: primitive_ok_def stored_def)
  show ?thesis
    unfolding BerEncoder_encodeAsn1PrimitiveValue_def [abs_def]
    by (rule writes_cong, (rule writer_intros pf)+) (simp add: ber_tlv_def length_stored [OF assms])
qed

lemma createFromBuffer_has:
  assumes "has buf off bs" and "length bs < 256"
  shows "\<exists>self. BerInteger_createFromBuffer True True buf off (length bs) = Some (Ret self) \<and>
           primitive_ok self \<and> stored self = bs"
proof -
  let ?m = "if 8 < length bs then length bs else 8"
  have "memcpy (replicate ?m 0) 0 buf off (length bs) = Some (patch (replicate ?m 0) 0 bs)"
    using rd_block_has [OF assms(1)] by (auto simp: memcpy_def patch_def)
  then show ?thesis using assms(2)
    by (auto simp: BerInteger_createFromBuffer_def Asn1PrimitiveValue_create_def Let_def primitive_ok_def
        stored_def take_patch_0)
qed

lemma create_ok:
  assumes "0 < sz" and "sz < 256"
  shows "\<exists>self. Asn1PrimitiveValue_create True True sz = Some (Ret self) \<and> primitive_ok self \<and> maxSize self = sz"
  using assms by (simp add: Asn1PrimitiveValue_create_def primitive_ok_def)

lemma minimal_be_le_bytes:
  fixes v :: "'a::len word"
  assumes "LENGTH('a) = 8 * Suc m"
  shows "sval (minimal_be (rev (le_bytes (Suc m) v))) = sint v"
    and "0 < length (minimal_be (rev (le_bytes (Suc m) v)))"
    and "length (minimal_be (rev (le_bytes (Suc m) v))) \<le> Suc m"
  using le_bytes_value(2) [OF assms, of v] length_minimal_be [of "rev (le_bytes (Suc m) v)"]
  by (simp_all add: sval_minimal_be le_bytes_def)

subsection \<open>Properties\<close>

text \<open>Setting an integer object to a signed 32 bit value either reports failure and
  leaves the object as it is, because the minimal encoding does not fit, or keeps the
  invariant and stores a value that both the 32 bit and the 64 bit getter return (sign
  extended). Objects with room for at least 4 bytes never fail.\<close>

theorem berInteger_int32_roundtrip:
  assumes "primitive_ok self"
  shows "\<exists>self' ok. BerInteger_setInt32 self v = Some (self', ok) \<and> primitive_ok self' \<and>
           (ok \<longleftrightarrow> length (ber_int32 v) \<le> maxSize self) \<and> (4 \<le> maxSize self \<longrightarrow> ok) \<and>
           (if ok then BerInteger_toInt32 self' = Some v \<and> BerInteger_toInt64 self' = Some (scast v)
            else self' = self)"
proof -
  obtain self' where s: "BerInteger_setInt32 self v = Some (self', length (ber_int32 v) \<le> maxSize self)"
    "primitive_ok self'"
    "if length (ber_int32 v) \<le> maxSize self then stored self' = ber_int32 v else self' = self"
    using setIntegerValue_eq [OF assms, of 4 "le_bytes 4 v"] by (auto simp: BerInteger_setInt32_def ber_int32_def)
  have "BerInteger_toInt32 self' = Some v \<and> BerInteger_toInt64 self' = Some (scast v)"
    if "length (ber_int32 v) \<le> maxSize self"
  proof -
    from that s have st: "stored self' = ber_int32 v" by simp
    then have "0 < psize self'" using length_stored [OF s(2)] length_ber_int32 [of v] by simp
    from getters_stored [OF s(2) this] show ?thesis by (simp add: st sval_ber_int32)
  qed
  moreover have "4 \<le> maxSize self \<longrightarrow> length (ber_int32 v) \<le> maxSize self"
    using length_ber_int32 [of v] by linarith
  ultimately show ?thesis
    using s by (intro exI [of _ self'] exI [of _ "length (ber_int32 v) \<le> maxSize self"]) (simp split: if_splits)
qed

theorem berInteger_int32_roundtrip_witness:
  "\<exists>self' ok. BerInteger_setInt32 \<lparr>psize = 1, maxSize = 5, octets = [0, 0, 0, 0, 0]\<rparr> (-300) = Some (self', ok) \<and>
     ok \<and> BerInteger_toInt32 self' = Some (-300)"
  using berInteger_int32_roundtrip [of "\<lparr>psize = 1, maxSize = 5, octets = [0, 0, 0, 0, 0]\<rparr>" "-300"]
  by (auto simp: primitive_ok_def split: if_splits)

text \<open>After a successful unsigned setter the unsigned getter returns the value. The
  signed getters return it too for \<open>setUint16\<close> and \<open>setUint32\<close>, which prepend a zero byte;
  \<open>setUint8\<close> does not, so that they return its value sign extended from 8 bits.\<close>

theorem berInteger_unsigned_roundtrip:
  assumes "primitive_ok self"
  shows "(BerInteger_setUint32 self v = Some (s32, True) \<longrightarrow>
            BerInteger_toUint32 s32 = Some v \<and> BerInteger_toInt64 s32 = Some (ucast v)) \<and>
         (BerInteger_setUint16 self w = Some (s16, True) \<longrightarrow>
            BerInteger_toUint32 s16 = Some (ucast w) \<and> BerInteger_toInt32 s16 = Some (ucast w)) \<and>
         (BerInteger_setUint8 self b = Some (s8, True) \<longrightarrow>
            BerInteger_toUint32 s8 = Some (ucast b) \<and> BerInteger_toInt32 s8 = Some (scast b))"
proof (intro conjI impI)
  have st: "stored s' = minimal_be (rev bs) \<and> primitive_ok s' \<and> 0 < psize s'"
    if "setIntegerValue self bs n = Some (s', True)" "length bs = n" "0 < n" for s' bs n
  proof -
    have "stored s' = minimal_be (rev bs)" "primitive_ok s'"
      using setter_stored [OF assms that(3,2,1)] by simp_all
    moreover from that have "rev bs \<noteq> []" by auto
    then have "minimal_be (rev bs) \<noteq> []" by simp
    ultimately show ?thesis using length_stored [of s'] by (metis length_greater_0_conv)
  qed
  {
    assume "BerInteger_setUint32 self v = Some (s32, True)"
    then have "setIntegerValue self (le_bytes 4 v @ [0]) 5 = Some (s32, True)"
      by (simp add: BerInteger_setUint32_def le_bytes_def upt_rec)
    note s = st [OF this, simplified]
    have "sval (stored s32) = uint v"
      using s by (simp add: sval_minimal_be uval_le_bytes32)
    moreover from this have "uval (stored s32) = uint v"
      using sval_eq_uval [of "stored s32"] by simp
    ultimately show "BerInteger_toUint32 s32 = Some v" "BerInteger_toInt64 s32 = Some (ucast v)"
      using s by (simp_all add: getters_stored)
  }
  {
    assume "BerInteger_setUint16 self w = Some (s16, True)"
    then have "setIntegerValue self (le_bytes 2 w @ [0]) 3 = Some (s16, True)"
      by (simp add: BerInteger_setUint16_def le_bytes_def upt_rec)
    note s = st [OF this, simplified]
    have "sval (stored s16) = uint w"
      using s le_bytes_value(1) [of 1 w] by (simp add: sval_minimal_be numeral_2_eq_2)
    moreover from this have "uval (stored s16) = uint w"
      using sval_eq_uval [of "stored s16"] by simp
    ultimately show "BerInteger_toUint32 s16 = Some (ucast w)" "BerInteger_toInt32 s16 = Some (ucast w)"
      using s by (simp_all add: getters_stored)
  }
  {
    assume "BerInteger_setUint8 self b = Some (s8, True)"
    then have "setIntegerValue self [b] 1 = Some (s8, True)"
      by (simp add: BerInteger_setUint8_def le_bytes_def)
    note s = st [OF this, simplified]
    then show "BerInteger_toUint32 s8 = Some (ucast b)" "BerInteger_toInt32 s8 = Some (scast b)"
      by (simp_all add: getters_stored)
  }
qed

theorem berInteger_unsigned_roundtrip_witness:
  "BerInteger_toInt32 \<lparr>psize = 1, maxSize = 5, octets = [200, 0, 0, 0, 0]\<rparr> = Some (-56)"
proof -
  let ?s = "\<lparr>psize = 1, maxSize = 5, octets = [0, 0, 0, 0, 0]\<rparr>"
  have "primitive_ok ?s" by (simp add: primitive_ok_def)
  moreover have "BerInteger_setUint8 ?s 200 = Some (\<lparr>psize = 1, maxSize = 5, octets = [200, 0, 0, 0, 0]\<rparr>, True)"
    by code_simp
  ultimately show ?thesis
    using berInteger_unsigned_roundtrip [of ?s 0 ?s 0 ?s 200 "\<lparr>psize = 1, maxSize = 5, octets = [200, 0, 0, 0, 0]\<rparr>"]
    by simp
qed

text \<open>A signed 64 bit integer created as an object, written to a buffer as a BER element
  and read back (length, contents, object) has the same 64 bit value; the element ends where
  the encoder stopped.\<close>

theorem berInteger_wire_roundtrip:
  assumes "BerInteger_createFromInt64 True True v = Some (Ret self)"
    and "BerEncoder_encodeAsn1PrimitiveValue tag self (buf, pos) = Some (buf', pos')" and "pos \<le> length buf"
  shows "\<exists>p l self'. BerDecoder_decodeLength buf' (Suc pos) (length buf') = Some (Ret (p, l)) \<and>
           p + l = pos' \<and> buf' ! pos = tag \<and>
           BerInteger_createFromBuffer True True buf' p l = Some (Ret self') \<and>
           BerInteger_toInt64 self' = Some v"
proof -
  define m where "m = minimal_be (rev (le_bytes 8 v))"
  have m: "sval m = sint v" "0 < length m" "length m \<le> 8"
    using minimal_be_le_bytes [of 7 v] by (simp_all add: m_def)
  obtain s0 where s0: "BerInteger_createInt64 True True = Some (Ret s0)" "primitive_ok s0" "maxSize s0 = 9"
    using create_ok [of 9] by (auto simp: BerInteger_createInt64_def)
  obtain s1 where "BerInteger_setInt64 s0 v = Some (s1, True)" and s1: "primitive_ok s1" "stored s1 = m"
    using setIntegerValue_eq [OF s0(2), of 8 "le_bytes 8 v"] m s0(3)
    by (auto simp: BerInteger_setInt64_def m_def split: if_splits)
  with s0 assms(1) have "self = s1" by (simp add: BerInteger_createFromInt64_def)
  with s1 assms(2,3) have "has buf' pos (ber_tlv tag m)" "pos' = pos + length (ber_tlv tag m)"
    "pos + length (ber_tlv tag m) \<le> length buf'"
    using writes_has [OF writes_encodeAsn1PrimitiveValue, of self pos buf tag buf' pos'] by auto
  moreover from this have "BerDecoder_decodeLength buf' (Suc pos) (length buf') =
      Some (Ret (Suc pos + length (ber_length (length m)), length m))"
    using m(3) by (intro decodeLength_has) (simp_all add: ber_tlv_def)
  moreover from calculation obtain self' where
    "BerInteger_createFromBuffer True True buf' (Suc pos + length (ber_length (length m))) (length m) = Some (Ret self')"
    "primitive_ok self'" "stored self' = m"
    using createFromBuffer_has [of buf' "Suc pos + length (ber_length (length m))" m] m(3)
    by (auto simp: ber_tlv_def)
  moreover from this m have "BerInteger_toInt64 self' = Some v"
    using getters_stored(3) [of self'] length_stored [of self'] by (simp only:) simp
  ultimately show ?thesis by (auto simp: ber_tlv_def)
qed

theorem berInteger_wire_roundtrip_witness:
  "\<exists>p l self'. BerDecoder_decodeLength [2, 2, 0xfe, 0xd4] (Suc 0) (length [2 :: byte, 2, 0xfe, 0xd4]) = Some (Ret (p, l)) \<and> p + l = 4 \<and>
     BerInteger_createFromBuffer True True [2, 2, 0xfe, 0xd4] p l = Some (Ret self') \<and>
     BerInteger_toInt64 self' = Some (-300)"
proof -
  let ?s = "\<lparr>psize = 2, maxSize = 9, octets = [0xfe, 0xd4, 0, 0, 0, 0, 0, 0, 0]\<rparr>"
  have "BerInteger_createFromInt64 True True (-300) = Some (Ret ?s)" by code_simp
  moreover have "BerEncoder_encodeAsn1PrimitiveValue 2 ?s ([0, 0, 0, 0], 0) = Some ([2, 2, 0xfe, 0xd4], 4)"
    by code_simp
  ultimately show ?thesis
    using berInteger_wire_roundtrip [of "-300" ?s 2 "[0, 0, 0, 0]" 0 "[2, 2, 0xfe, 0xd4]" 4] by auto
qed

end
