(* ===== verification/Ber_Oid.thy ===== *)
theory Ber_Oid
  imports Ber_Integer
begin

unbundle bit_operations_syntax

section \<open>Object identifiers\<close>

text \<open>
  Model of \<open>BerEncoder_encodeOIDToBuffer\<close> (\<open>src/mms/asn1/ber_encoder.c\<close>) and
  \<open>BerDecoder_decodeOID\<close> (\<open>src/mms/asn1/ber_decode.c\<close>). A C string is the list of its
  characters before the terminating zero and a \<open>char*\<close> into it is the suffix that starts
  there; \<open>atoi\<close> is undefined (\<open>None\<close>) on numbers that do not fit into an \<open>int\<close>. The encoder
  returns the buffer and the number of bytes, 0 for its error return. The theorems show that
  decoding inverts encoding on the dotted form of an identifier and that decoding is safe.
\<close>

subsection \<open>Library functions on strings\<close>

definition int_range :: "int \<Rightarrow> int option" where
  "int_range v = (if - (2 ^ 31) \<le> v \<and> v < 2 ^ 31 then Some v else None)"

definition isdigit :: "byte \<Rightarrow> bool" where
  "isdigit c \<longleftrightarrow> 48 \<le> c \<and> c \<le> 57"

definition isspace :: "byte \<Rightarrow> bool" where
  "isspace c \<longleftrightarrow> c = 32 \<or> 9 \<le> c \<and> c \<le> 13"

fun atoi_digits :: "byte list \<Rightarrow> int \<Rightarrow> int" where
  "atoi_digits [] v = v"
| "atoi_digits (c # cs) v = (if isdigit c then atoi_digits cs (v * 10 + (uint c - 48)) else v)"

definition atoi :: "byte list \<Rightarrow> int option" where
  "atoi str =
     (case dropWhile isspace str of
        [] \<Rightarrow> Some 0
      | c # cs \<Rightarrow>
          if c = 45 then int_range (- atoi_digits cs 0)
          else if c = 43 then int_range (atoi_digits cs 0)
          else int_range (atoi_digits (c # cs) 0))"

fun strchr :: "byte list \<Rightarrow> byte \<Rightarrow> byte list option" where
  "strchr [] x = None"
| "strchr (c # cs) x = (if c = x then Some (c # cs) else strchr cs x)"

lemma strchr_length: "strchr cs x = Some r \<Longrightarrow> length r \<le> length cs"
  by (induction cs x rule: strchr.induct) (auto split: if_splits)

subsection \<open>The encoder\<close>

function oid_requiredBytes :: "int \<Rightarrow> nat" where
  "oid_requiredBytes val2 = (if 0 < val2 then Suc (oid_requiredBytes (val2 div 128)) else 0)"
  by pat_completeness auto
termination
  by (relation "measure nat") auto

text \<open>The loop that emits \<open>requiredBytes\<close> groups of seven bits; \<open>Fail\<close> is its \<open>return 0\<close>.\<close>

fun oid_groups :: "int \<Rightarrow> nat \<Rightarrow> nat \<Rightarrow> byte list \<Rightarrow> nat \<Rightarrow> (byte list \<times> nat ret) option" where
  "oid_groups val maxBufLen 0 buffer encodedBytes = Some (buffer, Ret encodedBytes)"
| "oid_groups val maxBufLen (Suc n) buffer encodedBytes =
     (let val2 = (val div 2 ^ (7 * n)) mod 128;
          val2 = (if 0 < n then val2 + 128 else val2)
      in if encodedBytes = maxBufLen then Some (buffer, Fail)
         else do {
           buffer \<leftarrow> wr buffer encodedBytes (of_int val2);
           oid_groups val maxBufLen n buffer (Suc encodedBytes) })"

function oid_arcs :: "byte \<Rightarrow> nat \<Rightarrow> byte list \<Rightarrow> byte list \<Rightarrow> nat \<Rightarrow> (byte list \<times> nat) option" where
  "oid_arcs sepChar maxBufLen separator buffer encodedBytes =
     (case strchr (tl separator) sepChar of
        None \<Rightarrow> Some (buffer, encodedBytes)
      | Some [] \<Rightarrow> None
      | Some (c # cs) \<Rightarrow> do {
          val \<leftarrow> atoi cs;
          if val = 0 then do {
            buffer \<leftarrow> wr buffer encodedBytes 0;
            oid_arcs sepChar maxBufLen (c # cs) buffer (Suc encodedBytes) }
          else do {
            (buffer, r) \<leftarrow> oid_groups val maxBufLen (oid_requiredBytes val) buffer encodedBytes;
            (case r of
               Fail \<Rightarrow> Some (buffer, 0)
             | Ret encodedBytes \<Rightarrow> oid_arcs sepChar maxBufLen (c # cs) buffer encodedBytes) } })"
  by pat_completeness auto
termination
proof (relation "measure (\<lambda>(sepChar, maxBufLen, separator, buffer, encodedBytes). length separator)", goal_cases)
  case (2 sepChar maxBufLen separator)
  then show ?case by (cases separator) (auto dest: strchr_length)
next
  case (3 sepChar maxBufLen separator)
  then show ?case by (cases separator) (auto dest: strchr_length)
qed simp

definition BerEncoder_encodeOIDToBuffer :: "byte list \<Rightarrow> byte list \<Rightarrow> nat \<Rightarrow> (byte list \<times> nat) option" where
  "BerEncoder_encodeOIDToBuffer oidString buffer maxBufLen = do {
     x \<leftarrow> atoi oidString;
     let (sepChar, separator) =
       (case strchr oidString 46 of
          Some s \<Rightarrow> (46, Some s)
        | None \<Rightarrow> (case strchr oidString 44 of
            Some s \<Rightarrow> (44, Some s)
          | None \<Rightarrow> (32, strchr oidString 32)));
     (case separator of
        None \<Rightarrow> Some (buffer, 0)
      | Some separator \<Rightarrow> do {
          y \<leftarrow> atoi (tl separator);
          x40 \<leftarrow> int_range (x * 40);
          val \<leftarrow> int_range (x40 + y);
          if 0 < maxBufLen then do {
            buffer \<leftarrow> wr buffer 0 (of_int val);
            oid_arcs sepChar maxBufLen separator buffer 1 }
          else Some (buffer, 0) }) }"

subsection \<open>The decoder\<close>

record ItuObjectIdentifier =
  arc :: "16 word list"
  arcCount :: nat

function decodeOID_loop :: "byte list \<Rightarrow> nat \<Rightarrow> nat \<Rightarrow> 16 word list \<Rightarrow> nat \<Rightarrow> ItuObjectIdentifier option" where
  "decodeOID_loop buffer bufPos endPos arcs currentArc =
     (if bufPos < endPos \<and> currentArc < 10 then do {
        b \<leftarrow> rd buffer bufPos;
        let arcs = arcs[currentArc := push_bit 7 (arcs ! currentArc)];
        if b < 0x80
        then decodeOID_loop buffer (Suc bufPos) endPos
               (arcs[currentArc := arcs ! currentArc + ucast b]) (Suc currentArc)
        else decodeOID_loop buffer (Suc bufPos) endPos
               (arcs[currentArc := arcs ! currentArc + ucast (b AND 0x7f)]) currentArc }
      else Some \<lparr>arc = arcs, arcCount = currentArc\<rparr>)"
  by pat_completeness auto
termination
  by (relation "measure (\<lambda>(buffer, bufPos, endPos, arcs, currentArc). endPos - bufPos)") auto

definition BerDecoder_decodeOID :: "byte list \<Rightarrow> nat \<Rightarrow> nat \<Rightarrow> ItuObjectIdentifier option" where
  "BerDecoder_decodeOID buffer bufPos len = do {
     let arcs = replicate 10 0;
     if 0 < len then do {
       b \<leftarrow> rd buffer bufPos;
       let arcs = arcs[0 := ucast (b div 40), 1 := ucast (b mod 40)];
       decodeOID_loop buffer (Suc bufPos) (bufPos + len) arcs 2 }
     else decodeOID_loop buffer bufPos (bufPos + len) arcs 0 }"

declare oid_requiredBytes.simps [simp del]
declare oid_arcs.simps [simp del]
declare decodeOID_loop.simps [simp del]

subsection \<open>Decoding is safe\<close>

lemma decodeOID_loop_safe:
  "endPos \<le> length buffer \<Longrightarrow> length arcs = 10 \<Longrightarrow> currentArc \<le> 10 \<Longrightarrow>
   \<exists>oid. decodeOID_loop buffer bufPos endPos arcs currentArc = Some oid \<and>
     length (arc oid) = 10 \<and> arcCount oid \<le> 10"
proof (induction buffer bufPos endPos arcs currentArc rule: decodeOID_loop.induct)
  case (1 buffer bufPos endPos arcs currentArc)
  show ?case
  proof (cases "bufPos < endPos \<and> currentArc < 10")
    case True
    let ?b = "buffer ! bufPos" and ?arcs = "arcs[currentArc := push_bit 7 (arcs ! currentArc)]"
    from True "1.prems" have rd: "rd buffer bufPos = Some ?b" by simp
    show ?thesis
    proof (cases "?b < 0x80")
      case less: True
      with "1.IH"(1) [OF True rd refl less] "1.prems" True rd show ?thesis
        by (subst decodeOID_loop.simps) (simp add: Let_def)
    next
      case False
      with "1.IH"(2) [OF True rd refl False] "1.prems" True rd show ?thesis
        by (subst decodeOID_loop.simps) (simp add: Let_def)
    qed
  next
    case False
    with "1.prems" show ?thesis by (subst decodeOID_loop.simps) (simp only: if_False, simp)
  qed
qed

subsection \<open>Base 128 groups\<close>

fun base128 :: "int \<Rightarrow> nat \<Rightarrow> byte list" where
  "base128 v 0 = []"
| "base128 v (Suc n) =
     of_int (v div 2 ^ (7 * n) mod 128 + (if 0 < n then 128 else 0)) # base128 v n"

lemma length_base128 [simp]: "length (base128 v n) = n"
  by (induction n) simp_all

lemma oid_groups_eq:
  "encodedBytes + n \<le> maxBufLen \<Longrightarrow> maxBufLen \<le> length buffer \<Longrightarrow>
   oid_groups v maxBufLen n buffer encodedBytes =
     Some (patch buffer encodedBytes (base128 v n), Ret (encodedBytes + n))"
proof (induction n arbitrary: buffer encodedBytes)
  case (Suc n)
  let ?b = "of_int (v div 2 ^ (7 * n) mod 128 + (if 0 < n then 128 else 0)) :: byte"
  have "oid_groups v maxBufLen (Suc n) buffer encodedBytes =
      oid_groups v maxBufLen n (buffer[encodedBytes := ?b]) (Suc encodedBytes)"
    using Suc.prems by (simp add: Let_def)
  also have "\<dots> = Some (patch (buffer[encodedBytes := ?b]) (Suc encodedBytes) (base128 v n), Ret (Suc encodedBytes + n))"
    using Suc.prems by (intro Suc.IH) simp_all
  also have "patch (buffer[encodedBytes := ?b]) (Suc encodedBytes) (base128 v n) =
      patch buffer encodedBytes (base128 v (Suc n))"
    using Suc.prems patch_patch [of encodedBytes "[?b]" "base128 v n" buffer] patch_single [of encodedBytes buffer ?b]
    by simp
  finally show ?case by simp
qed simp

lemma requiredBytes_bound: "0 \<le> v \<Longrightarrow> v < 128 ^ oid_requiredBytes v"
proof (induction v rule: oid_requiredBytes.induct)
  case (1 v)
  show ?case
  proof (cases "0 < v")
    case True
    with 1 have "v div 128 < 128 ^ oid_requiredBytes (v div 128)" by simp
    then have "v < 128 ^ oid_requiredBytes (v div 128) * 128" by (simp add: div_less_iff_less_mult)
    with True show ?thesis by (simp add: oid_requiredBytes.simps [of v] mult.commute)
  qed (use 1 in \<open>simp add: oid_requiredBytes.simps [of v]\<close>)
qed

lemma requiredBytes_pos: "0 < v \<Longrightarrow> 0 < oid_requiredBytes v"
  by (simp add: oid_requiredBytes.simps [of v])

lemma high_byte:
  assumes "0 \<le> x" "x < 128"
  shows "\<not> (of_int (x + 128) :: byte) < 0x80" and "ucast ((of_int (x + 128) :: byte) AND 0x7f) = (of_int x :: 16 word)"
    and "(of_int x :: byte) < 0x80" and "ucast (of_int x :: byte) = (of_int x :: 16 word)"
proof -
  have u: "uint (of_int (x + 128) :: byte) = x + 128" "uint (of_int x :: byte) = x"
    unfolding uint_word_of_int_eq using assms by (simp_all add: take_bit_eq_mod)
  show "\<not> (of_int (x + 128) :: byte) < 0x80" "(of_int x :: byte) < 0x80"
    unfolding word_less_def u using assms by simp_all
  have "uint ((of_int (x + 128) :: byte) AND 0x7f) = (x + 128) AND 0x7f"
    using u(1) by (simp only: uint_and) simp
  also have "\<dots> = (x + 128) AND mask 7" by (simp add: mask_eq_exp_minus_1)
  also have "\<dots> = (x + 128) mod 128" by (simp add: take_bit_eq_mask [symmetric] take_bit_eq_mod)
  also have "\<dots> = x" using assms by simp
  finally show "ucast ((of_int (x + 128) :: byte) AND 0x7f) = (of_int x :: 16 word)"
    by (simp add: ucast_eq)
  show "ucast (of_int x :: byte) = (of_int x :: 16 word)"
    using u(2) by (simp add: ucast_eq)
qed

lemma decodeOID_loop_groups:
  "has buffer pos (base128 v n) \<Longrightarrow> pos + n \<le> endPos \<Longrightarrow> 0 < n \<Longrightarrow> k < 10 \<Longrightarrow> length arcs = 10 \<Longrightarrow> 0 \<le> v \<Longrightarrow>
   decodeOID_loop buffer pos endPos arcs k =
     decodeOID_loop buffer (pos + n) endPos (arcs[k := arcs ! k * of_int (128 ^ n) + of_int (v mod 128 ^ n)]) (Suc k)"
proof (induction n arbitrary: pos arcs)
  case (Suc n)
  let ?x = "v div 2 ^ (7 * n) mod 128"
  have p: "(2 :: int) ^ (7 * n) = 128 ^ n" by (simp add: power_mult)
  have x: "0 \<le> ?x" "?x < 128" by simp_all
  have sp: "v mod 128 ^ Suc n = ?x * 128 ^ n + v mod 128 ^ n"
    unfolding p using zmod_zmult2_eq [of 128 v "128 ^ n"] by (simp add: mult.commute)
  let ?arcs = "arcs[k := push_bit 7 (arcs ! k) + of_int ?x]"
  have pb: "push_bit 7 a = a * 128" for a :: "16 word" by (simp add: push_bit_eq_mult)
  show ?case
  proof (cases n)
    case 0
    with Suc.prems high_byte [OF x] show ?thesis
      by (subst decodeOID_loop.simps) (simp add: Let_def pb)
  next
    case (Suc m)
    with Suc.prems high_byte [OF x] have "decodeOID_loop buffer pos endPos arcs k =
        decodeOID_loop buffer (Suc pos) endPos ?arcs k"
      by (subst decodeOID_loop.simps) (simp add: Let_def)
    also have "\<dots> = decodeOID_loop buffer (Suc pos + n) endPos
        (?arcs[k := ?arcs ! k * of_int (128 ^ n) + of_int (v mod 128 ^ n)]) (Suc k)"
      using Suc.prems Suc by (intro Suc.IH) simp_all
    also have "?arcs[k := ?arcs ! k * of_int (128 ^ n) + of_int (v mod 128 ^ n)] =
        arcs[k := arcs ! k * of_int (128 ^ Suc n) + of_int (v mod 128 ^ Suc n)]"
      using Suc.prems unfolding sp by (simp add: pb algebra_simps)
    finally show ?thesis by simp
  qed
qed simp

subsection \<open>Numbers and identifiers as text\<close>

function dec_str :: "nat \<Rightarrow> byte list" where
  "dec_str n = (if n < 10 then [of_nat (48 + n)] else dec_str (n div 10) @ [of_nat (48 + n mod 10)])"
  by pat_completeness auto
termination
  by (relation "measure id") auto

declare dec_str.simps [simp del]

text \<open>The dotted form of an identifier.\<close>

fun dotted :: "nat list \<Rightarrow> byte list" where
  "dotted [] = []"
| "dotted (a # as) = 46 # dec_str a @ dotted as"

definition oid_string :: "nat list \<Rightarrow> byte list" where
  "oid_string as = (case as of [] \<Rightarrow> [] | a # as \<Rightarrow> dec_str a @ dotted as)"

lemma digit_byte:
  assumes "d < 10"
  shows "uint (of_nat (48 + d) :: byte) = 48 + int d" and "isdigit (of_nat (48 + d))"
proof -
  show u: "uint (of_nat (48 + d) :: byte) = 48 + int d"
    unfolding unsigned_of_nat using assms by (simp add: take_bit_eq_mod)
  show "isdigit (of_nat (48 + d))"
    unfolding isdigit_def word_le_def u using assms by simp
qed

lemma dec_str_digits: "list_all isdigit (dec_str n)"
proof (induction n rule: dec_str.induct)
  case (1 n)
  then show ?case
    using digit_byte(2) [of n] digit_byte(2) [of "n mod 10"] by (subst dec_str.simps) simp
qed

lemma dec_str_nonempty [simp]: "dec_str n \<noteq> []"
  by (subst dec_str.simps) simp

lemma atoi_digits_append:
  "list_all isdigit xs \<Longrightarrow> atoi_digits (xs @ ys) v = atoi_digits ys (atoi_digits xs v)"
  by (induction xs arbitrary: v) simp_all

lemma atoi_digits_dec_str: "atoi_digits (dec_str n) 0 = int n"
proof (induction n rule: dec_str.induct)
  case (1 n)
  show ?case
  proof (cases "n < 10")
    case True
    then show ?thesis using digit_byte [OF True] by (simp add: dec_str.simps [of n])
  next
    case False
    have "atoi_digits (dec_str n) 0 = atoi_digits [of_nat (48 + n mod 10)] (atoi_digits (dec_str (n div 10)) 0)"
      using False atoi_digits_append [OF dec_str_digits] by (simp only: dec_str.simps [of n] if_False)
    moreover have "int (n div 10) * 10 + int (n mod 10) = int n" by presburger
    ultimately show ?thesis using False 1 digit_byte [of "n mod 10"] by simp
  qed
qed

lemma digit_not_special: "isdigit c \<Longrightarrow> \<not> isspace c \<and> c \<noteq> 45 \<and> c \<noteq> 43 \<and> c \<noteq> 46"
  by (auto simp: isdigit_def isspace_def word_le_def)

lemma atoi_dec_str:
  assumes "rest = [] \<or> hd rest = 46" and "n < 2 ^ 31"
  shows "atoi (dec_str n @ rest) = Some (int n)"
proof -
  obtain c cs where d: "dec_str n = c # cs" by (cases "dec_str n") auto
  with dec_str_digits [of n] have "isdigit c" by simp
  note c = digit_not_special [OF this]
  have "atoi_digits rest v = v" for v
    using assms(1) digit_not_special [of 46] by (cases rest) (auto simp: isdigit_def)
  then have "atoi_digits (dec_str n @ rest) 0 = int n"
    by (simp add: atoi_digits_append [OF dec_str_digits] atoi_digits_dec_str)
  with c assms(2) show ?thesis by (simp add: atoi_def d int_range_def)
qed

lemma strchr_dec_str: "strchr (dec_str n @ rest) 46 = strchr rest 46"
proof -
  have "strchr (xs @ rest) 46 = strchr rest 46" if "list_all isdigit xs" for xs
    using that digit_not_special by (induction xs) auto
  with dec_str_digits show ?thesis by blast
qed

subsection \<open>The whole identifier\<close>

definition arc_bytes :: "nat \<Rightarrow> byte list" where
  "arc_bytes a = base128 (int a) (max 1 (oid_requiredBytes (int a)))"

lemma length_arc_bytes: "length (arc_bytes a) = max 1 (oid_requiredBytes (int a))"
  by (simp add: arc_bytes_def)

lemma arc_bytes_0: "arc_bytes 0 = [0]"
  by (simp add: arc_bytes_def oid_requiredBytes.simps [of 0])

lemma oid_arcs_eq:
  "e + length (concat (map arc_bytes as)) \<le> maxBufLen \<Longrightarrow> maxBufLen \<le> length buffer \<Longrightarrow> list_all (\<lambda>a. a < 2 ^ 31) as \<Longrightarrow>
   oid_arcs 46 maxBufLen (dotted (a # as)) buffer e =
     Some (patch buffer e (concat (map arc_bytes as)), e + length (concat (map arc_bytes as)))"
proof (induction as arbitrary: a buffer e)
  case Nil
  then show ?case using strchr_dec_str [of a "[]"] by (subst oid_arcs.simps) simp
next
  case (Cons b as)
  let ?bs = "arc_bytes b"
  have sep: "strchr (tl (dotted (a # b # as))) 46 = Some (46 # dec_str b @ dotted as)"
    by (simp add: strchr_dec_str)
  have at: "atoi (dec_str b @ dotted as) = Some (int b)"
    using Cons.prems by (intro atoi_dec_str) (cases as, auto)
  have "oid_arcs 46 maxBufLen (dotted (a # b # as)) buffer e =
      oid_arcs 46 maxBufLen (dotted (b # as)) (patch buffer e ?bs) (e + length ?bs)"
  proof (cases "b = 0")
    case True
    with sep at Cons.prems show ?thesis
      by (subst oid_arcs.simps) (simp add: arc_bytes_0 patch_single)
  next
    case False
    then have "max 1 (oid_requiredBytes (int b)) = oid_requiredBytes (int b)"
      using requiredBytes_pos [of "int b"] by simp
    with False sep at Cons.prems show ?thesis
      by (subst oid_arcs.simps) (simp add: oid_groups_eq arc_bytes_def)
  qed
  also have "\<dots> = Some (patch (patch buffer e ?bs) (e + length ?bs) (concat (map arc_bytes as)),
      e + length ?bs + length (concat (map arc_bytes as)))"
    using Cons.prems by (intro Cons.IH) simp_all
  finally show ?case using Cons.prems by (simp add: patch_patch)
qed

lemma decodeOID_arcs:
  "has buffer pos (concat (map arc_bytes as)) \<Longrightarrow> endPos = pos + length (concat (map arc_bytes as)) \<Longrightarrow>
   length pre + length as \<le> 10 \<Longrightarrow>
   decodeOID_loop buffer pos endPos (pre @ replicate (10 - length pre) 0) (length pre) =
     Some \<lparr>arc = pre @ map of_nat as @ replicate (10 - length pre - length as) 0,
           arcCount = length pre + length as\<rparr>"
proof (induction as arbitrary: pos pre)
  case Nil
  then show ?case by (subst decodeOID_loop.simps) simp
next
  case (Cons a as)
  let ?n = "length (arc_bytes a)"
  have n: "0 < ?n" by (simp add: length_arc_bytes)
  have "int a < 128 ^ oid_requiredBytes (int a)" by (rule requiredBytes_bound) simp
  also have "(128 :: int) ^ oid_requiredBytes (int a) \<le> 128 ^ ?n"
    unfolding length_arc_bytes by (intro power_increasing) simp_all
  finally have bnd: "int a mod 128 ^ ?n = int a" by simp
  have up: "(pre @ replicate (10 - length pre) 0)[length pre := of_nat a] =
      (pre @ [of_nat a]) @ replicate (10 - length (pre @ [of_nat a])) (0 :: 16 word)"
    using Cons.prems by (cases "10 - length pre") (simp_all add: list_update_append)
  have z: "(pre @ replicate (10 - length pre) 0) ! length pre = (0 :: 16 word)"
    using Cons.prems by (simp add: nth_append)
  have "decodeOID_loop buffer pos endPos (pre @ replicate (10 - length pre) 0) (length pre) =
      decodeOID_loop buffer (pos + ?n) endPos ((pre @ replicate (10 - length pre) 0)[length pre := of_nat a])
        (Suc (length pre))"
  proof -
    have "arc_bytes a = base128 (int a) ?n" by (simp add: arc_bytes_def)
    with Cons.prems n show ?thesis
      using decodeOID_loop_groups [of buffer pos "int a" ?n endPos "length pre" "pre @ replicate (10 - length pre) 0"]
      by (simp add: z bnd)
  qed
  also have "\<dots> = Some \<lparr>arc = (pre @ [of_nat a]) @ map of_nat as @ replicate (10 - length (pre @ [of_nat a :: 16 word]) - length as) 0,
           arcCount = length (pre @ [of_nat a :: 16 word]) + length as\<rparr>"
    unfolding up using Cons.prems Cons.IH [of "pos + ?n" "pre @ [of_nat a]"] by simp
  finally show ?case by simp
qed

lemma encode_decode_oid:
  assumes "a * 40 + b < 256" and "b < 40" and "list_all (\<lambda>c. c < 2 ^ 16) cs" and "length cs \<le> 8"
    and "1 + (\<Sum>c\<leftarrow>cs. max 1 (oid_requiredBytes (int c))) \<le> maxBufLen" and "maxBufLen \<le> length buffer"
  shows "\<exists>buf' n. BerEncoder_encodeOIDToBuffer (oid_string (a # b # cs)) buffer maxBufLen = Some (buf', n) \<and>
           length buf' = length buffer \<and> n \<le> maxBufLen \<and>
           BerDecoder_decodeOID buf' 0 n =
             Some \<lparr>arc = map of_nat (a # b # cs) @ replicate (8 - length cs) 0, arcCount = 2 + length cs\<rparr>"
proof -
  define v :: byte where "v = of_int (int a * 40 + int b)"
  let ?c = "concat (map arc_bytes cs)"
  have len: "length ?c = (\<Sum>c\<leftarrow>cs. max 1 (oid_requiredBytes (int c)))"
    by (simp add: length_concat comp_def length_arc_bytes)
  have ne: "0 < length buffer" using assms(5,6) by linarith
  have small: "a < 2 ^ 31" "b < 2 ^ 31" using assms(1,2) by simp_all
  have ar: "int_range (int a * 40) = Some (int a * 40)" "int_range (int a * 40 + int b) = Some (int a * 40 + int b)"
    using assms(1) by (simp_all add: int_range_def)
  have "atoi (oid_string (a # b # cs)) = Some (int a)"
    unfolding oid_string_def list.case by (rule atoi_dec_str) (use small in simp_all)
  moreover have "strchr (oid_string (a # b # cs)) 46 = Some (dotted (b # cs))"
    by (simp add: oid_string_def strchr_dec_str)
  moreover have "atoi (tl (dotted (b # cs))) = Some (int b)"
    using atoi_dec_str [of "dotted cs" b] small by (cases cs) simp_all
  moreover have "oid_arcs 46 maxBufLen (dotted (b # cs)) (buffer[0 := v]) 1 =
      Some (patch (buffer[0 := v]) 1 ?c, 1 + length ?c)"
    using assms by (intro oid_arcs_eq) (force simp: len list_all_iff)+
  moreover have "patch (buffer[0 := v]) 1 ?c = patch buffer 0 (v # ?c)"
    using patch_patch [of 0 "[v]" ?c buffer] patch_single [OF ne, of v] assms len by simp
  ultimately have enc: "BerEncoder_encodeOIDToBuffer (oid_string (a # b # cs)) buffer maxBufLen =
      Some (patch buffer 0 (v # ?c), 1 + length ?c)"
    using assms(5,6) ar unfolding v_def by (simp add: BerEncoder_encodeOIDToBuffer_def wr_Some [OF ne])
  have has: "has (patch buffer 0 (v # ?c)) 0 (v # ?c)"
    using assms(5,6) len by (intro has_patch) simp
  have u: "uint v = int a * 40 + int b"
    unfolding v_def uint_word_of_int_eq using assms(1) by (simp add: take_bit_eq_mod)
  have "uint (v div 40) = int a" "uint (v mod 40) = int b"
    unfolding uint_div_distrib uint_mod_distrib u using assms(2) by simp_all
  then have dm: "ucast (v div 40) = (of_nat a :: 16 word)" "ucast (v mod 40) = (of_nat b :: 16 word)"
    by (simp_all only: ucast_eq) simp_all
  have rep: "(replicate 10 0 :: 16 word list)[0 := of_nat a, Suc 0 := of_nat b] =
      [of_nat a, of_nat b] @ replicate (10 - length [of_nat a :: 16 word, of_nat b]) 0"
    by (simp add: numeral_eq_Suc)
  have "BerDecoder_decodeOID (patch buffer 0 (v # ?c)) 0 (1 + length ?c) =
      decodeOID_loop (patch buffer 0 (v # ?c)) 1 (1 + length ?c)
        ([of_nat a, of_nat b] @ replicate (10 - length [of_nat a :: 16 word, of_nat b]) 0)
        (length [of_nat a :: 16 word, of_nat b])"
    using has unfolding rep [symmetric] by (simp add: BerDecoder_decodeOID_def Let_def dm numeral_2_eq_2)
  also have "\<dots> = Some \<lparr>arc = map of_nat (a # b # cs) @ replicate (8 - length cs) 0, arcCount = 2 + length cs\<rparr>"
    using has assms(4) by (subst decodeOID_arcs) simp_all
  finally have "BerDecoder_decodeOID (patch buffer 0 (v # ?c)) 0 (1 + length ?c) =
      Some \<lparr>arc = map of_nat (a # b # cs) @ replicate (8 - length cs) 0, arcCount = 2 + length cs\<rparr>" .
  moreover have "length (patch buffer 0 (v # ?c)) = length buffer" "1 + length ?c \<le> maxBufLen"
    using assms(5,6) len by (auto intro!: length_patch)
  ultimately show ?thesis using enc by blast
qed

subsection \<open>Properties\<close>

text \<open>Decoding an object identifier reads only the announced bytes, returns, and fills
  at most the 10 arcs of the result.\<close>

theorem decodeOID_safe:
  assumes "bufPos + len \<le> length buffer"
  shows "\<exists>oid. BerDecoder_decodeOID buffer bufPos len = Some oid \<and> length (arc oid) = 10 \<and> arcCount oid \<le> 10"
  using assms decodeOID_loop_safe [of "bufPos + len" buffer]
  by (cases "len = 0") (auto simp: BerDecoder_decodeOID_def Let_def)

theorem decodeOID_safe_witness:
  "\<exists>oid. BerDecoder_decodeOID [0x28, 0xca, 0x22, 2, 3] 0 5 = Some oid \<and> length (arc oid) = 10 \<and> arcCount oid \<le> 10"
  using decodeOID_safe [of 0 5 "[0x28, 0xca, 0x22, 2, 3]"] by simp

text \<open>C40: An object identifier of 2 to 10 arcs whose first two arcs share one byte, given in
  dotted notation, is encoded into the buffer and decoded to the same arcs.\<close>

theorem oid_roundtrip:
  assumes "a * 40 + b < 256" and "b < 40" and "list_all (\<lambda>c. c < 2 ^ 16) cs" and "length cs \<le> 8"
    and "1 + (\<Sum>c\<leftarrow>cs. max 1 (oid_requiredBytes (int c))) \<le> maxBufLen" and "maxBufLen \<le> length buffer"
  shows "\<exists>buf' n. BerEncoder_encodeOIDToBuffer (oid_string (a # b # cs)) buffer maxBufLen = Some (buf', n) \<and>
           BerDecoder_decodeOID buf' 0 n =
             Some \<lparr>arc = map of_nat (a # b # cs) @ replicate (8 - length cs) 0, arcCount = 2 + length cs\<rparr>"
  using encode_decode_oid [OF assms] by blast

theorem oid_roundtrip_witness:
  "\<exists>buf' n. BerEncoder_encodeOIDToBuffer (oid_string [1, 0, 9506, 2, 3]) (replicate 10 0) 10 = Some (buf', n) \<and>
     BerDecoder_decodeOID buf' 0 n = Some \<lparr>arc = [1, 0, 9506, 2, 3] @ replicate 5 0, arcCount = 5\<rparr>"
proof -
  have b: "oid_requiredBytes 9506 = 2" "oid_requiredBytes 2 = 1" "oid_requiredBytes 3 = 1" by code_simp+
  have "1 + (\<Sum>c\<leftarrow>[9506, 2, 3]. max 1 (oid_requiredBytes (int c))) \<le> 10"
    by (simp add: b)
  with oid_roundtrip [of 1 0 "[9506, 2, 3]" 10 "replicate 10 0"] show ?thesis by simp
qed

text \<open>An arc with the value 0 is stored without the check against \<open>maxBufLen\<close> that
  every other arc gets: encoding \<open>a.b.0\<close> into a buffer with room for one byte only, announced
  as such, writes behind its end.\<close>

theorem oid_zero_arc_overflow:
  assumes "a * 40 + b < 256"
  shows "BerEncoder_encodeOIDToBuffer (oid_string [a, b, 0]) [x] 1 = None"
proof -
  have small: "a < 2 ^ 31" "b < 2 ^ 31" using assms by simp_all
  have "atoi (oid_string [a, b, 0]) = Some (int a)"
    unfolding oid_string_def list.case by (rule atoi_dec_str) (use small in simp_all)
  moreover have "strchr (oid_string [a, b, 0]) 46 = Some (46 # dec_str b @ 46 # dec_str 0)"
    by (simp add: oid_string_def strchr_dec_str)
  moreover have "atoi (dec_str b @ 46 # dec_str 0) = Some (int b)"
    using atoi_dec_str [of "46 # dec_str 0" b] small by simp
  moreover have "oid_arcs 46 1 (46 # dec_str b @ 46 # dec_str 0) [y] 1 = None" for y
    using atoi_dec_str [of "[]" 0] by (subst oid_arcs.simps) (simp add: strchr_dec_str wr_def)
  ultimately show ?thesis
    using assms by (simp add: BerEncoder_encodeOIDToBuffer_def int_range_def)
qed

theorem oid_zero_arc_overflow_witness:
  "BerEncoder_encodeOIDToBuffer (oid_string [1, 3, 0]) [0] 1 = None"
  using oid_zero_arc_overflow [of 1 3 0] by simp

end
