(* ===== verification/Byte_Buffer.thy ===== *)
theory Byte_Buffer
  imports Prelude
begin

section \<open>Byte buffers and buffer chains\<close>

text \<open>
  Model of \<open>src/common/byte_buffer.c\<close> and \<open>src/common/buffer_chain.c\<close>. A \<open>ByteBuffer\<close> is a
  record; its \<open>bb_buffer\<close> is the memory from the \<open>buffer\<close> pointer on, so that wrapping a
  pointer into the middle of an array drops the cells before it. A \<open>BufferChain\<close> is a
  datatype with an optional next part; \<open>chain_bytes\<close> is the message it stands for. The
  locale \<open>layer\<close> states what every protocol layer promises of the function that puts its
  header in front of a payload; the locale \<open>layers\<close> composes two of them.
\<close>

subsection \<open>Byte buffers\<close>

record ByteBuffer =
  bb_buffer :: "byte list"
  bb_maxSize :: nat
  bb_size :: nat

definition ByteBuffer_create :: "bool \<Rightarrow> nat \<Rightarrow> ByteBuffer ret" where
  "ByteBuffer_create mem maxSize =
     (if mem then Ret \<lparr>bb_buffer = replicate maxSize 0, bb_maxSize = maxSize, bb_size = 0\<rparr> else Fail)"

definition ByteBuffer_wrap :: "byte list \<Rightarrow> nat \<Rightarrow> nat \<Rightarrow> nat \<Rightarrow> ByteBuffer" where
  "ByteBuffer_wrap buf off sz maxSize = \<lparr>bb_buffer = drop off buf, bb_maxSize = maxSize, bb_size = sz\<rparr>"

text \<open>The C result \<open>-1\<close> of a failing \<open>ByteBuffer_append\<close> is \<open>Fail\<close>.\<close>

definition ByteBuffer_append :: "ByteBuffer \<Rightarrow> byte list \<Rightarrow> nat \<Rightarrow> nat \<Rightarrow> (ByteBuffer \<times> nat ret) option" where
  "ByteBuffer_append self dat off dataSize =
     (if bb_size self + dataSize \<le> bb_maxSize self then do {
        buf \<leftarrow> memcpy (bb_buffer self) (bb_size self) dat off dataSize;
        Some (self\<lparr>bb_buffer := buf, bb_size := bb_size self + dataSize\<rparr>, Ret dataSize) }
      else Some (self, Fail))"

definition ByteBuffer_appendByte :: "ByteBuffer \<Rightarrow> byte \<Rightarrow> (ByteBuffer \<times> nat) option" where
  "ByteBuffer_appendByte self b =
     (if bb_size self < bb_maxSize self then do {
        buf \<leftarrow> wr (bb_buffer self) (bb_size self) b;
        Some (self\<lparr>bb_buffer := buf, bb_size := Suc (bb_size self)\<rparr>, 1) }
      else Some (self, 0))"

definition ByteBuffer_setSize :: "ByteBuffer \<Rightarrow> nat \<Rightarrow> ByteBuffer \<times> nat" where
  "ByteBuffer_setSize self sz =
     (let self = (if sz \<le> bb_maxSize self then self\<lparr>bb_size := sz\<rparr> else self) in (self, bb_size self))"

subsection \<open>Buffer chains\<close>

datatype bufferChain =
  BufferChain (ch_length: nat) (ch_partLength: nat) (ch_partMaxLength: nat)
    (ch_buffer: "byte list") (ch_nextPart: "bufferChain option")

definition BufferChain_init :: "nat \<Rightarrow> nat \<Rightarrow> bufferChain option \<Rightarrow> byte list \<Rightarrow> bufferChain" where
  "BufferChain_init len partLength nextPart buf = BufferChain len partLength partLength buf nextPart"

text \<open>The three assignments every layer ends with: \<open>partLength = bufPos\<close>,
  \<open>length = bufPos + payload->length\<close>, \<open>nextPart = payload\<close>, on a chain element whose buffer
  now holds \<open>buf\<close>.\<close>

definition chain_finish :: "bufferChain \<Rightarrow> byte list \<Rightarrow> nat \<Rightarrow> bufferChain \<Rightarrow> bufferChain" where
  "chain_finish self buf bufPos payload =
     BufferChain (bufPos + ch_length payload) bufPos (ch_partMaxLength self) buf (Some payload)"

subsection \<open>Abstract contents\<close>

definition bb_ok :: "ByteBuffer \<Rightarrow> bool" where
  "bb_ok self \<longleftrightarrow> bb_size self \<le> bb_maxSize self \<and> bb_maxSize self \<le> length (bb_buffer self)"

definition bb_bytes :: "ByteBuffer \<Rightarrow> byte list" where
  "bb_bytes self = take (bb_size self) (bb_buffer self)"

fun chain_bytes :: "bufferChain \<Rightarrow> byte list" where
  "chain_bytes (BufferChain len n m buf next) =
     take n buf @ (case next of None \<Rightarrow> [] | Some c \<Rightarrow> chain_bytes c)"

fun chain_ok :: "bufferChain \<Rightarrow> bool" where
  "chain_ok (BufferChain len n m buf next) \<longleftrightarrow>
     n \<le> length buf \<and> len = n + (case next of None \<Rightarrow> 0 | Some c \<Rightarrow> ch_length c) \<and>
     (case next of None \<Rightarrow> True | Some c \<Rightarrow> chain_ok c)"

lemma length_bb_bytes: "bb_ok self \<Longrightarrow> length (bb_bytes self) = bb_size self"
  by (simp add: bb_ok_def bb_bytes_def)

lemma length_chain_bytes: "chain_ok c \<Longrightarrow> length (chain_bytes c) = ch_length c"
proof (induction c rule: chain_bytes.induct)
  case (1 len n m buf nxt)
  then show ?case by (cases nxt) auto
qed

lemma bb_has: "bb_ok m \<Longrightarrow> has (bb_buffer m) 0 (bb_bytes m)"
  by (simp add: has_def bb_bytes_def bb_ok_def)

lemma wrap_bytes: "bb_bytes (ByteBuffer_wrap (bb_buffer m) off (bb_size m - off) k) = drop off (bb_bytes m)"
  by (simp add: bb_bytes_def ByteBuffer_wrap_def drop_take)

lemma suffix_bytes:
  assumes "bb_ok m" and "bb_bytes m = hdr @ dat"
  shows "bb_bytes (ByteBuffer_wrap (bb_buffer m) (bb_size m - length dat) (length dat) k) = dat"
proof -
  have "bb_size m = length hdr + length dat" using length_bb_bytes [OF assms(1)] assms(2) by simp
  then show ?thesis using wrap_bytes [of m "length hdr" k] assms(2) by simp
qed

lemma BufferChain_init_ok:
  "n \<le> length buf \<Longrightarrow> chain_ok (BufferChain_init n n None buf) \<and>
     chain_bytes (BufferChain_init n n None buf) = take n buf \<and> ch_length (BufferChain_init n n None buf) = n"
  by (simp add: BufferChain_init_def)

lemma append_ok:
  assumes "bb_ok self" and "off + n \<le> length dat"
  shows "\<exists>self' r. ByteBuffer_append self dat off n = Some (self', r) \<and> bb_ok self' \<and>
           bb_maxSize self' = bb_maxSize self \<and>
           (if bb_size self + n \<le> bb_maxSize self
            then r = Ret n \<and> bb_bytes self' = bb_bytes self @ take n (drop off dat)
            else r = Fail \<and> self' = self)"
proof (cases "bb_size self + n \<le> bb_maxSize self")
  case True
  let ?p = "patch (bb_buffer self) (bb_size self) (take n (drop off dat))"
  have len: "length (take n (drop off dat)) = n" using assms(2) by simp
  from True assms have "memcpy (bb_buffer self) (bb_size self) dat off n = Some ?p"
    by (intro memcpy_eq) (simp_all add: bb_ok_def)
  moreover have "take (bb_size self + n) ?p = bb_bytes self @ take n (drop off dat)"
    using take_patch [of "bb_size self" "bb_buffer self" "take n (drop off dat)"] assms(1)
    unfolding len by (simp add: bb_bytes_def bb_ok_def)
  moreover have "length ?p = length (bb_buffer self)"
    using True assms len by (intro length_patch) (simp add: bb_ok_def)
  ultimately show ?thesis
    using True assms(1) by (simp add: ByteBuffer_append_def bb_ok_def bb_bytes_def)
qed (use assms(1) in \<open>simp add: ByteBuffer_append_def\<close>)

subsection \<open>The contract of a protocol layer\<close>

text \<open>A layer puts its header, which depends on the payload's length only, in front of the
  payload, provided that its chain element has room for the header.\<close>

abbreviation headed :: "bufferChain \<Rightarrow> byte list \<Rightarrow> bufferChain \<Rightarrow> bool" where
  "headed c hdr payload \<equiv> chain_ok c \<and> chain_bytes c = hdr @ chain_bytes payload \<and>
     ch_nextPart c = Some payload \<and> ch_partLength c = length hdr"

locale layer =
  fixes create :: "bufferChain \<Rightarrow> bufferChain \<Rightarrow> bufferChain option"
    and header :: "nat \<Rightarrow> byte list"
  assumes create_header:
    "chain_ok payload \<Longrightarrow> length (header (ch_length payload)) \<le> length (ch_buffer wb) \<Longrightarrow>
     \<exists>c. create wb payload = Some c \<and> headed c (header (ch_length payload)) payload"
begin

lemma create_length:
  assumes "chain_ok payload" and "length (header (ch_length payload)) \<le> length (ch_buffer wb)"
    and "create wb payload = Some c"
  shows "ch_length c = length (header (ch_length payload)) + ch_length payload"
proof -
  from create_header [OF assms(1,2)] assms(3) have "chain_ok c"
    and "chain_bytes c = header (ch_length payload) @ chain_bytes payload" by auto
  then show ?thesis
    using length_chain_bytes [of c] length_chain_bytes [OF assms(1)] by simp
qed

end

text \<open>Most layers write the header into the memory of their chain element, which keeps its
  size.\<close>

locale layer_in_place =
  fixes create :: "bufferChain \<Rightarrow> bufferChain \<Rightarrow> bufferChain option"
    and header :: "nat \<Rightarrow> byte list"
  assumes create_in_place:
    "chain_ok payload \<Longrightarrow> length (header (ch_length payload)) \<le> length (ch_buffer wb) \<Longrightarrow>
     \<exists>c. create wb payload = Some c \<and> headed c (header (ch_length payload)) payload \<and>
         length (ch_buffer c) = length (ch_buffer wb)"

sublocale layer_in_place \<subseteq> layer create header
  using create_in_place by unfold_locales blast

text \<open>Two layers on top of each other; the lower layer's header depends on the length of the upper
  one, and so does the place of its chain element.\<close>

locale layers = upper: layer_in_place create1 header1 + lower: layer create2 header2
  for create1 header1 create2 header2
begin

lemma create_both:
  assumes ok: "chain_ok payload"
    and room1: "length (header1 (ch_length payload)) \<le> length (ch_buffer wb1)"
    and room2: "\<And>c1. ch_length c1 = length (header1 (ch_length payload)) + ch_length payload \<Longrightarrow>
      length (ch_buffer c1) = length (ch_buffer wb1) \<Longrightarrow> length (header2 (ch_length c1)) \<le> length (ch_buffer (wb2 c1))"
  obtains c1 c where "create1 wb1 payload = Some c1" and "headed c1 (header1 (ch_length payload)) payload"
    and "length (ch_buffer c1) = length (ch_buffer wb1)" and "create2 (wb2 c1) c1 = Some c"
    and "headed c (header2 (length (header1 (ch_length payload)) + ch_length payload)) c1"
    and "chain_bytes c = header2 (length (header1 (ch_length payload)) + ch_length payload) @ header1 (ch_length payload) @ chain_bytes payload"
proof -
  obtain c1 where c1: "create1 wb1 payload = Some c1" "headed c1 (header1 (ch_length payload)) payload"
    "length (ch_buffer c1) = length (ch_buffer wb1)"
    using upper.create_in_place [OF ok room1] by blast
  have len: "ch_length c1 = length (header1 (ch_length payload)) + ch_length payload"
    by (rule upper.create_length [OF ok room1 c1(1)])
  obtain c where "create2 (wb2 c1) c1 = Some c" "headed c (header2 (ch_length c1)) c1"
    using lower.create_header [OF _ room2 [OF len c1(3)]] c1(2) by blast
  with c1 that show thesis by (simp add: len)
qed

end

lemma chain_finish_writes:
  assumes "writes w hdr" and "chain_ok payload" and "length hdr \<le> length (ch_buffer wb)"
  shows "\<exists>buf. w (ch_buffer wb, 0) = Some (buf, length hdr) \<and> headed (chain_finish wb buf (length hdr) payload) hdr payload \<and>
           length (ch_buffer (chain_finish wb buf (length hdr) payload)) = length (ch_buffer wb)"
proof -
  from assms have "w (ch_buffer wb, 0) = Some (patch (ch_buffer wb) 0 hdr, length hdr)"
    using writesD [OF assms(1), of 0 "ch_buffer wb"] by simp
  with assms(2,3) show ?thesis
    by (simp add: chain_finish_def take_patch_0 length_patch)
qed

subsection \<open>Properties\<close>

text \<open>Appending to a well formed byte buffer either fails and changes nothing, exactly
  when the data do not fit into the maximum size, or extends the contents by exactly the given
  data; it never writes outside the buffer's memory and keeps it well formed.\<close>

theorem byteBuffer_append_correct:
  assumes "bb_ok self" and "off + n \<le> length dat"
  shows "\<exists>self' r. ByteBuffer_append self dat off n = Some (self', r) \<and> bb_ok self' \<and>
           (if bb_size self + n \<le> bb_maxSize self
            then r = Ret n \<and> bb_bytes self' = bb_bytes self @ take n (drop off dat)
            else r = Fail \<and> self' = self)"
  using append_ok [OF assms] by blast

theorem byteBuffer_append_correct_witness:
  "\<exists>self' r. ByteBuffer_append \<lparr>bb_buffer = [1, 2, 0, 0], bb_maxSize = 4, bb_size = 2\<rparr> [7, 8, 9] 1 2 = Some (self', r) \<and>
     bb_ok self' \<and> r = Ret 2 \<and> bb_bytes self' = [1, 2, 8, 9]"
  using byteBuffer_append_correct [of "\<lparr>bb_buffer = [1, 2, 0, 0], bb_maxSize = 4, bb_size = 2\<rparr>" 1 2 "[7, 8, 9]"]
  by (simp add: bb_ok_def bb_bytes_def numeral_2_eq_2)

end
