(* ===== verification/Connection_Parameters.thy ===== *)
theory Connection_Parameters
  imports Ber_Oid Byte_Buffer
begin

section \<open>Connection parameters\<close>

text \<open>
  Model of \<open>src/mms/iso_common/iso_connection_parameters.c\<close> and the types of its header. The
  transport, session and presentation selectors (\<open>TSelector\<close>, \<open>SSelector\<close>, \<open>PSelector\<close>) differ
  only in the size of their arrays, 4, 16 and 16; they share the record \<open>selector\<close>, and
  \<open>selector_ok\<close> carries the size. C strings are byte lists, \<open>None\<close> stands for \<open>NULL\<close>. Of the
  union in \<open>AcseAuthenticationParameter\<close> the password variant is kept.
\<close>

record selector =
  sel_size :: nat
  sel_value :: "byte list"

type_synonym TSelector = selector
type_synonym SSelector = selector
type_synonym PSelector = selector

datatype AcseAuthenticationMechanism =
  ACSE_AUTH_NONE | ACSE_AUTH_PASSWORD | ACSE_AUTH_CERTIFICATE | ACSE_AUTH_TLS

record AcseAuthenticationParameter =
  mechanism :: AcseAuthenticationMechanism
  octetString :: "byte list option"
  passwordLength :: nat

definition AcseAuthenticationParameter_create :: "bool \<Rightarrow> AcseAuthenticationParameter ret" where
  "AcseAuthenticationParameter_create mem =
     (if mem then Ret \<lparr>mechanism = ACSE_AUTH_NONE, octetString = None, passwordLength = 0\<rparr> else Fail)"

definition AcseAuthenticationParameter_setPassword ::
  "AcseAuthenticationParameter \<Rightarrow> byte list \<Rightarrow> AcseAuthenticationParameter" where
  "AcseAuthenticationParameter_setPassword self password =
     self\<lparr>octetString := Some password, passwordLength := length password\<rparr>"

definition AcseAuthenticationParameter_getPassword :: "AcseAuthenticationParameter option \<Rightarrow> byte list option" where
  "AcseAuthenticationParameter_getPassword self =
     (case self of
        None \<Rightarrow> None
      | Some self \<Rightarrow> if mechanism self \<noteq> ACSE_AUTH_PASSWORD then None else octetString self)"

definition AcseAuthenticationParameter_getPasswordLength :: "AcseAuthenticationParameter option \<Rightarrow> nat" where
  "AcseAuthenticationParameter_getPasswordLength self =
     (case self of
        None \<Rightarrow> 0
      | Some self \<Rightarrow> if mechanism self \<noteq> ACSE_AUTH_PASSWORD then 0 else passwordLength self)"

definition AcseAuthenticationParameter_setAuthMechanism ::
  "AcseAuthenticationParameter \<Rightarrow> AcseAuthenticationMechanism \<Rightarrow> AcseAuthenticationParameter" where
  "AcseAuthenticationParameter_setAuthMechanism self m = self\<lparr>mechanism := m\<rparr>"

record IsoConnectionParameters =
  acseAuthParameter :: "AcseAuthenticationParameter option"
  hostname :: "byte list option"
  tcpPort :: int
  localIpAddress :: "byte list option"
  localTcpPort :: int
  remoteApTitle :: "byte list"
  remoteApTitleLen :: nat
  remoteAEQualifier :: int
  remotePSelector :: PSelector
  remoteSSelector :: SSelector
  remoteTSelector :: TSelector
  localApTitle :: "byte list"
  localApTitleLen :: nat
  localAEQualifier :: int
  localPSelector :: PSelector
  localSSelector :: SSelector
  localTSelector :: TSelector

text \<open>The zeroed object of \<open>calloc\<close>.\<close>

definition IsoConnectionParameters_create :: "bool \<Rightarrow> IsoConnectionParameters ret" where
  "IsoConnectionParameters_create mem =
     (if mem then
        Ret \<lparr>acseAuthParameter = None, hostname = None, tcpPort = 0, localIpAddress = None, localTcpPort = 0,
          remoteApTitle = replicate 10 0, remoteApTitleLen = 0, remoteAEQualifier = 0,
          remotePSelector = \<lparr>sel_size = 0, sel_value = replicate 16 0\<rparr>,
          remoteSSelector = \<lparr>sel_size = 0, sel_value = replicate 16 0\<rparr>,
          remoteTSelector = \<lparr>sel_size = 0, sel_value = replicate 4 0\<rparr>,
          localApTitle = replicate 10 0, localApTitleLen = 0, localAEQualifier = 0,
          localPSelector = \<lparr>sel_size = 0, sel_value = replicate 16 0\<rparr>,
          localSSelector = \<lparr>sel_size = 0, sel_value = replicate 16 0\<rparr>,
          localTSelector = \<lparr>sel_size = 0, sel_value = replicate 4 0\<rparr>\<rparr>
      else Fail)"

definition IsoConnectionParameters_setAcseAuthenticationParameter ::
  "IsoConnectionParameters \<Rightarrow> AcseAuthenticationParameter option \<Rightarrow> IsoConnectionParameters" where
  "IsoConnectionParameters_setAcseAuthenticationParameter self a = self\<lparr>acseAuthParameter := a\<rparr>"

definition IsoConnectionParameters_setTcpParameters ::
  "IsoConnectionParameters \<Rightarrow> byte list option \<Rightarrow> int \<Rightarrow> IsoConnectionParameters" where
  "IsoConnectionParameters_setTcpParameters self h p = self\<lparr>hostname := h, tcpPort := p\<rparr>"

definition IsoConnectionParameters_setLocalTcpParameters ::
  "IsoConnectionParameters \<Rightarrow> byte list option \<Rightarrow> int \<Rightarrow> IsoConnectionParameters" where
  "IsoConnectionParameters_setLocalTcpParameters self addr p =
     (case addr of None \<Rightarrow> self | Some a \<Rightarrow> self\<lparr>localIpAddress := Some a, localTcpPort := p\<rparr>)"

definition IsoConnectionParameters_setRemoteApTitle ::
  "IsoConnectionParameters \<Rightarrow> byte list option \<Rightarrow> int \<Rightarrow> IsoConnectionParameters option" where
  "IsoConnectionParameters_setRemoteApTitle self apTitle aeQualifier =
     (case apTitle of
        None \<Rightarrow> Some (self\<lparr>remoteApTitleLen := 0\<rparr>)
      | Some t \<Rightarrow> do {
          (title, n) \<leftarrow> BerEncoder_encodeOIDToBuffer t (remoteApTitle self) 10;
          Some (self\<lparr>remoteApTitle := title, remoteApTitleLen := n, remoteAEQualifier := aeQualifier\<rparr>) })"

definition IsoConnectionParameters_setRemoteAddresses ::
  "IsoConnectionParameters \<Rightarrow> PSelector \<Rightarrow> SSelector \<Rightarrow> TSelector \<Rightarrow> IsoConnectionParameters" where
  "IsoConnectionParameters_setRemoteAddresses self p s t =
     self\<lparr>remotePSelector := p, remoteSSelector := s, remoteTSelector := t\<rparr>"

definition IsoConnectionParameters_setLocalApTitle ::
  "IsoConnectionParameters \<Rightarrow> byte list option \<Rightarrow> int \<Rightarrow> IsoConnectionParameters option" where
  "IsoConnectionParameters_setLocalApTitle self apTitle aeQualifier =
     (case apTitle of
        None \<Rightarrow> Some (self\<lparr>localApTitleLen := 0\<rparr>)
      | Some t \<Rightarrow> do {
          (title, n) \<leftarrow> BerEncoder_encodeOIDToBuffer t (localApTitle self) 10;
          Some (self\<lparr>localApTitle := title, localApTitleLen := n, localAEQualifier := aeQualifier\<rparr>) })"

definition IsoConnectionParameters_setLocalAddresses ::
  "IsoConnectionParameters \<Rightarrow> PSelector \<Rightarrow> SSelector \<Rightarrow> TSelector \<Rightarrow> IsoConnectionParameters" where
  "IsoConnectionParameters_setLocalAddresses self p s t =
     self\<lparr>localPSelector := p, localSSelector := s, localTSelector := t\<rparr>"

subsection \<open>Selectors\<close>

definition selector_ok :: "nat \<Rightarrow> selector \<Rightarrow> bool" where
  "selector_ok k s \<longleftrightarrow> length (sel_value s) = k \<and> sel_size s \<le> k"

definition sel_bytes :: "selector \<Rightarrow> byte list" where
  "sel_bytes s = take (sel_size s) (sel_value s)"

lemma length_sel_bytes: "selector_ok k s \<Longrightarrow> length (sel_bytes s) = sel_size s"
  by (simp add: selector_ok_def sel_bytes_def)

lemma writes_selector:
  "selector_ok k s \<Longrightarrow> writes (put_from (sel_value s) 0 (sel_size s)) (sel_bytes s)"
  using writes_put_from [of 0 "sel_size s" "sel_value s"] by (simp add: selector_ok_def sel_bytes_def)

text \<open>The selector a parser stores: the given bytes in front of the old contents.\<close>

definition sel_set :: "byte list \<Rightarrow> selector \<Rightarrow> selector" where
  "sel_set bs s = \<lparr>sel_size = length bs, sel_value = patch (sel_value s) 0 bs\<rparr>"

lemma sel_set_ok: "selector_ok k s \<Longrightarrow> length bs \<le> k \<Longrightarrow> selector_ok k (sel_set bs s) \<and> sel_bytes (sel_set bs s) = bs"
  by (simp add: selector_ok_def sel_bytes_def sel_set_def take_patch_0)

subsection \<open>Invariant\<close>

definition params_ok :: "IsoConnectionParameters \<Rightarrow> bool" where
  "params_ok p \<longleftrightarrow>
     length (remoteApTitle p) = 10 \<and> remoteApTitleLen p \<le> 10 \<and>
     length (localApTitle p) = 10 \<and> localApTitleLen p \<le> 10 \<and>
     selector_ok 16 (remotePSelector p) \<and> selector_ok 16 (remoteSSelector p) \<and> selector_ok 4 (remoteTSelector p) \<and>
     selector_ok 16 (localPSelector p) \<and> selector_ok 16 (localSSelector p) \<and> selector_ok 4 (localTSelector p)"

lemma params_ok_create: "IsoConnectionParameters_create mem = Ret p \<Longrightarrow> params_ok p"
  by (auto simp: IsoConnectionParameters_create_def params_ok_def selector_ok_def split: if_splits)

lemma params_ok_addresses:
  assumes "params_ok p" "selector_ok 16 ps" "selector_ok 16 ss" "selector_ok 4 ts"
  shows "params_ok (IsoConnectionParameters_setRemoteAddresses p ps ss ts)"
    and "params_ok (IsoConnectionParameters_setLocalAddresses p ps ss ts)"
  using assms
  by (simp_all add: params_ok_def IsoConnectionParameters_setRemoteAddresses_def
      IsoConnectionParameters_setLocalAddresses_def)

subsection \<open>Properties\<close>

text \<open>Setting the remote application title to the dotted form of an object identifier
  whose encoding fits into the 10 bytes of the title keeps the parameters well formed, and the
  stored title decodes to that identifier; without a title the stored length becomes 0.\<close>

theorem remote_ap_title_stored:
  assumes "params_ok p" and "a * 40 + b < 256" and "b < 40" and "list_all (\<lambda>c. c < 2 ^ 16) cs"
    and "length cs \<le> 8" and "1 + (\<Sum>c\<leftarrow>cs. max 1 (oid_requiredBytes (int c))) \<le> 10"
  shows "(\<exists>p'. IsoConnectionParameters_setRemoteApTitle p (Some (oid_string (a # b # cs))) q = Some p' \<and> params_ok p' \<and>
            remoteAEQualifier p' = q \<and>
            BerDecoder_decodeOID (remoteApTitle p') 0 (remoteApTitleLen p') =
              Some \<lparr>arc = map of_nat (a # b # cs) @ replicate (8 - length cs) 0, arcCount = 2 + length cs\<rparr>) \<and>
         (\<exists>p'. IsoConnectionParameters_setRemoteApTitle p None q = Some p' \<and> params_ok p' \<and> remoteApTitleLen p' = 0)"
  using encode_decode_oid [OF assms(2-6), of "remoteApTitle p"] assms(1)
  by (auto simp: IsoConnectionParameters_setRemoteApTitle_def params_ok_def)

theorem remote_ap_title_stored_witness:
  "\<exists>p p'. IsoConnectionParameters_create True = Ret p \<and>
     IsoConnectionParameters_setRemoteApTitle p (Some (oid_string [1, 1, 999])) 12 = Some p' \<and> params_ok p' \<and>
     BerDecoder_decodeOID (remoteApTitle p') 0 (remoteApTitleLen p') =
       Some \<lparr>arc = [1, 1, 999] @ replicate 7 0, arcCount = 3\<rparr>"
proof -
  obtain p where p: "IsoConnectionParameters_create True = Ret p"
    by (simp add: IsoConnectionParameters_create_def)
  have "oid_requiredBytes 999 = 2" by code_simp
  then show ?thesis
    using remote_ap_title_stored [of p 1 1 "[999]" 12] params_ok_create [OF p] p by auto
qed

end
