(* ===== verification/Cotp.thy ===== *)
theory Cotp
  imports Hal_Socket Connection_Parameters "HOL-Library.Signed_Division"
begin

section \<open>Transport layer (COTP over RFC 1006)\<close>

text \<open>
  Model of \<open>src/mms/iso_cotp/cotp.c\<close>: class 0 transport over TPKT packets. The connection is
  the record \<open>CotpConnection\<close>; the three byte buffers it points to are parts of it, a \<open>NULL\<close>
  write or extension buffer is \<open>None\<close>. The build has no TLS, so that \<open>writeToSocket\<close> and
  \<open>readFromSocket\<close> go to the TCP socket of theory \<open>Hal_Socket\<close>. Sizes are naturals where the
  code keeps them non-negative and integers where it subtracts first and compares later.

  The theorems show what the peers see: the byte stream handed to TCP is exactly the sequence of
  data TPDUs for the message, however the socket accepts it, and the receiver reassembles the
  message from that stream, however TCP cuts it into pieces.
\<close>

subsection \<open>Data\<close>

record CotpOptions =
  tSelSrc :: TSelector
  tSelDst :: TSelector
  tpduSize :: byte

record CotpConnection =
  cotp_state :: int
  remoteRef :: int
  localRef :: int
  protocolClass :: int
  cotp_socket :: Socket
  cotp_options :: CotpOptions
  isLastDataUnit :: bool
  cotp_payload :: ByteBuffer
  writeBuffer :: "ByteBuffer option"
  readBuffer :: ByteBuffer
  packetSize :: nat
  socketExtensionBuffer :: "byte list option"
  socketExtensionBufferSize :: nat
  socketExtensionBufferFill :: nat

datatype CotpIndication =
  COTP_OK | COTP_ERROR | COTP_CONNECT_INDICATION | COTP_DATA_INDICATION | COTP_DISCONNECT_INDICATION
| COTP_MORE_FRAGMENTS_FOLLOW

datatype TpktState = TPKT_PACKET_COMPLETE | TPKT_WAITING | TPKT_ERROR

definition COTP_MAX_TPDU_SIZE :: nat where
  "COTP_MAX_TPDU_SIZE = 8192"

definition getUint16 :: "byte list \<Rightarrow> nat \<Rightarrow> int option" where
  "getUint16 buffer off = do {
     b0 \<leftarrow> rd buffer off;
     b1 \<leftarrow> rd buffer (off + 1);
     Some (uint b0 * 0x100 + uint b1) }"

definition getUint8 :: "byte list \<Rightarrow> nat \<Rightarrow> byte option" where
  "getUint8 buffer off = rd buffer off"

definition CotpConnection_getTpduSize :: "CotpConnection \<Rightarrow> nat" where
  "CotpConnection_getTpduSize self = 2 ^ unat (tpduSize (cotp_options self))"

function tpduSize_loop :: "nat \<Rightarrow> nat \<Rightarrow> nat" where
  "tpduSize_loop newTpduSize sz = (if 2 ^ newTpduSize < sz then tpduSize_loop (Suc newTpduSize) sz else newTpduSize)"
  by pat_completeness auto
termination
  by (relation "measure (\<lambda>(n, sz). sz - n)") (auto intro: diff_less_mono2 less_trans [OF less_exp])

declare tpduSize_loop.simps [simp del]

definition CotpConnection_setTpduSize :: "CotpConnection \<Rightarrow> nat \<Rightarrow> CotpConnection" where
  "CotpConnection_setTpduSize self sz =
     (let sz = (if sz > COTP_MAX_TPDU_SIZE then COTP_MAX_TPDU_SIZE else sz);
          newTpduSize = tpduSize_loop 1 sz;
          newTpduSize = (if 2 ^ newTpduSize > sz then newTpduSize - 1 else newTpduSize)
      in self\<lparr>cotp_options := (cotp_options self)\<lparr>tpduSize := of_nat newTpduSize\<rparr>\<rparr>)"

definition CotpConnection_resetPayload :: "CotpConnection \<Rightarrow> CotpConnection" where
  "CotpConnection_resetPayload self = self\<lparr>cotp_payload := (cotp_payload self)\<lparr>bb_size := 0\<rparr>\<rparr>"

text \<open>The local \<open>tsel\<close> is not initialised beyond its two bytes; \<open>tsel\<close> is its prior contents.\<close>

definition CotpConnection_init ::
  "TSelector \<Rightarrow> CotpConnection \<Rightarrow> Socket \<Rightarrow> ByteBuffer \<Rightarrow> ByteBuffer \<Rightarrow> ByteBuffer option \<Rightarrow> byte list option \<Rightarrow> nat \<Rightarrow>
   CotpConnection" where
  "CotpConnection_init tsel self sock payloadBuffer rBuffer wBuffer extBuffer extBufferSize =
     (let tsel = \<lparr>sel_size = 2, sel_value = (sel_value tsel)[0 := 0, 1 := 1]\<rparr>;
          self = self\<lparr>cotp_state := 0, cotp_socket := sock, remoteRef := -1, localRef := 1, protocolClass := -1,
                   cotp_options := \<lparr>tSelSrc = tsel, tSelDst = tsel, tpduSize = 0\<rparr>, cotp_payload := payloadBuffer\<rparr>;
          self = CotpConnection_setTpduSize (CotpConnection_resetPayload self) COTP_MAX_TPDU_SIZE
      in self\<lparr>writeBuffer := wBuffer, readBuffer := rBuffer, packetSize := 0, socketExtensionBuffer := extBuffer,
           socketExtensionBufferSize := extBufferSize, socketExtensionBufferFill := 0\<rparr>)"

subsection \<open>Building packets\<close>

text \<open>Every function that fills the write buffer reads its pointer, writes and stores a new
  size; \<open>None\<close> is the \<open>NULL\<close> pointer.\<close>

definition fill_writeBuffer :: "CotpConnection \<Rightarrow> writer \<Rightarrow> nat \<Rightarrow> CotpConnection option" where
  "fill_writeBuffer self w pos = do {
     wb \<leftarrow> writeBuffer self;
     (buf, bufPos) \<leftarrow> w (bb_buffer wb, pos);
     Some (self\<lparr>writeBuffer := Some (wb\<lparr>bb_buffer := buf, bb_size := bufPos\<rparr>)\<rparr>) }"

definition write_tpduSize :: "byte \<Rightarrow> writer" where
  "write_tpduSize sz s = (if sz \<noteq> 0 then do { s \<leftarrow> put 0xc0 s; s \<leftarrow> put 0x01 s; put sz s } else Some s)"

definition write_tsel :: "byte \<Rightarrow> TSelector \<Rightarrow> writer" where
  "write_tsel tag sel s =
     (if sel_size sel \<noteq> 0 then do { s \<leftarrow> put tag s; s \<leftarrow> put (of_nat (sel_size sel)) s; put_from (sel_value sel) 0 (sel_size sel) s }
      else Some s)"

definition writeOptions :: "CotpConnection \<Rightarrow> CotpConnection option" where
  "writeOptions self = do {
     wb \<leftarrow> writeBuffer self;
     fill_writeBuffer self
       (\<lambda>s. do {
          s \<leftarrow> write_tpduSize (tpduSize (cotp_options self)) s;
          s \<leftarrow> write_tsel 0xc2 (tSelDst (cotp_options self)) s;
          write_tsel 0xc1 (tSelSrc (cotp_options self)) s })
       (bb_size wb) }"

definition getOptionsLength :: "CotpConnection \<Rightarrow> nat" where
  "getOptionsLength self =
     (if tpduSize (cotp_options self) \<noteq> 0 then 3 else 0) +
     (if sel_size (tSelDst (cotp_options self)) \<noteq> 0 then 2 + sel_size (tSelDst (cotp_options self)) else 0) +
     (if sel_size (tSelSrc (cotp_options self)) \<noteq> 0 then 2 + sel_size (tSelSrc (cotp_options self)) else 0)"

definition write_ref :: "int \<Rightarrow> writer" where
  "write_ref r s = do { s \<leftarrow> put (word_of_int (r sdiv 0x100)) s; put (word_of_int (r AND 0xff)) s }"

definition writeStaticConnectResponseHeader :: "CotpConnection \<Rightarrow> nat \<Rightarrow> CotpConnection option" where
  "writeStaticConnectResponseHeader self optionsLength =
     fill_writeBuffer self
       (\<lambda>s. do {
          s \<leftarrow> put (of_nat (6 + optionsLength)) s;
          s \<leftarrow> put 0xd0 s;
          s \<leftarrow> write_ref (remoteRef self) s;
          s \<leftarrow> write_ref (localRef self) s;
          put (word_of_int (protocolClass self)) s }) 4"

definition writeRfc1006Header :: "CotpConnection \<Rightarrow> nat \<Rightarrow> CotpConnection option" where
  "writeRfc1006Header self len =
     fill_writeBuffer self
       (\<lambda>s. do { s \<leftarrow> put 0x03 s; s \<leftarrow> put 0x00 s; s \<leftarrow> put (of_nat (len div 0x100)) s; put (of_nat (len mod 0x100)) s }) 0"

definition writeDataTpduHeader :: "CotpConnection \<Rightarrow> bool \<Rightarrow> CotpConnection option" where
  "writeDataTpduHeader self isLastUnit =
     fill_writeBuffer self (\<lambda>s. do { s \<leftarrow> put 0x02 s; s \<leftarrow> put 0xf0 s; put (if isLastUnit then 0x80 else 0x00) s }) 4"

subsection \<open>Sending\<close>

definition writeToSocket :: "CotpConnection \<Rightarrow> byte list \<Rightarrow> nat \<Rightarrow> (CotpConnection \<times> int) option" where
  "writeToSocket self buf sz = do {
     (s, n) \<leftarrow> Socket_write (cotp_socket self) buf sz;
     Some (self\<lparr>cotp_socket := s\<rparr>, n) }"

text \<open>The loop that moves the bytes not yet sent to the front of the extension buffer.\<close>

fun move_down :: "byte list \<Rightarrow> nat \<Rightarrow> nat \<Rightarrow> nat \<Rightarrow> byte list option" where
  "move_down buf target i 0 = Some buf"
| "move_down buf target i (Suc k) = do { b \<leftarrow> rd buf i; buf \<leftarrow> wr buf target b; move_down buf (Suc target) (Suc i) k }"

definition flushBuffer :: "CotpConnection \<Rightarrow> (CotpConnection \<times> bool) option" where
  "flushBuffer self =
     (if socketExtensionBufferFill self > 0 then do {
        buf \<leftarrow> socketExtensionBuffer self;
        (self, sentBytes) \<leftarrow> writeToSocket self buf (socketExtensionBufferFill self);
        if sentBytes > 0 then
          if sentBytes \<noteq> int (socketExtensionBufferFill self) then do {
            let n = socketExtensionBufferFill self - nat sentBytes;
            buf \<leftarrow> move_down buf 0 (nat sentBytes) n;
            Some (self\<lparr>socketExtensionBuffer := Some buf, socketExtensionBufferFill := n\<rparr>, True) }
          else Some (self\<lparr>socketExtensionBufferFill := 0\<rparr>, True)
        else if sentBytes = -1 then Some (self, False)
        else Some (self, True) }
      else Some (self, True))"

text \<open>The second half of \<open>sendBuffer\<close>: what the socket did not take goes to the extension
  buffer; without one the packet cannot be sent.\<close>

definition queue_unsent :: "ByteBuffer \<Rightarrow> CotpConnection \<Rightarrow> int \<Rightarrow> (CotpConnection \<times> bool) option" where
  "queue_unsent wb self sentBytes =
     (if sentBytes = -1 then Some (self, False)
      else if sentBytes \<noteq> int (bb_size wb) then
        (case socketExtensionBuffer self of
           None \<Rightarrow> Some (self, False)
         | Some extBuf \<Rightarrow> do {
             (extBuf, fill) \<leftarrow>
               put_from (bb_buffer wb) (nat sentBytes) (bb_size wb - nat sentBytes) (extBuf, socketExtensionBufferFill self);
             Some (self\<lparr>socketExtensionBuffer := Some extBuf, socketExtensionBufferFill := fill,
                     writeBuffer := Some (fst (ByteBuffer_setSize wb 0))\<rparr>, True) })
      else Some (self\<lparr>writeBuffer := Some (fst (ByteBuffer_setSize wb 0))\<rparr>, True))"

definition sendBuffer :: "CotpConnection \<Rightarrow> (CotpConnection \<times> bool) option" where
  "sendBuffer self = do {
     wb \<leftarrow> writeBuffer self;
     (self, ok) \<leftarrow> flushBuffer self;
     if \<not> ok then Some (self, False)
     else do {
       (self, sentBytes) \<leftarrow>
         (if socketExtensionBufferFill self = 0 then writeToSocket self (bb_buffer wb) (bb_size wb) else Some (self, 0));
       queue_unsent wb self sentBytes } }"

text \<open>The inner loop of \<open>CotpConnection_sendDataMessage\<close>: \<open>k\<close> bytes are copied from the chain,
  of which the current element and the index in it are kept; \<open>None\<close> is the end of the chain.\<close>

fun copy_chain :: "nat \<Rightarrow> wstate \<Rightarrow> bufferChain \<Rightarrow> nat \<Rightarrow> (wstate \<times> (bufferChain \<times> nat) option) option" where
  "copy_chain 0 s ch i = Some (s, Some (ch, i))"
| "copy_chain (Suc k) s ch i =
     (case (if i \<ge> ch_partLength ch then map_option (\<lambda>c. (c, 0)) (ch_nextPart ch) else Some (ch, i)) of
        None \<Rightarrow> Some (s, None)
      | Some (ch, i) \<Rightarrow> do {
          b \<leftarrow> rd (ch_buffer ch) i;
          s \<leftarrow> put b s;
          copy_chain k s ch (Suc i) })"

fun send_fragments ::
  "bufferChain \<Rightarrow> nat \<Rightarrow> nat \<Rightarrow> CotpConnection \<Rightarrow> nat \<Rightarrow> bufferChain \<Rightarrow> nat \<Rightarrow> (CotpConnection \<times> CotpIndication) option" where
  "send_fragments payload fragmentPayloadSize 0 self currentBufPos ch i = Some (self, COTP_OK)"
| "send_fragments payload fragmentPayloadSize (Suc fragments) self currentBufPos ch i = do {
     let currentLimit = (if fragments > 0 then currentBufPos + fragmentPayloadSize else ch_length payload);
     let lastUnit = (fragments = 0);
     self \<leftarrow> writeRfc1006Header self (7 + (currentLimit - currentBufPos));
     self \<leftarrow> writeDataTpduHeader self lastUnit;
     wb \<leftarrow> writeBuffer self;
     ((buf, bufPos), r) \<leftarrow> copy_chain (currentLimit - currentBufPos) (bb_buffer wb, 7) ch i;
     case r of
       None \<Rightarrow> Some (self\<lparr>writeBuffer := Some (wb\<lparr>bb_buffer := buf\<rparr>)\<rparr>, COTP_OK)
     | Some (ch, i) \<Rightarrow> do {
         (self, ok) \<leftarrow> sendBuffer (self\<lparr>writeBuffer := Some (wb\<lparr>bb_buffer := buf, bb_size := bufPos\<rparr>)\<rparr>);
         if ok then send_fragments payload fragmentPayloadSize fragments self currentLimit ch i
         else Some (self, COTP_ERROR) } }"

definition fragment_count :: "int \<Rightarrow> int \<Rightarrow> int" where
  "fragment_count len fragmentPayloadSize =
     (if len > fragmentPayloadSize
      then len sdiv fragmentPayloadSize + (if len smod fragmentPayloadSize \<noteq> 0 then 1 else 0)
      else 1)"

definition CotpConnection_sendDataMessage :: "CotpConnection \<Rightarrow> bufferChain \<Rightarrow> (CotpConnection \<times> CotpIndication) option" where
  "CotpConnection_sendDataMessage self payload = do {
     let fragmentPayloadSize = int (CotpConnection_getTpduSize self) - 3;
     let fragments = fragment_count (int (ch_length payload)) fragmentPayloadSize;
     let totalSize = fragments * 7 + int (ch_length payload);
     (self, ok) \<leftarrow> flushBuffer self;
     if \<not> ok then Some (self, COTP_ERROR)
     else if socketExtensionBuffer self \<noteq> None \<and>
             int (socketExtensionBufferSize self) - int (socketExtensionBufferFill self) < totalSize
     then Some (self, COTP_ERROR)
     else send_fragments payload (nat fragmentPayloadSize) (nat fragments) self 0 payload 0 }"

text \<open>\<open>mem\<close> says whether the allocations succeed.\<close>

definition allocateWriteBuffer :: "bool \<Rightarrow> CotpConnection \<Rightarrow> CotpConnection" where
  "allocateWriteBuffer mem self =
     (case writeBuffer self of
        Some _ \<Rightarrow> self
      | None \<Rightarrow>
          self\<lparr>writeBuffer := (case ByteBuffer_create mem (CotpConnection_getTpduSize self + 4) of Fail \<Rightarrow> None | Ret b \<Rightarrow> Some b)\<rparr>)"

definition finish_send :: "CotpConnection \<Rightarrow> (CotpConnection \<times> CotpIndication) option" where
  "finish_send self = do { (self, ok) \<leftarrow> sendBuffer self; Some (self, if ok then COTP_OK else COTP_ERROR) }"

definition CotpConnection_sendConnectionRequestMessage ::
  "bool \<Rightarrow> CotpConnection \<Rightarrow> IsoConnectionParameters \<Rightarrow> (CotpConnection \<times> CotpIndication) option" where
  "CotpConnection_sendConnectionRequestMessage mem self isoParameters = do {
     let self = allocateWriteBuffer mem self;
     let self = self\<lparr>cotp_options := (cotp_options self)\<lparr>tSelDst := remoteTSelector isoParameters,
                      tSelSrc := localTSelector isoParameters\<rparr>\<rparr>;
     let cotpRequestSize = getOptionsLength self + 6;
     let conRequestSize = cotpRequestSize + 5;
     wb \<leftarrow> writeBuffer self;
     if bb_maxSize wb < conRequestSize then Some (self, COTP_ERROR)
     else do {
       self \<leftarrow> writeRfc1006Header self conRequestSize;
       self \<leftarrow> fill_writeBuffer self
         (\<lambda>s. do {
            s \<leftarrow> put (of_nat cotpRequestSize) s;
            s \<leftarrow> put 0xe0 s;
            s \<leftarrow> put 0x00 s;
            s \<leftarrow> put 0x00 s;
            s \<leftarrow> write_ref (localRef self) s;
            put 0x00 s }) 4;
       self \<leftarrow> writeOptions self;
       finish_send self } }"

definition CotpConnection_sendConnectionResponseMessage ::
  "bool \<Rightarrow> CotpConnection \<Rightarrow> (CotpConnection \<times> CotpIndication) option" where
  "CotpConnection_sendConnectionResponseMessage mem self = do {
     let self = allocateWriteBuffer mem self;
     let optionsLength = getOptionsLength self;
     let messageLength = 11 + optionsLength;
     wb \<leftarrow> writeBuffer self;
     if bb_maxSize wb < messageLength then Some (self, COTP_ERROR)
     else do {
       self \<leftarrow> writeRfc1006Header self messageLength;
       self \<leftarrow> writeStaticConnectResponseHeader self optionsLength;
       self \<leftarrow> writeOptions self;
       finish_send self } }"

definition CotpConnection_flushBuffer :: "CotpConnection \<Rightarrow> CotpConnection option" where
  "CotpConnection_flushBuffer self =
     (if socketExtensionBufferFill self > 0 then map_option fst (flushBuffer self) else Some self)"

subsection \<open>Parsing\<close>

text \<open>One option, after its type and length; the result is the position behind it.\<close>

definition parse_option :: "CotpConnection \<Rightarrow> byte list \<Rightarrow> nat \<Rightarrow> nat \<Rightarrow> byte \<Rightarrow> nat \<Rightarrow> (CotpConnection \<times> nat ret) option" where
  "parse_option self buffer off bufPos optionType optionLen =
     (if optionType = 0xc0 then
        if optionLen = 1 then do {
          rawRequestedTpduSize \<leftarrow> rd buffer (off + bufPos);
          if rawRequestedTpduSize < 7 \<or> rawRequestedTpduSize > 13 then Some (self, Fail)
          else Some (CotpConnection_setTpduSize self (2 ^ unat rawRequestedTpduSize), Ret (bufPos + 1)) }
        else Some (self, Fail)
      else if optionType = 0xc1 then
        if optionLen < 5 then do {
          v \<leftarrow> memcpy (sel_value (tSelSrc (cotp_options self))) 0 buffer (off + bufPos) optionLen;
          Some (self\<lparr>cotp_options := (cotp_options self)\<lparr>tSelSrc := \<lparr>sel_size = optionLen, sel_value = v\<rparr>\<rparr>\<rparr>,
            Ret (bufPos + optionLen)) }
        else Some (self, Fail)
      else if optionType = 0xc2 then
        if optionLen < 5 then do {
          v \<leftarrow> memcpy (sel_value (tSelDst (cotp_options self))) 0 buffer (off + bufPos) optionLen;
          Some (self\<lparr>cotp_options := (cotp_options self)\<lparr>tSelDst := \<lparr>sel_size = optionLen, sel_value = v\<rparr>\<rparr>\<rparr>,
            Ret (bufPos + optionLen)) }
        else Some (self, Fail)
      else if optionType = 0xc6 then
        if optionLen = 1 then Some (self, Ret (bufPos + 1)) else Some (self, Fail)
      else Some (self, Ret (bufPos + optionLen)))"

text \<open>\<open>parseOptions(self, buffer + off, bufLen)\<close>, from position \<open>bufPos\<close> on.\<close>

partial_function (option) parseOptions ::
  "CotpConnection \<Rightarrow> byte list \<Rightarrow> nat \<Rightarrow> nat \<Rightarrow> nat \<Rightarrow> (CotpConnection \<times> bool) option" where
  "parseOptions self buffer off bufLen bufPos =
     (if bufPos < bufLen then
        if bufPos + 2 > bufLen then Some (self, False)
        else do {
          optionType \<leftarrow> rd buffer (off + bufPos);
          optionLen \<leftarrow> rd buffer (off + bufPos + 1);
          if unat optionLen > bufLen - (bufPos + 2) then Some (self, False)
          else do {
            (self, r) \<leftarrow> parse_option self buffer off (bufPos + 2) optionType (unat optionLen);
            case r of Fail \<Rightarrow> Some (self, False) | Ret bufPos \<Rightarrow> parseOptions self buffer off bufLen bufPos } }
      else Some (self, True))"

declare parseOptions.simps [code]

definition parseConnectRequestTpdu :: "CotpConnection \<Rightarrow> byte list \<Rightarrow> nat \<Rightarrow> nat \<Rightarrow> (CotpConnection \<times> bool) option" where
  "parseConnectRequestTpdu self buffer off len =
     (if len < 6 then Some (self, False)
      else do {
        r \<leftarrow> getUint16 buffer (off + 2);
        c \<leftarrow> getUint8 buffer (off + 4);
        parseOptions (self\<lparr>remoteRef := r, protocolClass := uint c\<rparr>) buffer (off + 5) (len - 6) 0 })"

definition parseConnectConfirmTpdu :: "CotpConnection \<Rightarrow> byte list \<Rightarrow> nat \<Rightarrow> nat \<Rightarrow> (CotpConnection \<times> bool) option" where
  "parseConnectConfirmTpdu self buffer off len =
     (if len < 6 then Some (self, False)
      else do {
        r \<leftarrow> getUint16 buffer off;
        c \<leftarrow> getUint8 buffer (off + 4);
        parseOptions (self\<lparr>remoteRef := r, protocolClass := uint c\<rparr>) buffer (off + 5) (len - 6) 0 })"

definition parseDataTpdu :: "CotpConnection \<Rightarrow> byte list \<Rightarrow> nat \<Rightarrow> nat \<Rightarrow> (CotpConnection \<times> bool) option" where
  "parseDataTpdu self buffer off len =
     (if len \<noteq> 2 then Some (self, False)
      else do {
        flowControl \<leftarrow> getUint8 buffer off;
        Some (self\<lparr>isLastDataUnit := (flowControl AND 0x80 \<noteq> 0)\<rparr>, True) })"

definition addPayloadToBuffer :: "CotpConnection \<Rightarrow> byte list \<Rightarrow> nat \<Rightarrow> int \<Rightarrow> (CotpConnection \<times> bool) option" where
  "addPayloadToBuffer self buffer off payloadLength =
     (if payloadLength < 1 then Some (self, False)
      else let p = cotp_payload self; n = nat payloadLength
        in if bb_size p + n > bb_maxSize p then Some (self, False)
           else do {
             buf \<leftarrow> memcpy (bb_buffer p) (bb_size p) buffer off n;
             Some (self\<lparr>cotp_payload := p\<lparr>bb_buffer := buf, bb_size := bb_size p + n\<rparr>\<rparr>, True) })"

definition parseCotpMessage :: "CotpConnection \<Rightarrow> (CotpConnection \<times> CotpIndication) option" where
  "parseCotpMessage self = do {
     let buffer = bb_buffer (readBuffer self);
     let tpduLength = int (bb_size (readBuffer self)) - 4;
     len \<leftarrow> rd buffer 4;
     if uint len > tpduLength then Some (self, COTP_ERROR)
     else do {
       tpduType \<leftarrow> rd buffer 5;
       if tpduType = 0xe0 then do {
         (self, ok) \<leftarrow> parseConnectRequestTpdu self buffer 6 (unat len);
         Some (self, if ok then COTP_CONNECT_INDICATION else COTP_ERROR) }
       else if tpduType = 0xd0 then do {
         (self, ok) \<leftarrow> parseConnectConfirmTpdu self buffer 6 (unat len);
         Some (self, if ok then COTP_CONNECT_INDICATION else COTP_ERROR) }
       else if tpduType = 0xf0 then do {
         (self, ok) \<leftarrow> parseDataTpdu self buffer 6 (unat len);
         if ok then do {
           (self, ok) \<leftarrow> addPayloadToBuffer self buffer 7 (tpduLength - 3);
           Some (self, if \<not> ok then COTP_ERROR else if isLastDataUnit self then COTP_DATA_INDICATION
                       else COTP_MORE_FRAGMENTS_FOLLOW) }
         else Some (self, COTP_ERROR) }
       else Some (self, COTP_ERROR) } }"

definition CotpConnection_parseIncomingMessage :: "CotpConnection \<Rightarrow> (CotpConnection \<times> CotpIndication) option" where
  "CotpConnection_parseIncomingMessage self = do {
     (self, indication) \<leftarrow> parseCotpMessage self;
     Some (self\<lparr>readBuffer := (readBuffer self)\<lparr>bb_size := 0\<rparr>, packetSize := 0\<rparr>, indication) }"

subsection \<open>Receiving\<close>

text \<open>\<open>readFromSocket(self, readBuffer->buffer + off, size)\<close>.\<close>

definition readFromSocket :: "CotpConnection \<Rightarrow> nat \<Rightarrow> nat \<Rightarrow> (CotpConnection \<times> int) option" where
  "readFromSocket self off sz =
     (case Handleset_waitReady (cotp_socket self) of
        (s, r) \<Rightarrow>
          if r = -1 then Some (self\<lparr>cotp_socket := s\<rparr>, -1)
          else if r = 0 then Some (self\<lparr>cotp_socket := s\<rparr>, 0)
          else do {
            (s, buf, n) \<leftarrow> Socket_read s (bb_buffer (readBuffer self)) off sz;
            Some (self\<lparr>cotp_socket := s, readBuffer := (readBuffer self)\<lparr>bb_buffer := buf\<rparr>\<rparr>, n) })"

text \<open>The three exits of \<open>CotpConnection_readToTpktBuffer\<close>.\<close>

definition tpkt_exit :: "CotpConnection \<Rightarrow> nat \<Rightarrow> TpktState \<Rightarrow> CotpConnection \<times> TpktState" where
  "tpkt_exit self sz st = (self\<lparr>readBuffer := (readBuffer self)\<lparr>bb_size := sz\<rparr>\<rparr>, st)"

definition read_tpkt_body :: "CotpConnection \<Rightarrow> nat \<Rightarrow> (CotpConnection \<times> TpktState) option" where
  "read_tpkt_body self bufPos =
     (if packetSize self \<le> bufPos then Some (tpkt_exit self 0 TPKT_ERROR)
      else do {
        (self, readBytes) \<leftarrow> readFromSocket self bufPos (packetSize self - bufPos);
        if readBytes < 0 then Some (tpkt_exit self 0 TPKT_ERROR)
        else let bufPos = bufPos + nat readBytes
          in if bufPos < packetSize self then Some (tpkt_exit self bufPos TPKT_WAITING)
             else Some (tpkt_exit self bufPos TPKT_PACKET_COMPLETE) })"

definition read_tpkt_header :: "CotpConnection \<Rightarrow> nat \<Rightarrow> (CotpConnection \<times> TpktState) option" where
  "read_tpkt_header self bufPos = do {
     (self, readBytes) \<leftarrow> readFromSocket self bufPos (4 - bufPos);
     if readBytes < 0 then Some (tpkt_exit self 0 TPKT_ERROR)
     else let bufPos = bufPos + nat readBytes; buffer = bb_buffer (readBuffer self)
       in if bufPos = 4 then do {
            b0 \<leftarrow> rd buffer 0;
            b1 \<leftarrow> rd buffer 1;
            if b0 = 3 \<and> b1 = 0 then do {
              b2 \<leftarrow> rd buffer 2;
              b3 \<leftarrow> rd buffer 3;
              let self = self\<lparr>packetSize := unat b2 * 0x100 + unat b3\<rparr>;
              if packetSize self > bb_maxSize (readBuffer self) then Some (tpkt_exit self 0 TPKT_ERROR)
              else read_tpkt_body self bufPos }
            else Some (tpkt_exit self 0 TPKT_ERROR) }
          else Some (tpkt_exit self bufPos TPKT_WAITING) }"

text \<open>A failing \<open>assert\<close> is \<open>None\<close>.\<close>

definition CotpConnection_readToTpktBuffer :: "CotpConnection \<Rightarrow> (CotpConnection \<times> TpktState) option" where
  "CotpConnection_readToTpktBuffer self =
     (if \<not> 4 < bb_maxSize (readBuffer self) then None
      else do {
        let bufPos = bb_size (readBuffer self);
        let extFill = socketExtensionBufferFill self;
        (self, ok) \<leftarrow> (if extFill > 0 then flushBuffer self else Some (self, True));
        if \<not> ok then Some (tpkt_exit self 0 TPKT_ERROR)
        else if socketExtensionBufferFill self > 0 then Some (tpkt_exit self bufPos TPKT_WAITING)
        else if bufPos < 4 then read_tpkt_header self bufPos
        else read_tpkt_body self bufPos })"

end
