(* ===== verification/Cotp_Transfer.thy ===== *)
theory Cotp_Transfer
  imports Cotp
begin

section \<open>Transfer of messages over COTP\<close>

text \<open>
  The properties of the data transfer phase of \<open>src/mms/iso_cotp/cotp.c\<close>: what
  \<open>CotpConnection_sendDataMessage\<close> hands to TCP, what \<open>CotpConnection_readToTpktBuffer\<close> makes of
  the bytes TCP delivers, and both together.
\<close>

subsection \<open>The outgoing stream\<close>

text \<open>The bytes handed to TCP and those still waiting in the extension buffer.\<close>

definition outgoing :: "CotpConnection \<Rightarrow> byte list" where
  "outgoing self = sent (cotp_socket self) @
     (case socketExtensionBuffer self of None \<Rightarrow> [] | Some b \<Rightarrow> take (socketExtensionBufferFill self) b)"

definition ext_ok :: "CotpConnection \<Rightarrow> bool" where
  "ext_ok self \<longleftrightarrow>
     (case socketExtensionBuffer self of
        None \<Rightarrow> socketExtensionBufferFill self = 0
      | Some b \<Rightarrow> socketExtensionBufferFill self \<le> socketExtensionBufferSize self \<and> socketExtensionBufferSize self \<le> length b)"

lemma outgoing_update [simp]:
  "outgoing (self\<lparr>writeBuffer := w\<rparr>) = outgoing self"
  "ext_ok (self\<lparr>writeBuffer := w\<rparr>) = ext_ok self"
  "ext_ok (self\<lparr>cotp_socket := s\<rparr>) = ext_ok self"
  "sent s = sent (cotp_socket self) @ bs \<Longrightarrow> socketExtensionBufferFill self = 0 \<Longrightarrow>
     outgoing (self\<lparr>cotp_socket := s\<rparr>) = outgoing self @ bs"
  "sent s = sent (cotp_socket self) \<Longrightarrow> outgoing (self\<lparr>cotp_socket := s\<rparr>) = outgoing self"
  by (simp_all add: outgoing_def ext_ok_def split: option.splits)

text \<open>Sending changes the socket, the extension buffer and the write buffer only.\<close>

definition send_frame :: "CotpConnection \<Rightarrow> CotpConnection \<Rightarrow> bool" where
  "send_frame self self' \<longleftrightarrow>
     cotp_state self' = cotp_state self \<and> remoteRef self' = remoteRef self \<and> localRef self' = localRef self \<and>
     protocolClass self' = protocolClass self \<and> cotp_options self' = cotp_options self \<and>
     isLastDataUnit self' = isLastDataUnit self \<and> cotp_payload self' = cotp_payload self \<and>
     readBuffer self' = readBuffer self \<and> packetSize self' = packetSize self \<and>
     socketExtensionBufferSize self' = socketExtensionBufferSize self \<and>
     rx (cotp_socket self') = rx (cotp_socket self) \<and> polls (cotp_socket self') = polls (cotp_socket self) \<and>
     fd (cotp_socket self') = fd (cotp_socket self) \<and>
     (socketExtensionBuffer self' = None \<longleftrightarrow> socketExtensionBuffer self = None)"

lemma send_frame_refl [simp]: "send_frame self self"
  by (simp add: send_frame_def)

lemma send_frame_trans [trans]: "send_frame a b \<Longrightarrow> send_frame b c \<Longrightarrow> send_frame a c"
  by (simp add: send_frame_def)

lemma send_frame_ext:
  assumes "send_frame a b"
  shows "socketExtensionBufferSize b = socketExtensionBufferSize a"
    and "socketExtensionBuffer b = None \<longleftrightarrow> socketExtensionBuffer a = None"
  using assms unfolding send_frame_def by blast+

lemma move_down_eq:
  "t \<le> i \<Longrightarrow> i + k \<le> length buf \<Longrightarrow> move_down buf t i k = Some (patch buf t (take k (drop i buf)))"
proof (induction k arbitrary: buf t i)
  case (Suc k)
  then have lt: "i < length buf" "t < length buf" by simp_all
  have "drop (Suc i) (buf[t := buf ! i]) = drop (Suc i) buf"
    using Suc.prems by (simp add: drop_update_cancel)
  then have "move_down buf t i (Suc k) = Some (patch (buf[t := buf ! i]) (Suc t) (take k (drop (Suc i) buf)))"
    using Suc.IH [of "Suc t" "Suc i" "buf[t := buf ! i]"] Suc.prems lt by simp
  moreover have "patch (buf[t := buf ! i]) (Suc t) (take k (drop (Suc i) buf)) = patch buf t (take (Suc k) (drop i buf))"
    using patch_patch [of t "[buf ! i]" "take k (drop (Suc i) buf)" buf] Suc.prems lt
    by (simp add: patch_single Cons_nth_drop_Suc [symmetric])
  ultimately show ?case by simp
qed simp

lemma flushBuffer_spec:
  assumes "ext_ok self"
  shows "\<exists>self' ok. flushBuffer self = Some (self', ok) \<and> ext_ok self' \<and> send_frame self self' \<and>
           writeBuffer self' = writeBuffer self \<and> outgoing self' = outgoing self \<and>
           socketExtensionBufferFill self' \<le> socketExtensionBufferFill self \<and>
           (tx_free (cotp_socket self) \<longrightarrow> ok \<and> tx_free (cotp_socket self') \<and> socketExtensionBufferFill self' = 0)"
proof (cases "socketExtensionBufferFill self > 0")
  case False
  then show ?thesis using assms by (auto simp: flushBuffer_def)
next
  case True
  let ?fill = "socketExtensionBufferFill self"
  from True assms obtain buf where buf: "socketExtensionBuffer self = Some buf"
    "?fill \<le> socketExtensionBufferSize self" "socketExtensionBufferSize self \<le> length buf"
    by (auto simp: ext_ok_def split: option.splits)
  then obtain s n where w: "Socket_write (cotp_socket self) buf ?fill = Some (s, n)" "rx s = rx (cotp_socket self)"
    "polls s = polls (cotp_socket self)" "fd s = fd (cotp_socket self)"
    "n = -1 \<and> sent s = sent (cotp_socket self) \<or> (\<exists>k. n = int k \<and> k \<le> ?fill \<and> sent s = sent (cotp_socket self) @ take k buf)"
    "tx_free (cotp_socket self) \<longrightarrow> n = int ?fill \<and> tx_free s"
    using Socket_write_spec [of ?fill buf "cotp_socket self"] by auto
  note defs = flushBuffer_def writeToSocket_def ext_ok_def outgoing_def send_frame_def Let_def
  consider (err) "n = -1" "sent s = sent (cotp_socket self)"
    | (none) "n = 0" "sent s = sent (cotp_socket self)"
    | (all) "n = int ?fill" "sent s = sent (cotp_socket self) @ take ?fill buf"
    | (part) k where "n = int k" "0 < k" "k < ?fill" "sent s = sent (cotp_socket self) @ take k buf"
    using w(5) by force
  then show ?thesis
  proof cases
    case (part k)
    have "move_down buf 0 k (?fill - k) = Some (patch buf 0 (take (?fill - k) (drop k buf)))"
      using buf part by (intro move_down_eq) simp_all
    moreover have "take (?fill - k) (patch buf 0 (take (?fill - k) (drop k buf))) = take (?fill - k) (drop k buf)"
      using take_patch_0 [of "take (?fill - k) (drop k buf)" buf] buf part by simp
    moreover have "take k buf @ take (?fill - k) (drop k buf) = take ?fill buf"
      using part by (metis less_imp_le take_add le_add_diff_inverse)
    ultimately show ?thesis using True buf w part by (auto simp: defs)
  qed (use True buf w in \<open>auto simp: defs\<close>)
qed


lemma queue_rest:
  assumes "fill + (n - k) \<le> length ext" and "k \<le> n" and "n \<le> length b"
  shows "\<exists>ext'. put_from b k (n - k) (ext, fill) = Some (ext', fill + (n - k)) \<and> length ext' = length ext \<and>
           take (fill + (n - k)) ext' = take fill ext @ drop k (take n b)"
proof -
  let ?bs = "take (n - k) (drop k b)"
  have w: "writes (put_from b k (n - k)) ?bs" and len: "length ?bs = n - k" using assms by (auto intro: writes_put_from)
  have "put_from b k (n - k) (ext, fill) = Some (patch ext fill ?bs, fill + (n - k))"
    using writesD [OF w, of fill ext] assms(1) unfolding len by simp
  moreover have "take (fill + (n - k)) (patch ext fill ?bs) = take fill ext @ ?bs"
    using take_patch [of fill ext ?bs] assms(1) unfolding len by simp
  moreover have "?bs = drop k (take n b)" by (simp add: drop_take)
  ultimately show ?thesis using length_patch [of fill ?bs ext] assms(1) len by simp
qed

lemma setSize_0 [simp]: "fst (ByteBuffer_setSize wb 0) = wb\<lparr>bb_size := 0\<rparr>"
  by (simp add: ByteBuffer_setSize_def)

lemma queue_unsent_spec:
  assumes "ext_ok self" and "writeBuffer self = Some wb" and "bb_ok wb" and "k \<le> bb_size wb"
    and "socketExtensionBuffer self \<noteq> None \<Longrightarrow>
           socketExtensionBufferFill self + (bb_size wb - k) \<le> socketExtensionBufferSize self"
  shows "\<exists>self' ok. queue_unsent wb self (int k) = Some (self', ok) \<and> ext_ok self' \<and> send_frame self self' \<and>
           (if ok then outgoing self' = outgoing self @ drop k (bb_bytes wb) \<and> writeBuffer self' = Some (wb\<lparr>bb_size := 0\<rparr>)
            else self' = self) \<and>
           socketExtensionBufferFill self' \<le> socketExtensionBufferFill self + (bb_size wb - k) \<and>
           (k = bb_size wb \<longrightarrow> ok \<and> cotp_socket self' = cotp_socket self \<and>
             socketExtensionBufferFill self' = socketExtensionBufferFill self)"
proof (cases "k = bb_size wb")
  case True
  then have "queue_unsent wb self (int k) = Some (self\<lparr>writeBuffer := Some (wb\<lparr>bb_size := 0\<rparr>)\<rparr>, True)"
    by (simp add: queue_unsent_def)
  moreover have "drop k (bb_bytes wb) = []" using True assms(3) length_bb_bytes [of wb] by simp
  ultimately show ?thesis using assms(1)
    by (auto simp: send_frame_def)
next
  case False
  show ?thesis
  proof (cases "socketExtensionBuffer self")
    case None
    with False assms(1) show ?thesis by (auto simp: queue_unsent_def)
  next
    case (Some ext)
    with assms(1,5) have fit: "socketExtensionBufferFill self + (bb_size wb - k) \<le> length ext"
      by (simp add: ext_ok_def)
    obtain ext' where e: "put_from (bb_buffer wb) k (bb_size wb - k) (ext, socketExtensionBufferFill self) =
        Some (ext', socketExtensionBufferFill self + (bb_size wb - k))" "length ext' = length ext"
      "take (socketExtensionBufferFill self + (bb_size wb - k)) ext' =
        take (socketExtensionBufferFill self) ext @ drop k (take (bb_size wb) (bb_buffer wb))"
      using queue_rest [OF fit assms(4), of "bb_buffer wb"] assms(3) by (auto simp: bb_ok_def)
    show ?thesis using False assms(1,5) Some e
      by (auto simp: queue_unsent_def ext_ok_def send_frame_def outgoing_def bb_bytes_def)
  qed
qed

lemma sendBuffer_spec:
  assumes "ext_ok self" and "writeBuffer self = Some wb" and "bb_ok wb"
    and "socketExtensionBuffer self \<noteq> None \<Longrightarrow>
           socketExtensionBufferFill self + bb_size wb \<le> socketExtensionBufferSize self"
  shows "\<exists>self' ok. sendBuffer self = Some (self', ok) \<and> ext_ok self' \<and> send_frame self self' \<and>
           (if ok then outgoing self' = outgoing self @ bb_bytes wb \<and> writeBuffer self' = Some (wb\<lparr>bb_size := 0\<rparr>)
            else writeBuffer self' = Some wb \<and> (\<exists>k. outgoing self' = outgoing self @ take k (bb_bytes wb))) \<and>
           socketExtensionBufferFill self' \<le> socketExtensionBufferFill self + bb_size wb \<and>
           (tx_free (cotp_socket self) \<longrightarrow> ok \<and> tx_free (cotp_socket self') \<and> socketExtensionBufferFill self' = 0)"
proof -
  let ?n = "bb_size wb" and ?b = "bb_buffer wb"
  have len: "?n \<le> length ?b" using assms(3) by (simp add: bb_ok_def)
  obtain self1 ok where f: "flushBuffer self = Some (self1, ok)" "ext_ok self1" "send_frame self self1"
    "writeBuffer self1 = Some wb" "outgoing self1 = outgoing self"
    "socketExtensionBufferFill self1 \<le> socketExtensionBufferFill self"
    "tx_free (cotp_socket self) \<longrightarrow> ok \<and> tx_free (cotp_socket self1) \<and> socketExtensionBufferFill self1 = 0"
    using flushBuffer_spec [OF assms(1)] assms(2) by auto
  have nothing: "\<exists>k. outgoing self1 = outgoing self @ take k (bb_bytes wb)" using f(5) by (intro exI [of _ 0]) simp
  have room: "socketExtensionBuffer self1 \<noteq> None \<Longrightarrow> socketExtensionBufferFill self1 + ?n \<le> socketExtensionBufferSize self1"
    using assms(4) f(3,6) by (auto simp: send_frame_def)
  consider (flush) "\<not> ok" | (full) "ok" "0 < socketExtensionBufferFill self1" | (direct) "ok" "socketExtensionBufferFill self1 = 0"
    by blast
  then show ?thesis
  proof cases
    case flush
    then have "sendBuffer self = Some (self1, False)" using f(1) assms(2) by (simp add: sendBuffer_def)
    then show ?thesis using f flush nothing by auto
  next
    case full
    then have "sendBuffer self = queue_unsent wb self1 (int 0)" using f(1) assms(2) by (simp add: sendBuffer_def)
    moreover obtain self' ok' where q: "queue_unsent wb self1 (int 0) = Some (self', ok')" "ext_ok self'" "send_frame self1 self'"
      "if ok' then outgoing self' = outgoing self1 @ drop 0 (bb_bytes wb) \<and> writeBuffer self' = Some (wb\<lparr>bb_size := 0\<rparr>)
       else self' = self1" "socketExtensionBufferFill self' \<le> socketExtensionBufferFill self1 + (?n - 0)"
      using queue_unsent_spec [OF f(2,4) assms(3), of 0] room by auto
    ultimately show ?thesis using f full nothing send_frame_trans [OF f(3) q(3)]
      by (intro exI [of _ self'] exI [of _ ok']) (auto split: if_splits)
  next
    case direct
    obtain s n where w: "Socket_write (cotp_socket self1) ?b ?n = Some (s, n)" "rx s = rx (cotp_socket self1)"
      "polls s = polls (cotp_socket self1)" "fd s = fd (cotp_socket self1)"
      "n = -1 \<and> sent s = sent (cotp_socket self1) \<or> (\<exists>k. n = int k \<and> k \<le> ?n \<and> sent s = sent (cotp_socket self1) @ take k ?b)"
      "tx_free (cotp_socket self1) \<longrightarrow> n = int ?n \<and> tx_free s"
      using Socket_write_spec [OF len, of "cotp_socket self1"] by auto
    define self2 where "self2 = self1\<lparr>cotp_socket := s\<rparr>"
    have "ext_ok self2" using f(2) by (simp add: self2_def)
    moreover have "send_frame self1 self2" using w by (simp add: self2_def send_frame_def)
    ultimately have s2: "ext_ok self2" "send_frame self1 self2" "writeBuffer self2 = Some wb" "socketExtensionBufferFill self2 = 0"
      "socketExtensionBuffer self2 = socketExtensionBuffer self1" "socketExtensionBufferSize self2 = socketExtensionBufferSize self1"
      using f(4) direct by (simp_all add: self2_def)
    have eq: "sendBuffer self = queue_unsent wb self2 n"
      using f(1) assms(2) direct w(1) by (simp add: sendBuffer_def writeToSocket_def self2_def)
    from w(5) show ?thesis
    proof (elim disjE conjE exE)
      assume "n = -1" "sent s = sent (cotp_socket self1)"
      moreover from this have "sendBuffer self = Some (self2, False)" "outgoing self2 = outgoing self1"
        using eq by (simp_all add: queue_unsent_def self2_def)
      ultimately show ?thesis using s2 w nothing f send_frame_trans [OF f(3) s2(2)] by auto
    next
      fix k assume k: "n = int k" "k \<le> ?n" "sent s = sent (cotp_socket self1) @ take k ?b"
      have out: "outgoing self2 = outgoing self @ take k (bb_bytes wb)"
        using k direct f(5) by (simp add: self2_def bb_bytes_def min_absorb1)
      have room2: "socketExtensionBufferFill self2 + (?n - k) \<le> socketExtensionBufferSize self2" if "socketExtensionBuffer self2 \<noteq> None"
        using room that s2(4-6) direct by simp
      obtain self' ok' where q: "queue_unsent wb self2 (int k) = Some (self', ok')" "ext_ok self'" "send_frame self2 self'"
        "if ok' then outgoing self' = outgoing self2 @ drop k (bb_bytes wb) \<and> writeBuffer self' = Some (wb\<lparr>bb_size := 0\<rparr>)
         else self' = self2" "socketExtensionBufferFill self' \<le> socketExtensionBufferFill self2 + (?n - k)"
        "k = ?n \<longrightarrow> ok' \<and> cotp_socket self' = cotp_socket self2 \<and> socketExtensionBufferFill self' = socketExtensionBufferFill self2"
        using queue_unsent_spec [OF s2(1,3) assms(3) k(2) room2] by auto
      have fr: "send_frame self self'" by (rule send_frame_trans [OF send_frame_trans [OF f(3) s2(2)] q(3)])
      have "outgoing self' = outgoing self @ bb_bytes wb" if ok' using that q(4) out by simp
      moreover have "outgoing self' = outgoing self @ take k (bb_bytes wb) \<and> writeBuffer self' = Some wb" if "\<not> ok'"
        using that q(4) out s2(3) by simp
      moreover have "tx_free (cotp_socket self) \<longrightarrow> ok' \<and> tx_free (cotp_socket self') \<and> socketExtensionBufferFill self' = 0"
        using f(7) w(6) k(1) q(6) s2(4) by (auto simp: self2_def)
      ultimately show ?thesis using eq k(1) q fr s2(4)
        by (intro exI [of _ self'] exI [of _ ok']) auto
    qed
  qed
qed


subsection \<open>Fragmentation\<close>

text \<open>A data TPDU in its TPKT packet, and the packets for a message in pieces of \<open>n\<close> bytes.\<close>

definition dt_packet :: "bool \<Rightarrow> byte list \<Rightarrow> byte list" where
  "dt_packet lastUnit bs =
     [3, 0, of_nat ((7 + length bs) div 0x100), of_nat ((7 + length bs) mod 0x100), 2, 0xf0, if lastUnit then 0x80 else 0] @ bs"

function dt_stream :: "nat \<Rightarrow> byte list \<Rightarrow> byte list" where
  "dt_stream n bs = (if n = 0 \<or> length bs \<le> n then dt_packet True bs else dt_packet False (take n bs) @ dt_stream n (drop n bs))"
  by pat_completeness auto
termination
  by (relation "measure (\<lambda>(n, bs). length bs)") auto

declare dt_stream.simps [simp del]

text \<open>The bytes of a chain from an index of its first element on. Parts behind the first must
  not be empty: the copy loop steps over at most one exhausted part per byte.\<close>

definition chain_rest :: "bufferChain \<Rightarrow> nat \<Rightarrow> byte list" where
  "chain_rest ch i = drop i (chain_bytes ch)"

fun parts_ok :: "bufferChain \<Rightarrow> bool" where
  "parts_ok (BufferChain len n m buf next) \<longleftrightarrow> (case next of None \<Rightarrow> True | Some c \<Rightarrow> 0 < ch_partLength c \<and> parts_ok c)"

lemma chain_rest_step:
  assumes "chain_ok ch" and "parts_ok ch" and "i \<le> ch_partLength ch" and "chain_rest ch i \<noteq> []"
  shows "\<exists>ch' j. (if i \<ge> ch_partLength ch then map_option (\<lambda>c. (c, 0)) (ch_nextPart ch) else Some (ch, i)) = Some (ch', j) \<and>
           chain_ok ch' \<and> parts_ok ch' \<and> j < ch_partLength ch' \<and> j < length (ch_buffer ch') \<and>
           chain_rest ch i = ch_buffer ch' ! j # chain_rest ch' (Suc j)"
proof -
  have here: "chain_rest c j = ch_buffer c ! j # chain_rest c (Suc j) \<and> j < length (ch_buffer c)"
    if "chain_ok c" "j < ch_partLength c" for c j
    using that by (cases c) (auto simp: chain_rest_def Cons_nth_drop_Suc [symmetric] nth_append)
  show ?thesis
  proof (cases "i < ch_partLength ch")
    case True
    then show ?thesis using assms here [of ch i] by auto
  next
    case False
    then obtain c where c: "ch_nextPart ch = Some c" and eq: "chain_rest ch i = chain_rest c 0"
      using assms by (cases ch) (auto simp: chain_rest_def split: option.splits)
    moreover have "chain_ok c" "parts_ok c" "0 < ch_partLength c" using assms c by (cases ch; simp)+
    ultimately show ?thesis using False here [of c 0] by auto
  qed
qed

lemma copy_chain_spec:
  assumes "chain_ok ch" and "parts_ok ch" and "i \<le> ch_partLength ch" and "k \<le> length (chain_rest ch i)" and "pos + k \<le> length buf"
  shows "\<exists>ch' j. copy_chain k (buf, pos) ch i = Some ((patch buf pos (take k (chain_rest ch i)), pos + k), Some (ch', j)) \<and>
           chain_ok ch' \<and> parts_ok ch' \<and> j \<le> ch_partLength ch' \<and> chain_rest ch' j = drop k (chain_rest ch i)"
  using assms
proof (induction k arbitrary: buf pos ch i)
  case (Suc k)
  then obtain ch1 j where st: "(if i \<ge> ch_partLength ch then map_option (\<lambda>c. (c, 0)) (ch_nextPart ch) else Some (ch, i)) = Some (ch1, j)"
    "chain_ok ch1" "parts_ok ch1" "j < ch_partLength ch1" "j < length (ch_buffer ch1)"
    "chain_rest ch i = ch_buffer ch1 ! j # chain_rest ch1 (Suc j)"
    using chain_rest_step [OF Suc.prems(1-3)] by force
  let ?b = "ch_buffer ch1 ! j"
  obtain ch' j' where ih: "copy_chain k (buf[pos := ?b], Suc pos) ch1 (Suc j) =
      Some ((patch (buf[pos := ?b]) (Suc pos) (take k (chain_rest ch1 (Suc j))), Suc pos + k), Some (ch', j'))"
    "chain_ok ch'" "parts_ok ch'" "j' \<le> ch_partLength ch'" "chain_rest ch' j' = drop k (chain_rest ch1 (Suc j))"
    using Suc.IH [OF st(2,3), of "Suc j" "Suc pos" "buf[pos := ?b]"] st(4,6) Suc.prems by auto
  have "patch (buf[pos := ?b]) (Suc pos) (take k (chain_rest ch1 (Suc j))) = patch buf pos (take (Suc k) (chain_rest ch i))"
    using patch_patch [of pos "[?b]" "take k (chain_rest ch1 (Suc j))" buf] Suc.prems(5) st(6) by (simp add: patch_single)
  moreover have "copy_chain (Suc k) (buf, pos) ch i = copy_chain k (buf[pos := ?b], Suc pos) ch1 (Suc j)"
    using st(1,5) Suc.prems(5) by simp
  ultimately show ?case using ih st(6) by auto
qed auto


lemma fill_writeBuffer_eq:
  assumes "writes w bs" and "writeBuffer self = Some wb" and "pos + length bs \<le> length (bb_buffer wb)"
  shows "fill_writeBuffer self w pos =
    Some (self\<lparr>writeBuffer := Some (wb\<lparr>bb_buffer := patch (bb_buffer wb) pos bs, bb_size := pos + length bs\<rparr>)\<rparr>)"
  using writesD [OF assms(1,3)] assms(2) by (simp add: fill_writeBuffer_def)

lemma writes_tpkt: "writes (\<lambda>s. do { s \<leftarrow> put 0x03 s; s \<leftarrow> put 0x00 s; s \<leftarrow> put (of_nat (len div 0x100)) s; put (of_nat (len mod 0x100)) s })
    [3, 0, of_nat (len div 0x100), of_nat (len mod 0x100)]"
  by (rule writes_cong, (rule writer_intros)+, simp)

lemma writes_dt: "writes (\<lambda>s. do { s \<leftarrow> put 0x02 s; s \<leftarrow> put 0xf0 s; put (if l then 0x80 else 0x00) s }) [2, 0xf0, if l then 0x80 else 0]"
  by (rule writes_cong, (rule writer_intros)+, simp)

definition tpkt_header :: "nat \<Rightarrow> byte list" where
  "tpkt_header len = [3, 0, of_nat (len div 0x100), of_nat (len mod 0x100)]"

definition dt_header :: "bool \<Rightarrow> byte list" where
  "dt_header lastUnit = [2, 0xf0, if lastUnit then 0x80 else 0]"

lemma length_headers [simp]: "length (tpkt_header k) = 4" "length (dt_header l) = 3"
  by (simp_all add: tpkt_header_def dt_header_def)

lemma dt_packet_eq: "dt_packet l bs = tpkt_header (7 + length bs) @ dt_header l @ bs"
  by (simp add: dt_packet_def tpkt_header_def dt_header_def)

lemma length_dt_packet [simp]: "length (dt_packet l bs) = 7 + length bs"
  by (simp add: dt_packet_eq)

lemma headers_written:
  assumes "writeBuffer self = Some wb" and "7 \<le> length (bb_buffer wb)"
  shows "\<exists>self1. writeRfc1006Header self k = Some self1 \<and>
    writeDataTpduHeader self1 l =
      Some (self\<lparr>writeBuffer := Some (wb\<lparr>bb_buffer := patch (bb_buffer wb) 0 (tpkt_header k @ dt_header l), bb_size := 7\<rparr>)\<rparr>)"
proof -
  let ?b1 = "patch (bb_buffer wb) 0 (tpkt_header k)"
  let ?self1 = "self\<lparr>writeBuffer := Some (wb\<lparr>bb_buffer := ?b1, bb_size := 4\<rparr>)\<rparr>"
  have h1: "writeRfc1006Header self k = Some ?self1"
    using fill_writeBuffer_eq [OF writes_tpkt [folded tpkt_header_def] assms(1), of 0 k] assms(2)
    by (simp add: writeRfc1006Header_def)
  have "patch ?b1 (0 + length (tpkt_header k)) (dt_header l) = patch (bb_buffer wb) 0 (tpkt_header k @ dt_header l)"
    using assms(2) by (intro patch_patch) simp
  moreover have "length ?b1 = length (bb_buffer wb)" using assms(2) by (intro length_patch) simp
  ultimately have "writeDataTpduHeader ?self1 l =
      Some (self\<lparr>writeBuffer := Some (wb\<lparr>bb_buffer := patch (bb_buffer wb) 0 (tpkt_header k @ dt_header l), bb_size := 7\<rparr>)\<rparr>)"
    using fill_writeBuffer_eq [OF writes_dt [folded dt_header_def], of ?self1 _ 4 l] assms(2)
    by (simp add: writeDataTpduHeader_def)
  with h1 show ?thesis by simp
qed

lemma packet_in_buffer:
  assumes "7 + length bs \<le> length b"
  shows "patch (patch b 0 (tpkt_header (7 + length bs) @ dt_header l)) 7 bs = patch b 0 (dt_packet l bs)"
proof -
  let ?h = "tpkt_header (7 + length bs) @ dt_header l"
  have "patch (patch b 0 ?h) (0 + length ?h) bs = patch b 0 (?h @ bs)"
    using assms by (intro patch_patch) simp
  then show ?thesis by (simp add: dt_packet_eq)
qed

definition frag_count :: "nat \<Rightarrow> nat \<Rightarrow> nat" where
  "frag_count n len = (if len \<le> n then 1 else len div n + (if len mod n \<noteq> 0 then 1 else 0))"

lemma frag_count_step: "0 < n \<Longrightarrow> n < len \<Longrightarrow> frag_count n len = Suc (frag_count n (len - n))"
proof -
  assume "0 < n" "n < len"
  moreover have "len - n < n \<or> len - n = n \<or> n < len - n" by arith
  ultimately show ?thesis by (auto simp: frag_count_def le_div_geq le_mod_geq)
qed

lemma frag_count_pos: "0 < n \<Longrightarrow> 0 < frag_count n len"
  by (simp add: frag_count_def div_greater_zero_iff)

lemma frag_count_1: "0 < n \<Longrightarrow> frag_count n len = 1 \<longleftrightarrow> len \<le> n"
  using frag_count_step [of n len] frag_count_pos [of n "len - n"] by (auto simp: frag_count_def)

lemma fragment_count_eq: "0 < n \<Longrightarrow> fragment_count (int len) (int n) = int (frag_count n len)"
  by (simp add: fragment_count_def frag_count_def signed_divide_int_def signed_modulo_int_def sgn_if
      zdiv_int [symmetric] minus_div_mult_eq_mod flip: zmod_int of_nat_mult)


text \<open>One round of the send loop: the packet is built in the write buffer and handed on.\<close>

lemma send_one:
  assumes "ext_ok self" and "writeBuffer self = Some wb" and "bb_maxSize wb \<le> length (bb_buffer wb)" and "7 + k \<le> bb_maxSize wb"
    and "chain_ok ch" and "parts_ok ch" and "i \<le> ch_partLength ch" and "k \<le> length (chain_rest ch i)"
    and "socketExtensionBuffer self \<noteq> None \<Longrightarrow> socketExtensionBufferFill self + (7 + k) \<le> socketExtensionBufferSize self"
  shows "\<exists>self0 self1 wb1 ch' j self' wb' ok.
    writeRfc1006Header self (7 + k) = Some self0 \<and> writeDataTpduHeader self0 l = Some self1 \<and> writeBuffer self1 = Some wb1 \<and>
    copy_chain k (bb_buffer wb1, 7) ch i = Some ((bb_buffer wb', 7 + k), Some (ch', j)) \<and>
    sendBuffer (self1\<lparr>writeBuffer := Some (wb1\<lparr>bb_buffer := bb_buffer wb', bb_size := 7 + k\<rparr>)\<rparr>) = Some (self', ok) \<and>
    ext_ok self' \<and> send_frame self self' \<and>
    writeBuffer self' = Some wb' \<and> bb_maxSize wb' = bb_maxSize wb \<and> length (bb_buffer wb') = length (bb_buffer wb) \<and>
    chain_ok ch' \<and> parts_ok ch' \<and> j \<le> ch_partLength ch' \<and> chain_rest ch' j = drop k (chain_rest ch i) \<and>
    (if ok then outgoing self' = outgoing self @ dt_packet l (take k (chain_rest ch i))
     else (\<exists>m. outgoing self' = outgoing self @ take m (dt_packet l (take k (chain_rest ch i))))) \<and>
    socketExtensionBufferFill self' \<le> socketExtensionBufferFill self + (7 + k) \<and>
    (tx_free (cotp_socket self) \<longrightarrow> ok \<and> tx_free (cotp_socket self') \<and> socketExtensionBufferFill self' = 0)"
proof -
  let ?b = "bb_buffer wb" and ?bs = "take k (chain_rest ch i)"
  have len: "length ?bs = k" "7 + k \<le> length ?b" using assms by simp_all
  let ?b1 = "patch ?b 0 (tpkt_header (7 + k) @ dt_header l)" and ?b2 = "patch ?b 0 (dt_packet l ?bs)"
  define self1 where "self1 = self\<lparr>writeBuffer := Some (wb\<lparr>bb_buffer := ?b1, bb_size := 7\<rparr>)\<rparr>"
  define wb2 where "wb2 = wb\<lparr>bb_buffer := ?b2, bb_size := 7 + k\<rparr>"
  obtain self0 where h: "writeRfc1006Header self (7 + k) = Some self0" "writeDataTpduHeader self0 l = Some self1"
    using headers_written [OF assms(2), of "7 + k" l] len by (auto simp: self1_def)
  have l1: "length ?b1 = length ?b" using len by (intro length_patch) simp
  have l2: "length ?b2 = length ?b" using len by (intro length_patch) simp
  have "patch ?b1 7 ?bs = ?b2" using packet_in_buffer [of ?bs ?b l] len by simp
  then obtain ch' j where c: "copy_chain k (?b1, 7) ch i = Some ((?b2, 7 + k), Some (ch', j))"
    "chain_ok ch'" "parts_ok ch'" "j \<le> ch_partLength ch'" "chain_rest ch' j = drop k (chain_rest ch i)"
    using copy_chain_spec [OF assms(5-8), of 7 ?b1] l1 len by auto
  let ?self2 = "self\<lparr>writeBuffer := Some wb2\<rparr>"
  have s2: "self1\<lparr>writeBuffer := Some (wb\<lparr>bb_buffer := ?b2, bb_size := 7 + k\<rparr>)\<rparr> = ?self2" by (simp add: self1_def wb2_def)
  have wb2: "bb_ok wb2" "bb_bytes wb2 = dt_packet l ?bs"
    using assms(3,4) l2 len take_patch_0 [of "dt_packet l ?bs" ?b] by (simp_all add: wb2_def bb_ok_def bb_bytes_def)
  obtain self' ok where sb: "sendBuffer ?self2 = Some (self', ok)" "ext_ok self'" "send_frame ?self2 self'"
    "if ok then outgoing self' = outgoing ?self2 @ bb_bytes wb2 \<and> writeBuffer self' = Some (wb2\<lparr>bb_size := 0\<rparr>)
     else writeBuffer self' = Some wb2 \<and> (\<exists>m. outgoing self' = outgoing ?self2 @ take m (bb_bytes wb2))"
    "socketExtensionBufferFill self' \<le> socketExtensionBufferFill ?self2 + bb_size wb2"
    "tx_free (cotp_socket ?self2) \<longrightarrow> ok \<and> tx_free (cotp_socket self') \<and> socketExtensionBufferFill self' = 0"
    using sendBuffer_spec [of ?self2 wb2] assms(1,9) wb2(1) by (auto simp: wb2_def)
  have fr: "send_frame self self'" using sb(3) by (simp add: send_frame_def)
  let ?wb' = "if ok then wb2\<lparr>bb_size := 0\<rparr> else wb2"
  show ?thesis
    using h c sb fr l2 unfolding wb2(2)
    by (intro exI [of _ self0] exI [of _ self1] exI [of _ "wb\<lparr>bb_buffer := ?b1, bb_size := 7\<rparr>"] exI [of _ ch'] exI [of _ j]
        exI [of _ self'] exI [of _ ?wb'] exI [of _ ok] conjI)
      (simp_all add: self1_def wb2_def split: if_splits)
qed


lemma take_min_append: "take (min m (length xs)) (xs @ ys) = take m xs"
  by (simp add: min_def)

lemma send_fragments_spec:
  assumes "0 < n" and "ext_ok self" and "writeBuffer self = Some wb" and "bb_maxSize wb \<le> length (bb_buffer wb)"
    and "7 + n \<le> bb_maxSize wb"
    and "chain_ok ch" and "parts_ok ch" and "i \<le> ch_partLength ch" and "cur + length (chain_rest ch i) = ch_length payload"
    and "socketExtensionBuffer self \<noteq> None \<Longrightarrow>
       socketExtensionBufferFill self + (7 * frag_count n (length (chain_rest ch i)) + length (chain_rest ch i)) \<le> socketExtensionBufferSize self"
  shows "\<exists>self' r. send_fragments payload n (frag_count n (length (chain_rest ch i))) self cur ch i = Some (self', r) \<and>
    ext_ok self' \<and> send_frame self self' \<and> (\<exists>wb'. writeBuffer self' = Some wb' \<and> bb_maxSize wb' = bb_maxSize wb \<and>
      length (bb_buffer wb') = length (bb_buffer wb)) \<and>
    (r = COTP_OK \<and> outgoing self' = outgoing self @ dt_stream n (chain_rest ch i) \<or>
     r = COTP_ERROR \<and> (\<exists>m. outgoing self' = outgoing self @ take m (dt_stream n (chain_rest ch i)))) \<and>
    (tx_free (cotp_socket self) \<longrightarrow> r = COTP_OK \<and> tx_free (cotp_socket self') \<and> socketExtensionBufferFill self' = 0)"
  using assms(2-)
proof (induction "length (chain_rest ch i)" arbitrary: self wb cur ch i rule: less_induct)
  case less
  note prems = less.prems
  let ?R = "chain_rest ch i"
  have fc: "frag_count n (length ?R) = Suc (frag_count n (length ?R) - 1)" using frag_count_pos [OF assms(1)] by simp
  show ?case
  proof (cases "length ?R \<le> n")
    case True
    then have fc1: "frag_count n (length ?R) = Suc 0" using frag_count_1 [OF assms(1)] by simp
    have st: "dt_stream n ?R = dt_packet True ?R" using True by (simp add: dt_stream.simps)
    obtain self0 self1 wb1 ch' j self' wb' ok where s:
      "writeRfc1006Header self (7 + length ?R) = Some self0" "writeDataTpduHeader self0 True = Some self1" "writeBuffer self1 = Some wb1"
      "copy_chain (length ?R) (bb_buffer wb1, 7) ch i = Some ((bb_buffer wb', 7 + length ?R), Some (ch', j))"
      "sendBuffer (self1\<lparr>writeBuffer := Some (wb1\<lparr>bb_buffer := bb_buffer wb', bb_size := 7 + length ?R\<rparr>)\<rparr>) = Some (self', ok)"
      "ext_ok self'" "send_frame self self'" "writeBuffer self' = Some wb'" "bb_maxSize wb' = bb_maxSize wb"
      "length (bb_buffer wb') = length (bb_buffer wb)"
      "if ok then outgoing self' = outgoing self @ dt_packet True (take (length ?R) ?R)
       else (\<exists>m. outgoing self' = outgoing self @ take m (dt_packet True (take (length ?R) ?R)))"
      "tx_free (cotp_socket self) \<longrightarrow> ok \<and> tx_free (cotp_socket self') \<and> socketExtensionBufferFill self' = 0"
      using send_one [OF prems(1-3), of "length ?R" ch i True] prems(4-9) True fc1 by auto
    have lim: "ch_length payload - cur = length ?R" using prems(8) by simp
    have "send_fragments payload n (Suc 0) self cur ch i = Some (self', if ok then COTP_OK else COTP_ERROR)"
      using s(1-5) by (simp add: lim)
    then show ?thesis using s(6-12) unfolding fc1 st by (auto split: if_splits)
  next
    case False
    let ?R' = "drop n ?R" and ?f = "frag_count n (length ?R - n)"
    from False have lt: "n < length ?R" by simp
    then have fc2: "frag_count n (length ?R) = Suc ?f" by (rule frag_count_step [OF assms(1)])
    have st: "dt_stream n ?R = dt_packet False (take n ?R) @ dt_stream n ?R'"
      using False assms(1) by (subst dt_stream.simps) simp
    have room1: "socketExtensionBufferFill self + (7 + n) \<le> socketExtensionBufferSize self" if "socketExtensionBuffer self \<noteq> None"
      using prems(9) [OF that] fc2 lt by simp
    obtain self0 self1 wb1 ch' j self2 wb2 ok where s:
      "writeRfc1006Header self (7 + n) = Some self0" "writeDataTpduHeader self0 False = Some self1" "writeBuffer self1 = Some wb1"
      "copy_chain n (bb_buffer wb1, 7) ch i = Some ((bb_buffer wb2, 7 + n), Some (ch', j))"
      "sendBuffer (self1\<lparr>writeBuffer := Some (wb1\<lparr>bb_buffer := bb_buffer wb2, bb_size := 7 + n\<rparr>)\<rparr>) = Some (self2, ok)"
      "ext_ok self2" "send_frame self self2" "writeBuffer self2 = Some wb2" "bb_maxSize wb2 = bb_maxSize wb"
      "length (bb_buffer wb2) = length (bb_buffer wb)"
      "chain_ok ch'" "parts_ok ch'" "j \<le> ch_partLength ch'" "chain_rest ch' j = ?R'"
      "if ok then outgoing self2 = outgoing self @ dt_packet False (take n ?R)
       else (\<exists>m. outgoing self2 = outgoing self @ take m (dt_packet False (take n ?R)))"
      "socketExtensionBufferFill self2 \<le> socketExtensionBufferFill self + (7 + n)"
      "tx_free (cotp_socket self) \<longrightarrow> ok \<and> tx_free (cotp_socket self2) \<and> socketExtensionBufferFill self2 = 0"
      using send_one [OF prems(1-4) prems(5-7) less_imp_le [OF lt] room1, of False] by blast
    have step: "send_fragments payload n (Suc ?f) self cur ch i =
        (if ok then send_fragments payload n ?f self2 (cur + n) ch' j else Some (self2, COTP_ERROR))"
      using s(1-5) frag_count_pos [OF assms(1), of "length ?R - n"] by simp
    show ?thesis
    proof (cases ok)
      case False
      then obtain m where "outgoing self2 = outgoing self @ take m (dt_packet False (take n ?R))" using s(15) by auto
      then have "outgoing self2 = outgoing self @ take (min m (length (dt_packet False (take n ?R)))) (dt_stream n ?R)"
        unfolding st take_min_append .
      then have "\<exists>m. outgoing self2 = outgoing self @ take m (dt_stream n ?R)" by blast
      then show ?thesis using s(6-10,17) False unfolding fc2 step by auto
    next
      case True
      have room: "socketExtensionBufferFill self2 + (7 * frag_count n (length ?R') + length ?R') \<le> socketExtensionBufferSize self2"
        if "socketExtensionBuffer self2 \<noteq> None"
      proof -
        from that have e: "socketExtensionBuffer self \<noteq> None" "socketExtensionBufferSize self2 = socketExtensionBufferSize self"
          using send_frame_ext [OF s(7)] by simp_all
        define K where "K = length ?R - n"
        then have K: "length ?R = n + K" using lt by simp
        from prems(9) [OF e(1)] have "socketExtensionBufferFill self + (7 + 7 * frag_count n K + (n + K)) \<le> socketExtensionBufferSize self"
          unfolding fc2 K_def [symmetric] by (simp add: K)
        with s(16) show ?thesis unfolding e(2) length_drop K_def [symmetric] by linarith
      qed
      have shorter: "length (chain_rest ch' j) < length ?R" and cur: "cur + n + length (chain_rest ch' j) = ch_length payload"
        and mem: "bb_maxSize wb2 \<le> length (bb_buffer wb2)" "7 + n \<le> bb_maxSize wb2"
        using s(9,10,14) lt assms(1) prems(3,4,8) by simp_all
      obtain self' r where ih: "send_fragments payload n (frag_count n (length ?R')) self2 (cur + n) ch' j = Some (self', r)"
        "ext_ok self'" "send_frame self2 self'" "\<exists>wb'. writeBuffer self' = Some wb' \<and> bb_maxSize wb' = bb_maxSize wb2 \<and>
            length (bb_buffer wb') = length (bb_buffer wb2)"
        "r = COTP_OK \<and> outgoing self' = outgoing self2 @ dt_stream n ?R' \<or>
         r = COTP_ERROR \<and> (\<exists>m. outgoing self' = outgoing self2 @ take m (dt_stream n ?R'))"
        "tx_free (cotp_socket self2) \<longrightarrow> r = COTP_OK \<and> tx_free (cotp_socket self') \<and> socketExtensionBufferFill self' = 0"
        using less.hyps [OF shorter s(6,8) mem s(11-13) cur room [folded s(14)]] unfolding s(14) by blast
      have out: "outgoing self2 = outgoing self @ dt_packet False (take n ?R)" using s(15) True by simp
      have "r = COTP_OK \<and> outgoing self' = outgoing self @ dt_stream n ?R \<or>
         r = COTP_ERROR \<and> (\<exists>m. outgoing self' = outgoing self @ take m (dt_stream n ?R))"
        using ih(5) out unfolding st
        by (auto intro!: exI [of _ "length (dt_packet False (take n ?R)) + m" for m])
      then show ?thesis using ih(1-4,6) s(9,10,17) send_frame_trans [OF s(7) ih(3)] True unfolding fc2 step by auto
    qed
  qed
qed


subsection \<open>Sending a message\<close>

text \<open>What a connection needs to send: a write buffer with room for a TPDU of the negotiated
  size, which is one of the sizes the standard allows, and a consistent extension buffer.\<close>

definition cotp_tx_ok :: "CotpConnection \<Rightarrow> bool" where
  "cotp_tx_ok self \<longleftrightarrow> ext_ok self \<and> 7 \<le> unat (tpduSize (cotp_options self)) \<and> unat (tpduSize (cotp_options self)) \<le> 13 \<and>
     (\<exists>wb. writeBuffer self = Some wb \<and> bb_maxSize wb \<le> length (bb_buffer wb) \<and> CotpConnection_getTpduSize self + 4 \<le> bb_maxSize wb)"

lemma getTpduSize_bounds:
  assumes "7 \<le> unat (tpduSize (cotp_options self))" and "unat (tpduSize (cotp_options self)) \<le> 13"
  shows "128 \<le> CotpConnection_getTpduSize self" and "CotpConnection_getTpduSize self \<le> 8192"
proof -
  have "(2::nat) ^ 7 \<le> 2 ^ unat (tpduSize (cotp_options self))" using assms(1) by (intro power_increasing) simp_all
  moreover have "(2::nat) ^ unat (tpduSize (cotp_options self)) \<le> 2 ^ 13" using assms(2) by (intro power_increasing) simp_all
  ultimately show "128 \<le> CotpConnection_getTpduSize self" "CotpConnection_getTpduSize self \<le> 8192"
    by (simp_all add: CotpConnection_getTpduSize_def)
qed

text \<open>What sending may change: the socket, the write buffer's contents and the extension buffer.\<close>

definition tx_frame :: "CotpConnection \<Rightarrow> CotpConnection \<Rightarrow> bool" where
  "tx_frame self self' \<longleftrightarrow> send_frame self self' \<and> ext_ok self' \<and>
     (\<forall>wb. writeBuffer self = Some wb \<longrightarrow> (\<exists>wb'. writeBuffer self' = Some wb' \<and>
        bb_maxSize wb' = bb_maxSize wb \<and> length (bb_buffer wb') = length (bb_buffer wb)))"

lemma sendDataMessage_spec:
  assumes "cotp_tx_ok self" and "chain_ok payload" and "parts_ok payload"
  defines "n \<equiv> CotpConnection_getTpduSize self - 3"
  shows "\<exists>self' r. CotpConnection_sendDataMessage self payload = Some (self', r) \<and> cotp_tx_ok self' \<and> send_frame self self' \<and>
    (r = COTP_OK \<and> outgoing self' = outgoing self @ dt_stream n (chain_bytes payload) \<or>
     r = COTP_ERROR \<and> (\<exists>m. outgoing self' = outgoing self @ take m (dt_stream n (chain_bytes payload)))) \<and>
    (tx_free (cotp_socket self) \<and> (socketExtensionBuffer self \<noteq> None \<longrightarrow>
       7 * frag_count n (ch_length payload) + ch_length payload \<le> socketExtensionBufferSize self) \<longrightarrow> r = COTP_OK) \<and> tx_frame self self'"
proof -
  let ?L = "ch_length payload"
  from assms(1) obtain wb where wb: "ext_ok self" "writeBuffer self = Some wb" "bb_maxSize wb \<le> length (bb_buffer wb)"
    "CotpConnection_getTpduSize self + 4 \<le> bb_maxSize wb" by (auto simp: cotp_tx_ok_def)
  have sz: "128 \<le> CotpConnection_getTpduSize self" using assms(1) by (intro getTpduSize_bounds) (simp_all add: cotp_tx_ok_def)
  then have n: "0 < n" "int (CotpConnection_getTpduSize self) - 3 = int n" "7 + n \<le> bb_maxSize wb"
    using wb(4) by (auto simp: n_def)
  obtain self1 ok where f: "flushBuffer self = Some (self1, ok)" "ext_ok self1" "send_frame self self1"
    "writeBuffer self1 = writeBuffer self" "outgoing self1 = outgoing self"
    "tx_free (cotp_socket self) \<longrightarrow> ok \<and> tx_free (cotp_socket self1) \<and> socketExtensionBufferFill self1 = 0"
    using flushBuffer_spec [OF wb(1)] by auto
  have opt: "CotpConnection_getTpduSize self' = CotpConnection_getTpduSize self" if "send_frame self self'" for self'
    using that by (simp add: send_frame_def CotpConnection_getTpduSize_def)
  have tx_ok: "cotp_tx_ok self' \<and> tx_frame self self'" if "send_frame self self'" "ext_ok self'" "writeBuffer self' = Some wb'" "bb_maxSize wb' = bb_maxSize wb"
    "length (bb_buffer wb') = length (bb_buffer wb)" for self' wb'
    using that wb assms(1) opt [OF that(1)] by (auto simp: cotp_tx_ok_def tx_frame_def send_frame_def)
  let ?total = "7 * frag_count n ?L + ?L"
  define full where "full \<longleftrightarrow> socketExtensionBuffer self1 \<noteq> None \<and>
     socketExtensionBufferSize self1 < socketExtensionBufferFill self1 + ?total"
  have eq: "CotpConnection_sendDataMessage self payload =
      (if \<not> ok \<or> full then Some (self1, COTP_ERROR) else send_fragments payload n (frag_count n ?L) self1 0 payload 0)"
    using f(1) n by (auto simp: CotpConnection_sendDataMessage_def Let_def fragment_count_eq full_def)
  show ?thesis
  proof (cases "\<not> ok \<or> full")
    case True
    have "\<not> (tx_free (cotp_socket self) \<and> (socketExtensionBuffer self \<noteq> None \<longrightarrow> ?total \<le> socketExtensionBufferSize self))"
      using True f(3,6) by (auto simp: full_def send_frame_def)
    then show ?thesis using True eq f(3,5) tx_ok [OF f(3,2)] f(4) wb(2)
      by (intro exI [of _ self1] exI [of _ COTP_ERROR]) (auto intro: exI [of _ 0])
  next
    case False
    have R: "chain_rest payload 0 = chain_bytes payload" "length (chain_bytes payload) = ?L"
      using length_chain_bytes [OF assms(2)] by (simp_all add: chain_rest_def)
    have room: "socketExtensionBufferFill self1 + ?total \<le> socketExtensionBufferSize self1" if "socketExtensionBuffer self1 \<noteq> None"
      using that False by (auto simp: full_def)
    obtain self' r where s: "send_fragments payload n (frag_count n ?L) self1 0 payload 0 = Some (self', r)" "ext_ok self'"
      "send_frame self1 self'" "\<exists>wb'. writeBuffer self' = Some wb' \<and> bb_maxSize wb' = bb_maxSize wb \<and>
        length (bb_buffer wb') = length (bb_buffer wb)"
      "r = COTP_OK \<and> outgoing self' = outgoing self1 @ dt_stream n (chain_bytes payload) \<or>
       r = COTP_ERROR \<and> (\<exists>m. outgoing self' = outgoing self1 @ take m (dt_stream n (chain_bytes payload)))"
      "tx_free (cotp_socket self1) \<longrightarrow> r = COTP_OK"
      using send_fragments_spec [OF n(1) f(2) _ wb(3) n(3) assms(2,3), of 0 0 payload] f(4) wb(2) room R by auto
    then have "cotp_tx_ok self' \<and> tx_frame self self'" using tx_ok [OF send_frame_trans [OF f(3) s(3)] s(2)] by blast
    then show ?thesis using s False eq f(5,6) send_frame_trans [OF f(3) s(3)] by auto
  qed
qed

end
