(* ===== verification/Cotp_Receive.thy ===== *)
theory Cotp_Receive
  imports Cotp_Transfer
begin

section \<open>Reception of messages over COTP\<close>

text \<open>
  What \<open>CotpConnection_readToTpktBuffer\<close> makes of the bytes TCP delivers, in pieces of any size
  and with any number of empty reads between them, and the reassembly of the data TPDUs of a
  message into the payload buffer.
\<close>

subsection \<open>The incoming stream\<close>

text \<open>The bytes of the packet read so far, followed by those the socket is going to deliver.\<close>

definition incoming :: "CotpConnection \<Rightarrow> nat \<Rightarrow> byte list" where
  "incoming self pos = take pos (bb_buffer (readBuffer self)) @ rx_bytes (rx (cotp_socket self))"

definition tpkt_length :: "byte list \<Rightarrow> nat" where
  "tpkt_length b = unat (b ! 2) * 0x100 + unat (b ! 3)"

text \<open>A packet of which \<open>pos\<close> bytes are in the read buffer.\<close>

definition partial_packet :: "CotpConnection \<Rightarrow> nat \<Rightarrow> bool" where
  "partial_packet self pos \<longleftrightarrow>
     4 < bb_maxSize (readBuffer self) \<and> bb_maxSize (readBuffer self) \<le> length (bb_buffer (readBuffer self)) \<and>
     pos \<le> bb_maxSize (readBuffer self) \<and>
     (4 \<le> pos \<longrightarrow> bb_buffer (readBuffer self) ! 0 = 3 \<and> bb_buffer (readBuffer self) ! 1 = 0 \<and>
        packetSize self = tpkt_length (bb_buffer (readBuffer self)) \<and> packetSize self \<le> bb_maxSize (readBuffer self))"

text \<open>The invariant of the read buffer between two calls.\<close>

definition cotp_rx_ok :: "CotpConnection \<Rightarrow> bool" where
  "cotp_rx_ok self \<longleftrightarrow> partial_packet self (bb_size (readBuffer self)) \<and>
     (4 \<le> bb_size (readBuffer self) \<longrightarrow> bb_size (readBuffer self) < packetSize self)"

definition packet_complete :: "CotpConnection \<Rightarrow> bool" where
  "packet_complete self \<longleftrightarrow> partial_packet self (bb_size (readBuffer self)) \<and>
     4 < bb_size (readBuffer self) \<and> bb_size (readBuffer self) = packetSize self"

definition valid_tpkt :: "nat \<Rightarrow> byte list \<Rightarrow> bool" where
  "valid_tpkt M p \<longleftrightarrow> 5 \<le> length p \<and> length p \<le> M \<and> p ! 0 = 3 \<and> p ! 1 = 0 \<and> tpkt_length p = length p"

definition rx_calls :: "Socket \<Rightarrow> nat" where
  "rx_calls s = rx_work (rx s) + length (polls s)"

text \<open>Reading changes the read buffer, the packet size and the receiving side of the socket.\<close>

definition read_frame :: "CotpConnection \<Rightarrow> CotpConnection \<Rightarrow> bool" where
  "read_frame self self' \<longleftrightarrow>
     cotp_state self' = cotp_state self \<and> remoteRef self' = remoteRef self \<and> localRef self' = localRef self \<and>
     protocolClass self' = protocolClass self \<and> cotp_options self' = cotp_options self \<and>
     isLastDataUnit self' = isLastDataUnit self \<and> cotp_payload self' = cotp_payload self \<and> writeBuffer self' = writeBuffer self \<and>
     bb_maxSize (readBuffer self') = bb_maxSize (readBuffer self) \<and>
     socketExtensionBuffer self' = socketExtensionBuffer self \<and> socketExtensionBufferSize self' = socketExtensionBufferSize self \<and>
     socketExtensionBufferFill self' = socketExtensionBufferFill self \<and>
     tx (cotp_socket self') = tx (cotp_socket self) \<and> sent (cotp_socket self') = sent (cotp_socket self) \<and>
     fd (cotp_socket self') = fd (cotp_socket self)"

lemma read_frame_refl [simp]: "read_frame self self"
  by (simp add: read_frame_def)

lemma read_frame_trans [trans]: "read_frame a b \<Longrightarrow> read_frame b c \<Longrightarrow> read_frame a c"
  by (simp add: read_frame_def)

lemma read_frame_out: "read_frame self self' \<Longrightarrow> ext_ok self' = ext_ok self \<and> outgoing self' = outgoing self"
  by (cases "socketExtensionBuffer self") (simp_all add: read_frame_def ext_ok_def outgoing_def)

lemma readFromSocket_spec:
  assumes "off + sz \<le> length (bb_buffer (readBuffer self))" and "0 < sz"
  shows "\<exists>s bs n. readFromSocket self off sz =
           Some (self\<lparr>cotp_socket := s, readBuffer := (readBuffer self)\<lparr>bb_buffer := patch (bb_buffer (readBuffer self)) off bs\<rparr>\<rparr>, n) \<and>
         length bs \<le> sz \<and> rx_bytes (rx (cotp_socket self)) = bs @ rx_bytes (rx s) \<and>
         tx s = tx (cotp_socket self) \<and> sent s = sent (cotp_socket self) \<and> fd s = fd (cotp_socket self) \<and>
         (n = -1 \<and> bs = [] \<or> n = int (length bs)) \<and> rx_calls s \<le> rx_calls (cotp_socket self) \<and>
         (rx (cotp_socket self) \<noteq> [] \<and> fd (cotp_socket self) \<noteq> -1 \<longrightarrow> rx_calls s < rx_calls (cotp_socket self)) \<and>
         (rx_benign (cotp_socket self) \<longrightarrow> rx_benign s \<and> n = int (length bs))"
proof -
  let ?b = "bb_buffer (readBuffer self)"
  obtain s r where w: "Handleset_waitReady (cotp_socket self) = (s, r)" "rx s = rx (cotp_socket self)" "tx s = tx (cotp_socket self)"
    "sent s = sent (cotp_socket self)" "fd s = fd (cotp_socket self)" "length (polls s) \<le> length (polls (cotp_socket self))"
    "r < 1 \<longrightarrow> length (polls s) < length (polls (cotp_socket self))" "r \<ge> -1"
    "rx_benign (cotp_socket self) \<longrightarrow> rx_benign s \<and> 0 \<le> r"
    using waitReady_spec [of "cotp_socket self"] by auto
  show ?thesis
  proof (cases "r < 1")
    case True
    then have "readFromSocket self off sz =
        Some (self\<lparr>cotp_socket := s, readBuffer := (readBuffer self)\<lparr>bb_buffer := patch ?b off []\<rparr>\<rparr>, r)"
      using w(1,8) by (cases "r = -1") (auto simp: readFromSocket_def)
    then show ?thesis using True w by (intro exI [of _ s] exI [of _ "[]"] exI [of _ r]) (auto simp: rx_calls_def)
  next
    case False
    obtain s' bs n where rd: "Socket_read s ?b off sz = Some (s', patch ?b off bs, n)" "length bs \<le> sz"
      "tx s' = tx s" "sent s' = sent s" "polls s' = polls s" "fd s' = fd s" "rx_bytes (rx s) = bs @ rx_bytes (rx s')"
      "rx_work (rx s') \<le> rx_work (rx s)" "rx s \<noteq> [] \<and> fd s \<noteq> -1 \<longrightarrow> rx_work (rx s') < rx_work (rx s)"
      "n = -1 \<and> bs = [] \<or> n = int (length bs)" "rx_benign s \<longrightarrow> rx_benign s' \<and> n = int (length bs)"
      using Socket_read_spec [OF assms, of s] by auto
    have "readFromSocket self off sz =
        Some (self\<lparr>cotp_socket := s', readBuffer := (readBuffer self)\<lparr>bb_buffer := patch ?b off bs\<rparr>\<rparr>, n)"
      using False w(1) rd(1) by (simp add: readFromSocket_def)
    then show ?thesis using w rd by (intro exI [of _ s'] exI [of _ bs] exI [of _ n]) (auto simp: rx_calls_def)
  qed
qed

text \<open>The incoming stream starts with a packet that fits into the read buffer.\<close>

definition packet_ahead :: "CotpConnection \<Rightarrow> nat \<Rightarrow> bool" where
  "packet_ahead self pos \<longleftrightarrow> (\<exists>p rest. incoming self pos = p @ rest \<and> valid_tpkt (bb_maxSize (readBuffer self)) p)"

text \<open>What one attempt to read promises.\<close>

definition read_post :: "CotpConnection \<Rightarrow> nat \<Rightarrow> CotpConnection \<Rightarrow> TpktState \<Rightarrow> bool" where
  "read_post self pos self' st \<longleftrightarrow>
     read_frame self self' \<and> (st \<noteq> TPKT_PACKET_COMPLETE \<longrightarrow> cotp_rx_ok self') \<and>
     (st = TPKT_PACKET_COMPLETE \<longrightarrow> packet_complete self') \<and>
     (st = TPKT_ERROR \<longrightarrow> bb_size (readBuffer self') = 0) \<and>
     (st \<noteq> TPKT_ERROR \<longrightarrow> incoming self' (bb_size (readBuffer self')) = incoming self pos) \<and>
     rx_calls (cotp_socket self') \<le> rx_calls (cotp_socket self) \<and>
     (rx (cotp_socket self) \<noteq> [] \<and> fd (cotp_socket self) \<noteq> -1 \<longrightarrow> rx_calls (cotp_socket self') < rx_calls (cotp_socket self)) \<and>
     (rx_benign (cotp_socket self) \<longrightarrow> rx_benign (cotp_socket self') \<and>
       (st = TPKT_ERROR \<longrightarrow> \<not> packet_ahead self pos))"

lemma body_spec:
  assumes "partial_packet self pos" and "4 \<le> pos" and "pos < packetSize self"
  shows "\<exists>self' st. read_tpkt_body self pos = Some (self', st) \<and> read_post self pos self' st \<and>
           (rx_benign (cotp_socket self) \<longrightarrow> st \<noteq> TPKT_ERROR)"
proof -
  let ?rb = "readBuffer self"
  let ?b = "bb_buffer ?rb" and ?k = "packetSize self - pos"
  have b: "4 < bb_maxSize ?rb" "bb_maxSize ?rb \<le> length ?b" "?b ! 0 = 3" "?b ! 1 = 0" "packetSize self = tpkt_length ?b"
    "packetSize self \<le> bb_maxSize ?rb" using assms(1,2) by (simp_all add: partial_packet_def)
  have "pos + ?k \<le> length ?b" "0 < ?k" using assms(3) b by simp_all
  then obtain s bs n where r: "readFromSocket self pos ?k =
      Some (self\<lparr>cotp_socket := s, readBuffer := ?rb\<lparr>bb_buffer := patch ?b pos bs\<rparr>\<rparr>, n)"
    "length bs \<le> ?k" "rx_bytes (rx (cotp_socket self)) = bs @ rx_bytes (rx s)"
    "tx s = tx (cotp_socket self)" "sent s = sent (cotp_socket self)" "fd s = fd (cotp_socket self)"
    "n = -1 \<and> bs = [] \<or> n = int (length bs)" "rx_calls s \<le> rx_calls (cotp_socket self)"
    "rx (cotp_socket self) \<noteq> [] \<and> fd (cotp_socket self) \<noteq> -1 \<longrightarrow> rx_calls s < rx_calls (cotp_socket self)"
    "rx_benign (cotp_socket self) \<longrightarrow> rx_benign s \<and> n = int (length bs)"
    using readFromSocket_spec [of pos ?k self] by blast
  let ?b' = "patch ?b pos bs" and ?pos' = "pos + length bs"
  define self1 where "self1 = self\<lparr>cotp_socket := s, readBuffer := ?rb\<lparr>bb_buffer := ?b'\<rparr>\<rparr>"
  have fits: "pos + length bs \<le> length ?b" using r(2) assms(3) b by simp
  have hd: "?b' ! j = ?b ! j" if "j < 4" for j using that assms(2) fits by (simp add: patch_def nth_append)
  have tl: "tpkt_length ?b' = tpkt_length ?b" by (simp add: tpkt_length_def hd)
  have tk: "take ?pos' ?b' = take pos ?b @ bs" using take_patch [of pos ?b bs] fits by simp
  have fr: "read_frame self (fst (tpkt_exit self1 p st))" for p st
    using r by (simp add: self1_def tpkt_exit_def read_frame_def)
  show ?thesis
  proof (cases "n < 0")
    case True
    then have "read_tpkt_body self pos = Some (tpkt_exit self1 0 TPKT_ERROR)"
      using r(1) assms(3) by (simp add: read_tpkt_body_def self1_def)
    moreover have "\<not> rx_benign (cotp_socket self)" using True r(10) by auto
    ultimately show ?thesis using fr [of 0 TPKT_ERROR] r(8,9) b fits
      by (auto simp: read_post_def tpkt_exit_def self1_def cotp_rx_ok_def partial_packet_def)
  next
    case False
    then have n: "n = int (length bs)" using r(7) by auto
    let ?st = "if ?pos' < packetSize self then TPKT_WAITING else TPKT_PACKET_COMPLETE"
    let ?self' = "fst (tpkt_exit self1 ?pos' ?st)"
    have eq: "read_tpkt_body self pos = Some (?self', ?st)"
      using r(1) assms(3) n by (simp add: read_tpkt_body_def self1_def tpkt_exit_def)
    have pp: "partial_packet ?self' ?pos'"
      using b r(2) assms(3) hd [of 0] hd [of 1] tl fits by (simp add: partial_packet_def self1_def tpkt_exit_def)
    have "incoming ?self' ?pos' = incoming self pos"
      using tk r(3) by (simp add: incoming_def self1_def tpkt_exit_def)
    then have "read_post self pos ?self' ?st"
      using fr [of ?pos' ?st] pp r(2,8-10) assms(2,3)
      by (auto simp: read_post_def cotp_rx_ok_def packet_complete_def tpkt_exit_def self1_def)
    with eq show ?thesis by auto
  qed
qed


lemma valid_header:
  assumes "incoming self 4 = p @ rest" and "valid_tpkt M p" and "4 \<le> length (bb_buffer (readBuffer self))"
  shows "bb_buffer (readBuffer self) ! 0 = 3" and "bb_buffer (readBuffer self) ! 1 = 0"
    and "tpkt_length (bb_buffer (readBuffer self)) = length p" and "5 \<le> length p" and "length p \<le> M"
proof -
  have p: "5 \<le> length p" "length p \<le> M" "p ! 0 = 3" "p ! 1 = 0" "tpkt_length p = length p"
    using assms(2) by (simp_all add: valid_tpkt_def)
  have "bb_buffer (readBuffer self) ! j = p ! j" if "j < 4" for j
  proof -
    have "bb_buffer (readBuffer self) ! j = incoming self 4 ! j" using that assms(3) by (simp add: incoming_def nth_append)
    also have "\<dots> = p ! j" using that p(1) unfolding assms(1) by (simp add: nth_append)
    finally show ?thesis .
  qed
  then show "bb_buffer (readBuffer self) ! 0 = 3" "bb_buffer (readBuffer self) ! 1 = 0"
    "tpkt_length (bb_buffer (readBuffer self)) = length p" "5 \<le> length p" "length p \<le> M"
    using p by (simp_all add: tpkt_length_def)
qed

lemma read_post_trans:
  assumes "read_frame self self1" and "incoming self1 pos1 = incoming self pos"
    and "rx_calls (cotp_socket self1) \<le> rx_calls (cotp_socket self)"
    and "rx (cotp_socket self) \<noteq> [] \<and> fd (cotp_socket self) \<noteq> -1 \<longrightarrow> rx_calls (cotp_socket self1) < rx_calls (cotp_socket self)"
    and "rx_benign (cotp_socket self) \<longrightarrow> rx_benign (cotp_socket self1)"
    and "read_post self1 pos1 self' st"
  shows "read_post self pos self' st"
proof -
  have mx: "bb_maxSize (readBuffer self1) = bb_maxSize (readBuffer self)" using assms(1) by (simp add: read_frame_def)
  have "read_frame self self'" using assms(6) read_frame_trans [OF assms(1)] by (simp add: read_post_def)
  moreover have "packet_ahead self1 pos1 = packet_ahead self pos" using assms(2) mx by (simp add: packet_ahead_def)
  moreover have "rx_calls (cotp_socket self') \<le> rx_calls (cotp_socket self1)" using assms(6) by (simp add: read_post_def)
  moreover from this assms(3,4) have "rx_calls (cotp_socket self') \<le> rx_calls (cotp_socket self)"
    "rx (cotp_socket self) \<noteq> [] \<and> fd (cotp_socket self) \<noteq> -1 \<longrightarrow> rx_calls (cotp_socket self') < rx_calls (cotp_socket self)"
    by linarith+
  ultimately show ?thesis using assms(2,5,6) by (simp add: read_post_def)
qed

lemma header_spec:
  assumes "partial_packet self pos" and "pos < 4"
  shows "\<exists>self' st. read_tpkt_header self pos = Some (self', st) \<and> read_post self pos self' st"
proof -
  let ?rb = "readBuffer self"
  let ?b = "bb_buffer ?rb" and ?k = "4 - pos"
  have b: "4 < bb_maxSize ?rb" "bb_maxSize ?rb \<le> length ?b" using assms(1) by (simp_all add: partial_packet_def)
  have "pos + ?k \<le> length ?b" "0 < ?k" using assms(2) b by simp_all
  then obtain s bs n where r: "readFromSocket self pos ?k =
      Some (self\<lparr>cotp_socket := s, readBuffer := ?rb\<lparr>bb_buffer := patch ?b pos bs\<rparr>\<rparr>, n)"
    "length bs \<le> ?k" "rx_bytes (rx (cotp_socket self)) = bs @ rx_bytes (rx s)"
    "tx s = tx (cotp_socket self)" "sent s = sent (cotp_socket self)" "fd s = fd (cotp_socket self)"
    "n = -1 \<and> bs = [] \<or> n = int (length bs)" "rx_calls s \<le> rx_calls (cotp_socket self)"
    "rx (cotp_socket self) \<noteq> [] \<and> fd (cotp_socket self) \<noteq> -1 \<longrightarrow> rx_calls s < rx_calls (cotp_socket self)"
    "rx_benign (cotp_socket self) \<longrightarrow> rx_benign s \<and> n = int (length bs)"
    using readFromSocket_spec [of pos ?k self] by blast
  let ?b' = "patch ?b pos bs" and ?pos' = "pos + length bs"
  define self1 where "self1 = self\<lparr>cotp_socket := s, readBuffer := ?rb\<lparr>bb_buffer := ?b'\<rparr>\<rparr>"
  have fits: "pos + length bs \<le> length ?b" using r(2) assms(2) b by simp
  have len: "length ?b' = length ?b" using fits by (rule length_patch)
  have tk: "take ?pos' ?b' = take pos ?b @ bs" using take_patch [of pos ?b bs] fits by simp
  have inc: "incoming self1 ?pos' = incoming self pos" using tk r(3) by (simp add: incoming_def self1_def)
  have fr: "read_frame self self1" using r by (simp add: self1_def read_frame_def)
  have err: "read_post self pos (fst (tpkt_exit self2 0 TPKT_ERROR)) TPKT_ERROR"
    if "self2 = self1 \<or> self2 = self1\<lparr>packetSize := q\<rparr>"
      "rx_benign (cotp_socket self) \<longrightarrow> \<not> packet_ahead self pos" for self2 q
    using that(1)
    by (elim disjE) (use that(2) r(4-6,8-10) b len in
      \<open>simp_all add: read_post_def tpkt_exit_def self1_def cotp_rx_ok_def partial_packet_def read_frame_def\<close>)
  consider (closed) "n < 0" | (waiting) "n = int (length bs)" "?pos' < 4" | (header) "n = int (length bs)" "?pos' = 4"
    using r(2,7) assms(2) by force
  then show ?thesis
  proof cases
    case closed
    then have "read_tpkt_header self pos = Some (tpkt_exit self1 0 TPKT_ERROR)"
      using r(1) by (simp add: read_tpkt_header_def self1_def)
    moreover have "\<not> rx_benign (cotp_socket self)" using closed r(10) by auto
    ultimately show ?thesis using err [of self1] by (auto simp: tpkt_exit_def)
  next
    case waiting
    let ?self' = "fst (tpkt_exit self1 ?pos' TPKT_WAITING)"
    have "read_tpkt_header self pos = Some (?self', TPKT_WAITING)"
      using r(1) waiting by (simp add: read_tpkt_header_def self1_def tpkt_exit_def)
    moreover have "incoming ?self' ?pos' = incoming self pos" using inc by (simp add: incoming_def tpkt_exit_def)
    then have "read_post self pos ?self' TPKT_WAITING"
      using fr r(8-10) b len waiting
      by (simp add: read_post_def tpkt_exit_def self1_def cotp_rx_ok_def partial_packet_def read_frame_def)
    ultimately show ?thesis by blast
  next
    case header
    define self2 where "self2 = self1\<lparr>packetSize := unat (?b' ! 2) * 0x100 + unat (?b' ! 3)\<rparr>"
    have b1: "bb_buffer (readBuffer self1) = ?b'" "bb_maxSize (readBuffer self1) = bb_maxSize ?rb" by (simp_all add: self1_def)
    have ps: "packetSize self2 = tpkt_length ?b'" by (simp add: self2_def tpkt_length_def)
    have rds: "rd ?b' j = Some (?b' ! j)" if "j < 4" for j using that b len by (intro rd_Some) linarith
    have eq: "read_tpkt_header self pos =
        (if ?b' ! 0 = 3 \<and> ?b' ! 1 = 0
         then if packetSize self2 > bb_maxSize ?rb then Some (tpkt_exit self2 0 TPKT_ERROR) else read_tpkt_body self2 4
         else Some (tpkt_exit self1 0 TPKT_ERROR))"
      using r(1) header
      by (simp add: read_tpkt_header_def self1_def [symmetric] b1 self2_def Let_def rds del: rd_eq_Some One_nat_def split del: if_split cong: if_cong)
    have inc4: "incoming self1 4 = incoming self pos" using inc header by simp
    have good: "?b' ! 0 = 3 \<and> ?b' ! 1 = 0 \<and> 4 < packetSize self2 \<and> packetSize self2 \<le> bb_maxSize ?rb"
      if ahead: "packet_ahead self pos"
    proof -
      obtain p rest where "incoming self1 4 = p @ rest" "valid_tpkt (bb_maxSize ?rb) p"
        using ahead inc4 by (auto simp: packet_ahead_def)
      from valid_header [OF this] b len show ?thesis unfolding b1 ps by simp
    qed
    show ?thesis
    proof (cases "?b' ! 0 = 3 \<and> ?b' ! 1 = 0 \<and> 4 < packetSize self2 \<and> packetSize self2 \<le> bb_maxSize ?rb")
      case False
      then have "\<exists>self3. (self3 = self1 \<or> self3 = self2) \<and> read_tpkt_header self pos = Some (tpkt_exit self3 0 TPKT_ERROR)"
        unfolding eq by (auto simp: read_tpkt_body_def)
      then show ?thesis using err good False by (auto simp: tpkt_exit_def self2_def)
    next
      case True
      have "partial_packet self2 4" using True b len by (simp add: partial_packet_def self2_def b1 tpkt_length_def)
      then obtain self' st where "read_tpkt_body self2 4 = Some (self', st)" "read_post self2 4 self' st"
        using body_spec [of self2 4] True by auto
      moreover have "read_frame self self2" "incoming self2 4 = incoming self pos" "cotp_socket self2 = s"
        using fr inc4 by (simp_all add: self2_def read_frame_def incoming_def self1_def)
      ultimately show ?thesis using True r(8-10) eq read_post_trans [of self self2 4 pos self' st] by auto
    qed
  qed
qed


lemma partial_packet_cong:
  "readBuffer self' = readBuffer self \<Longrightarrow> packetSize self' = packetSize self \<Longrightarrow> partial_packet self' pos = partial_packet self pos"
  "readBuffer self' = readBuffer self \<Longrightarrow> packetSize self' = packetSize self \<Longrightarrow> cotp_rx_ok self' = cotp_rx_ok self"
  by (simp_all add: partial_packet_def cotp_rx_ok_def)

text \<open>With nothing left to send, a call reads from the socket.\<close>

lemma readToTpktBuffer_read:
  assumes "cotp_rx_ok self" and "socketExtensionBufferFill self = 0"
  shows "\<exists>self' st. CotpConnection_readToTpktBuffer self = Some (self', st) \<and> read_post self (bb_size (readBuffer self)) self' st"
proof -
  have pp: "partial_packet self (bb_size (readBuffer self))" using assms(1) by (simp add: cotp_rx_ok_def)
  then have pp4: "4 < bb_maxSize (readBuffer self)" by (simp add: partial_packet_def)
  show ?thesis
  proof (cases "bb_size (readBuffer self) < 4")
    case True
    with header_spec [OF pp] show ?thesis using assms(2) pp4 by (simp add: CotpConnection_readToTpktBuffer_def)
  next
    case False
    with body_spec [OF pp] show ?thesis
      using assms pp4 by (auto simp: CotpConnection_readToTpktBuffer_def cotp_rx_ok_def)
  qed
qed

lemma read_after_flush:
  assumes "4 < bb_maxSize (readBuffer self)" and "flushBuffer self = Some (self1, ok)" and "readBuffer self1 = readBuffer self"
  shows "CotpConnection_readToTpktBuffer self =
     (if \<not> ok then Some (tpkt_exit self1 0 TPKT_ERROR)
      else if socketExtensionBufferFill self1 > 0 then Some (tpkt_exit self1 (bb_size (readBuffer self)) TPKT_WAITING)
      else CotpConnection_readToTpktBuffer self1)"
proof (cases "socketExtensionBufferFill self = 0")
  case True
  then have "self1 = self" "ok" using assms(2) by (simp_all add: flushBuffer_def)
  then show ?thesis using True by simp
next
  case False
  then show ?thesis using assms
    by (cases "ok \<and> socketExtensionBufferFill self1 = 0") (auto simp: CotpConnection_readToTpktBuffer_def)
qed

lemma readToTpktBuffer_spec:
  assumes "cotp_rx_ok self" and "ext_ok self"
  shows "\<exists>self' st. CotpConnection_readToTpktBuffer self = Some (self', st) \<and> ext_ok self' \<and> outgoing self' = outgoing self \<and>
    cotp_payload self' = cotp_payload self \<and> cotp_options self' = cotp_options self \<and>
    bb_maxSize (readBuffer self') = bb_maxSize (readBuffer self) \<and>
    (case st of
       TPKT_WAITING \<Rightarrow> cotp_rx_ok self' \<and> incoming self' (bb_size (readBuffer self')) = incoming self (bb_size (readBuffer self))
     | TPKT_PACKET_COMPLETE \<Rightarrow>
         packet_complete self' \<and> incoming self' (bb_size (readBuffer self')) = incoming self (bb_size (readBuffer self))
     | TPKT_ERROR \<Rightarrow> cotp_rx_ok self' \<and> bb_size (readBuffer self') = 0)"
proof -
  let ?pos = "bb_size (readBuffer self)"
  obtain self1 ok where f: "flushBuffer self = Some (self1, ok)" "ext_ok self1" "send_frame self self1"
    "outgoing self1 = outgoing self" "socketExtensionBufferFill self1 \<le> socketExtensionBufferFill self"
    using flushBuffer_spec [OF assms(2)] by blast
  have s1: "readBuffer self1 = readBuffer self" "packetSize self1 = packetSize self" "cotp_payload self1 = cotp_payload self"
    "cotp_options self1 = cotp_options self" "rx (cotp_socket self1) = rx (cotp_socket self)" using f(3) by (simp_all add: send_frame_def)
  have ok1: "cotp_rx_ok self1" using assms(1) partial_packet_cong(2) [OF s1(1,2)] by simp
  have pp: "4 < bb_maxSize (readBuffer self)" using assms(1) by (simp add: cotp_rx_ok_def partial_packet_def)
  note eq = read_after_flush [OF pp f(1) s1(1)]
  have keep: "ext_ok (fst (tpkt_exit self1 p st))" "outgoing (fst (tpkt_exit self1 p st)) = outgoing self" for p st
    using f(2,4) by (simp_all add: tpkt_exit_def ext_ok_def outgoing_def split: option.splits)
  have exit: "cotp_rx_ok (fst (tpkt_exit self1 p st))" if "p = 0 \<or> p = ?pos" for p st
    using that ok1 s1(1,2) by (auto simp: tpkt_exit_def cotp_rx_ok_def partial_packet_def)
  consider (err) "\<not> ok" | (busy) "ok" "socketExtensionBufferFill self1 > 0" | (read) "ok" "socketExtensionBufferFill self1 = 0" by blast
  then show ?thesis
  proof cases
    case err
    with eq keep [of 0 TPKT_ERROR] exit [of 0 TPKT_ERROR] s1 show ?thesis by (simp add: tpkt_exit_def)
  next
    case busy
    with eq keep [of ?pos TPKT_WAITING] exit [of ?pos TPKT_WAITING] s1 show ?thesis by (simp add: tpkt_exit_def incoming_def)
  next
    case read
    obtain self' st where r: "CotpConnection_readToTpktBuffer self1 = Some (self', st)" "read_post self1 ?pos self' st"
      using readToTpktBuffer_read [OF ok1 read(2)] s1(1) by auto
    have inc: "incoming self1 ?pos = incoming self ?pos" using s1 by (simp add: incoming_def)
    have fr: "read_frame self1 self'" using r(2) by (simp add: read_post_def)
    have "ext_ok self'" "outgoing self' = outgoing self"
      using read_frame_out [OF fr] f(2,4) by simp_all
    then show ?thesis using eq read r fr s1 inc
      by (cases st) (simp_all add: read_post_def read_frame_def)
  qed
qed


subsection \<open>When reading fails\<close>

text \<open>The number of system calls on a socket that are still going to fail: the end of the stream,
  errors of \<open>recv\<close>, \<open>send\<close> and \<open>poll\<close>. One of them failed between two states exactly when the
  number has become smaller.\<close>

definition io_faults :: "Socket \<Rightarrow> nat" where
  "io_faults s = length (filter (\<lambda>e. e = Recv_error \<or> e = Recv_data []) (rx s)) +
     length (filter (\<lambda>e. e = Send_error) (tx s)) + length (filter (\<lambda>e. e = Poll_error) (polls s))"

text \<open>A TPKT header that is complete and wrong: the version is not 3, the reserved byte not 0, or
  the announced length leaves no room for a TPDU or exceeds the read buffer.\<close>

definition bad_header :: "nat \<Rightarrow> byte list \<Rightarrow> bool" where
  "bad_header limit p \<longleftrightarrow> 4 \<le> length p \<and>
     \<not> (p ! 0 = 3 \<and> p ! 1 = 0 \<and> 4 < tpkt_length p \<and> tpkt_length p \<le> limit)"

lemma Socket_read_faults:
  assumes "fd self \<noteq> -1" and "0 < sz" and "Socket_read self buf off sz = Some (s, buf', n)"
  shows "io_faults s \<le> io_faults self" and "n < 0 \<longleftrightarrow> io_faults s < io_faults self" and "fd s = fd self"
proof -
  have "io_faults s \<le> io_faults self \<and> (n < 0 \<longleftrightarrow> io_faults s < io_faults self) \<and> fd s = fd self"
  proof (cases "rx self")
    case Nil
    then show ?thesis using assms by (auto simp: Socket_read_def recv_def split: if_splits)
  next
    case (Cons e es)
    then show ?thesis using assms
      by (cases e) (auto simp: Socket_read_def recv_def io_faults_def split: if_splits)
  qed
  then show "io_faults s \<le> io_faults self" and "n < 0 \<longleftrightarrow> io_faults s < io_faults self" and "fd s = fd self" by auto
qed

lemma waitReady_faults:
  assumes "Handleset_waitReady self = (s, r)"
  shows "io_faults s \<le> io_faults self" and "r = -1 \<longleftrightarrow> io_faults s < io_faults self" and "fd s = fd self" and "rx s = rx self" and "-1 \<le> r"
proof -
  have "io_faults s \<le> io_faults self \<and> (r = -1 \<longleftrightarrow> io_faults s < io_faults self) \<and> fd s = fd self \<and> rx s = rx self \<and> -1 \<le> r"
  proof (cases "polls self")
    case (Cons e es)
    then show ?thesis using assms by (cases e) (auto simp: Handleset_waitReady_def io_faults_def)
  qed (use assms in \<open>auto simp: Handleset_waitReady_def\<close>)
  then show "io_faults s \<le> io_faults self" and "r = -1 \<longleftrightarrow> io_faults s < io_faults self" and "fd s = fd self" and "rx s = rx self" and "-1 \<le> r" by auto
qed

lemma readFromSocket_faults:
  assumes "fd (cotp_socket self) \<noteq> -1" and "0 < sz" and "readFromSocket self off sz = Some (self', n)"
  shows "io_faults (cotp_socket self') \<le> io_faults (cotp_socket self)"
    and "n < 0 \<longleftrightarrow> io_faults (cotp_socket self') < io_faults (cotp_socket self)"
    and "fd (cotp_socket self') = fd (cotp_socket self)"
proof -
  obtain s r where w: "Handleset_waitReady (cotp_socket self) = (s, r)" by fastforce
  note w' = waitReady_faults [OF w]
  have "io_faults (cotp_socket self') \<le> io_faults (cotp_socket self) \<and>
     (n < 0 \<longleftrightarrow> io_faults (cotp_socket self') < io_faults (cotp_socket self)) \<and> fd (cotp_socket self') = fd (cotp_socket self)"
  proof (cases "r < 1")
    case True
    then show ?thesis using assms(3) w w' by (auto simp: readFromSocket_def split: if_splits)
  next
    case False
    then obtain s' buf where s': "Socket_read s (bb_buffer (readBuffer self)) off sz = Some (s', buf, n)" "cotp_socket self' = s'"
      using assms(3) w by (auto simp: readFromSocket_def split: Option.bind_splits)
    have "io_faults s = io_faults (cotp_socket self)" using False w'(1,2) by auto
    then show ?thesis using Socket_read_faults [OF _ assms(2) s'(1)] assms(1) w'(3) s'(2) by simp
  qed
  then show "io_faults (cotp_socket self') \<le> io_faults (cotp_socket self)"
    and "n < 0 \<longleftrightarrow> io_faults (cotp_socket self') < io_faults (cotp_socket self)"
    and "fd (cotp_socket self') = fd (cotp_socket self)" by auto
qed

text \<open>\<open>read_error\<close>: between two states, the bytes received so far are \<open>got\<close>, and an error is
  reported exactly if a system call failed or the header is wrong.\<close>

definition read_error :: "CotpConnection \<Rightarrow> nat \<Rightarrow> CotpConnection \<Rightarrow> TpktState \<Rightarrow> byte list \<Rightarrow> bool" where
  "read_error self pos self' st got \<longleftrightarrow>
     incoming self pos = got @ rx_bytes (rx (cotp_socket self')) \<and> io_faults (cotp_socket self') \<le> io_faults (cotp_socket self) \<and>
     (st = TPKT_ERROR \<longleftrightarrow> io_faults (cotp_socket self') < io_faults (cotp_socket self) \<or> bad_header (bb_maxSize (readBuffer self)) got)"

lemma good_header:
  assumes "partial_packet self pos" and "4 \<le> pos" and "pos < packetSize self"
  shows "\<not> bad_header (bb_maxSize (readBuffer self)) (take pos (bb_buffer (readBuffer self)) @ bs)"
proof -
  let ?b = "bb_buffer (readBuffer self)"
  have len: "pos \<le> length ?b" using assms(1) by (simp add: partial_packet_def)
  then have "(take pos ?b @ bs) ! j = ?b ! j" if "j < 4" for j using that assms(2) by (simp add: nth_append)
  then show ?thesis using assms by (auto simp: bad_header_def partial_packet_def tpkt_length_def)
qed

lemma body_error:
  assumes "partial_packet self pos" and "4 \<le> pos" and "pos < packetSize self" and "fd (cotp_socket self) \<noteq> -1"
    and "read_tpkt_body self pos = Some (self', st)"
  shows "\<exists>bs. read_error self pos self' st (take pos (bb_buffer (readBuffer self)) @ bs)"
proof -
  let ?k = "packetSize self - pos" and ?b = "bb_buffer (readBuffer self)"
  have k: "pos + ?k \<le> length ?b" "0 < ?k" using assms(1-3) by (simp_all add: partial_packet_def)
  obtain s bs n where r: "readFromSocket self pos ?k =
      Some (self\<lparr>cotp_socket := s, readBuffer := (readBuffer self)\<lparr>bb_buffer := patch ?b pos bs\<rparr>\<rparr>, n)"
    "rx_bytes (rx (cotp_socket self)) = bs @ rx_bytes (rx s)"
    using readFromSocket_spec [OF k] by blast
  note f = readFromSocket_faults [OF assms(4) k(2) r(1)]
  have s: "cotp_socket self' = s" "st = TPKT_ERROR \<longleftrightarrow> n < 0"
    using assms(3,5) r(1) by (auto simp: read_tpkt_body_def tpkt_exit_def Let_def split: if_splits)
  have "incoming self pos = (take pos ?b @ bs) @ rx_bytes (rx s)" using r(2) by (simp add: incoming_def)
  then have "read_error self pos self' st (take pos ?b @ bs)"
    unfolding read_error_def using f s good_header [OF assms(1-3), of bs] by simp
  then show ?thesis by blast
qed

lemma header_error:
  assumes "partial_packet self pos" and "pos < 4" and "fd (cotp_socket self) \<noteq> -1" and "read_tpkt_header self pos = Some (self', st)"
  shows "\<exists>got. read_error self pos self' st got"
proof -
  let ?rb = "readBuffer self"
  let ?b = "bb_buffer ?rb" and ?k = "4 - pos"
  have b: "4 < bb_maxSize ?rb" "bb_maxSize ?rb \<le> length ?b" using assms(1) by (simp_all add: partial_packet_def)
  have k: "pos + ?k \<le> length ?b" "0 < ?k" using assms(2) b by simp_all
  obtain s bs n where r: "readFromSocket self pos ?k =
      Some (self\<lparr>cotp_socket := s, readBuffer := ?rb\<lparr>bb_buffer := patch ?b pos bs\<rparr>\<rparr>, n)"
    "length bs \<le> ?k" "rx_bytes (rx (cotp_socket self)) = bs @ rx_bytes (rx s)" "n = -1 \<and> bs = [] \<or> n = int (length bs)"
    using readFromSocket_spec [OF k] by blast
  note f = readFromSocket_faults [OF assms(3) k(2) r(1), simplified]
  let ?b' = "patch ?b pos bs" and ?pos' = "pos + length bs" and ?got = "take pos ?b @ bs"
  define self1 where "self1 = self\<lparr>cotp_socket := s, readBuffer := ?rb\<lparr>bb_buffer := ?b'\<rparr>\<rparr>"
  define self2 where "self2 = self1\<lparr>packetSize := tpkt_length ?b'\<rparr>"
  have fits: "?pos' \<le> length ?b" using r(2) k by simp
  have len: "length ?b' = length ?b" "take ?pos' ?b' = ?got" using length_patch [OF fits] take_patch [of pos ?b bs] fits by simp_all
  have inc: "incoming self pos = ?got @ rx_bytes (rx s)" using r(3) by (simp add: incoming_def)
  have lg: "length ?got = ?pos'" using fits by simp
  consider (closed) "n < 0" "bs = []" | (waiting) "n = int (length bs)" "?pos' < 4" | (header) "n = int (length bs)" "?pos' = 4"
    using r(2,4) assms(2) by force
  then show ?thesis
  proof cases
    case header
    have hd: "?got ! j = ?b' ! j" "rd ?b' j = Some (?b' ! j)" if "j < 4" for j
      using that header(2) len b by (simp_all add: len(2) [symmetric])
    have eq: "Some (self', st) =
        (if ?b' ! 0 = 3 \<and> ?b' ! 1 = 0
         then if packetSize self2 > bb_maxSize ?rb then Some (tpkt_exit self2 0 TPKT_ERROR) else read_tpkt_body self2 4
         else Some (tpkt_exit self1 0 TPKT_ERROR))"
      unfolding assms(4) [symmetric] using r(1) header
      by (simp add: read_tpkt_header_def self2_def self1_def tpkt_length_def Let_def hd(2) del: rd_eq_Some One_nat_def split del: if_split cong: if_cong)
    show ?thesis
    proof (cases "bad_header (bb_maxSize ?rb) ?got")
      case True
      then have "st = TPKT_ERROR \<and> cotp_socket self' = s"
        using eq lg header(2) hd(1)
        by (auto simp: bad_header_def tpkt_length_def self1_def self2_def read_tpkt_body_def tpkt_exit_def split: if_splits)
      with True inc f(1) have "read_error self pos self' st ?got" by (simp add: read_error_def)
      then show ?thesis by blast
    next
      case False
      then have g: "?b' ! 0 = 3" "?b' ! 1 = 0" "4 < packetSize self2" "packetSize self2 \<le> bb_maxSize ?rb"
        using lg header(2) hd(1) by (auto simp: bad_header_def tpkt_length_def self2_def)
      then have pp: "partial_packet self2 4" "read_tpkt_body self2 4 = Some (self', st)"
        using b len eq by (simp_all add: partial_packet_def self2_def self1_def)
      have "fd (cotp_socket self2) \<noteq> -1" using f(3) assms(3) by (simp add: self2_def self1_def)
      from body_error [OF pp(1) _ g(3) this pp(2)] obtain bs' where
        e: "read_error self2 4 self' st (take 4 ?b' @ bs')" by (auto simp: self2_def self1_def)
      have "incoming self2 4 = incoming self pos" using inc len(2) header(2) by (simp add: incoming_def self2_def self1_def)
      moreover have "io_faults (cotp_socket self2) = io_faults (cotp_socket self)" using f(1,2) header(1) by (simp add: self2_def self1_def)
      ultimately have "read_error self pos self' st (take 4 ?b' @ bs')"
        using e by (simp add: read_error_def self2_def self1_def)
      then show ?thesis by blast
    qed
  qed (use assms(4) r(1) inc f lg in \<open>auto simp: read_error_def read_tpkt_header_def tpkt_exit_def bad_header_def Let_def intro!: exI [of _ ?got]\<close>)
qed


lemma Socket_write_faults:
  assumes "Socket_write self buf sz = Some (s, n)"
  shows "fd s = fd self" and "io_faults s \<le> io_faults self" and "n < 0 \<longleftrightarrow> n = -1"
    and "fd self \<noteq> -1 \<Longrightarrow> n = -1 \<longleftrightarrow> io_faults s < io_faults self" and "fd self = -1 \<Longrightarrow> n = -1"
proof -
  have "fd s = fd self \<and> io_faults s \<le> io_faults self \<and> (n < 0 \<longleftrightarrow> n = -1) \<and> (fd self \<noteq> -1 \<longrightarrow> (n = -1 \<longleftrightarrow> io_faults s < io_faults self)) \<and> (fd self = -1 \<longrightarrow> n = -1)"
  proof (cases "tx self")
    case (Cons e es)
    then show ?thesis using assms
      by (cases e) (auto simp: Socket_write_def send_def io_faults_def split: if_splits Option.bind_splits)
  qed (use assms in \<open>auto simp: Socket_write_def send_def io_faults_def split: if_splits Option.bind_splits\<close>)
  then show "fd s = fd self" and "io_faults s \<le> io_faults self" and "n < 0 \<longleftrightarrow> n = -1"
    and "fd self \<noteq> -1 \<Longrightarrow> n = -1 \<longleftrightarrow> io_faults s < io_faults self" and "fd self = -1 \<Longrightarrow> n = -1" by auto
qed

lemma flushBuffer_faults:
  assumes "flushBuffer self = Some (self', ok)"
  shows "fd (cotp_socket self') = fd (cotp_socket self)" and "io_faults (cotp_socket self') \<le> io_faults (cotp_socket self)"
    and "fd (cotp_socket self) \<noteq> -1 \<Longrightarrow> \<not> ok \<longleftrightarrow> io_faults (cotp_socket self') < io_faults (cotp_socket self)"
    and "fd (cotp_socket self) = -1 \<Longrightarrow> ok \<longleftrightarrow> socketExtensionBufferFill self = 0"
proof -
  have "fd (cotp_socket self') = fd (cotp_socket self) \<and> io_faults (cotp_socket self') \<le> io_faults (cotp_socket self) \<and>
    (fd (cotp_socket self) \<noteq> -1 \<longrightarrow> (\<not> ok \<longleftrightarrow> io_faults (cotp_socket self') < io_faults (cotp_socket self))) \<and>
    (fd (cotp_socket self) = -1 \<longrightarrow> (ok \<longleftrightarrow> socketExtensionBufferFill self = 0))"
  proof (cases "socketExtensionBufferFill self > 0")
    case True
    then obtain buf s n where w: "Socket_write (cotp_socket self) buf (socketExtensionBufferFill self) = Some (s, n)"
      "cotp_socket self' = s" "ok \<longleftrightarrow> n \<noteq> -1"
      using assms by (auto simp: flushBuffer_def writeToSocket_def Let_def split: Option.bind_splits if_splits)
    show ?thesis using Socket_write_faults [OF w(1)] True unfolding w(2,3) by auto
  qed (use assms in \<open>auto simp: flushBuffer_def\<close>)
  then show "fd (cotp_socket self') = fd (cotp_socket self)" and "io_faults (cotp_socket self') \<le> io_faults (cotp_socket self)"
    and "fd (cotp_socket self) \<noteq> -1 \<Longrightarrow> \<not> ok \<longleftrightarrow> io_faults (cotp_socket self') < io_faults (cotp_socket self)"
    and "fd (cotp_socket self) = -1 \<Longrightarrow> ok \<longleftrightarrow> socketExtensionBufferFill self = 0" by auto
qed

lemma rx_not_bad:
  assumes "cotp_rx_ok self"
  shows "\<not> bad_header (bb_maxSize (readBuffer self)) (take (bb_size (readBuffer self)) (bb_buffer (readBuffer self)))"
proof (cases "4 \<le> bb_size (readBuffer self)")
  case True
  then show ?thesis using good_header [of self "bb_size (readBuffer self)" "[]"] assms by (simp add: cotp_rx_ok_def)
qed (simp add: bad_header_def)

lemma read_error_exists:
  assumes "cotp_rx_ok self" and "socketExtensionBufferFill self = 0" and "fd (cotp_socket self) \<noteq> -1"
    and "CotpConnection_readToTpktBuffer self = Some (self', st)"
  shows "\<exists>got. read_error self (bb_size (readBuffer self)) self' st got"
proof -
  have pp: "partial_packet self (bb_size (readBuffer self))" "4 < bb_maxSize (readBuffer self)"
    using assms(1) by (auto simp: cotp_rx_ok_def partial_packet_def)
  show ?thesis
  proof (cases "bb_size (readBuffer self) < 4")
    case True
    then show ?thesis using header_error [OF pp(1) True assms(3)] assms(2,4) pp(2) by (simp add: CotpConnection_readToTpktBuffer_def)
  next
    case False
    then show ?thesis using body_error [OF pp(1) _ _ assms(3), of self' st] assms pp(2)
      by (auto simp: CotpConnection_readToTpktBuffer_def cotp_rx_ok_def)
  qed
qed

lemma readToTpktBuffer_error:
  assumes "cotp_rx_ok self" and "ext_ok self" and "fd (cotp_socket self) \<noteq> -1"
    and "CotpConnection_readToTpktBuffer self = Some (self', st)"
  shows "\<exists>got. read_error self (bb_size (readBuffer self)) self' st got"
proof -
  let ?pos = "bb_size (readBuffer self)"
  let ?old = "take ?pos (bb_buffer (readBuffer self))"
  obtain self1 ok where f: "flushBuffer self = Some (self1, ok)" "send_frame self self1"
    using flushBuffer_spec [OF assms(2)] by blast
  have s1: "readBuffer self1 = readBuffer self" "packetSize self1 = packetSize self" "rx (cotp_socket self1) = rx (cotp_socket self)"
    using f(2) by (simp_all add: send_frame_def)
  have ok1: "cotp_rx_ok self1" using assms(1) partial_packet_cong(2) [OF s1(1,2)] by simp
  have mx: "4 < bb_maxSize (readBuffer self)" using assms(1) by (simp add: cotp_rx_ok_def partial_packet_def)
  note g = flushBuffer_faults [OF f(1)]
  note eq = assms(4) [unfolded read_after_flush [OF mx f(1) s1(1)]]
  show ?thesis
  proof (cases "ok \<and> socketExtensionBufferFill self1 = 0")
    case True
    then have r: "CotpConnection_readToTpktBuffer self1 = Some (self', st)" using eq by simp
    from read_error_exists [OF ok1 _ _ this] True g(1) assms(3) s1(1) obtain got where "read_error self1 ?pos self' st got" by auto
    moreover have "io_faults (cotp_socket self1) = io_faults (cotp_socket self)" using g(2,3) assms(3) True by auto
    moreover have "incoming self1 ?pos = incoming self ?pos" using s1 by (simp add: incoming_def)
    ultimately show ?thesis using s1(1) by (auto simp: read_error_def)
  next
    case False
    then have "cotp_socket self' = cotp_socket self1" "st = TPKT_ERROR \<longleftrightarrow> \<not> ok" using eq by (auto simp: tpkt_exit_def split: if_splits)
    then have "read_error self ?pos self' st ?old"
      using g(2,3) assms(3) s1(3) rx_not_bad [OF assms(1)] by (simp add: read_error_def incoming_def)
    then show ?thesis by blast
  qed
qed

text \<open>A connection whose socket has been closed never gets a packet.\<close>

lemma readToTpktBuffer_closed:
  assumes "cotp_rx_ok self" and "ext_ok self" and "fd (cotp_socket self) = -1"
    and "CotpConnection_readToTpktBuffer self = Some (self', st)"
  shows "st \<noteq> TPKT_PACKET_COMPLETE" and "st = TPKT_WAITING \<longleftrightarrow> socketExtensionBufferFill self = 0 \<and> snd (Handleset_waitReady (cotp_socket self)) = 0"
proof -
  obtain self1 ok where f: "flushBuffer self = Some (self1, ok)" using flushBuffer_spec [OF assms(2)] by blast
  obtain s r where w: "Handleset_waitReady (cotp_socket self) = (s, r)" by fastforce
  note ws = waitReady_faults [OF w]
  have f1: "(if 0 < socketExtensionBufferFill self then flushBuffer self else Some (self, True)) = Some (self1, ok)"
    "socketExtensionBufferFill self = 0 \<Longrightarrow> self1 = self"
    using f by (auto simp: flushBuffer_def)
  have rd: "\<exists>q. readFromSocket self off sz = Some (q, if r = 0 then 0 else -1) \<and> packetSize q = packetSize self" if "0 < sz" for off sz
    using w ws assms(3) that by (auto simp: readFromSocket_def Socket_read_def)
  have pp: "4 < bb_maxSize (readBuffer self)" "4 \<le> bb_size (readBuffer self) \<longrightarrow> bb_size (readBuffer self) < packetSize self"
    using assms(1) by (auto simp: cotp_rx_ok_def partial_packet_def)
  have "st \<noteq> TPKT_PACKET_COMPLETE \<and> (st = TPKT_WAITING \<longleftrightarrow> socketExtensionBufferFill self = 0 \<and> r = 0)"
  proof (cases "socketExtensionBufferFill self = 0")
    case False
    then show ?thesis using assms(3,4) pp(1) flushBuffer_faults(4) [OF f] f1(1)
      by (auto simp: CotpConnection_readToTpktBuffer_def Let_def tpkt_exit_def)
  next
    case True
    show ?thesis using assms(4) pp True rd [of "4 - bb_size (readBuffer self)" "bb_size (readBuffer self)"]
        rd [of "packetSize self - bb_size (readBuffer self)" "bb_size (readBuffer self)"]
      by (cases "bb_size (readBuffer self) < 4")
         (auto simp: CotpConnection_readToTpktBuffer_def read_tpkt_header_def read_tpkt_body_def Let_def tpkt_exit_def split: if_splits)
  qed
  then show "st \<noteq> TPKT_PACKET_COMPLETE" and "st = TPKT_WAITING \<longleftrightarrow> socketExtensionBufferFill self = 0 \<and> snd (Handleset_waitReady (cotp_socket self)) = 0"
    using w by auto
qed

subsection \<open>Reassembly\<close>

lemma addPayload_eq:
  assumes "bb_ok (cotp_payload self)" and "0 < length bs" and "has buffer off bs"
    and "bb_size (cotp_payload self) + length bs \<le> bb_maxSize (cotp_payload self)"
  shows "\<exists>p. addPayloadToBuffer self buffer off (int (length bs)) = Some (self\<lparr>cotp_payload := p\<rparr>, True) \<and> bb_ok p \<and>
           bb_maxSize p = bb_maxSize (cotp_payload self) \<and> bb_bytes p = bb_bytes (cotp_payload self) @ bs \<and>
           length (bb_buffer p) = length (bb_buffer (cotp_payload self))"
proof -
  let ?p = "cotp_payload self"
  let ?b = "patch (bb_buffer ?p) (bb_size ?p) bs"
  have len: "bb_size ?p + length bs \<le> length (bb_buffer ?p)" "off + length bs \<le> length buffer"
    using assms has_length [OF assms(3)] by (auto simp: bb_ok_def)
  have "take (length bs) (drop off buffer) = bs" using assms(3) by (simp add: has_def)
  then have "memcpy (bb_buffer ?p) (bb_size ?p) buffer off (length bs) = Some ?b"
    using memcpy_eq [of off "length bs" buffer "bb_size ?p" "bb_buffer ?p"] len by simp
  moreover have "take (bb_size ?p + length bs) ?b = bb_bytes ?p @ bs"
    using take_patch [of "bb_size ?p" "bb_buffer ?p" bs] len by (simp add: bb_bytes_def)
  moreover have "length ?b = length (bb_buffer ?p)" using len(1) by (rule length_patch)
  ultimately show ?thesis using assms(1,2,4)
    by (intro exI [of _ "?p\<lparr>bb_buffer := ?b, bb_size := bb_size ?p + length bs\<rparr>"])
      (simp add: addPayloadToBuffer_def bb_ok_def bb_bytes_def Let_def)
qed

text \<open>A complete data TPDU is appended to the payload; the read buffer is free again.\<close>

lemma parse_dt:
  assumes "bb_ok (readBuffer self)" and "bb_bytes (readBuffer self) = dt_packet l bs" and "0 < length bs"
    and "bb_ok (cotp_payload self)" and "bb_size (cotp_payload self) + length bs \<le> bb_maxSize (cotp_payload self)"
  shows "\<exists>p. CotpConnection_parseIncomingMessage self =
      Some (self\<lparr>isLastDataUnit := l, cotp_payload := p, readBuffer := (readBuffer self)\<lparr>bb_size := 0\<rparr>, packetSize := 0\<rparr>,
        if l then COTP_DATA_INDICATION else COTP_MORE_FRAGMENTS_FOLLOW) \<and>
    bb_ok p \<and> bb_maxSize p = bb_maxSize (cotp_payload self) \<and> bb_bytes p = bb_bytes (cotp_payload self) @ bs"
proof -
  let ?b = "bb_buffer (readBuffer self)"
  have h: "has ?b 0 (dt_packet l bs)" using bb_has [OF assms(1)] assms(2) by simp
  have sz: "bb_size (readBuffer self) = 7 + length bs" using length_bb_bytes [OF assms(1)] assms(2) by simp
  have rd: "rd ?b 4 = Some 2" "rd ?b 5 = Some 0xf0" "rd ?b 6 = Some (if l then 0x80 else 0)"
    using has_rd [OF h, of 4] has_rd [OF h, of 5] has_rd [OF h, of 6] by (simp_all add: dt_packet_eq tpkt_header_def dt_header_def)
  have "has ?b (0 + length (tpkt_header (7 + length bs) @ dt_header l)) bs"
    using h unfolding dt_packet_eq append_assoc [symmetric] by (simp only: has_append)
  then have hbs: "has ?b 7 bs" by simp
  let ?s1 = "self\<lparr>isLastDataUnit := l\<rparr>"
  obtain p where p: "addPayloadToBuffer ?s1 ?b 7 (int (length bs)) = Some (?s1\<lparr>cotp_payload := p\<rparr>, True)" "bb_ok p"
    "bb_maxSize p = bb_maxSize (cotp_payload self)" "bb_bytes p = bb_bytes (cotp_payload self) @ bs"
    using addPayload_eq [of ?s1 bs ?b 7] assms(3-5) hbs by auto
  have "(if l then 0x80 else (0::byte)) AND 0x80 \<noteq> 0 \<longleftrightarrow> l" by simp
  then have "parseDataTpdu self ?b 6 2 = Some (?s1, True)" using rd(3) by (simp add: parseDataTpdu_def getUint8_def del: rd_eq_Some)
  then have "parseCotpMessage self = Some (?s1\<lparr>cotp_payload := p\<rparr>, if l then COTP_DATA_INDICATION else COTP_MORE_FRAGMENTS_FOLLOW)"
    using rd(1,2) sz p(1) by (simp add: parseCotpMessage_def Let_def del: rd_eq_Some)
  with p(2-4) show ?thesis by (intro exI [of _ p]) (simp add: CotpConnection_parseIncomingMessage_def)
qed


text \<open>The receiving loop of a connection, as its owner drives it (\<open>IsoConnection_handleTcpConnection\<close>
  on the server, state \<open>INT_STATE_WAIT_FOR_DATA_MSG\<close> on the client): read, and when a packet is
  complete parse it; fragments are collected until the last one. One unit of fuel is one call.\<close>

fun receive :: "nat \<Rightarrow> CotpConnection \<Rightarrow> (CotpConnection \<times> CotpIndication option) option" where
  "receive 0 self = Some (self, None)"
| "receive (Suc fuel) self = do {
     (self, tpktState) \<leftarrow> CotpConnection_readToTpktBuffer self;
     case tpktState of
       TPKT_ERROR \<Rightarrow> Some (self, Some COTP_ERROR)
     | TPKT_WAITING \<Rightarrow> receive fuel self
     | TPKT_PACKET_COMPLETE \<Rightarrow> do {
         (self, cotpIndication) \<leftarrow> CotpConnection_parseIncomingMessage self;
         if cotpIndication = COTP_MORE_FRAGMENTS_FOLLOW then receive fuel self
         else Some (self, Some cotpIndication) } }"

lemma dt_packet_valid: "7 + length bs \<le> M \<Longrightarrow> 7 + length bs < 65536 \<Longrightarrow> valid_tpkt M (dt_packet l bs)"
  unfolding valid_tpkt_def tpkt_length_def
  by (simp add: dt_packet_def unat_of_nat nth_Cons' numeral_eq_Suc [of Num.One] del: of_nat_add)

lemma dt_stream_first:
  assumes "0 < n"
  shows "\<exists>l bs more. dt_stream n msg = dt_packet l bs @ more \<and> length bs \<le> n \<and> (0 < length msg \<longrightarrow> 0 < length bs) \<and>
    (if l then bs = msg \<and> more = [] else bs = take n msg \<and> n < length msg \<and> more = dt_stream n (drop n msg))"
proof (cases "length msg \<le> n")
  case True
  then show ?thesis by (intro exI [of _ True] exI [of _ msg] exI [of _ "[]"]) (simp add: dt_stream.simps)
next
  case False
  then show ?thesis using assms
    by (intro exI [of _ False] exI [of _ "take n msg"] exI [of _ "dt_stream n (drop n msg)"]) (simp add: dt_stream.simps [of n msg])
qed


text \<open>What is left to deliver contains the rest of the packet ahead.\<close>

lemma packet_ahead_rx:
  assumes "cotp_rx_ok self" and "incoming self (bb_size (readBuffer self)) = p @ rest" and "valid_tpkt M p"
  shows "rx (cotp_socket self) \<noteq> []"
proof
  let ?b = "bb_buffer (readBuffer self)" and ?n = "bb_size (readBuffer self)"
  assume "rx (cotp_socket self) = []"
  then have eq: "take ?n ?b = p @ rest" using assms(2) by (simp add: incoming_def)
  have pp: "partial_packet self ?n" "4 \<le> ?n \<longrightarrow> ?n < packetSize self" using assms(1) by (simp_all add: cotp_rx_ok_def)
  then have len: "?n \<le> length ?b" by (simp add: partial_packet_def)
  have "5 \<le> length p" using assms(3) by (simp add: valid_tpkt_def)
  moreover have "length p + length rest = ?n" using arg_cong [OF eq, of length] len by simp
  ultimately have n: "5 \<le> ?n" "length p \<le> ?n" by simp_all
  have "?b ! j = p ! j" if "j < 4" for j
    using that n \<open>5 \<le> length p\<close> arg_cong [OF eq, of "\<lambda>xs. xs ! j"] by (simp add: nth_append)
  then have "tpkt_length ?b = length p" using assms(3) by (simp add: valid_tpkt_def tpkt_length_def)
  moreover have "packetSize self = tpkt_length ?b" using pp n by (simp add: partial_packet_def)
  ultimately show False using pp(2) n by simp
qed

text \<open>A complete packet is the one that was ahead.\<close>

lemma complete_is_ahead:
  assumes "packet_complete self" and "incoming self (bb_size (readBuffer self)) = p @ rest" and "valid_tpkt M p"
  shows "bb_ok (readBuffer self)" and "bb_bytes (readBuffer self) = p" and "rx_bytes (rx (cotp_socket self)) = rest"
proof -
  let ?b = "bb_buffer (readBuffer self)" and ?n = "bb_size (readBuffer self)"
  have pp: "partial_packet self ?n" "4 < ?n" "?n = packetSize self" using assms(1) unfolding packet_complete_def by blast+
  then show ok: "bb_ok (readBuffer self)" by (simp add: partial_packet_def bb_ok_def)
  then have len: "?n \<le> length ?b" by (simp add: bb_ok_def)
  have eq: "take ?n ?b @ rx_bytes (rx (cotp_socket self)) = p @ rest" using assms(2) by (simp add: incoming_def)
  have "5 \<le> length p" using assms(3) by (simp add: valid_tpkt_def)
  then have "?b ! j = p ! j" if "j < 4" for j
    using that pp(2) len arg_cong [OF eq, of "\<lambda>xs. xs ! j"] by (simp add: nth_append)
  then have "tpkt_length ?b = length p" using assms(3) by (simp add: valid_tpkt_def tpkt_length_def)
  then have "?n = length p" using pp by (simp add: partial_packet_def)
  then show "bb_bytes (readBuffer self) = p" "rx_bytes (rx (cotp_socket self)) = rest"
    using eq len by (simp_all add: bb_bytes_def append_eq_append_conv)
qed

lemma receive_spec:
  assumes n: "0 < n" "7 + n < 65536"
    and "rx_calls (cotp_socket self) < fuel" and "cotp_rx_ok self" and "rx_benign (cotp_socket self)"
    and "socketExtensionBufferFill self = 0" and "7 + n \<le> bb_maxSize (readBuffer self)"
    and "incoming self (bb_size (readBuffer self)) = dt_stream n msg @ rest" and "0 < length msg"
    and "bb_ok (cotp_payload self)" and "bb_size (cotp_payload self) + length msg \<le> bb_maxSize (cotp_payload self)"
  shows "\<exists>self'. receive fuel self = Some (self', Some COTP_DATA_INDICATION) \<and>
    bb_bytes (cotp_payload self') = bb_bytes (cotp_payload self) @ msg \<and> bb_ok (cotp_payload self') \<and>
    rx_bytes (rx (cotp_socket self')) = rest \<and> cotp_rx_ok self' \<and> bb_size (readBuffer self') = 0"
  using assms(3-)
proof (induction fuel arbitrary: self msg)
  case (Suc fuel)
  note prems = Suc.prems
  let ?sz = "bb_size (readBuffer self)" and ?M = "bb_maxSize (readBuffer self)"
  obtain l bs more where first: "dt_stream n msg = dt_packet l bs @ more" "length bs \<le> n" "0 < length bs"
    "if l then bs = msg \<and> more = [] else bs = take n msg \<and> n < length msg \<and> more = dt_stream n (drop n msg)"
    using dt_stream_first [OF n(1), of msg] prems(7) by auto
  have val: "valid_tpkt ?M (dt_packet l bs)" using dt_packet_valid [of bs ?M l] first(2) n(2) prems(5) by simp
  have inc: "incoming self ?sz = dt_packet l bs @ (more @ rest)" using prems(6) first(1) by simp
  have rx: "rx (cotp_socket self) \<noteq> []" "fd (cotp_socket self) \<noteq> -1"
    using packet_ahead_rx [OF prems(2) inc val] prems(3) by (simp_all add: rx_benign_def)
  obtain self1 st where r: "CotpConnection_readToTpktBuffer self = Some (self1, st)" "read_post self ?sz self1 st"
    using readToTpktBuffer_read [OF prems(2,4)] by blast
  have ahead: "packet_ahead self ?sz" using inc val by (auto simp: packet_ahead_def)
  then have post: "st \<noteq> TPKT_ERROR" "read_frame self self1" "rx_calls (cotp_socket self1) < fuel" "rx_benign (cotp_socket self1)"
    "incoming self1 (bb_size (readBuffer self1)) = incoming self ?sz"
    using r(2) prems(1,3) rx by (auto simp: read_post_def)
  have fr: "socketExtensionBufferFill self1 = 0" "bb_maxSize (readBuffer self1) = ?M" "cotp_payload self1 = cotp_payload self"
    using post(2) prems(4) by (simp_all add: read_frame_def)
  show ?case
  proof (cases st)
    case TPKT_WAITING
    then have "cotp_rx_ok self1" using r(2) by (simp add: read_post_def)
    then show ?thesis using Suc.IH [of self1 msg] TPKT_WAITING r(1) post prems(5-9) fr by simp
  next
    case TPKT_PACKET_COMPLETE
    then have "packet_complete self1" using r(2) by (simp add: read_post_def)
    note c = complete_is_ahead [OF this _ val, of "more @ rest"]
    have c': "bb_ok (readBuffer self1)" "bb_bytes (readBuffer self1) = dt_packet l bs" "rx_bytes (rx (cotp_socket self1)) = more @ rest"
      using c post(5) inc by simp_all
    have fit: "bb_size (cotp_payload self1) + length bs \<le> bb_maxSize (cotp_payload self1)"
      using prems(9) fr(3) first(4) by (cases l) simp_all
    have pok: "bb_ok (cotp_payload self1)" using prems(8) fr(3) by simp
    obtain p where p: "CotpConnection_parseIncomingMessage self1 =
      Some (self1\<lparr>isLastDataUnit := l, cotp_payload := p, readBuffer := (readBuffer self1)\<lparr>bb_size := 0\<rparr>, packetSize := 0\<rparr>,
        if l then COTP_DATA_INDICATION else COTP_MORE_FRAGMENTS_FOLLOW)" (is "_ = Some (?self2, _)")
      "bb_ok p" "bb_maxSize p = bb_maxSize (cotp_payload self1)" "bb_bytes p = bb_bytes (cotp_payload self1) @ bs"
      using parse_dt [OF c'(1,2) first(3) pok fit] by auto
    have rx2: "cotp_rx_ok ?self2" using c'(1) prems(5) fr(2) n(1) by (simp add: cotp_rx_ok_def partial_packet_def bb_ok_def)
    show ?thesis
    proof (cases l)
      case True
      then have "receive (Suc fuel) self = Some (?self2, Some COTP_DATA_INDICATION)"
        using r(1) TPKT_PACKET_COMPLETE p(1) by simp
      then show ?thesis using True first(4) p(2,4) fr(3) c'(3) rx2 by simp
    next
      case False
      have size_p: "bb_size p = bb_size (cotp_payload self1) + length bs"
        using length_bb_bytes [OF p(2)] length_bb_bytes [OF pok] p(4) by simp
      have "receive (Suc fuel) self = receive fuel ?self2" using r(1) TPKT_PACKET_COMPLETE p(1) False by simp
      moreover have "incoming ?self2 (bb_size (readBuffer ?self2)) = dt_stream n (drop n msg) @ rest"
        using c'(3) first(4) False by (simp add: incoming_def)
      moreover have "bb_size p + length (drop n msg) \<le> bb_maxSize p" "0 < length (drop n msg)" "bs @ drop n msg = msg"
        using size_p p(3) prems(9) fr(3) first(4) False by auto
      ultimately show ?thesis
        using Suc.IH [of ?self2 "drop n msg"] post(3,4) rx2 fr prems(5) p(2,4) by simp
    qed
  qed (use post(1) in simp)
qed simp


subsection \<open>Properties\<close>

text \<open>An idle connection with TPDU size 128, used in the examples.\<close>

definition cotp_example :: "Socket \<Rightarrow> CotpConnection" where
  "cotp_example s =
     \<lparr>cotp_state = 0, remoteRef = -1, localRef = 1, protocolClass = -1, cotp_socket = s,
      cotp_options = \<lparr>tSelSrc = \<lparr>sel_size = 2, sel_value = [0, 1, 0, 0]\<rparr>, tSelDst = \<lparr>sel_size = 2, sel_value = [0, 1, 0, 0]\<rparr>, tpduSize = 7\<rparr>,
      isLastDataUnit = False, cotp_payload = \<lparr>bb_buffer = replicate 300 0, bb_maxSize = 300, bb_size = 0\<rparr>,
      writeBuffer = Some \<lparr>bb_buffer = replicate 300 0, bb_maxSize = 300, bb_size = 0\<rparr>,
      readBuffer = \<lparr>bb_buffer = replicate 300 0, bb_maxSize = 300, bb_size = 0\<rparr>, packetSize = 0,
      socketExtensionBuffer = None, socketExtensionBufferSize = 0, socketExtensionBufferFill = 0\<rparr>"

definition socket_example :: "recv_result list \<Rightarrow> Socket" where
  "socket_example es = \<lparr>fd = 3, rx = es, tx = [], polls = [], sent = []\<rparr>"

lemma cotp_example_ok: "cotp_tx_ok (cotp_example s)" "cotp_rx_ok (cotp_example s)"
  by (simp_all add: cotp_example_def cotp_tx_ok_def ext_ok_def CotpConnection_getTpduSize_def cotp_rx_ok_def partial_packet_def)

text \<open>C7: Sending a message hands TCP exactly the data TPDUs for it, in order and each in its TPKT
  packet, however the socket accepts the bytes: every successful send appends them to the bytes
  accepted so far and those waiting in the extension buffer; a failing one appends a prefix of
  them. Nothing is written outside the buffers and the connection stays able to send; on an open
  socket that accepts everything the send succeeds, provided that the message fits into the
  extension buffer where there is one.\<close>

theorem cotp_send_stream:
  assumes "cotp_tx_ok self" and "chain_ok payload" and "parts_ok payload"
  shows "\<exists>self' r. CotpConnection_sendDataMessage self payload = Some (self', r) \<and> cotp_tx_ok self' \<and>
    (r = COTP_OK \<and> outgoing self' = outgoing self @ dt_stream (CotpConnection_getTpduSize self - 3) (chain_bytes payload) \<or>
     r = COTP_ERROR \<and>
       (\<exists>m. outgoing self' = outgoing self @ take m (dt_stream (CotpConnection_getTpduSize self - 3) (chain_bytes payload)))) \<and>
    (tx_free (cotp_socket self) \<and> (socketExtensionBuffer self \<noteq> None \<longrightarrow>
       7 * frag_count (CotpConnection_getTpduSize self - 3) (ch_length payload) + ch_length payload
         \<le> socketExtensionBufferSize self) \<longrightarrow> r = COTP_OK)"
  using sendDataMessage_spec [OF assms] by blast

theorem cotp_send_stream_witness:
  "\<exists>self'. CotpConnection_sendDataMessage (cotp_example (socket_example [])) (BufferChain 2 2 2 [8, 9] None) = Some (self', COTP_OK) \<and>
     outgoing self' = [3, 0, 0, 9, 2, 0xf0, 0x80, 8, 9]"
  using cotp_send_stream [OF cotp_example_ok(1), of "BufferChain 2 2 2 [8, 9] None" "socket_example []"]
  by (auto simp: socket_example_def tx_free_def cotp_example_def outgoing_def CotpConnection_getTpduSize_def dt_stream.simps dt_packet_def)



text \<open>C5: A non-empty message sent over COTP arrives: if the send succeeds and TCP delivers the
  bytes handed to it, cut into pieces of any size and with any number of empty reads, timeouts and
  interrupted waits between them, the receiver reports a data indication after finitely many calls
  and has appended exactly the message to its payload buffer, whatever the number of fragments;
  the bytes behind the message are still to be read.\<close>

theorem cotp_transfer:
  assumes "cotp_tx_ok sender" and "chain_ok payload" and "parts_ok payload" and "0 < ch_length payload"
    and "CotpConnection_sendDataMessage sender payload = Some (sender', COTP_OK)"
    and "cotp_rx_ok receiver" and "bb_size (readBuffer receiver) = 0" and "socketExtensionBufferFill receiver = 0"
    and "CotpConnection_getTpduSize sender + 4 \<le> bb_maxSize (readBuffer receiver)"
    and "bb_ok (cotp_payload receiver)" and "bb_size (cotp_payload receiver) + ch_length payload \<le> bb_maxSize (cotp_payload receiver)"
    and "rx_benign (cotp_socket receiver)"
    and "rx_bytes (rx (cotp_socket receiver)) = drop (length (outgoing sender)) (outgoing sender') @ rest"
    and "rx_calls (cotp_socket receiver) < fuel"
  shows "\<exists>receiver'. receive fuel receiver = Some (receiver', Some COTP_DATA_INDICATION) \<and>
    bb_bytes (cotp_payload receiver') = bb_bytes (cotp_payload receiver) @ chain_bytes payload \<and>
    rx_bytes (rx (cotp_socket receiver')) = rest"
proof -
  let ?n = "CotpConnection_getTpduSize sender - 3"
  have sz: "128 \<le> CotpConnection_getTpduSize sender" "CotpConnection_getTpduSize sender \<le> 8192"
    using assms(1) by (auto simp: cotp_tx_ok_def intro: getTpduSize_bounds)
  have n: "0 < ?n" "7 + ?n < 65536" "7 + ?n \<le> bb_maxSize (readBuffer receiver)" using sz assms(9) by auto
  have "outgoing sender' = outgoing sender @ dt_stream ?n (chain_bytes payload)"
    using sendDataMessage_spec [OF assms(1-3)] assms(5) by auto
  then have inc: "incoming receiver (bb_size (readBuffer receiver)) = dt_stream ?n (chain_bytes payload) @ rest"
    using assms(7,13) by (simp add: incoming_def)
  have len: "length (chain_bytes payload) = ch_length payload" by (rule length_chain_bytes [OF assms(2)])
  show ?thesis
    using receive_spec [OF n(1,2) assms(14,6,12,8) n(3) inc] assms(4,10,11) len by auto
qed

theorem cotp_transfer_witness:
  "\<exists>sender' receiver'. CotpConnection_sendDataMessage (cotp_example (socket_example [])) (BufferChain 2 2 2 [8, 9] None) = Some (sender', COTP_OK) \<and>
     receive 20 (cotp_example (socket_example [Recv_data [3, 0, 0], Recv_EAGAIN, Recv_data [9, 2, 0xf0, 0x80, 8, 9]])) =
       Some (receiver', Some COTP_DATA_INDICATION) \<and>
     bb_bytes (cotp_payload receiver') = [8, 9]"
proof -
  let ?s = "cotp_example (socket_example [])" and ?d = "BufferChain 2 2 2 [8, 9] None"
  let ?r = "cotp_example (socket_example [Recv_data [3, 0, 0], Recv_EAGAIN, Recv_data [9, 2, 0xf0, 0x80, 8, 9]])"
  obtain sender' where s: "CotpConnection_sendDataMessage ?s ?d = Some (sender', COTP_OK)"
    "outgoing sender' = [3, 0, 0, 9, 2, 0xf0, 0x80, 8, 9]"
    using sendDataMessage_spec [OF cotp_example_ok(1), of ?d "socket_example []"]
    by (auto simp: socket_example_def tx_free_def cotp_example_def outgoing_def CotpConnection_getTpduSize_def dt_stream.simps dt_packet_def)
  have "outgoing ?s = []" by (simp add: cotp_example_def socket_example_def outgoing_def)
  then show ?thesis
    using cotp_transfer [OF cotp_example_ok(1) _ _ _ s(1) cotp_example_ok(2), of "socket_example [Recv_data [3, 0, 0], Recv_EAGAIN, Recv_data [9, 2, 0xf0, 0x80, 8, 9]]" "[]" 20] s
    by (auto simp: cotp_example_def socket_example_def CotpConnection_getTpduSize_def rx_benign_def rx_calls_def bb_ok_def bb_bytes_def)
qed

end
