(* ===== verification/Cotp_Connect.thy ===== *)
theory Cotp_Connect
  imports Cotp_Receive
begin

section \<open>Connection establishment over COTP\<close>

text \<open>
  The connect request and confirm TPDUs of \<open>src/mms/iso_cotp/cotp.c\<close>: safety of the parser on
  every received packet, and what a peer learns from a request or a confirm.
\<close>

subsection \<open>Options\<close>

definition options_ok :: "CotpConnection \<Rightarrow> bool" where
  "options_ok self \<longleftrightarrow> selector_ok 4 (tSelSrc (cotp_options self)) \<and> selector_ok 4 (tSelDst (cotp_options self)) \<and>
     7 \<le> unat (tpduSize (cotp_options self)) \<and> unat (tpduSize (cotp_options self)) \<le> 13"

lemma tpduSize_loop_power: "n \<le> k \<Longrightarrow> tpduSize_loop n (2 ^ k) = k"
proof (induction "k - n" arbitrary: n)
  case (Suc d)
  then have "tpduSize_loop n (2 ^ k) = tpduSize_loop (Suc n) (2 ^ k)"
    by (subst tpduSize_loop.simps) (simp add: power_strict_increasing)
  then show ?case using Suc.hyps(1) [of "Suc n"] Suc.hyps(2) Suc.prems by simp
qed (simp add: tpduSize_loop.simps)

lemma setTpduSize_power:
  assumes "1 \<le> k" and "k \<le> 13"
  shows "CotpConnection_setTpduSize self (2 ^ k) = self\<lparr>cotp_options := (cotp_options self)\<lparr>tpduSize := of_nat k\<rparr>\<rparr>"
proof -
  have "(2::nat) ^ k \<le> 2 ^ 13" using assms(2) by (intro power_increasing) simp_all
  then show ?thesis
    using tpduSize_loop_power [OF assms(1)] by (simp add: CotpConnection_setTpduSize_def COTP_MAX_TPDU_SIZE_def Let_def)
qed

lemma parse_option_spec:
  assumes "options_ok self" and "off + bufPos + optionLen \<le> length buffer"
  shows "\<exists>opts r. parse_option self buffer off bufPos optionType optionLen = Some (self\<lparr>cotp_options := opts\<rparr>, r) \<and>
           options_ok (self\<lparr>cotp_options := opts\<rparr>) \<and> (\<forall>p. r = Ret p \<longrightarrow> p = bufPos + optionLen)"
proof -
  have copy: "memcpy v 0 buffer (off + bufPos) optionLen = Some (patch v 0 (take optionLen (drop (off + bufPos) buffer)))"
    "length (patch v 0 (take optionLen (drop (off + bufPos) buffer))) = 4" if "length v = 4" "optionLen < 5" for v
    using that assms(2) memcpy_eq [of "off + bufPos" optionLen buffer 0 v] by (simp_all add: patch_def)
  have sel: "length (sel_value (tSelSrc (cotp_options self))) = 4" "length (sel_value (tSelDst (cotp_options self))) = 4"
    using assms(1) by (simp_all add: options_ok_def selector_ok_def)
  consider (size) "optionType = 0xc0" "optionLen = 1" | (src) "optionType = 0xc1" "optionLen < 5" | (dst) "optionType = 0xc2" "optionLen < 5"
    | (fail) "parse_option self buffer off bufPos optionType optionLen = Some (self, Fail)"
    | (skip) "parse_option self buffer off bufPos optionType optionLen = Some (self, Ret (bufPos + optionLen))"
    by (cases "optionLen = 1"; cases "optionLen < 5"; cases "optionType = 0xc0"; cases "optionType = 0xc1";
        cases "optionType = 0xc2"; cases "optionType = 0xc6") (simp_all add: parse_option_def)
  then show ?thesis
  proof cases
    case size
    define raw where "raw = buffer ! (off + bufPos)"
    have rd: "rd buffer (off + bufPos) = Some raw" using assms(2) size by (simp add: raw_def)
    show ?thesis
    proof (cases "raw < 7 \<or> raw > 13")
      case True
      then have "parse_option self buffer off bufPos optionType optionLen = Some (self, Fail)"
        using size rd by (simp add: parse_option_def del: rd_eq_Some)
      then show ?thesis using assms(1) by (auto intro: exI [of _ "cotp_options self"])
    next
      case False
      then have raw: "7 \<le> unat raw" "unat raw \<le> 13" by (auto simp: not_less word_le_nat_alt)
      then have "parse_option self buffer off bufPos optionType optionLen =
          Some (self\<lparr>cotp_options := (cotp_options self)\<lparr>tpduSize := raw\<rparr>\<rparr>, Ret (bufPos + optionLen))"
        using False size rd setTpduSize_power [of "unat raw" self] by (simp add: parse_option_def del: rd_eq_Some)
      then show ?thesis using assms(1) raw by (auto simp: options_ok_def)
    qed
  next
    case src
    then show ?thesis using copy [OF sel(1)] assms(1)
      by (auto simp: parse_option_def options_ok_def selector_ok_def)
  next
    case dst
    then show ?thesis using copy [OF sel(2)] assms(1)
      by (auto simp: parse_option_def options_ok_def selector_ok_def)
  qed (use assms(1) in \<open>auto intro: exI [of _ "cotp_options self"]\<close>)
qed

lemma parseOptions_spec:
  assumes "options_ok self" and "off + bufLen \<le> length buffer"
  shows "\<exists>opts ok. parseOptions self buffer off bufLen bufPos = Some (self\<lparr>cotp_options := opts\<rparr>, ok) \<and>
           options_ok (self\<lparr>cotp_options := opts\<rparr>)"
  using assms(1)
proof (induction "bufLen - bufPos" arbitrary: self bufPos rule: less_induct)
  case less
  note step = parseOptions.simps [of self buffer off bufLen bufPos]
  show ?case
  proof (cases "bufPos + 2 \<le> bufLen")
    case False
    then have "\<exists>ok. parseOptions self buffer off bufLen bufPos = Some (self, ok)" by (auto simp: step)
    then show ?thesis using less.prems by (auto intro: exI [of _ "cotp_options self"])
  next
    case True
    let ?t = "buffer ! (off + bufPos)" and ?n = "buffer ! (off + bufPos + 1)"
    have rd: "rd buffer (off + bufPos) = Some ?t" "rd buffer (off + bufPos + 1) = Some ?n" using True assms(2) by simp_all
    show ?thesis
    proof (cases "unat ?n > bufLen - (bufPos + 2)")
      case long: True
      then have "parseOptions self buffer off bufLen bufPos = Some (self, False)"
        using True rd by (simp add: step del: rd_eq_Some)
      then show ?thesis using less.prems by (auto intro: exI [of _ "cotp_options self"])
    next
      case False
      then have fit: "off + (bufPos + 2) + unat ?n \<le> length buffer" using True assms(2) by linarith
      obtain opts r where o: "parse_option self buffer off (bufPos + 2) ?t (unat ?n) = Some (self\<lparr>cotp_options := opts\<rparr>, r)"
        "options_ok (self\<lparr>cotp_options := opts\<rparr>)" "\<forall>p. r = Ret p \<longrightarrow> p = bufPos + 2 + unat ?n"
        using parse_option_spec [OF less.prems fit] by blast
      have eq: "parseOptions self buffer off bufLen bufPos = (case r of Fail \<Rightarrow> Some (self\<lparr>cotp_options := opts\<rparr>, False)
          | Ret p \<Rightarrow> parseOptions (self\<lparr>cotp_options := opts\<rparr>) buffer off bufLen p)"
        using True False rd o(1) by (simp add: step del: rd_eq_Some)
      show ?thesis
      proof (cases r)
        case Fail
        then show ?thesis using eq o(2) by auto
      next
        case (Ret p)
        then show ?thesis using eq less.hyps [OF _ o(2), of p] o(3) True by auto
      qed
    qed
  qed
qed


subsection \<open>Parsing any packet\<close>

text \<open>The connect parsers read up to one byte behind the TPDU, since \<open>len\<close> may equal the TPDU's
  length; \<open>off + len \<le> length buffer + 1\<close> covers it.\<close>

lemma parseConnect_spec:
  assumes "options_ok self" and "off + len \<le> length buffer + 1"
  shows "\<exists>r c opts ok. parseConnectRequestTpdu self buffer off len =
           Some (self\<lparr>remoteRef := r, protocolClass := c, cotp_options := opts\<rparr>, ok) \<and> options_ok (self\<lparr>cotp_options := opts\<rparr>) \<and> (ok \<longrightarrow> 0 \<le> r)"
    and "\<exists>r c opts ok. parseConnectConfirmTpdu self buffer off len =
           Some (self\<lparr>remoteRef := r, protocolClass := c, cotp_options := opts\<rparr>, ok) \<and> options_ok (self\<lparr>cotp_options := opts\<rparr>) \<and> (ok \<longrightarrow> 0 \<le> r)"
proof -
  have nonneg: "0 \<le> uint a * 0x100 + uint b" for a b :: byte by simp
  have same: "self\<lparr>remoteRef := remoteRef self, protocolClass := protocolClass self, cotp_options := cotp_options self\<rparr> = self" by simp
  have opts: "\<exists>opts ok. parseOptions (self\<lparr>remoteRef := r, protocolClass := c\<rparr>) buffer (off + 5) (len - 6) 0 =
      Some (self\<lparr>remoteRef := r, protocolClass := c, cotp_options := opts\<rparr>, ok) \<and> options_ok (self\<lparr>cotp_options := opts\<rparr>) \<and> (ok \<longrightarrow> 0 \<le> r)"
    if "6 \<le> len" "0 \<le> r" for r c
    using parseOptions_spec [of "self\<lparr>remoteRef := r, protocolClass := c\<rparr>" "off + 5" "len - 6" buffer 0] assms that
    by (auto simp: options_ok_def)
  show "\<exists>r c opts ok. parseConnectRequestTpdu self buffer off len =
           Some (self\<lparr>remoteRef := r, protocolClass := c, cotp_options := opts\<rparr>, ok) \<and> options_ok (self\<lparr>cotp_options := opts\<rparr>) \<and> (ok \<longrightarrow> 0 \<le> r)"
  proof (cases "len < 6")
    case True
    then have "parseConnectRequestTpdu self buffer off len =
        Some (self\<lparr>remoteRef := remoteRef self, protocolClass := protocolClass self, cotp_options := cotp_options self\<rparr>, False)"
      unfolding same by (simp add: parseConnectRequestTpdu_def)
    moreover have "options_ok (self\<lparr>cotp_options := cotp_options self\<rparr>)" using assms(1) by simp
    ultimately show ?thesis by blast
  next
    case False
    define a b c where "a = buffer ! (off + 2)" and "b = buffer ! (off + 2 + 1)" and "c = uint (buffer ! (off + 4))"
    have "parseConnectRequestTpdu self buffer off len =
        parseOptions (self\<lparr>remoteRef := uint a * 0x100 + uint b, protocolClass := c\<rparr>) buffer (off + 5) (len - 6) 0"
      using False assms(2) by (simp add: parseConnectRequestTpdu_def getUint16_def getUint8_def a_def b_def c_def)
    with False show ?thesis using opts [of "uint a * 0x100 + uint b" c] nonneg [of a b] by (metis not_less)
  qed
  show "\<exists>r c opts ok. parseConnectConfirmTpdu self buffer off len =
           Some (self\<lparr>remoteRef := r, protocolClass := c, cotp_options := opts\<rparr>, ok) \<and> options_ok (self\<lparr>cotp_options := opts\<rparr>) \<and> (ok \<longrightarrow> 0 \<le> r)"
  proof (cases "len < 6")
    case True
    then have "parseConnectConfirmTpdu self buffer off len =
        Some (self\<lparr>remoteRef := remoteRef self, protocolClass := protocolClass self, cotp_options := cotp_options self\<rparr>, False)"
      unfolding same by (simp add: parseConnectConfirmTpdu_def)
    moreover have "options_ok (self\<lparr>cotp_options := cotp_options self\<rparr>)" using assms(1) by simp
    ultimately show ?thesis by blast
  next
    case False
    define a b c where "a = buffer ! (off)" and "b = buffer ! (off + 1)" and "c = uint (buffer ! (off + 4))"
    have "parseConnectConfirmTpdu self buffer off len =
        parseOptions (self\<lparr>remoteRef := uint a * 0x100 + uint b, protocolClass := c\<rparr>) buffer (off + 5) (len - 6) 0"
      using False assms(2) by (simp add: parseConnectConfirmTpdu_def getUint16_def getUint8_def a_def b_def c_def)
    with False show ?thesis using opts [of "uint a * 0x100 + uint b" c] nonneg [of a b] by (metis not_less)
  qed
qed


text \<open>What the parser does with a data TPDU.\<close>

lemma addPayload_spec:
  assumes "bb_ok (cotp_payload self)" and "int off + k \<le> int (length buffer)"
  shows "\<exists>p ok. addPayloadToBuffer self buffer off k = Some (self\<lparr>cotp_payload := p\<rparr>, ok) \<and> bb_ok p \<and>
           bb_maxSize p = bb_maxSize (cotp_payload self) \<and> length (bb_buffer p) = length (bb_buffer (cotp_payload self)) \<and>
           (if ok then 1 \<le> k \<and> bb_bytes p = bb_bytes (cotp_payload self) @ take (nat k) (drop off buffer) else p = cotp_payload self)"
proof (cases "k < 1 \<or> bb_size (cotp_payload self) + nat k > bb_maxSize (cotp_payload self)")
  case True
  then have "addPayloadToBuffer self buffer off k = Some (self, False)" by (auto simp: addPayloadToBuffer_def Let_def)
  then show ?thesis using assms(1) by (intro exI [of _ "cotp_payload self"] exI [of _ False]) simp
next
  case False
  let ?bs = "take (nat k) (drop off buffer)"
  have len: "length ?bs = nat k" using assms(2) False by simp
  have "off + nat k \<le> length buffer" using assms(2) False by linarith
  then have "has buffer off ?bs" by (rule has_take)
  then show ?thesis using addPayload_eq [OF assms(1), of ?bs buffer off] False unfolding len by auto
qed

definition parse_frame :: "CotpConnection \<Rightarrow> CotpConnection \<Rightarrow> bool" where
  "parse_frame self self' \<longleftrightarrow>
     cotp_socket self' = cotp_socket self \<and> localRef self' = localRef self \<and> writeBuffer self' = writeBuffer self \<and>
     socketExtensionBuffer self' = socketExtensionBuffer self \<and> socketExtensionBufferSize self' = socketExtensionBufferSize self \<and>
     socketExtensionBufferFill self' = socketExtensionBufferFill self \<and>
     length (bb_buffer (cotp_payload self')) = length (bb_buffer (cotp_payload self))"

lemma parseCotpMessage_spec:
  assumes "options_ok self" and "bb_ok (cotp_payload self)" and "bb_ok (readBuffer self)" and "5 \<le> bb_size (readBuffer self)"
    and "bb_size (readBuffer self) < length (bb_buffer (readBuffer self)) \<or> 260 \<le> length (bb_buffer (readBuffer self))"
  shows "\<exists>self' ind. parseCotpMessage self = Some (self', ind) \<and> options_ok self' \<and> bb_ok (cotp_payload self') \<and>
     readBuffer self' = readBuffer self \<and> bb_maxSize (cotp_payload self') = bb_maxSize (cotp_payload self) \<and>
     (if ind = COTP_DATA_INDICATION \<or> ind = COTP_MORE_FRAGMENTS_FOLLOW
      then bb_bytes (cotp_payload self') = bb_bytes (cotp_payload self) @ drop 7 (bb_bytes (readBuffer self)) \<and> 7 < bb_size (readBuffer self)
      else cotp_payload self' = cotp_payload self) \<and>
     parse_frame self self' \<and> (ind = COTP_CONNECT_INDICATION \<longrightarrow> 0 \<le> remoteRef self') \<and> ind \<noteq> COTP_OK \<and> ind \<noteq> COTP_DISCONNECT_INDICATION"
proof -
  let ?b = "bb_buffer (readBuffer self)" and ?n = "bb_size (readBuffer self)"
  have n: "?n \<le> length ?b" using assms(3) by (simp add: bb_ok_def)
  define len t where "len = ?b ! 4" and "t = ?b ! 5"
  have "4 < length ?b" "5 < length ?b" using n assms(4,5) by auto
  then have rd: "rd ?b 4 = Some len" "rd ?b 5 = Some t" by (simp_all add: len_def t_def)
  have ulen: "uint len = int (unat len)" "unat len < 256" using unsigned_less [of len, where ?'a = nat] by simp_all
  consider (long) "uint len > int ?n - 4" | (cr) "uint len \<le> int ?n - 4" "t = 0xe0" | (cc) "uint len \<le> int ?n - 4" "t = 0xd0"
    | (dt) "uint len \<le> int ?n - 4" "t = 0xf0" | (other) "uint len \<le> int ?n - 4" "t \<noteq> 0xe0" "t \<noteq> 0xd0" "t \<noteq> 0xf0" by linarith
  then show ?thesis
  proof cases
    case long
    then show ?thesis using rd assms(1,2) by (simp add: parseCotpMessage_def Let_def parse_frame_def del: rd_eq_Some)
  next
    case other
    then show ?thesis using rd assms(1,2) by (simp add: parseCotpMessage_def Let_def parse_frame_def del: rd_eq_Some)
  next
    case cr
    have "6 + unat len \<le> length ?b + 1" using cr(1) ulen n assms(5) by linarith
    then obtain r c opts ok where p: "parseConnectRequestTpdu self ?b 6 (unat len) =
        Some (self\<lparr>remoteRef := r, protocolClass := c, cotp_options := opts\<rparr>, ok)" "options_ok (self\<lparr>cotp_options := opts\<rparr>)" "ok \<longrightarrow> 0 \<le> r"
      using parseConnect_spec(1) [OF assms(1)] by blast
    have "parseCotpMessage self = Some (self\<lparr>remoteRef := r, protocolClass := c, cotp_options := opts\<rparr>,
        if ok then COTP_CONNECT_INDICATION else COTP_ERROR)"
      using rd cr p(1) by (simp add: parseCotpMessage_def Let_def del: rd_eq_Some)
    then show ?thesis using p(2,3) assms(2) by (auto simp: options_ok_def parse_frame_def)
  next
    case cc
    have "6 + unat len \<le> length ?b + 1" using cc(1) ulen n assms(5) by linarith
    then obtain r c opts ok where p: "parseConnectConfirmTpdu self ?b 6 (unat len) =
        Some (self\<lparr>remoteRef := r, protocolClass := c, cotp_options := opts\<rparr>, ok)" "options_ok (self\<lparr>cotp_options := opts\<rparr>)" "ok \<longrightarrow> 0 \<le> r"
      using parseConnect_spec(2) [OF assms(1)] by blast
    have "parseCotpMessage self = Some (self\<lparr>remoteRef := r, protocolClass := c, cotp_options := opts\<rparr>,
        if ok then COTP_CONNECT_INDICATION else COTP_ERROR)"
      using rd cc p(1) by (simp add: parseCotpMessage_def Let_def del: rd_eq_Some)
    then show ?thesis using p(2,3) assms(2) by (auto simp: options_ok_def parse_frame_def)
  next
    case dt
    show ?thesis
    proof (cases "unat len = 2")
      case False
      then have "parseCotpMessage self = Some (self, COTP_ERROR)"
        using rd dt by (simp add: parseCotpMessage_def parseDataTpdu_def Let_def del: rd_eq_Some)
      then show ?thesis using assms(1,2) by (simp add: parse_frame_def)
    next
      case True
      define l where "l \<longleftrightarrow> ?b ! 6 AND 0x80 \<noteq> 0"
      have "6 < length ?b" using dt(1) ulen True n assms(5) by linarith
      then have pd: "parseDataTpdu self ?b 6 (unat len) = Some (self\<lparr>isLastDataUnit := l\<rparr>, True)"
        using True by (simp add: parseDataTpdu_def getUint8_def l_def)
      let ?s1 = "self\<lparr>isLastDataUnit := l\<rparr>"
      have fit: "int 7 + (int ?n - 4 - 3) \<le> int (length ?b)" using n by simp
      have ok1: "bb_ok (cotp_payload ?s1)" using assms(2) by simp
      from addPayload_spec [OF ok1 fit] obtain p ok where p: "addPayloadToBuffer ?s1 ?b 7 (int ?n - 4 - 3) = Some (?s1\<lparr>cotp_payload := p\<rparr>, ok)"
        "bb_ok p" "bb_maxSize p = bb_maxSize (cotp_payload ?s1)" "length (bb_buffer p) = length (bb_buffer (cotp_payload ?s1))"
        "if ok then 1 \<le> int ?n - 4 - 3 \<and> bb_bytes p = bb_bytes (cotp_payload ?s1) @ take (nat (int ?n - 4 - 3)) (drop 7 ?b)
         else p = cotp_payload ?s1"
        by blast
      have eq: "parseCotpMessage self = Some (?s1\<lparr>cotp_payload := p\<rparr>,
          if \<not> ok then COTP_ERROR else if l then COTP_DATA_INDICATION else COTP_MORE_FRAGMENTS_FOLLOW)"
        using rd dt pd p(1) by (simp add: parseCotpMessage_def Let_def del: rd_eq_Some)
      have "take (nat (int ?n - 4 - 3)) (drop 7 ?b) = drop 7 (bb_bytes (readBuffer self))"
        by (simp add: bb_bytes_def drop_take nat_diff_distrib')
      then show ?thesis using eq p(2-5) assms(1) by (cases ok; cases l) (simp_all add: options_ok_def parse_frame_def)
    qed
  qed
qed

subsection \<open>The packets of the connection phase\<close>

definition tsel_option :: "byte \<Rightarrow> TSelector \<Rightarrow> byte list" where
  "tsel_option tag sel = (if sel_size sel = 0 then [] else tag # of_nat (sel_size sel) # sel_bytes sel)"

definition option_bytes :: "CotpOptions \<Rightarrow> byte list" where
  "option_bytes opts = (if tpduSize opts = 0 then [] else [0xc0, 1, tpduSize opts]) @ tsel_option 0xc2 (tSelDst opts) @ tsel_option 0xc1 (tSelSrc opts)"

definition ref_bytes :: "int \<Rightarrow> byte list" where
  "ref_bytes r = [word_of_int (r div 0x100), word_of_int (r mod 0x100)]"

definition connect_tpdu :: "byte \<Rightarrow> int \<Rightarrow> int \<Rightarrow> byte \<Rightarrow> CotpOptions \<Rightarrow> byte list" where
  "connect_tpdu code dst src cls opts =
     [of_nat (6 + length (option_bytes opts)), code] @ ref_bytes dst @ ref_bytes src @ [cls] @ option_bytes opts"

definition connect_packet :: "byte \<Rightarrow> int \<Rightarrow> int \<Rightarrow> byte \<Rightarrow> CotpOptions \<Rightarrow> byte list" where
  "connect_packet code dst src cls opts = tpkt_header (11 + length (option_bytes opts)) @ connect_tpdu code dst src cls opts"

lemma writes_tsel [writer_intros]: "selector_ok 4 sel \<Longrightarrow> writes (write_tsel tag sel) (tsel_option tag sel)"
proof -
  assume ok: "selector_ok 4 sel"
  show ?thesis
  proof (cases "sel_size sel = 0")
    case True
    then have "write_tsel tag sel = Some" by (simp add: write_tsel_def [abs_def])
    then show ?thesis using True by (simp add: tsel_option_def writes_Some)
  next
    case False
    then have "write_tsel tag sel = (\<lambda>s. do { s \<leftarrow> put tag s; s \<leftarrow> put (of_nat (sel_size sel)) s; put_from (sel_value sel) 0 (sel_size sel) s })"
      by (simp add: write_tsel_def [abs_def])
    moreover have "writes \<dots> (tsel_option tag sel)"
      by (rule writes_cong, (rule writer_intros writes_selector [OF ok])+, simp add: tsel_option_def False)
    ultimately show ?thesis by simp
  qed
qed

lemma writes_tpduSize [writer_intros]: "writes (write_tpduSize sz) (if sz = 0 then [] else [0xc0, 1, sz])"
proof (cases "sz = 0")
  case True
  then have "write_tpduSize sz = Some" by (simp add: write_tpduSize_def [abs_def])
  then show ?thesis using True by (simp add: writes_Some)
next
  case False
  then have "write_tpduSize sz = (\<lambda>s. do { s \<leftarrow> put 0xc0 s; s \<leftarrow> put 0x01 s; put sz s })" by (simp add: write_tpduSize_def [abs_def])
  moreover have "writes \<dots> [0xc0, 1, sz]" by (rule writes_cong, (rule writer_intros)+, simp)
  ultimately show ?thesis using False by simp
qed

lemma writes_ref [writer_intros]: "0 \<le> r \<Longrightarrow> writes (write_ref r) (ref_bytes r)"
proof -
  assume "0 \<le> r"
  then have "r sdiv 0x100 = r div 0x100" "r AND 0xff = r mod 0x100"
    using take_bit_eq_mask [of 8 r] take_bit_eq_mod [of 8 r] by (simp_all add: signed_divide_int_def mask_eq_exp_minus_1 sgn_if)
  then have "write_ref r = (\<lambda>s. do { s \<leftarrow> put (word_of_int (r div 0x100)) s; put (word_of_int (r mod 0x100)) s })"
    by (simp add: write_ref_def [abs_def])
  moreover have "writes \<dots> (ref_bytes r)" by (rule writes_cong, (rule writer_intros)+, simp add: ref_bytes_def)
  ultimately show ?thesis by simp
qed

lemma length_option_bytes:
  "selector_ok 4 (tSelDst (cotp_options self)) \<Longrightarrow> selector_ok 4 (tSelSrc (cotp_options self)) \<Longrightarrow>
   length (option_bytes (cotp_options self)) = getOptionsLength self \<and> getOptionsLength self \<le> 15"
  by (auto simp: option_bytes_def tsel_option_def getOptionsLength_def length_sel_bytes) (simp_all add: selector_ok_def)

text \<open>The three writes of a connection message leave the whole packet at the start of the write
  buffer.\<close>

lemma connect_packet_written:
  assumes wb: "writeBuffer self = Some wb" "11 + getOptionsLength self \<le> length (bb_buffer wb)"
    and sel: "selector_ok 4 (tSelDst (cotp_options self))" "selector_ok 4 (tSelSrc (cotp_options self))"
    and w: "writes w ([of_nat (6 + getOptionsLength self), code] @ ref_bytes dst @ ref_bytes src @ [cls])"
  shows "(do { self \<leftarrow> writeRfc1006Header self (11 + getOptionsLength self); self \<leftarrow> fill_writeBuffer self w 4; writeOptions self }) =
    Some (self\<lparr>writeBuffer := Some (wb\<lparr>bb_buffer := patch (bb_buffer wb) 0 (connect_packet code dst src cls (cotp_options self)),
      bb_size := 11 + getOptionsLength self\<rparr>)\<rparr>)"
proof -
  let ?b = "bb_buffer wb" and ?n = "getOptionsLength self" and ?o = "option_bytes (cotp_options self)"
  have n: "length ?o = ?n" using length_option_bytes [OF sel] by simp
  let ?h1 = "tpkt_header (11 + ?n)" and ?h2 = "[of_nat (6 + ?n), code] @ ref_bytes dst @ ref_bytes src @ [cls]"
  have l2: "length ?h2 = 7" by (simp add: ref_bytes_def)
  let ?b1 = "patch ?b 0 ?h1" and ?b2 = "patch ?b 0 (?h1 @ ?h2)" and ?b3 = "patch ?b 0 (?h1 @ ?h2 @ ?o)"
  let ?s1 = "self\<lparr>writeBuffer := Some (wb\<lparr>bb_buffer := ?b1, bb_size := 4\<rparr>)\<rparr>"
  let ?s2 = "self\<lparr>writeBuffer := Some (wb\<lparr>bb_buffer := ?b2, bb_size := 11\<rparr>)\<rparr>"
  have len1: "length ?b1 = length ?b" and len2: "length ?b2 = length ?b" using wb(2) l2 by (auto intro!: length_patch)
  have "patch ?b1 (0 + length ?h1) ?h2 = ?b2" using wb(2) l2 by (intro patch_patch) simp
  then have p2: "patch ?b1 4 ?h2 = ?b2" by simp
  have "patch ?b2 (0 + length (?h1 @ ?h2)) ?o = patch ?b 0 ((?h1 @ ?h2) @ ?o)" using wb(2) l2 n by (intro patch_patch) simp
  then have p3: "patch ?b2 11 ?o = ?b3" using l2 by simp
  have 1: "writeRfc1006Header self (11 + ?n) = Some ?s1"
    using fill_writeBuffer_eq [OF writes_tpkt [folded tpkt_header_def] wb(1), of 0 "11 + ?n"] wb(2)
    by (simp add: writeRfc1006Header_def)
  have 2: "fill_writeBuffer ?s1 w 4 = Some ?s2"
    using fill_writeBuffer_eq [OF w, of ?s1 _ 4] wb(2) l2 len1 p2 by simp
  have "writes (\<lambda>s. do { s \<leftarrow> write_tpduSize (tpduSize (cotp_options ?s2)) s; s \<leftarrow> write_tsel 0xc2 (tSelDst (cotp_options ?s2)) s;
      write_tsel 0xc1 (tSelSrc (cotp_options ?s2)) s }) ?o"
    by (rule writes_cong, (rule writer_intros | simp add: sel)+, simp add: option_bytes_def)
  then have 3: "writeOptions ?s2 = Some (self\<lparr>writeBuffer := Some (wb\<lparr>bb_buffer := ?b3, bb_size := 11 + ?n\<rparr>)\<rparr>)"
    using fill_writeBuffer_eq [of _ ?o ?s2 "wb\<lparr>bb_buffer := ?b2, bb_size := 11\<rparr>" 11] wb(2) len2 p3 n by (simp add: writeOptions_def)
  show ?thesis using 1 2 3 n by (simp add: connect_packet_def connect_tpdu_def)
qed

subsection \<open>Parsing the packets of the connection phase\<close>

lemma parseOptions_step:
  assumes "has buffer (off + bufPos) (t # of_nat (length bs) # bs)" and "bufPos + 2 + length bs \<le> bufLen" and "length bs < 256"
    and "parse_option self buffer off (bufPos + 2) t (length bs) = Some (self', Ret p)"
  shows "parseOptions self buffer off bufLen bufPos = parseOptions self' buffer off bufLen p"
proof -
  have "rd buffer (off + bufPos) = Some t" "rd buffer (off + bufPos + 1) = Some (of_nat (length bs))"
    using has_rd [OF assms(1), of 0] has_rd [OF assms(1), of 1] by simp_all
  moreover have "unat (of_nat (length bs) :: byte) = length bs" using assms(3) by (rule unat_byte_of_nat)
  moreover have "\<not> bufLen - (bufPos + 2) < length bs" using assms(2) by arith
  ultimately show ?thesis
    using assms(2,4) by (subst parseOptions.simps) (simp del: rd_eq_Some)
qed

lemma parse_size_option:
  assumes "has buffer (off + bufPos) (if sz = 0 then [] else [0xc0, 1, sz])"
    and "bufPos + length (if sz = 0 then [] else [0xc0, 1, sz]) \<le> bufLen" and "7 \<le> unat sz" and "unat sz \<le> 13"
  shows "parseOptions self buffer off bufLen bufPos =
    parseOptions (self\<lparr>cotp_options := (cotp_options self)\<lparr>tpduSize := sz\<rparr>\<rparr>) buffer off bufLen (bufPos + 3)"
proof -
  have nz: "sz \<noteq> 0" using assms(3) by auto
  then have h: "has buffer (off + bufPos) (0xc0 # of_nat (length [sz]) # [sz])" using assms(1) by simp
  have rd: "rd buffer (off + (bufPos + 2)) = Some sz" using has_rd [OF h, of 2] by (simp add: add.assoc)
  have r: "\<not> sz < 7" "\<not> 13 < sz" using assms(3,4) by (simp_all add: word_less_nat_alt)
  have "parse_option self buffer off (bufPos + 2) 0xc0 (length [sz]) =
      Some (CotpConnection_setTpduSize self (2 ^ unat sz), Ret (bufPos + 2 + 1))"
    unfolding parse_option_def using rd r by (simp del: rd_eq_Some add_2_eq_Suc')
  then show ?thesis
    using parseOptions_step [OF h, of bufLen] assms(2) nz setTpduSize_power [of "unat sz" self] assms(3,4) by (simp add: nat_plus)
qed

lemma parse_tsel_option:
  assumes "has buffer (off + bufPos) (tsel_option tag sel)" and "bufPos + length (tsel_option tag sel) \<le> bufLen"
    and "selector_ok 4 sel" and "options_ok self" and "tag = 0xc1 \<and> upd = tSelSrc_update \<and> old = tSelSrc (cotp_options self) \<or>
      tag = 0xc2 \<and> upd = tSelDst_update \<and> old = tSelDst (cotp_options self)"
  shows "parseOptions self buffer off bufLen bufPos =
    parseOptions (if sel_size sel = 0 then self else self\<lparr>cotp_options := upd (\<lambda>_. sel_set (sel_bytes sel) old) (cotp_options self)\<rparr>)
      buffer off bufLen (bufPos + length (tsel_option tag sel))"
proof (cases "sel_size sel = 0")
  case False
  have len: "length (sel_bytes sel) = sel_size sel" "sel_size sel \<le> 4"
    using length_sel_bytes [OF assms(3)] assms(3) by (simp_all add: selector_ok_def)
  have h: "has buffer (off + bufPos) (tag # of_nat (length (sel_bytes sel)) # sel_bytes sel)"
    using assms(1) False len by (simp add: tsel_option_def)
  then have h2: "has buffer (off + (bufPos + 2)) (sel_bytes sel)" by (simp add: nat_plus)
  then have bs: "take (sel_size sel) (drop (off + (bufPos + 2)) buffer) = sel_bytes sel" by (simp add: has_def len)
  have "sel_bytes sel \<noteq> []" using False len by auto
  then have fit: "off + (bufPos + 2) + sel_size sel \<le> length buffer" using has_length [OF h2] len by simp
  have copy: "memcpy (sel_value old) 0 buffer (off + (bufPos + 2)) (sel_size sel) = Some (sel_value (sel_set (sel_bytes sel) old))"
    using memcpy_eq [OF fit, of 0 "sel_value old"] bs len assms(4,5)
    by (auto simp: sel_set_def options_ok_def selector_ok_def)
  have ss: "\<lparr>sel_size = sel_size sel, sel_value = sel_value (sel_set (sel_bytes sel) old)\<rparr> = sel_set (sel_bytes sel) old"
    using len by (simp add: sel_set_def)
  have "parse_option self buffer off (bufPos + 2) tag (length (sel_bytes sel)) =
      Some (self\<lparr>cotp_options := upd (\<lambda>_. sel_set (sel_bytes sel) old) (cotp_options self)\<rparr>, Ret (bufPos + 2 + sel_size sel))"
    using assms(5) copy ss len by (elim disjE conjE) (simp_all add: parse_option_def del: add_2_eq_Suc')
  then show ?thesis
    using parseOptions_step [OF h, of bufLen] False assms(2) len by (simp add: tsel_option_def add.commute)
qed (use assms in \<open>simp add: tsel_option_def\<close>)

text \<open>The options a peer ends up with after reading \<open>opts\<close>.\<close>

definition merge_options :: "CotpOptions \<Rightarrow> CotpOptions \<Rightarrow> CotpOptions" where
  "merge_options opts old =
     \<lparr>tSelSrc = (if sel_size (tSelSrc opts) = 0 then tSelSrc old else sel_set (sel_bytes (tSelSrc opts)) (tSelSrc old)),
      tSelDst = (if sel_size (tSelDst opts) = 0 then tSelDst old else sel_set (sel_bytes (tSelDst opts)) (tSelDst old)),
      tpduSize = tpduSize opts\<rparr>"

lemma parse_option_bytes:
  assumes "has buffer off (option_bytes opts)" and "selector_ok 4 (tSelSrc opts)" "selector_ok 4 (tSelDst opts)"
    and "7 \<le> unat (tpduSize opts)" "unat (tpduSize opts) \<le> 13" and "options_ok self"
  shows "parseOptions self buffer off (length (option_bytes opts)) 0 =
    Some (self\<lparr>cotp_options := merge_options opts (cotp_options self)\<rparr>, True)"
proof -
  let ?a = "if tpduSize opts = 0 then [] else [0xc0, 1, tpduSize opts]" and ?L = "length (option_bytes opts)"
  let ?d = "tsel_option 0xc2 (tSelDst opts)" and ?s = "tsel_option 0xc1 (tSelSrc opts)"
  have ob: "option_bytes opts = ?a @ ?d @ ?s" by (simp add: option_bytes_def)
  have la: "length ?a = 3" using assms(4) by auto
  have h: "has buffer (off + 0) ?a" "has buffer (off + 3) ?d" "has buffer (off + (3 + length ?d)) ?s"
    using assms(1) la unfolding ob by (simp_all only: has_append append_assoc add_0_right add.assoc)
  have L: "?L = 3 + length ?d + length ?s" using la unfolding ob by simp
  let ?s1 = "self\<lparr>cotp_options := (cotp_options self)\<lparr>tpduSize := tpduSize opts\<rparr>\<rparr>"
  let ?s2 = "if sel_size (tSelDst opts) = 0 then ?s1
    else ?s1\<lparr>cotp_options := tSelDst_update (\<lambda>_. sel_set (sel_bytes (tSelDst opts)) (tSelDst (cotp_options ?s1))) (cotp_options ?s1)\<rparr>"
  let ?s3 = "if sel_size (tSelSrc opts) = 0 then ?s2
    else ?s2\<lparr>cotp_options := tSelSrc_update (\<lambda>_. sel_set (sel_bytes (tSelSrc opts)) (tSelSrc (cotp_options ?s2))) (cotp_options ?s2)\<rparr>"
  have o1: "options_ok ?s1" using assms(4-6) by (simp add: options_ok_def)
  have "sel_size (tSelDst opts) \<le> 4" using assms(3) by (simp add: selector_ok_def)
  then have o2: "options_ok ?s2" using o1 sel_set_ok [of 4 _ "sel_bytes (tSelDst opts)"] length_sel_bytes [OF assms(3)]
    by (simp add: options_ok_def)
  have "parseOptions self buffer off ?L 0 = parseOptions ?s1 buffer off ?L 3"
    using parse_size_option [OF h(1) _ assms(4,5), of ?L self] la L by simp
  also have "\<dots> = parseOptions ?s2 buffer off ?L (3 + length ?d)"
    using parse_tsel_option [OF h(2) _ assms(3) o1, of ?L tSelDst_update] L by simp
  also have "\<dots> = parseOptions ?s3 buffer off ?L (3 + length ?d + length ?s)"
    using parse_tsel_option [OF h(3) _ assms(2) o2, of ?L tSelSrc_update] L by simp
  also have "\<dots> = Some (?s3, True)" using L by (subst parseOptions.simps) simp
  also have "?s3 = self\<lparr>cotp_options := merge_options opts (cotp_options self)\<rparr>"
    by (cases "cotp_options self") (simp add: merge_options_def)
  finally show ?thesis .
qed

lemma ref_roundtrip:
  assumes "has buffer off (ref_bytes r)" and "0 \<le> r" and "r < 65536"
  shows "getUint16 buffer off = Some r"
proof -
  have "uint (word_of_int (r div 0x100) :: byte) = r div 0x100" "uint (word_of_int (r mod 0x100) :: byte) = r mod 0x100"
    using assms(2,3) by (simp_all add: unsigned_of_int take_bit_eq_mod)
  then show ?thesis using assms(1) by (simp add: getUint16_def ref_bytes_def)
qed

lemma connect_packet_parsed:
  assumes "bb_ok (readBuffer peer)" and "bb_bytes (readBuffer peer) = connect_packet code dst src cls opts"
    and "0 \<le> dst" "dst < 65536" "0 \<le> src" "src < 65536"
    and "selector_ok 4 (tSelSrc opts)" "selector_ok 4 (tSelDst opts)" "7 \<le> unat (tpduSize opts)" "unat (tpduSize opts) \<le> 13"
    and "options_ok peer" and "code = 0xe0 \<and> ref = src \<or> code = 0xd0 \<and> ref = dst"
  shows "CotpConnection_parseIncomingMessage peer =
    Some (peer\<lparr>remoteRef := ref, protocolClass := uint cls, cotp_options := merge_options opts (cotp_options peer),
      readBuffer := (readBuffer peer)\<lparr>bb_size := 0\<rparr>, packetSize := 0\<rparr>, COTP_CONNECT_INDICATION)"
proof -
  let ?b = "bb_buffer (readBuffer peer)" and ?o = "option_bytes opts"
  let ?n = "length ?o" and ?p = "connect_packet code dst src cls opts"
  have h: "has ?b 0 ?p" using bb_has [OF assms(1)] assms(2) by simp
  have n15: "?n \<le> 15"
    using assms(7,8) by (auto simp: option_bytes_def tsel_option_def length_sel_bytes) (simp_all add: selector_ok_def)
  have sz: "bb_size (readBuffer peer) = 11 + ?n"
    using length_bb_bytes [OF assms(1)] assms(2) by (simp add: connect_packet_def connect_tpdu_def ref_bytes_def)
  have split: "?p = tpkt_header (11 + ?n) @ [of_nat (6 + ?n), code] @ ref_bytes dst @ ref_bytes src @ [cls] @ ?o"
    by (simp add: connect_packet_def connect_tpdu_def)
  have lr: "length (ref_bytes r) = 2" for r by (simp add: ref_bytes_def)
  have at: "has ?b 4 [of_nat (6 + ?n), code]" "has ?b 6 (ref_bytes dst)" "has ?b 8 (ref_bytes src)" "has ?b 10 [cls]" "has ?b 11 ?o"
    using h unfolding split by (simp_all only: has_append length_headers length_append lr list.size add_0) simp_all
  define li :: byte where "li = of_nat (6 + ?n)"
  have u: "unat li = 6 + ?n" using n15 unfolding li_def by (intro unat_byte_of_nat) simp
  have "uint li = int (unat li)" by simp
  then have le: "\<not> int (bb_size (readBuffer peer)) - 4 < uint li" unfolding u sz by simp
  have rd: "rd ?b 4 = Some li" "rd ?b 5 = Some code" "rd ?b 10 = Some cls"
    using has_rd [OF at(1), of 0] has_rd [OF at(1), of 1] has_rd [OF at(4), of 0] by (simp_all add: li_def)
  have refs: "getUint16 ?b 6 = Some dst" "getUint16 ?b 8 = Some src"
    using ref_roundtrip at(2,3) assms(3-6) by blast+
  let ?q = "peer\<lparr>remoteRef := ref, protocolClass := uint cls\<rparr>"
  have "options_ok ?q" using assms(11) by (simp add: options_ok_def)
  from parse_option_bytes [OF at(5) assms(7-10) this]
  have po: "parseOptions ?q ?b 11 ?n 0 = Some (?q\<lparr>cotp_options := merge_options opts (cotp_options peer)\<rparr>, True)" by simp
  have "parseCotpMessage peer = Some (?q\<lparr>cotp_options := merge_options opts (cotp_options peer)\<rparr>, COTP_CONNECT_INDICATION)"
    using assms(12)
  proof (elim disjE conjE)
    assume c: "code = 0xe0" "ref = src"
    then have "parseConnectRequestTpdu peer ?b 6 (6 + ?n) = Some (?q\<lparr>cotp_options := merge_options opts (cotp_options peer)\<rparr>, True)"
      using refs(2) rd(3) po by (simp add: parseConnectRequestTpdu_def getUint8_def del: rd_eq_Some)
    then show ?thesis using rd(1,2) c(1) le u
      by (simp add: parseCotpMessage_def Let_def del: rd_eq_Some)
  next
    assume c: "code = 0xd0" "ref = dst"
    then have "parseConnectConfirmTpdu peer ?b 6 (6 + ?n) = Some (?q\<lparr>cotp_options := merge_options opts (cotp_options peer)\<rparr>, True)"
      using refs(1) rd(3) po by (simp add: parseConnectConfirmTpdu_def getUint8_def del: rd_eq_Some)
    then show ?thesis using rd(1,2) c(1) le u
      by (simp add: parseCotpMessage_def Let_def del: rd_eq_Some)
  qed
  then show ?thesis by (simp add: CotpConnection_parseIncomingMessage_def)
qed

text \<open>What a connection message hands to TCP.\<close>

lemma finish_send_spec:
  assumes "ext_ok self" and "writeBuffer self = Some wb" and "bb_ok wb"
    and "socketExtensionBuffer self \<noteq> None \<Longrightarrow> socketExtensionBufferFill self + bb_size wb \<le> socketExtensionBufferSize self"
    and "finish_send self = Some (self', COTP_OK)"
  shows "outgoing self' = outgoing self @ bb_bytes wb"
  using sendBuffer_spec [OF assms(1-4)] assms(5) by (auto simp: finish_send_def split: if_splits)

lemma length_connect_packet: "length (connect_packet code dst src cls opts) = 11 + length (option_bytes opts)"
  by (simp add: connect_packet_def connect_tpdu_def ref_bytes_def)

lemma connect_sent:
  assumes "ext_ok t" and "writeBuffer t = Some (wb\<lparr>bb_buffer := patch (bb_buffer wb) 0 p, bb_size := k\<rparr>)"
    and "length p = k" and "k \<le> bb_maxSize wb \<and> bb_maxSize wb \<le> length (bb_buffer wb)"
    and "socketExtensionBuffer t \<noteq> None \<Longrightarrow> socketExtensionBufferFill t + k \<le> socketExtensionBufferSize t"
    and "finish_send t = Some (self', COTP_OK)"
  shows "outgoing self' = outgoing t @ p"
proof -
  let ?wb = "wb\<lparr>bb_buffer := patch (bb_buffer wb) 0 p, bb_size := k\<rparr>"
  have "bb_ok ?wb" "bb_bytes ?wb = p"
    using assms(3,4) length_patch [of 0 p "bb_buffer wb"] take_patch_0 [of p "bb_buffer wb"] by (simp_all add: bb_ok_def bb_bytes_def)
  then show ?thesis using finish_send_spec [OF assms(1,2) _ _ assms(6)] assms(5) by simp
qed

lemma allocate_noop [simp]: "writeBuffer self = Some wb \<Longrightarrow> allocateWriteBuffer mem self = self"
  by (simp add: allocateWriteBuffer_def)

lemma request_eq:
  assumes "writeBuffer self = Some wb" and "132 \<le> bb_maxSize wb" and "bb_maxSize wb \<le> length (bb_buffer wb)"
    and "params_ok params" and "0 \<le> localRef self"
  defines "s \<equiv> self\<lparr>cotp_options := (cotp_options self)\<lparr>tSelDst := remoteTSelector params, tSelSrc := localTSelector params\<rparr>\<rparr>"
  shows "CotpConnection_sendConnectionRequestMessage mem self params =
    finish_send (s\<lparr>writeBuffer := Some (wb\<lparr>bb_buffer := patch (bb_buffer wb) 0 (connect_packet 0xe0 0 (localRef self) 0 (cotp_options s)),
      bb_size := 11 + getOptionsLength s\<rparr>)\<rparr>)" and "getOptionsLength s \<le> 15" and "length (option_bytes (cotp_options s)) = getOptionsLength s"
proof -
  let ?n = "getOptionsLength s"
  have sel: "selector_ok 4 (tSelDst (cotp_options s))" "selector_ok 4 (tSelSrc (cotp_options s))"
    using assms(4) by (simp_all add: params_ok_def s_def)
  show n: "?n \<le> 15" "length (option_bytes (cotp_options s)) = ?n" using length_option_bytes [OF sel] by simp_all
  let ?w = "\<lambda>s. do { s \<leftarrow> put (of_nat (?n + 6)) s; s \<leftarrow> put 0xe0 s; s \<leftarrow> put 0x00 s; s \<leftarrow> put 0x00 s; s \<leftarrow> write_ref (localRef self) s; put 0x00 s }"
  have "writes ?w ([of_nat (6 + ?n), 0xe0] @ ref_bytes 0 @ ref_bytes (localRef self) @ [0])"
    by (rule writes_cong, (rule writer_intros | rule assms(5))+, simp add: ref_bytes_def add.commute)
  from connect_packet_written [OF _ _ sel this, of wb]
  have "(do { self \<leftarrow> writeRfc1006Header s (11 + ?n); self \<leftarrow> fill_writeBuffer self ?w 4; writeOptions self }) =
    Some (s\<lparr>writeBuffer := Some (wb\<lparr>bb_buffer := patch (bb_buffer wb) 0 (connect_packet 0xe0 0 (localRef self) 0 (cotp_options s)),
      bb_size := 11 + ?n\<rparr>)\<rparr>)" using assms(1-3) n by (simp add: s_def)
  moreover have "\<And>q. writeRfc1006Header s (11 + ?n) = Some q \<Longrightarrow> localRef q = localRef self"
    by (auto simp: s_def writeRfc1006Header_def fill_writeBuffer_def split: Option.bind_splits)
  ultimately show "CotpConnection_sendConnectionRequestMessage mem self params =
    finish_send (s\<lparr>writeBuffer := Some (wb\<lparr>bb_buffer := patch (bb_buffer wb) 0 (connect_packet 0xe0 0 (localRef self) 0 (cotp_options s)),
      bb_size := 11 + ?n\<rparr>)\<rparr>)"
    using assms(1,2) n by (auto simp: CotpConnection_sendConnectionRequestMessage_def Let_def s_def add.commute add.left_commute
        split: Option.bind_splits)
qed

lemma request_bytes:
  assumes "cotp_tx_ok self" and "params_ok params" and "0 \<le> localRef self"
    and "socketExtensionBuffer self \<noteq> None \<Longrightarrow> socketExtensionBufferFill self + 26 \<le> socketExtensionBufferSize self"
    and "CotpConnection_sendConnectionRequestMessage mem self params = Some (self', COTP_OK)"
  shows "outgoing self' = outgoing self @ connect_packet 0xe0 0 (localRef self) 0
    ((cotp_options self)\<lparr>tSelDst := remoteTSelector params, tSelSrc := localTSelector params\<rparr>)"
proof -
  obtain wb where wb: "ext_ok self" "writeBuffer self = Some wb" "132 \<le> bb_maxSize wb" "bb_maxSize wb \<le> length (bb_buffer wb)"
    using assms(1) getTpduSize_bounds(1) [of self] by (auto simp: cotp_tx_ok_def)
  let ?s = "self\<lparr>cotp_options := (cotp_options self)\<lparr>tSelDst := remoteTSelector params, tSelSrc := localTSelector params\<rparr>\<rparr>"
  let ?w = "wb\<lparr>bb_buffer := patch (bb_buffer wb) 0 (connect_packet 0xe0 0 (localRef self) 0 (cotp_options ?s)),
      bb_size := 11 + getOptionsLength ?s\<rparr>"
  note eq = request_eq(1) [OF wb(2-4) assms(2,3), of mem] request_eq(2,3) [OF wb(2-4) assms(2,3)]
  have t: "ext_ok (?s\<lparr>writeBuffer := Some ?w\<rparr>)" "outgoing (?s\<lparr>writeBuffer := Some ?w\<rparr>) = outgoing self"
    using wb(1) by (simp_all add: ext_ok_def outgoing_def split: option.splits)
  have "finish_send (?s\<lparr>writeBuffer := Some ?w\<rparr>) = Some (self', COTP_OK)" using assms(5) eq(1) by simp
  moreover have "11 + getOptionsLength ?s \<le> bb_maxSize wb \<and> bb_maxSize wb \<le> length (bb_buffer wb)" using wb(3,4) eq(2) by simp
  moreover have "socketExtensionBuffer self \<noteq> None \<Longrightarrow> socketExtensionBufferFill self + (11 + getOptionsLength ?s) \<le> socketExtensionBufferSize self"
    using assms(4) eq(2) by simp
  ultimately show ?thesis using connect_sent [OF t(1), where wb = wb] eq(3) t(2) by (simp add: length_connect_packet)
qed

lemma response_eq:
  assumes "writeBuffer self = Some wb" and "132 \<le> bb_maxSize wb" and "bb_maxSize wb \<le> length (bb_buffer wb)"
    and "options_ok self" and "0 \<le> localRef self" and "0 \<le> remoteRef self"
  shows "CotpConnection_sendConnectionResponseMessage mem self =
    finish_send (self\<lparr>writeBuffer := Some (wb\<lparr>bb_buffer := patch (bb_buffer wb) 0
        (connect_packet 0xd0 (remoteRef self) (localRef self) (word_of_int (protocolClass self)) (cotp_options self)),
      bb_size := 11 + getOptionsLength self\<rparr>)\<rparr>)" and "getOptionsLength self \<le> 15"
    and "length (option_bytes (cotp_options self)) = getOptionsLength self"
proof -
  let ?n = "getOptionsLength self"
  have sel: "selector_ok 4 (tSelDst (cotp_options self))" "selector_ok 4 (tSelSrc (cotp_options self))"
    using assms(4) by (simp_all add: options_ok_def)
  show n: "?n \<le> 15" "length (option_bytes (cotp_options self)) = ?n" using length_option_bytes [OF sel] by simp_all
  let ?w = "\<lambda>s. do { s \<leftarrow> put (of_nat (6 + ?n)) s; s \<leftarrow> put 0xd0 s; s \<leftarrow> write_ref (remoteRef self) s; s \<leftarrow> write_ref (localRef self) s;
      put (word_of_int (protocolClass self)) s }"
  have "writes ?w ([of_nat (6 + ?n), 0xd0] @ ref_bytes (remoteRef self) @ ref_bytes (localRef self) @ [word_of_int (protocolClass self)])"
    by (rule writes_cong, (rule writer_intros | rule assms(5,6))+, simp add: ref_bytes_def)
  from connect_packet_written [OF assms(1) _ sel this]
  have "(do { self \<leftarrow> writeRfc1006Header self (11 + ?n); self \<leftarrow> fill_writeBuffer self ?w 4; writeOptions self }) =
    Some (self\<lparr>writeBuffer := Some (wb\<lparr>bb_buffer := patch (bb_buffer wb) 0
        (connect_packet 0xd0 (remoteRef self) (localRef self) (word_of_int (protocolClass self)) (cotp_options self)),
      bb_size := 11 + ?n\<rparr>)\<rparr>)" using assms(2,3) n by simp
  moreover have "\<And>q. writeRfc1006Header self (11 + ?n) = Some q \<Longrightarrow>
      localRef q = localRef self \<and> remoteRef q = remoteRef self \<and> protocolClass q = protocolClass self"
    by (auto simp: writeRfc1006Header_def fill_writeBuffer_def split: Option.bind_splits)
  ultimately show "CotpConnection_sendConnectionResponseMessage mem self =
    finish_send (self\<lparr>writeBuffer := Some (wb\<lparr>bb_buffer := patch (bb_buffer wb) 0
        (connect_packet 0xd0 (remoteRef self) (localRef self) (word_of_int (protocolClass self)) (cotp_options self)),
      bb_size := 11 + ?n\<rparr>)\<rparr>)"
    using assms(1,2) n by (auto simp: CotpConnection_sendConnectionResponseMessage_def writeStaticConnectResponseHeader_def Let_def
        split: Option.bind_splits)
qed

lemma response_bytes:
  assumes "cotp_tx_ok self" and "options_ok self" and "0 \<le> localRef self" and "0 \<le> remoteRef self"
    and "socketExtensionBuffer self \<noteq> None \<Longrightarrow> socketExtensionBufferFill self + 26 \<le> socketExtensionBufferSize self"
    and "CotpConnection_sendConnectionResponseMessage mem self = Some (self', COTP_OK)"
  shows "outgoing self' = outgoing self @ connect_packet 0xd0 (remoteRef self) (localRef self) (word_of_int (protocolClass self)) (cotp_options self)"
proof -
  obtain wb where wb: "ext_ok self" "writeBuffer self = Some wb" "132 \<le> bb_maxSize wb" "bb_maxSize wb \<le> length (bb_buffer wb)"
    using assms(1) getTpduSize_bounds(1) [of self] by (auto simp: cotp_tx_ok_def)
  let ?w = "wb\<lparr>bb_buffer := patch (bb_buffer wb) 0
        (connect_packet 0xd0 (remoteRef self) (localRef self) (word_of_int (protocolClass self)) (cotp_options self)),
      bb_size := 11 + getOptionsLength self\<rparr>"
  note eq = response_eq(1) [OF wb(2-4) assms(2-4), of mem] response_eq(2,3) [OF wb(2-4) assms(2-4)]
  have t: "ext_ok (self\<lparr>writeBuffer := Some ?w\<rparr>)" "outgoing (self\<lparr>writeBuffer := Some ?w\<rparr>) = outgoing self" using wb(1) by simp_all
  have "finish_send (self\<lparr>writeBuffer := Some ?w\<rparr>) = Some (self', COTP_OK)" using assms(6) eq(1) by simp
  moreover have "11 + getOptionsLength self \<le> bb_maxSize wb \<and> bb_maxSize wb \<le> length (bb_buffer wb)" using wb(3,4) eq(2) by simp
  moreover have "socketExtensionBuffer self \<noteq> None \<Longrightarrow> socketExtensionBufferFill self + (11 + getOptionsLength self) \<le> socketExtensionBufferSize self"
    using assms(5) eq(2) by simp
  ultimately show ?thesis using connect_sent [OF t(1), where wb = wb] eq(3) t(2) by (simp add: length_connect_packet)
qed

subsection \<open>Properties\<close>

text \<open>C20: Parsing a complete packet is memory safe and terminates for every contents, provided that
  the read buffer is larger than the packet or has at least 260 bytes (the buffers of client and
  server have 8196). The connection options stay valid, so that the negotiated TPDU size stays
  between 128 and 8192 bytes; data TPDUs append exactly what is behind their header to the
  payload, everything else leaves it alone, and the read buffer is empty again.\<close>

theorem cotp_parse_safe:
  assumes "packet_complete self" and "options_ok self" and "bb_ok (cotp_payload self)"
    and "bb_size (readBuffer self) < length (bb_buffer (readBuffer self)) \<or> 260 \<le> length (bb_buffer (readBuffer self))"
  shows "\<exists>self' ind. CotpConnection_parseIncomingMessage self = Some (self', ind) \<and> options_ok self' \<and> bb_ok (cotp_payload self') \<and>
     cotp_rx_ok self' \<and> bb_size (readBuffer self') = 0 \<and>
     128 \<le> CotpConnection_getTpduSize self' \<and> CotpConnection_getTpduSize self' \<le> 8192 \<and>
     (if ind = COTP_DATA_INDICATION \<or> ind = COTP_MORE_FRAGMENTS_FOLLOW
      then bb_bytes (cotp_payload self') = bb_bytes (cotp_payload self) @ drop 7 (bb_bytes (readBuffer self)) \<and> 7 < bb_size (readBuffer self)
      else cotp_payload self' = cotp_payload self)"
proof -
  have pc: "bb_ok (readBuffer self)" "5 \<le> bb_size (readBuffer self)" "4 < bb_maxSize (readBuffer self)"
    using assms(1) unfolding packet_complete_def partial_packet_def bb_ok_def by linarith+
  obtain self1 ind where p: "parseCotpMessage self = Some (self1, ind)" "options_ok self1" "bb_ok (cotp_payload self1)"
    "readBuffer self1 = readBuffer self"
    "if ind = COTP_DATA_INDICATION \<or> ind = COTP_MORE_FRAGMENTS_FOLLOW
      then bb_bytes (cotp_payload self1) = bb_bytes (cotp_payload self) @ drop 7 (bb_bytes (readBuffer self)) \<and> 7 < bb_size (readBuffer self)
      else cotp_payload self1 = cotp_payload self"
    using parseCotpMessage_spec [OF assms(2,3) pc(1,2) assms(4)] by blast
  let ?self' = "self1\<lparr>readBuffer := (readBuffer self)\<lparr>bb_size := 0\<rparr>, packetSize := 0\<rparr>"
  have eq: "CotpConnection_parseIncomingMessage self = Some (?self', ind)"
    using p(1,4) by (simp add: CotpConnection_parseIncomingMessage_def)
  have rx: "cotp_rx_ok ?self'" using pc by (simp add: cotp_rx_ok_def partial_packet_def bb_ok_def)
  have o: "options_ok ?self'" using p(2) by (simp add: options_ok_def)
  then have "128 \<le> CotpConnection_getTpduSize ?self' \<and> CotpConnection_getTpduSize ?self' \<le> 8192"
    using getTpduSize_bounds [of ?self'] by (simp add: options_ok_def)
  then show ?thesis using eq rx o p(3,5) by auto
qed

theorem cotp_parse_safe_witness:
  "\<exists>self' ind. CotpConnection_parseIncomingMessage ((cotp_example (socket_example []))\<lparr>packetSize := 7,
       readBuffer := \<lparr>bb_buffer = [3, 0, 0, 7, 2, 0xf0, 0x80] @ replicate 293 0, bb_maxSize = 300, bb_size = 7\<rparr>\<rparr>) = Some (self', ind) \<and>
     options_ok self' \<and> bb_size (readBuffer self') = 0"
  using cotp_parse_safe [of "(cotp_example (socket_example []))\<lparr>packetSize := 7,
       readBuffer := \<lparr>bb_buffer = [3, 0, 0, 7, 2, 0xf0, 0x80] @ replicate 293 0, bb_maxSize = 300, bb_size = 7\<rparr>\<rparr>"]
  by (auto simp: cotp_example_def packet_complete_def partial_packet_def tpkt_length_def options_ok_def selector_ok_def bb_ok_def)


definition params_example :: IsoConnectionParameters where
  "params_example = (case IsoConnectionParameters_create True of Ret p \<Rightarrow> p)"

lemma request_example:
  "map_option (\<lambda>(s, i). (i, outgoing s)) (CotpConnection_sendConnectionRequestMessage True (cotp_example (socket_example [])) params_example) =
     Some (COTP_OK, [3, 0, 0, 14, 9, 0xe0, 0, 0, 0, 1, 0, 0xc0, 1, 7])"
  by code_simp

lemma merged_selectors:
  assumes "options_ok peer" and "selector_ok 4 (tSelSrc opts)" and "selector_ok 4 (tSelDst opts)"
  shows "sel_bytes (tSelDst (merge_options opts (cotp_options peer))) =
      sel_bytes (if sel_size (tSelDst opts) = 0 then tSelDst (cotp_options peer) else tSelDst opts)"
    and "sel_bytes (tSelSrc (merge_options opts (cotp_options peer))) =
      sel_bytes (if sel_size (tSelSrc opts) = 0 then tSelSrc (cotp_options peer) else tSelSrc opts)"
    and "tpduSize (merge_options opts (cotp_options peer)) = tpduSize opts"
proof -
  have old: "selector_ok 4 (tSelSrc (cotp_options peer))" "selector_ok 4 (tSelDst (cotp_options peer))"
    using assms(1) by (simp_all add: options_ok_def)
  show "sel_bytes (tSelDst (merge_options opts (cotp_options peer))) =
      sel_bytes (if sel_size (tSelDst opts) = 0 then tSelDst (cotp_options peer) else tSelDst opts)"
    using sel_set_ok [OF old(2), of "sel_bytes (tSelDst opts)"] length_sel_bytes [OF assms(3)] assms(3)
    by (simp add: merge_options_def selector_ok_def)
  show "sel_bytes (tSelSrc (merge_options opts (cotp_options peer))) =
      sel_bytes (if sel_size (tSelSrc opts) = 0 then tSelSrc (cotp_options peer) else tSelSrc opts)"
    using sel_set_ok [OF old(1), of "sel_bytes (tSelSrc opts)"] length_sel_bytes [OF assms(2)] assms(2)
    by (simp add: merge_options_def selector_ok_def)
  show "tpduSize (merge_options opts (cotp_options peer)) = tpduSize opts" by (simp add: merge_options_def)
qed

text \<open>C21: A peer that receives the bytes of a connect request reports a connect indication and has
  learnt the sender's reference, class 0, the sender's TPDU size, and the transport selectors the
  request names; selectors that are empty in the request leave the peer's own in place. A peer
  that receives the bytes of a connect confirm learns the sender's TPDU size, protocol class and
  the two selectors of its options in the same way, but not its reference: what it stores as the
  remote reference is the destination reference of the confirm, the one the sender holds as its
  remote reference, that is the peer's own.\<close>

theorem cotp_connect_roundtrip:
  assumes "cotp_tx_ok self" and "0 \<le> localRef self" "localRef self < 65536"
    and "socketExtensionBuffer self \<noteq> None \<Longrightarrow> socketExtensionBufferFill self + 26 \<le> socketExtensionBufferSize self"
    and "bb_ok (readBuffer peer)" and "bb_bytes (readBuffer peer) = drop (length (outgoing self)) (outgoing self')"
    and "options_ok peer"
  shows "(\<forall>mem params. params_ok params \<and> CotpConnection_sendConnectionRequestMessage mem self params = Some (self', COTP_OK) \<longrightarrow>
     (\<exists>peer'. CotpConnection_parseIncomingMessage peer = Some (peer', COTP_CONNECT_INDICATION) \<and>
        remoteRef peer' = localRef self \<and> protocolClass peer' = 0 \<and> CotpConnection_getTpduSize peer' = CotpConnection_getTpduSize self \<and>
        sel_bytes (tSelDst (cotp_options peer')) = sel_bytes (if sel_size (remoteTSelector params) = 0 then tSelDst (cotp_options peer) else remoteTSelector params) \<and>
        sel_bytes (tSelSrc (cotp_options peer')) = sel_bytes (if sel_size (localTSelector params) = 0 then tSelSrc (cotp_options peer) else localTSelector params))) \<and>
   (\<forall>mem. options_ok self \<and> 0 \<le> remoteRef self \<and> remoteRef self < 65536 \<and>
      CotpConnection_sendConnectionResponseMessage mem self = Some (self', COTP_OK) \<longrightarrow>
     (\<exists>peer'. CotpConnection_parseIncomingMessage peer = Some (peer', COTP_CONNECT_INDICATION) \<and>
        remoteRef peer' = remoteRef self \<and> protocolClass peer' = protocolClass self mod 256 \<and> CotpConnection_getTpduSize peer' = CotpConnection_getTpduSize self \<and>
        sel_bytes (tSelDst (cotp_options peer')) =
          sel_bytes (if sel_size (tSelDst (cotp_options self)) = 0 then tSelDst (cotp_options peer) else tSelDst (cotp_options self)) \<and>
        sel_bytes (tSelSrc (cotp_options peer')) =
          sel_bytes (if sel_size (tSelSrc (cotp_options self)) = 0 then tSelSrc (cotp_options peer) else tSelSrc (cotp_options self))))"
proof (intro conjI allI impI)
  fix mem params
  assume a: "params_ok params \<and> CotpConnection_sendConnectionRequestMessage mem self params = Some (self', COTP_OK)"
  let ?o = "(cotp_options self)\<lparr>tSelDst := remoteTSelector params, tSelSrc := localTSelector params\<rparr>"
  have sel: "selector_ok 4 (tSelSrc ?o)" "selector_ok 4 (tSelDst ?o)" using a by (simp_all add: params_ok_def)
  have sz: "7 \<le> unat (tpduSize ?o)" "unat (tpduSize ?o) \<le> 13" using assms(1) by (simp_all add: cotp_tx_ok_def)
  have "bb_bytes (readBuffer peer) = connect_packet 0xe0 0 (localRef self) 0 ?o"
    using request_bytes [OF assms(1) _ assms(2,4), of params mem self'] a assms(6) by simp
  from connect_packet_parsed [OF assms(5) this _ _ assms(2,3) sel sz assms(7), of "localRef self"]
  show "\<exists>peer'. CotpConnection_parseIncomingMessage peer = Some (peer', COTP_CONNECT_INDICATION) \<and>
        remoteRef peer' = localRef self \<and> protocolClass peer' = 0 \<and> CotpConnection_getTpduSize peer' = CotpConnection_getTpduSize self \<and>
        sel_bytes (tSelDst (cotp_options peer')) = sel_bytes (if sel_size (remoteTSelector params) = 0 then tSelDst (cotp_options peer) else remoteTSelector params) \<and>
        sel_bytes (tSelSrc (cotp_options peer')) = sel_bytes (if sel_size (localTSelector params) = 0 then tSelSrc (cotp_options peer) else localTSelector params)"
    using merged_selectors [OF assms(7) sel] by (simp add: CotpConnection_getTpduSize_def)
next
  fix mem
  assume a: "options_ok self \<and> 0 \<le> remoteRef self \<and> remoteRef self < 65536 \<and>
      CotpConnection_sendConnectionResponseMessage mem self = Some (self', COTP_OK)"
  let ?o = "cotp_options self" and ?c = "word_of_int (protocolClass self) :: byte"
  have o: "selector_ok 4 (tSelSrc ?o)" "selector_ok 4 (tSelDst ?o)" "7 \<le> unat (tpduSize ?o)" "unat (tpduSize ?o) \<le> 13"
    using a by (simp_all add: options_ok_def)
  have c: "uint ?c = protocolClass self mod 256" by (simp add: uint_word_of_int)
  have "bb_bytes (readBuffer peer) = connect_packet 0xd0 (remoteRef self) (localRef self) ?c ?o"
    using response_bytes [OF assms(1) _ assms(2) _ assms(4), of mem self'] a assms(6) by simp
  from connect_packet_parsed [OF assms(5) this _ _ assms(2,3) o assms(7), of "remoteRef self"] a
  show "\<exists>peer'. CotpConnection_parseIncomingMessage peer = Some (peer', COTP_CONNECT_INDICATION) \<and>
        remoteRef peer' = remoteRef self \<and> protocolClass peer' = protocolClass self mod 256 \<and> CotpConnection_getTpduSize peer' = CotpConnection_getTpduSize self \<and>
        sel_bytes (tSelDst (cotp_options peer')) =
          sel_bytes (if sel_size (tSelDst ?o) = 0 then tSelDst (cotp_options peer) else tSelDst ?o) \<and>
        sel_bytes (tSelSrc (cotp_options peer')) =
          sel_bytes (if sel_size (tSelSrc ?o) = 0 then tSelSrc (cotp_options peer) else tSelSrc ?o)"
    using merged_selectors [OF assms(7) o(1,2)] c by (simp add: CotpConnection_getTpduSize_def)
qed

theorem cotp_connect_roundtrip_witness:
  "\<exists>self' peer'. CotpConnection_sendConnectionRequestMessage True (cotp_example (socket_example [])) params_example = Some (self', COTP_OK) \<and>
     CotpConnection_parseIncomingMessage ((cotp_example (socket_example []))\<lparr>
       readBuffer := \<lparr>bb_buffer = [3, 0, 0, 14, 9, 0xe0, 0, 0, 0, 1, 0, 0xc0, 1, 7], bb_maxSize = 14, bb_size = 14\<rparr>\<rparr>) =
         Some (peer', COTP_CONNECT_INDICATION) \<and> remoteRef peer' = 1"
proof -
  let ?s = "cotp_example (socket_example [])"
  let ?peer = "?s\<lparr>readBuffer := \<lparr>bb_buffer = [3, 0, 0, 14, 9, 0xe0, 0, 0, 0, 1, 0, 0xc0, 1, 7], bb_maxSize = 14, bb_size = 14\<rparr>\<rparr>"
  obtain self' where s': "CotpConnection_sendConnectionRequestMessage True ?s params_example = Some (self', COTP_OK)"
    "outgoing self' = [3, 0, 0, 14, 9, 0xe0, 0, 0, 0, 1, 0, 0xc0, 1, 7]" using request_example by auto
  have "outgoing ?s = []" "localRef ?s = 1" "socketExtensionBuffer ?s = None" by (simp_all add: cotp_example_def socket_example_def outgoing_def)
  moreover have "bb_ok (readBuffer ?peer)" "bb_bytes (readBuffer ?peer) = outgoing self'" "options_ok ?peer"
    using s'(2) by (simp_all add: bb_ok_def bb_bytes_def options_ok_def selector_ok_def cotp_example_def)
  moreover have "params_ok params_example" using params_ok_create [of True params_example]
    by (simp add: params_example_def IsoConnectionParameters_create_def)
  ultimately show ?thesis
    using cotp_connect_roundtrip [OF cotp_example_ok(1), of "socket_example []" ?peer self'] s'(1) by auto
qed

text \<open>The length check of the parser lets a TPDU through whose length indicator equals the number
  of bytes behind the TPKT header, one more than it has behind the indicator: the last option is
  then completed by the byte behind the packet, left over from earlier packets. Two receivers that
  get the same 13 bytes and differ only in that byte accept the connection with different TPDU
  sizes.\<close>

theorem cotp_stale_byte:
  "map_option (\<lambda>(s, i). (i, CotpConnection_getTpduSize s)) (CotpConnection_parseIncomingMessage ((cotp_example (socket_example []))\<lparr>
     readBuffer := \<lparr>bb_buffer = [3, 0, 0, 13, 9, 0xe0, 0, 0, 0, 1, 0, 0xc0, 1, 8], bb_maxSize = 14, bb_size = 13\<rparr>\<rparr>)) =
     Some (COTP_CONNECT_INDICATION, 256) \<and>
   map_option (\<lambda>(s, i). (i, CotpConnection_getTpduSize s)) (CotpConnection_parseIncomingMessage ((cotp_example (socket_example []))\<lparr>
     readBuffer := \<lparr>bb_buffer = [3, 0, 0, 13, 9, 0xe0, 0, 0, 0, 1, 0, 0xc0, 1, 9], bb_maxSize = 14, bb_size = 13\<rparr>\<rparr>)) =
     Some (COTP_CONNECT_INDICATION, 512)"
  by code_simp

end
