(* ===== verification/Cotp_Invariant.thy ===== *)
theory Cotp_Invariant
  imports Cotp_Connect
begin

section \<open>The invariant of a transport connection\<close>

text \<open>
  The client and the server of the association layer drive a transport connection through calls
  in any order. \<open>cotp_ok\<close> is what every operation of \<open>cotp.c\<close> keeps, whatever the network does;
  under it no operation touches memory outside its buffers. \<open>cotp_mem\<close> is the part that also
  holds between reading a packet and parsing it.
\<close>

definition cotp_mem :: "CotpConnection \<Rightarrow> bool" where
  "cotp_mem self \<longleftrightarrow>
     ext_ok self \<and> options_ok self \<and> bb_ok (cotp_payload self) \<and> 0 \<le> localRef self \<and>
     260 \<le> length (bb_buffer (readBuffer self)) \<and> 26 \<le> socketExtensionBufferSize self \<and>
     (\<exists>wb. writeBuffer self = Some wb \<and> 8196 \<le> bb_maxSize wb \<and> bb_maxSize wb \<le> length (bb_buffer wb))"

definition cotp_ok :: "CotpConnection \<Rightarrow> bool" where
  "cotp_ok self \<longleftrightarrow> cotp_mem self \<and> cotp_rx_ok self"

text \<open>What the operations leave alone: the size of the payload buffer and of the memory behind
  it, and the negotiated parameters where they are not parsed.\<close>

definition payload_memory :: "CotpConnection \<Rightarrow> nat \<times> nat" where
  "payload_memory self = (bb_maxSize (cotp_payload self), length (bb_buffer (cotp_payload self)))"

lemma part_congs:
  "readBuffer s' = readBuffer s \<Longrightarrow> packetSize s' = packetSize s \<Longrightarrow> cotp_rx_ok s' = cotp_rx_ok s"
  "socketExtensionBuffer s' = socketExtensionBuffer s \<Longrightarrow> socketExtensionBufferSize s' = socketExtensionBufferSize s \<Longrightarrow>
     socketExtensionBufferFill s' = socketExtensionBufferFill s \<Longrightarrow> ext_ok s' = ext_ok s"
  "cotp_options s' = cotp_options s \<Longrightarrow> options_ok s' = options_ok s"
  by (simp_all add: cotp_rx_ok_def partial_packet_def options_ok_def ext_ok_def split: option.splits)

lemma cotp_mem_tx: "cotp_mem self \<Longrightarrow> cotp_tx_ok self"
  using getTpduSize_bounds(2) [of self]
  by (auto simp: cotp_mem_def cotp_tx_ok_def options_ok_def)

subsection \<open>Reading\<close>

text \<open>The frame of reading, including the length of the read buffer.\<close>

definition rx_frame :: "CotpConnection \<Rightarrow> CotpConnection \<Rightarrow> bool" where
  "rx_frame self self' \<longleftrightarrow>
     writeBuffer self' = writeBuffer self \<and> localRef self' = localRef self \<and> remoteRef self' = remoteRef self \<and>
     socketExtensionBufferSize self' = socketExtensionBufferSize self \<and>
     length (bb_buffer (readBuffer self')) = length (bb_buffer (readBuffer self))"

lemma rx_frame_refl [simp]: "rx_frame self self"
  by (simp add: rx_frame_def)

lemma rx_frame_trans: "rx_frame a b \<Longrightarrow> rx_frame b c \<Longrightarrow> rx_frame a c"
  by (simp add: rx_frame_def)

lemma rx_frame_simps [simp]:
  "rx_frame self (self\<lparr>packetSize := n\<rparr>)"
  "rx_frame self (fst (tpkt_exit self n st))"
  by (simp_all add: rx_frame_def tpkt_exit_def)

lemma readFromSocket_frame:
  assumes "off + sz \<le> length (bb_buffer (readBuffer self))" and "0 < sz"
  obtains self' n where "readFromSocket self off sz = Some (self', n)" "rx_frame self self'"
    "bb_maxSize (readBuffer self') = bb_maxSize (readBuffer self)" "packetSize self' = packetSize self"
    "socketExtensionBufferFill self' = socketExtensionBufferFill self"
proof -
  obtain s bs n where r: "readFromSocket self off sz =
      Some (self\<lparr>cotp_socket := s, readBuffer := (readBuffer self)\<lparr>bb_buffer := patch (bb_buffer (readBuffer self)) off bs\<rparr>\<rparr>, n)"
    "length bs \<le> sz" using readFromSocket_spec [OF assms] by blast
  then have "length (patch (bb_buffer (readBuffer self)) off bs) = length (bb_buffer (readBuffer self))"
    using assms(1) by (intro length_patch) simp
  with that [OF r(1)] show thesis by (simp add: rx_frame_def)
qed

lemma body_frame:
  assumes "packetSize self \<le> length (bb_buffer (readBuffer self))" and "read_tpkt_body self pos = Some (self', st)"
  shows "rx_frame self self' \<and> socketExtensionBufferFill self' = socketExtensionBufferFill self"
proof (cases "packetSize self \<le> pos")
  case True
  then show ?thesis using assms(2) by (auto simp: read_tpkt_body_def tpkt_exit_def rx_frame_def)
next
  case False
  then have "pos + (packetSize self - pos) \<le> length (bb_buffer (readBuffer self))" "0 < packetSize self - pos" using assms(1) by simp_all
  then obtain self1 n where "readFromSocket self pos (packetSize self - pos) = Some (self1, n)" "rx_frame self self1"
    "socketExtensionBufferFill self1 = socketExtensionBufferFill self" by (rule readFromSocket_frame)
  with False assms(2) show ?thesis
    by (auto simp: read_tpkt_body_def tpkt_exit_def rx_frame_def Let_def split: if_splits)
qed

lemma header_frame:
  assumes "pos < 4" and "4 < bb_maxSize (readBuffer self)" and "bb_maxSize (readBuffer self) \<le> length (bb_buffer (readBuffer self))"
    and "read_tpkt_header self pos = Some (self', st)"
  shows "rx_frame self self' \<and> socketExtensionBufferFill self' = socketExtensionBufferFill self"
proof -
  have "pos + (4 - pos) \<le> length (bb_buffer (readBuffer self))" "0 < 4 - pos" using assms(1-3) by simp_all
  then obtain self1 n where r: "readFromSocket self pos (4 - pos) = Some (self1, n)"
    and f1: "rx_frame self self1" "bb_maxSize (readBuffer self1) = bb_maxSize (readBuffer self)"
      "socketExtensionBufferFill self1 = socketExtensionBufferFill self"
    by (rule readFromSocket_frame)
  have body: "rx_frame self self' \<and> socketExtensionBufferFill self' = socketExtensionBufferFill self"
    if "read_tpkt_body (self1\<lparr>packetSize := k\<rparr>) p = Some (self', st)" "k \<le> bb_maxSize (readBuffer self1)" for k p
  proof -
    have "k \<le> length (bb_buffer (readBuffer self1))" using that(2) f1 assms(3) by (simp add: rx_frame_def)
    then show ?thesis using body_frame [of "self1\<lparr>packetSize := k\<rparr>" p self' st] that(1) f1 by (simp add: rx_frame_def)
  qed
  show ?thesis
    using assms(4) r f1 body
    by (auto simp: read_tpkt_header_def tpkt_exit_def Let_def rx_frame_def split: if_splits Option.bind_splits)
qed

lemma readToTpktBuffer_frame:
  assumes "cotp_rx_ok self" and "ext_ok self" and "CotpConnection_readToTpktBuffer self = Some (self', st)"
  shows "rx_frame self self'" and "st = TPKT_PACKET_COMPLETE \<Longrightarrow> socketExtensionBufferFill self' = 0"
proof -
  obtain self1 ok where f: "flushBuffer self = Some (self1, ok)" "send_frame self self1" "writeBuffer self1 = writeBuffer self"
    using flushBuffer_spec [OF assms(2)] by blast
  have m: "4 < bb_maxSize (readBuffer self)" "bb_maxSize (readBuffer self) \<le> length (bb_buffer (readBuffer self))"
    using assms(1) by (simp_all add: cotp_rx_ok_def partial_packet_def)
  have s1: "rx_frame self self1" "readBuffer self1 = readBuffer self" "packetSize self1 = packetSize self"
    using f(2,3) by (simp_all add: send_frame_def rx_frame_def)
  have f1: "(if 0 < socketExtensionBufferFill self then flushBuffer self else Some (self, True)) = Some (self1, ok)"
    using f(1) by (auto simp: flushBuffer_def)
  have p: "4 \<le> bb_size (readBuffer self) \<Longrightarrow> packetSize self1 \<le> length (bb_buffer (readBuffer self1))"
    using assms(1) m(2) s1(2,3) by (simp add: cotp_rx_ok_def partial_packet_def)
  note eq = assms(3) [unfolded CotpConnection_readToTpktBuffer_def Let_def f1]
  consider (stop) n where "self' = fst (tpkt_exit self1 n TPKT_ERROR)" "st \<noteq> TPKT_PACKET_COMPLETE"
    | (header) "socketExtensionBufferFill self1 = 0" "bb_size (readBuffer self) < 4" "read_tpkt_header self1 (bb_size (readBuffer self)) = Some (self', st)"
    | (body) "socketExtensionBufferFill self1 = 0" "4 \<le> bb_size (readBuffer self)" "read_tpkt_body self1 (bb_size (readBuffer self)) = Some (self', st)"
    using eq m by (fastforce simp: tpkt_exit_def split: if_splits)
  then have "rx_frame self self' \<and> (st = TPKT_PACKET_COMPLETE \<longrightarrow> socketExtensionBufferFill self' = 0)"
  proof cases
    case stop
    then show ?thesis using rx_frame_trans [OF s1(1) rx_frame_simps(2)] by simp
  next
    case header
    then show ?thesis using header_frame [of _ self1] m s1 rx_frame_trans [OF s1(1)] by auto
  next
    case body
    then show ?thesis using body_frame [OF p] rx_frame_trans [OF s1(1)] by auto
  qed
  then show "rx_frame self self'" and "st = TPKT_PACKET_COMPLETE \<Longrightarrow> socketExtensionBufferFill self' = 0" by auto
qed

lemma readToTpktBuffer_ok:
  assumes "cotp_ok self"
  shows "\<exists>self' st. CotpConnection_readToTpktBuffer self = Some (self', st) \<and> cotp_mem self' \<and> payload_memory self' = payload_memory self \<and>
    cotp_payload self' = cotp_payload self \<and> socketExtensionBufferSize self' = socketExtensionBufferSize self \<and>
    (if st = TPKT_PACKET_COMPLETE then packet_complete self' \<and> socketExtensionBufferFill self' = 0 else cotp_ok self')"
proof -
  have a: "cotp_rx_ok self" "ext_ok self" using assms by (simp_all add: cotp_ok_def cotp_mem_def)
  obtain self' st where r: "CotpConnection_readToTpktBuffer self = Some (self', st)" "ext_ok self'"
    "cotp_payload self' = cotp_payload self" "cotp_options self' = cotp_options self"
    and post: "case st of TPKT_WAITING \<Rightarrow> cotp_rx_ok self' \<and> incoming self' (bb_size (readBuffer self')) = incoming self (bb_size (readBuffer self))
     | TPKT_PACKET_COMPLETE \<Rightarrow> packet_complete self' \<and> incoming self' (bb_size (readBuffer self')) = incoming self (bb_size (readBuffer self))
     | TPKT_ERROR \<Rightarrow> cotp_rx_ok self' \<and> bb_size (readBuffer self') = 0"
    using readToTpktBuffer_spec [OF a] by blast
  then have "st = TPKT_PACKET_COMPLETE \<longrightarrow> packet_complete self'" "st \<noteq> TPKT_PACKET_COMPLETE \<longrightarrow> cotp_rx_ok self'"
    by (cases st; simp)+
  note r = r this
  note fr = readToTpktBuffer_frame [OF a r(1)]
  have "cotp_mem self'"
    using assms r(2-4) fr(1) by (simp add: cotp_ok_def cotp_mem_def rx_frame_def options_ok_def)
  with r fr show ?thesis by (auto simp: cotp_ok_def payload_memory_def rx_frame_def)
qed

subsection \<open>Parsing\<close>

text \<open>A complete packet is parsed without touching memory outside the buffers; afterwards the read
  buffer is free, and a data packet has put its payload behind what was there.\<close>

lemma parseIncoming_ok:
  assumes "cotp_mem self" and "packet_complete self"
  shows "\<exists>self' ind. CotpConnection_parseIncomingMessage self = Some (self', ind) \<and> cotp_ok self' \<and>
    payload_memory self' = payload_memory self \<and> socketExtensionBufferFill self' = socketExtensionBufferFill self \<and>
    socketExtensionBufferSize self' = socketExtensionBufferSize self \<and> cotp_socket self' = cotp_socket self \<and> bb_size (readBuffer self') = 0 \<and>
    (if ind = COTP_DATA_INDICATION \<or> ind = COTP_MORE_FRAGMENTS_FOLLOW
     then bb_bytes (cotp_payload self') = bb_bytes (cotp_payload self) @ drop 7 (bb_bytes (readBuffer self))
     else cotp_payload self' = cotp_payload self) \<and>
    (ind = COTP_CONNECT_INDICATION \<longrightarrow> 0 \<le> remoteRef self') \<and> ind \<noteq> COTP_OK \<and> ind \<noteq> COTP_DISCONNECT_INDICATION"
proof -
  have pc: "bb_ok (readBuffer self)" "5 \<le> bb_size (readBuffer self)" "4 < bb_maxSize (readBuffer self)"
    using assms(2) unfolding packet_complete_def partial_packet_def bb_ok_def by linarith+
  have m: "options_ok self" "bb_ok (cotp_payload self)" "260 \<le> length (bb_buffer (readBuffer self))"
    using assms(1) by (simp_all add: cotp_mem_def)
  obtain self1 ind where p: "parseCotpMessage self = Some (self1, ind)" "options_ok self1" "bb_ok (cotp_payload self1)"
    "readBuffer self1 = readBuffer self" "bb_maxSize (cotp_payload self1) = bb_maxSize (cotp_payload self)"
    "if ind = COTP_DATA_INDICATION \<or> ind = COTP_MORE_FRAGMENTS_FOLLOW
      then bb_bytes (cotp_payload self1) = bb_bytes (cotp_payload self) @ drop 7 (bb_bytes (readBuffer self)) \<and> 7 < bb_size (readBuffer self)
      else cotp_payload self1 = cotp_payload self"
    "parse_frame self self1" "ind = COTP_CONNECT_INDICATION \<longrightarrow> 0 \<le> remoteRef self1" "ind \<noteq> COTP_OK" "ind \<noteq> COTP_DISCONNECT_INDICATION"
    using parseCotpMessage_spec [OF m(1,2) pc(1,2)] m(3) by blast
  let ?self' = "self1\<lparr>readBuffer := (readBuffer self)\<lparr>bb_size := 0\<rparr>, packetSize := 0\<rparr>"
  have eq: "CotpConnection_parseIncomingMessage self = Some (?self', ind)"
    using p(1,4) by (simp add: CotpConnection_parseIncomingMessage_def)
  have "ext_ok ?self'" using assms(1) p(7) by (cases "socketExtensionBuffer self") (simp_all add: cotp_mem_def ext_ok_def parse_frame_def)
  then have "cotp_mem ?self'"
    using assms(1) p(2,3,4,7) by (simp add: cotp_mem_def parse_frame_def options_ok_def)
  moreover have "cotp_rx_ok ?self'" using pc by (simp add: cotp_rx_ok_def partial_packet_def bb_ok_def)
  ultimately show ?thesis
    using eq p(5-10) by (intro exI [of _ ?self'] exI [of _ ind]) (auto simp: cotp_ok_def payload_memory_def parse_frame_def)
qed

subsection \<open>Sending\<close>

lemma tx_frame_ok:
  assumes "cotp_ok self" and "tx_frame self self'"
  shows "cotp_ok self'" and "cotp_payload self' = cotp_payload self" and "payload_memory self' = payload_memory self"
    and "readBuffer self' = readBuffer self" and "cotp_options self' = cotp_options self"
proof -
  obtain wb where wb: "writeBuffer self = Some wb" "8196 \<le> bb_maxSize wb" "bb_maxSize wb \<le> length (bb_buffer wb)"
    using assms(1) by (auto simp: cotp_ok_def cotp_mem_def)
  then obtain wb' where "writeBuffer self' = Some wb'" "bb_maxSize wb' = bb_maxSize wb" "length (bb_buffer wb') = length (bb_buffer wb)"
    using assms(2) by (auto simp: tx_frame_def)
  with wb have "cotp_mem self'"
    using assms by (simp add: cotp_ok_def cotp_mem_def tx_frame_def send_frame_def options_ok_def)
  moreover have "cotp_rx_ok self'"
    using assms part_congs(1) [of self' self] by (simp add: cotp_ok_def tx_frame_def send_frame_def)
  ultimately show "cotp_ok self'" by (simp add: cotp_ok_def)
qed (use assms(2) in \<open>simp_all add: tx_frame_def send_frame_def payload_memory_def\<close>)

lemma tx_frame_trans: "tx_frame a b \<Longrightarrow> tx_frame b c \<Longrightarrow> tx_frame a c"
  unfolding tx_frame_def using send_frame_trans [of a b c] by fastforce

lemma tx_frame_same: "send_frame self self' \<Longrightarrow> ext_ok self' \<Longrightarrow> writeBuffer self' = writeBuffer self \<Longrightarrow> tx_frame self self'"
  by (simp add: tx_frame_def)

lemma flush_ok:
  assumes "cotp_ok self"
  shows "\<exists>self'. CotpConnection_flushBuffer self = Some self' \<and> tx_frame self self'"
proof (cases "socketExtensionBufferFill self > 0")
  case True
  obtain self' ok where "flushBuffer self = Some (self', ok)" "send_frame self self'" "ext_ok self'" "writeBuffer self' = writeBuffer self"
    using flushBuffer_spec [of self] assms by (auto simp: cotp_ok_def cotp_mem_def)
  then show ?thesis using True by (simp add: CotpConnection_flushBuffer_def tx_frame_same)
qed (use assms in \<open>simp add: CotpConnection_flushBuffer_def tx_frame_def cotp_ok_def cotp_mem_def\<close>)

lemma resetPayload_ok: "cotp_ok self \<Longrightarrow> cotp_ok (CotpConnection_resetPayload self)"
  "payload_memory (CotpConnection_resetPayload self) = payload_memory self"
  "bb_size (cotp_payload (CotpConnection_resetPayload self)) = 0"
  using part_congs [of "CotpConnection_resetPayload self" self]
  by (simp_all add: CotpConnection_resetPayload_def cotp_ok_def cotp_mem_def bb_ok_def payload_memory_def)

lemma finish_send_ok:
  assumes "ext_ok self" and "writeBuffer self = Some wb" and "bb_ok wb"
    and "socketExtensionBuffer self \<noteq> None \<Longrightarrow> socketExtensionBufferFill self + bb_size wb \<le> socketExtensionBufferSize self"
  shows "\<exists>self' r. finish_send self = Some (self', r) \<and> tx_frame self self'"
proof -
  obtain self' ok where s: "sendBuffer self = Some (self', ok)" "ext_ok self'" "send_frame self self'"
    "if ok then outgoing self' = outgoing self @ bb_bytes wb \<and> writeBuffer self' = Some (wb\<lparr>bb_size := 0\<rparr>)
     else writeBuffer self' = Some wb \<and> (\<exists>k. outgoing self' = outgoing self @ take k (bb_bytes wb))"
    using sendBuffer_spec [OF assms] by blast
  then have "\<exists>wb'. writeBuffer self' = Some wb' \<and> bb_maxSize wb' = bb_maxSize wb \<and> length (bb_buffer wb') = length (bb_buffer wb)"
    by (cases ok) auto
  then show ?thesis using s(1-3) assms(2) by (simp add: finish_send_def tx_frame_def)
qed

text \<open>The connect response is built in the write buffer and sent, or queued if the extension
  buffer has room for it; it has, since a packet is only read when that buffer is empty.\<close>

lemma sendConnectionResponse_ok:
  assumes "cotp_ok self" and "0 \<le> remoteRef self" and "socketExtensionBufferFill self = 0"
  shows "\<exists>self' r. CotpConnection_sendConnectionResponseMessage mem self = Some (self', r) \<and> tx_frame self self'"
proof -
  obtain wb where wb: "writeBuffer self = Some wb" "8196 \<le> bb_maxSize wb" "bb_maxSize wb \<le> length (bb_buffer wb)"
    using assms(1) by (auto simp: cotp_ok_def cotp_mem_def)
  have m: "options_ok self" "0 \<le> localRef self" "ext_ok self" "26 \<le> socketExtensionBufferSize self"
    using assms(1) by (simp_all add: cotp_ok_def cotp_mem_def)
  define p where "p = connect_packet 0xd0 (remoteRef self) (localRef self) (word_of_int (protocolClass self)) (cotp_options self)"
  define wb1 where "wb1 = wb\<lparr>bb_buffer := patch (bb_buffer wb) 0 p, bb_size := 11 + getOptionsLength self\<rparr>"
  have eq: "CotpConnection_sendConnectionResponseMessage mem self = finish_send (self\<lparr>writeBuffer := Some wb1\<rparr>)"
    and len: "getOptionsLength self \<le> 15" "length (option_bytes (cotp_options self)) = getOptionsLength self"
    using response_eq [OF wb(1) _ wb(3) m(1,2) assms(2)] wb(2) by (simp_all add: p_def wb1_def)
  have "length (patch (bb_buffer wb) 0 p) = length (bb_buffer wb)"
    using len wb(2,3) by (intro length_patch) (simp add: p_def length_connect_packet)
  then have w1: "bb_ok wb1" "bb_maxSize wb1 = bb_maxSize wb" "length (bb_buffer wb1) = length (bb_buffer wb)" "bb_size wb1 \<le> 26"
    using len wb(2,3) by (simp_all add: wb1_def bb_ok_def)
  have "\<exists>self' r. finish_send (self\<lparr>writeBuffer := Some wb1\<rparr>) = Some (self', r) \<and> tx_frame (self\<lparr>writeBuffer := Some wb1\<rparr>) self'"
    using w1(1,4) m(3,4) assms(3) by (intro finish_send_ok [of _ wb1]) simp_all
  moreover have "tx_frame self (self\<lparr>writeBuffer := Some wb1\<rparr>)"
    using w1 m(3) wb(1) by (simp add: tx_frame_def send_frame_def)
  ultimately show ?thesis using eq tx_frame_trans by auto
qed

text \<open>A connection whose socket is open, with an extension buffer, and on which \<open>send\<close> is not going to
  fail, however few bytes it accepts.\<close>

definition tx_alive :: "CotpConnection \<Rightarrow> bool" where
  "tx_alive self \<longleftrightarrow> fd (cotp_socket self) \<noteq> -1 \<and> Send_error \<notin> set (tx (cotp_socket self)) \<and> socketExtensionBuffer self \<noteq> None"

text \<open>It can take a message of the given length if the extension buffer has room for the message cut
  into data TPDUs.\<close>

definition tx_room :: "CotpConnection \<Rightarrow> nat \<Rightarrow> bool" where
  "tx_room self len \<longleftrightarrow> tx_alive self \<and>
     socketExtensionBufferFill self + (7 * frag_count (CotpConnection_getTpduSize self - 3) len + len) \<le> socketExtensionBufferSize self"

lemma tx_alive_simps [simp]:
  "tx_alive (self\<lparr>writeBuffer := w\<rparr>) = tx_alive self" "tx_alive (self\<lparr>socketExtensionBufferFill := n\<rparr>) = tx_alive self"
  by (simp_all add: tx_alive_def)

lemma write_alive:
  assumes "tx_alive self" and "writeToSocket self buf sz = Some (self', n)"
  shows "tx_alive self'" and "n \<noteq> -1"
proof -
  have "tx_alive self' \<and> n \<noteq> -1"
    using assms by (cases "tx (cotp_socket self)")
      (auto simp: writeToSocket_def Socket_write_def send_def tx_alive_def split: Option.bind_splits send_result.splits)
  then show "tx_alive self'" and "n \<noteq> -1" by auto
qed

lemma flush_alive:
  assumes "tx_alive self" and "flushBuffer self = Some (self', ok)"
  shows "tx_alive self'" and "ok"
proof -
  have "tx_alive self' \<and> ok"
    using assms write_alive [OF assms(1)]
    by (auto simp: flushBuffer_def Let_def tx_alive_def split: Option.bind_splits if_splits)
  then show "tx_alive self'" and "ok" by auto
qed

lemma queue_alive:
  assumes "tx_alive self" and "sentBytes \<noteq> -1" and "queue_unsent wb self sentBytes = Some (self', ok)"
  shows "tx_alive self' \<and> ok"
  using assms by (auto simp: queue_unsent_def tx_alive_def split: Option.bind_splits if_splits)

lemma sendBuffer_alive:
  assumes "tx_alive self" and "sendBuffer self = Some (self', ok)"
  shows "tx_alive self' \<and> ok"
proof -
  obtain wb self1 ok1 where f: "writeBuffer self = Some wb" "flushBuffer self = Some (self1, ok1)"
    using assms(2) by (auto simp: sendBuffer_def split: Option.bind_splits)
  note f1 = flush_alive [OF assms(1) f(2)]
  obtain self2 n where w: "(if socketExtensionBufferFill self1 = 0 then writeToSocket self1 (bb_buffer wb) (bb_size wb) else Some (self1, 0)) = Some (self2, n)"
    "queue_unsent wb self2 n = Some (self', ok)"
    using assms(2) f f1(2) by (auto simp: sendBuffer_def split: Option.bind_splits)
  have "tx_alive self2" "n \<noteq> -1" using w(1) f1(1) write_alive [OF f1(1)] by (auto split: if_splits)
  from queue_alive [OF this w(2)] show ?thesis .
qed

lemma send_fragments_alive:
  assumes "tx_alive self" and "send_fragments payload n k self cur ch i = Some (self', r)"
  shows "r = COTP_OK"
  using assms
proof (induction k arbitrary: self cur ch i)
  case (Suc k)
  let ?l = "if 0 < k then cur + n else ch_length payload"
  obtain s0 s1 wb buf bufPos p where h: "writeRfc1006Header self (7 + (?l - cur)) = Some s0" "writeDataTpduHeader s0 (k = 0) = Some s1"
    "writeBuffer s1 = Some wb" "copy_chain (?l - cur) (bb_buffer wb, 7) ch i = Some ((buf, bufPos), p)"
    using Suc.prems(2) by (auto simp: Let_def split: Option.bind_splits)
  have a1: "tx_alive s1"
    using Suc.prems(1) h(1,2) by (auto simp: writeRfc1006Header_def writeDataTpduHeader_def fill_writeBuffer_def split: Option.bind_splits)
  let ?s2 = "s1\<lparr>writeBuffer := Some (wb\<lparr>bb_buffer := buf, bb_size := bufPos\<rparr>)\<rparr>"
  have a2: "tx_alive ?s2" using a1 by simp
  show ?case
  proof (cases p)
    case None
    then show ?thesis using Suc.prems(2) h by (simp add: Let_def)
  next
    case (Some q)
    obtain ch' j where q: "q = (ch', j)" by fastforce
    then obtain s3 ok where s3: "sendBuffer ?s2 = Some (s3, ok)"
      using Suc.prems(2) h Some by (auto simp: Let_def split: Option.bind_splits)
    from sendBuffer_alive [OF a2 this] have "tx_alive s3" "ok" by simp_all
    moreover from this have "send_fragments payload n k s3 ?l ch' j = Some (self', r)"
      using Suc.prems(2) h Some q s3 by (simp add: Let_def)
    ultimately show ?thesis using Suc.IH by blast
  qed
qed simp

lemma sendDataMessage_room:
  assumes "cotp_tx_ok self" and "tx_room self (ch_length payload)" and "CotpConnection_sendDataMessage self payload = Some (self', r)"
  shows "r = COTP_OK"
proof -
  let ?n = "CotpConnection_getTpduSize self - 3"
  have "ext_ok self" using assms(1) by (simp add: cotp_tx_ok_def)
  then obtain self1 ok where f: "flushBuffer self = Some (self1, ok)" "send_frame self self1"
    "socketExtensionBufferFill self1 \<le> socketExtensionBufferFill self" using flushBuffer_spec [of self] by blast
  have "tx_alive self" using assms(2) by (simp add: tx_room_def)
  from flush_alive [OF this f(1)] have a: "tx_alive self1" "ok" .
  have "128 \<le> CotpConnection_getTpduSize self" using assms(1) by (intro getTpduSize_bounds) (simp_all add: cotp_tx_ok_def)
  then have n: "0 < ?n" "int (CotpConnection_getTpduSize self) - 3 = int ?n" by simp_all
  have "socketExtensionBufferSize self1 = socketExtensionBufferSize self" using f(2) by (simp add: send_frame_def)
  then have "\<not> int (socketExtensionBufferSize self1) - int (socketExtensionBufferFill self1) <
      int (frag_count ?n (ch_length payload)) * 7 + int (ch_length payload)"
    using assms(2) f(3) unfolding tx_room_def by linarith
  then have "send_fragments payload ?n (frag_count ?n (ch_length payload)) self1 0 payload 0 = Some (self', r)"
    using assms(3) f(1) a(2) unfolding CotpConnection_sendDataMessage_def Let_def n(2) fragment_count_eq [OF n(1)] by simp
  from send_fragments_alive [OF a(1) this] show ?thesis .
qed

text \<open>A data message is sent or refused: what goes out is the whole message cut into data TPDUs, or a
  prefix of that. It is refused only if the socket fails or the extension buffer has no room.\<close>

definition sends :: "CotpConnection \<Rightarrow> byte list \<Rightarrow> CotpConnection \<Rightarrow> CotpIndication \<Rightarrow> bool" where
  "sends self msg self' r \<longleftrightarrow> tx_frame self self' \<and>
     (let stream = dt_stream (CotpConnection_getTpduSize self - 3) msg
      in r = COTP_OK \<and> outgoing self' = outgoing self @ stream \<or>
         r = COTP_ERROR \<and> \<not> tx_room self (length msg) \<and> (\<exists>m. outgoing self' = outgoing self @ take m stream))"

lemma sendDataMessage_ok:
  assumes "cotp_ok self" and "chain_ok payload" and "parts_ok payload"
  shows "\<exists>self' r. CotpConnection_sendDataMessage self payload = Some (self', r) \<and> sends self (chain_bytes payload) self' r"
proof -
  have t: "cotp_tx_ok self" using cotp_mem_tx assms(1) by (simp add: cotp_ok_def)
  have "tx_room self (length (chain_bytes payload)) \<Longrightarrow> CotpConnection_sendDataMessage self payload = Some (self', r) \<Longrightarrow> r = COTP_OK" for self' r
    using sendDataMessage_room [OF t, of payload] length_chain_bytes [OF assms(2)] by simp
  with sendDataMessage_spec [OF t assms(2,3)] show ?thesis unfolding sends_def Let_def by blast
qed

text \<open>A fresh connection satisfies the invariant.\<close>

lemma init_ok:
  assumes "length (sel_value tsel) = 4" and "bb_maxSize p \<le> length (bb_buffer p)"
    and "bb_size r = 0" "4 < bb_maxSize r" "bb_maxSize r \<le> length (bb_buffer r)" "260 \<le> length (bb_buffer r)"
    and "8196 \<le> bb_maxSize w" "bb_maxSize w \<le> length (bb_buffer w)"
    and "extSize \<le> length ext" "26 \<le> extSize"
  shows "cotp_ok (CotpConnection_init tsel self sock p r (Some w) (Some ext) extSize)"
proof -
  have "CotpConnection_setTpduSize s COTP_MAX_TPDU_SIZE = s\<lparr>cotp_options := (cotp_options s)\<lparr>tpduSize := 13\<rparr>\<rparr>" for s
    using setTpduSize_power [of 13 s] by (simp add: COTP_MAX_TPDU_SIZE_def)
  then show ?thesis
    using assms by (simp add: CotpConnection_init_def CotpConnection_resetPayload_def cotp_ok_def cotp_mem_def ext_ok_def
        options_ok_def selector_ok_def bb_ok_def cotp_rx_ok_def partial_packet_def Let_def)
qed

subsection \<open>A read buffer that is reused\<close>

text \<open>\<open>CotpConnection_init\<close> forgets the packet size but not how much of a packet the read buffer
  holds. When a client connects again after it was closed in the middle of a packet, it starts in
  this state.\<close>

definition rx_stale :: "CotpConnection \<Rightarrow> bool" where
  "rx_stale self \<longleftrightarrow> packetSize self = 0 \<and> 4 \<le> bb_size (readBuffer self) \<and> 4 < bb_maxSize (readBuffer self) \<and>
     bb_size (readBuffer self) \<le> bb_maxSize (readBuffer self) \<and> bb_maxSize (readBuffer self) \<le> length (bb_buffer (readBuffer self))"

definition cotp_live :: "CotpConnection \<Rightarrow> bool" where
  "cotp_live self \<longleftrightarrow> cotp_mem self \<and> (cotp_rx_ok self \<or> rx_stale self)"

lemma cotp_ok_live: "cotp_ok self \<Longrightarrow> cotp_live self"
  by (simp add: cotp_ok_def cotp_live_def)

lemma tx_frame_mem:
  assumes "cotp_mem self" and "tx_frame self self'"
  shows "cotp_mem self'"
proof -
  obtain wb where wb: "writeBuffer self = Some wb" "8196 \<le> bb_maxSize wb" "bb_maxSize wb \<le> length (bb_buffer wb)"
    using assms(1) by (auto simp: cotp_mem_def)
  then obtain wb' where "writeBuffer self' = Some wb'" "bb_maxSize wb' = bb_maxSize wb" "length (bb_buffer wb') = length (bb_buffer wb)"
    using assms(2) by (auto simp: tx_frame_def)
  with wb show ?thesis using assms by (simp add: cotp_mem_def tx_frame_def send_frame_def options_ok_def)
qed

lemma tx_frame_live: "cotp_live self \<Longrightarrow> tx_frame self self' \<Longrightarrow> cotp_live self'"
  using tx_frame_mem [of self self'] part_congs(1) [of self' self]
  by (auto simp: cotp_live_def tx_frame_def send_frame_def rx_stale_def)

text \<open>The first complete read after that is an error, whatever the new peer sends.\<close>

lemma read_stale:
  assumes "cotp_mem self" and "rx_stale self"
  shows "\<exists>self' st. CotpConnection_readToTpktBuffer self = Some (self', st) \<and> cotp_live self' \<and> cotp_payload self' = cotp_payload self \<and>
    socketExtensionBufferSize self' = socketExtensionBufferSize self \<and>
    (st = TPKT_ERROR \<or> st = TPKT_WAITING \<and> 0 < socketExtensionBufferFill self)"
proof -
  have e: "ext_ok self" using assms(1) by (simp add: cotp_mem_def)
  obtain self1 ok where f: "flushBuffer self = Some (self1, ok)" "ext_ok self1" "send_frame self self1" "writeBuffer self1 = writeBuffer self"
    "socketExtensionBufferFill self1 \<le> socketExtensionBufferFill self"
    using flushBuffer_spec [OF e] by blast
  have f1: "(if 0 < socketExtensionBufferFill self then flushBuffer self else Some (self, True)) = Some (self1, ok)"
    using f(1) by (auto simp: flushBuffer_def)
  have t: "tx_frame self self1" using f(2-4) by (simp add: tx_frame_def)
  have s1: "readBuffer self1 = readBuffer self" "packetSize self1 = 0" "cotp_payload self1 = cotp_payload self"
    "socketExtensionBufferSize self1 = socketExtensionBufferSize self"
    using f(3) assms(2) by (simp_all add: send_frame_def rx_stale_def)
  have m1: "cotp_mem self1" using assms(1) t by (rule tx_frame_mem)
  let ?e = "self1\<lparr>readBuffer := (readBuffer self1)\<lparr>bb_size := 0\<rparr>\<rparr>"
  have err: "cotp_live ?e"
    using m1 assms(2) s1(1) part_congs(2,3) [of ?e self1]
    by (simp add: cotp_live_def cotp_mem_def cotp_rx_ok_def partial_packet_def rx_stale_def)
  have "cotp_live self" using assms by (simp add: cotp_live_def)
  then have "cotp_live self1" using t by (rule tx_frame_live)
  moreover have "self1\<lparr>readBuffer := readBuffer self\<rparr> = self1" using s1(1) by (metis CotpConnection.surjective CotpConnection.update_convs(10))
  ultimately have live1: "cotp_live (self1\<lparr>readBuffer := readBuffer self\<rparr>)" by simp
  show ?thesis
    using assms(2) s1 f(5) err live1 unfolding CotpConnection_readToTpktBuffer_def Let_def f1
    by (auto simp: rx_stale_def tpkt_exit_def read_tpkt_body_def)
qed

lemma readToTpktBuffer_live:
  assumes "cotp_live self"
  shows "\<exists>self' st. CotpConnection_readToTpktBuffer self = Some (self', st) \<and> cotp_payload self' = cotp_payload self \<and>
    socketExtensionBufferSize self' = socketExtensionBufferSize self \<and>
    (if st = TPKT_PACKET_COMPLETE then cotp_mem self' \<and> packet_complete self' \<and> socketExtensionBufferFill self' = 0 else cotp_live self')"
proof (cases "cotp_rx_ok self")
  case True
  then have "cotp_ok self" using assms by (simp add: cotp_ok_def cotp_live_def)
  from readToTpktBuffer_ok [OF this] show ?thesis by (fastforce intro: cotp_ok_live)
next
  case False
  then have "cotp_mem self" "rx_stale self" using assms by (simp_all add: cotp_live_def)
  from read_stale [OF this] show ?thesis by auto
qed

text \<open>The connection request of a client.\<close>

lemma sendConnectionRequest_ok:
  assumes "cotp_live self" and "params_ok params" and "socketExtensionBufferFill self = 0"
  shows "\<exists>self' r. CotpConnection_sendConnectionRequestMessage mem self params = Some (self', r) \<and> cotp_live self' \<and>
    cotp_payload self' = cotp_payload self \<and> socketExtensionBufferSize self' = socketExtensionBufferSize self"
proof -
  define s where "s = self\<lparr>cotp_options := (cotp_options self)\<lparr>tSelDst := remoteTSelector params, tSelSrc := localTSelector params\<rparr>\<rparr>"
  have m: "cotp_mem self" using assms(1) by (simp add: cotp_live_def)
  then obtain wb where wb: "writeBuffer self = Some wb" "8196 \<le> bb_maxSize wb" "bb_maxSize wb \<le> length (bb_buffer wb)"
    by (auto simp: cotp_mem_def)
  have ms: "options_ok self" "0 \<le> localRef self" "ext_ok self" "26 \<le> socketExtensionBufferSize self" using m by (simp_all add: cotp_mem_def)
  have so: "options_ok s" using ms(1) assms(2) by (simp add: s_def options_ok_def params_ok_def)
  have s: "cotp_live s"
    using assms(1) so part_congs(1,2) [of s self] by (auto simp: s_def cotp_live_def cotp_mem_def rx_stale_def)
  define p where "p = connect_packet 0xe0 0 (localRef self) 0 (cotp_options s)"
  define wb1 where "wb1 = wb\<lparr>bb_buffer := patch (bb_buffer wb) 0 p, bb_size := 11 + getOptionsLength s\<rparr>"
  have eq: "CotpConnection_sendConnectionRequestMessage mem self params = finish_send (s\<lparr>writeBuffer := Some wb1\<rparr>)"
    and len: "getOptionsLength s \<le> 15" "length (option_bytes (cotp_options s)) = getOptionsLength s"
    using request_eq [OF wb(1) _ wb(3) assms(2) ms(2)] wb(2) by (simp_all add: p_def wb1_def s_def)
  have "length (patch (bb_buffer wb) 0 p) = length (bb_buffer wb)"
    using len wb(2,3) by (intro length_patch) (simp add: p_def length_connect_packet)
  then have w1: "bb_ok wb1" "bb_maxSize wb1 = bb_maxSize wb" "length (bb_buffer wb1) = length (bb_buffer wb)" "bb_size wb1 \<le> 26"
    using len wb(2,3) by (simp_all add: wb1_def bb_ok_def)
  have es: "ext_ok s" "writeBuffer s = Some wb" "socketExtensionBufferFill s = 0" "26 \<le> socketExtensionBufferSize s"
    using ms(3,4) part_congs(2) [of s self] wb(1) assms(3) by (simp_all add: s_def)
  have "\<exists>self' r. finish_send (s\<lparr>writeBuffer := Some wb1\<rparr>) = Some (self', r) \<and> tx_frame (s\<lparr>writeBuffer := Some wb1\<rparr>) self'"
    using w1(1,4) es by (intro finish_send_ok [of _ wb1]) simp_all
  then obtain self' r where r: "finish_send (s\<lparr>writeBuffer := Some wb1\<rparr>) = Some (self', r)" "tx_frame (s\<lparr>writeBuffer := Some wb1\<rparr>) self'" by blast
  have "tx_frame s (s\<lparr>writeBuffer := Some wb1\<rparr>)" using w1 es(1,2) by (simp add: tx_frame_def send_frame_def)
  then have t: "tx_frame s self'" using r(2) by (rule tx_frame_trans)
  then have "cotp_payload self' = cotp_payload self" "socketExtensionBufferSize self' = socketExtensionBufferSize self"
    by (simp_all add: tx_frame_def send_frame_def s_def)
  with tx_frame_live [OF s t] r(1) eq show ?thesis by auto
qed

lemma init_live:
  assumes "length (sel_value tsel) = 4" and "bb_maxSize p \<le> length (bb_buffer p)"
    and "4 < bb_maxSize r" "bb_size r \<le> bb_maxSize r" "bb_maxSize r \<le> length (bb_buffer r)" "260 \<le> length (bb_buffer r)"
    and "8196 \<le> bb_maxSize w" "bb_maxSize w \<le> length (bb_buffer w)"
    and "extSize \<le> length ext" "26 \<le> extSize"
  shows "cotp_live (CotpConnection_init tsel self sock p r (Some w) (Some ext) extSize)"
proof -
  have "CotpConnection_setTpduSize s COTP_MAX_TPDU_SIZE = s\<lparr>cotp_options := (cotp_options s)\<lparr>tpduSize := 13\<rparr>\<rparr>" for s
    using setTpduSize_power [of 13 s] by (simp add: COTP_MAX_TPDU_SIZE_def)
  then show ?thesis
    using assms by (auto simp: CotpConnection_init_def CotpConnection_resetPayload_def cotp_live_def cotp_mem_def ext_ok_def
        options_ok_def selector_ok_def bb_ok_def cotp_rx_ok_def partial_packet_def rx_stale_def Let_def not_le)
qed

end
