(* ===== verification/Iso_Session.thy ===== *)
theory Iso_Session
  imports Connection_Parameters
begin

unbundle bit_operations_syntax

section \<open>The session layer\<close>

text \<open>
  Model of \<open>src/mms/iso_session/iso_session.c\<close>. The session object is a record; the encoders
  are writers on (buffer, offset), the parsers return the updated session with the indication
  (an error return leaves what was stored so far, as in the code). Assignments of an \<open>int\<close> to
  a \<open>uint8_t\<close> truncate (\<open>of_nat\<close> to a byte). The theorems show that parsing any message is
  memory safe and terminates, that it only hands data of the message to the upper layer, and
  that every SPDU the code creates is parsed back to the same session parameters and payload
  as long as its length fits the one-byte length field.
\<close>

record IsoSession =
  callingSessionSelector :: SSelector
  calledSessionSelector :: SSelector
  sessionRequirement :: "16 word"
  protocolOptions :: byte
  userData :: ByteBuffer

datatype IsoSessionIndication =
  SESSION_OK | SESSION_ERROR | SESSION_CONNECT | SESSION_GIVE_TOKEN | SESSION_DATA | SESSION_ABORT
| SESSION_FINISH | SESSION_DISCONNECT | SESSION_NOT_FINISHED

subsection \<open>Parsing\<close>

text \<open>One iteration of the loop of \<open>parseAcceptParameters\<close>: \<open>pi\<close> and \<open>param_len\<close> are the two
  header bytes, \<open>offset\<close> points behind them. The flags are \<open>hasProtocolOptions\<close> and
  \<open>hasProtocolVersion\<close>.\<close>

definition acceptParameter ::
  "byte list \<Rightarrow> byte \<Rightarrow> nat \<Rightarrow> nat \<Rightarrow> IsoSession \<times> bool \<times> bool \<Rightarrow> ((IsoSession \<times> bool \<times> bool) \<times> nat ret) option" where
  "acceptParameter buf pi param_len offset st =
     (case st of (session, hasOptions, hasVersion) \<Rightarrow>
       if pi = 19 then
         if param_len \<noteq> 1 then Some (st, Fail)
         else do { b \<leftarrow> rd buf offset; Some ((session\<lparr>protocolOptions := b\<rparr>, True, hasVersion), Ret (Suc offset)) }
       else if pi = 21 then Some (st, Ret (offset + 4))
       else if pi = 22 then do {
         param_val \<leftarrow> rd buf offset;
         if param_val \<noteq> 2 then Some (st, Fail) else Some ((session, hasOptions, True), Ret (Suc offset)) }
       else if pi = 23 then Some (st, Ret (offset + param_len))
       else if pi = 26 then
         if param_len \<noteq> 1 then Some (st, Fail)
         else do { param_val \<leftarrow> rd buf offset; Some (st, Ret (Suc offset)) }
       else Some (st, Ret (offset + param_len)))"

partial_function (option) acceptParameters_loop ::
  "byte list \<Rightarrow> nat \<Rightarrow> nat \<Rightarrow> IsoSession \<times> bool \<times> bool \<Rightarrow> ((IsoSession \<times> bool \<times> bool) \<times> nat ret) option" where
  "acceptParameters_loop buf maxOffset offset st =
     (if offset + 2 < maxOffset then do {
        pi \<leftarrow> rd buf offset;
        l \<leftarrow> rd buf (Suc offset);
        let param_len = unat l; offset = offset + 2 in
        if maxOffset < offset + param_len then Some (st, Fail)
        else Option.bind (acceptParameter buf pi param_len offset st)
          (\<lambda>(st, r). case r of Fail \<Rightarrow> Some (st, Fail) | Ret offset \<Rightarrow> acceptParameters_loop buf maxOffset offset st) }
      else Some (st, Ret offset))"

definition parseAcceptParameters ::
  "IsoSession \<Rightarrow> ByteBuffer \<Rightarrow> nat \<Rightarrow> nat \<Rightarrow> (IsoSession \<times> nat ret) option" where
  "parseAcceptParameters session message startOffset parameterLength = do {
     ((session, hasOptions, hasVersion), r) \<leftarrow>
       acceptParameters_loop (bb_buffer message) (startOffset + parameterLength) startOffset (session, False, False);
     Some (session, case r of Fail \<Rightarrow> Fail
       | Ret offset \<Rightarrow> if hasOptions \<and> hasVersion then Ret (offset - startOffset) else Fail) }"

text \<open>One iteration of the loop of \<open>parseSessionHeaderParameters\<close>. \<open>Inl\<close> is a return with an
  indication, \<open>Inr\<close> the offset to continue with.\<close>

definition headerParameter ::
  "ByteBuffer \<Rightarrow> byte \<Rightarrow> nat \<Rightarrow> nat \<Rightarrow> IsoSession \<Rightarrow> (IsoSession \<times> (IsoSessionIndication + nat)) option" where
  "headerParameter message pgi parameterLength offset session =
     (if pgi = 1 then Some (session, Inr (offset + parameterLength))
      else if pgi = 5 then do {
        (session, r) \<leftarrow> parseAcceptParameters session message offset parameterLength;
        Some (session, case r of Fail \<Rightarrow> Inl SESSION_ERROR | Ret n \<Rightarrow> Inr (offset + n)) }
      else if pgi = 17 then Some (session, Inr (offset + parameterLength))
      else if pgi = 20 then
        if parameterLength \<noteq> 2 then Some (session, Inl SESSION_ERROR)
        else do {
          hi \<leftarrow> rd (bb_buffer message) offset;
          lo \<leftarrow> rd (bb_buffer message) (Suc offset);
          Some (session\<lparr>sessionRequirement := ucast hi * 0x100 + ucast lo\<rparr>, Inr (offset + 2)) }
      else if pgi = 25 then Some (session, Inr (offset + parameterLength))
      else if pgi = 49 then Some (session, Inr (offset + parameterLength))
      else if pgi = 51 then
        if 16 < parameterLength then Some (session, Inl SESSION_ERROR)
        else do {
          v \<leftarrow> memcpy (sel_value (callingSessionSelector session)) 0 (bb_buffer message) offset parameterLength;
          Some (session\<lparr>callingSessionSelector := \<lparr>sel_size = parameterLength, sel_value = v\<rparr>\<rparr>,
                Inr (offset + parameterLength)) }
      else if pgi = 52 then
        if 16 < parameterLength then Some (session, Inl SESSION_ERROR)
        else do {
          v \<leftarrow> memcpy (sel_value (calledSessionSelector session)) 0 (bb_buffer message) offset parameterLength;
          Some (session\<lparr>calledSessionSelector := \<lparr>sel_size = parameterLength, sel_value = v\<rparr>\<rparr>,
                Inr (offset + parameterLength)) }
      else if pgi = 60 then Some (session, Inr (offset + parameterLength))
      else if pgi = 193 then
        Some (session\<lparr>userData := ByteBuffer_wrap (bb_buffer message) offset
                (bb_size message - offset) (bb_maxSize message - offset)\<rparr>, Inl SESSION_OK)
      else Some (session, Inr offset))"

partial_function (option) headerParameters_loop ::
  "ByteBuffer \<Rightarrow> nat \<Rightarrow> nat \<Rightarrow> IsoSession \<Rightarrow> (IsoSession \<times> IsoSessionIndication) option" where
  "headerParameters_loop message maxOffset offset session =
     (if offset + 2 < maxOffset then do {
        pgi \<leftarrow> rd (bb_buffer message) offset;
        l \<leftarrow> rd (bb_buffer message) (Suc offset);
        let parameterLength = unat l; offset = offset + 2 in
        if maxOffset < offset + parameterLength then Some (session, SESSION_ERROR)
        else Option.bind (headerParameter message pgi parameterLength offset session)
          (\<lambda>(session, r). case r of Inl ind \<Rightarrow> Some (session, ind)
             | Inr offset \<Rightarrow> headerParameters_loop message maxOffset offset session) }
      else Some (session, SESSION_ERROR))"

definition parseSessionHeaderParameters ::
  "IsoSession \<Rightarrow> ByteBuffer \<Rightarrow> nat \<Rightarrow> (IsoSession \<times> IsoSessionIndication) option" where
  "parseSessionHeaderParameters session message parametersOctets =
     headerParameters_loop message (2 + parametersOctets) 2 session"

text \<open>The cases 13, 14, 9 and 10 of the switch in \<open>IsoSession_parseMessage\<close>: check the length,
  parse the parameters and translate \<open>SESSION_OK\<close> into \<open>ind\<close>.\<close>

definition parseSpdu ::
  "IsoSession \<Rightarrow> ByteBuffer \<Rightarrow> nat \<Rightarrow> IsoSessionIndication \<Rightarrow> (IsoSession \<times> IsoSessionIndication) option" where
  "parseSpdu self message len ind =
     (if len \<noteq> bb_size message - 2 then Some (self, SESSION_ERROR)
      else do {
        (self, r) \<leftarrow> parseSessionHeaderParameters self message len;
        Some (self, if r = SESSION_OK then ind else SESSION_ERROR) })"

definition IsoSession_parseMessage :: "IsoSession \<Rightarrow> ByteBuffer \<Rightarrow> (IsoSession \<times> IsoSessionIndication) option" where
  "IsoSession_parseMessage self message =
     (if 1 < bb_size message then do {
        id \<leftarrow> rd (bb_buffer message) 0;
        l \<leftarrow> rd (bb_buffer message) 1;
        if id = 13 then parseSpdu self message (unat l) SESSION_CONNECT
        else if id = 14 then parseSpdu self message (unat l) SESSION_CONNECT
        else if id = 1 then
          if bb_size message < 4 then Some (self, SESSION_ERROR)
          else do {
            data \<leftarrow> (if l = 0 then do {
                       b2 \<leftarrow> rd (bb_buffer message) 2;
                       if b2 = 1 then do { b3 \<leftarrow> rd (bb_buffer message) 3; Some (b3 = 0) } else Some False }
                     else Some False);
            if data then
              Some (self\<lparr>userData := ByteBuffer_wrap (bb_buffer message) 4
                      (bb_size message - 4) (bb_maxSize message - 4)\<rparr>, SESSION_DATA)
            else Some (self, SESSION_ERROR) }
        else if id = 8 then Some (self, SESSION_NOT_FINISHED)
        else if id = 9 then parseSpdu self message (unat l) SESSION_FINISH
        else if id = 10 then parseSpdu self message (unat l) SESSION_DISCONNECT
        else if id = 25 then Some (self, SESSION_ABORT)
        else Some (self, SESSION_ERROR) }
      else Some (self, SESSION_ERROR))"

subsection \<open>Creating SPDUs\<close>

definition dataSpdu :: "byte list" where
  "dataSpdu = [0x01, 0x00, 0x01, 0x00]"

definition IsoSession_createDataSpdu :: "IsoSession \<Rightarrow> bufferChain \<Rightarrow> bufferChain \<Rightarrow> bufferChain option" where
  "IsoSession_createDataSpdu self buf payload = Some (chain_finish buf dataSpdu 4 payload)"

definition encodeConnectAcceptItem :: "byte \<Rightarrow> writer" where
  "encodeConnectAcceptItem options s = do {
     s \<leftarrow> put 5 s; s \<leftarrow> put 6 s;
     s \<leftarrow> put 0x13 s; s \<leftarrow> put 1 s; s \<leftarrow> put options s;
     s \<leftarrow> put 0x16 s; s \<leftarrow> put 1 s; put 2 s }"

definition encodeConnectionIdentifier :: "byte \<Rightarrow> writer" where
  "encodeConnectionIdentifier reasonCode s = do {
     s \<leftarrow> put 1 s; s \<leftarrow> put 2 s;
     s \<leftarrow> put 17 s; s \<leftarrow> put 1 s; s \<leftarrow> put 1 s;
     s \<leftarrow> put 50 s; s \<leftarrow> put 1 s; put reasonCode s }"

definition encodeSessionRequirement :: "IsoSession \<Rightarrow> writer" where
  "encodeSessionRequirement self s = do {
     s \<leftarrow> put 0x14 s; s \<leftarrow> put 2 s;
     s \<leftarrow> put (ucast (sessionRequirement self div 0x100)) s;
     put (ucast (sessionRequirement self AND 0x00ff)) s }"

definition encodeCallingSessionSelector :: "IsoSession \<Rightarrow> writer" where
  "encodeCallingSessionSelector self s = do {
     s \<leftarrow> put 0x33 s;
     s \<leftarrow> put (of_nat (sel_size (callingSessionSelector self))) s;
     put_from (sel_value (callingSessionSelector self)) 0 (sel_size (callingSessionSelector self)) s }"

definition encodeCalledSessionSelector :: "IsoSession \<Rightarrow> writer" where
  "encodeCalledSessionSelector self s = do {
     s \<leftarrow> put 0x34 s;
     s \<leftarrow> put (of_nat (sel_size (calledSessionSelector self))) s;
     put_from (sel_value (calledSessionSelector self)) 0 (sel_size (calledSessionSelector self)) s }"

definition encodeSessionUserData :: "byte \<Rightarrow> writer" where
  "encodeSessionUserData payloadLength s = do { s \<leftarrow> put 0xc1 s; put payloadLength s }"

text \<open>\<open>offset++\<close>: the byte is filled in later.\<close>

definition skip_byte :: writer where
  "skip_byte s = (case s of (buf, offset) \<Rightarrow> Some (buf, Suc offset))"

definition IsoSession_createConnectSpdu ::
  "IsoSession \<Rightarrow> IsoConnectionParameters \<Rightarrow> bufferChain \<Rightarrow> bufferChain \<Rightarrow> (IsoSession \<times> bufferChain) option" where
  "IsoSession_createConnectSpdu self isoParameters buf payload = do {
     s \<leftarrow> put 13 (ch_buffer buf, 0);
     let lengthOffset = 1;
     s \<leftarrow> skip_byte s;
     let self = self\<lparr>calledSessionSelector := remoteSSelector isoParameters,
                     callingSessionSelector := localSSelector isoParameters\<rparr>;
     s \<leftarrow> encodeConnectAcceptItem 0 s;
     s \<leftarrow> encodeSessionRequirement self s;
     s \<leftarrow> encodeCallingSessionSelector self s;
     s \<leftarrow> encodeCalledSessionSelector self s;
     (b, offset) \<leftarrow> encodeSessionUserData (of_nat (ch_length payload)) s;
     let spduLength = (offset - lengthOffset - 1) + ch_length payload;
     b \<leftarrow> wr b lengthOffset (of_nat spduLength);
     Some (self, chain_finish buf b offset payload) }"

definition IsoSession_createAbortSpdu :: "IsoSession \<Rightarrow> bufferChain \<Rightarrow> bufferChain \<Rightarrow> bufferChain option" where
  "IsoSession_createAbortSpdu self buf payload = do {
     s \<leftarrow> put 25 (ch_buffer buf, 0);
     s \<leftarrow> put (of_nat (5 + ch_length payload)) s;
     s \<leftarrow> put 17 s; s \<leftarrow> put 1 s; s \<leftarrow> put 11 s;
     s \<leftarrow> put 193 s;
     (b, offset) \<leftarrow> put (of_nat (ch_length payload)) s;
     Some (chain_finish buf b offset payload) }"

definition IsoSession_createFinishSpdu :: "IsoSession \<Rightarrow> bufferChain \<Rightarrow> bufferChain \<Rightarrow> bufferChain option" where
  "IsoSession_createFinishSpdu self buf payload = do {
     s \<leftarrow> put 9 (ch_buffer buf, 0);
     s \<leftarrow> put (of_nat (2 + ch_length payload)) s;
     s \<leftarrow> put 193 s;
     (b, offset) \<leftarrow> put (of_nat (ch_length payload)) s;
     Some (chain_finish buf b offset payload) }"

definition IsoSession_createDisconnectSpdu :: "IsoSession \<Rightarrow> bufferChain \<Rightarrow> bufferChain \<Rightarrow> bufferChain option" where
  "IsoSession_createDisconnectSpdu self buf payload = do {
     s \<leftarrow> put 10 (ch_buffer buf, 0);
     s \<leftarrow> put (of_nat (2 + ch_length payload)) s;
     s \<leftarrow> put 193 s;
     (b, offset) \<leftarrow> put (of_nat (ch_length payload)) s;
     Some (chain_finish buf b offset payload) }"

definition IsoSession_createAcceptSpdu :: "IsoSession \<Rightarrow> bufferChain \<Rightarrow> bufferChain \<Rightarrow> bufferChain option" where
  "IsoSession_createAcceptSpdu self buf payload = do {
     s \<leftarrow> put 14 (ch_buffer buf, 0);
     let lengthOffset = 1;
     s \<leftarrow> skip_byte s;
     s \<leftarrow> encodeConnectAcceptItem (protocolOptions self) s;
     s \<leftarrow> encodeSessionRequirement self s;
     s \<leftarrow> encodeCalledSessionSelector self s;
     (b, offset) \<leftarrow> encodeSessionUserData (of_nat (ch_length payload)) s;
     let spduLength = (offset - lengthOffset - 1) + ch_length payload;
     b \<leftarrow> wr b lengthOffset (of_nat spduLength);
     Some (chain_finish buf b offset payload) }"

text \<open>The refuse SPDU only writes into the buffer: neither the length byte nor the chain
  element is updated.\<close>

definition IsoSession_createRefuseSpdu :: "IsoSession \<Rightarrow> bufferChain \<Rightarrow> byte \<Rightarrow> bufferChain option" where
  "IsoSession_createRefuseSpdu self buf reasonCode = do {
     s \<leftarrow> put 12 (ch_buffer buf, 0);
     s \<leftarrow> skip_byte s;
     (b, offset) \<leftarrow> encodeConnectionIdentifier reasonCode s;
     Some (BufferChain (ch_length buf) (ch_partLength buf) (ch_partMaxLength buf) b (ch_nextPart buf)) }"

definition IsoSession_init :: IsoSession where
  "IsoSession_init =
     \<lparr>callingSessionSelector = \<lparr>sel_size = 2, sel_value = (replicate 16 0)[0 := 0, 1 := 1]\<rparr>,
      calledSessionSelector = \<lparr>sel_size = 2, sel_value = (replicate 16 0)[0 := 0, 1 := 1]\<rparr>,
      sessionRequirement = 0x0002, protocolOptions = 0,
      userData = \<lparr>bb_buffer = [], bb_maxSize = 0, bb_size = 0\<rparr>\<rparr>"

definition IsoSession_getUserData :: "IsoSession \<Rightarrow> ByteBuffer" where
  "IsoSession_getUserData session = userData session"

declare acceptParameters_loop.simps [code]
declare headerParameters_loop.simps [code]

subsection \<open>Parsing is safe\<close>

definition session_ok :: "IsoSession \<Rightarrow> bool" where
  "session_ok s \<longleftrightarrow> selector_ok 16 (callingSessionSelector s) \<and> selector_ok 16 (calledSessionSelector s)"

lemma session_ok_init: "session_ok IsoSession_init"
  by (simp add: session_ok_def selector_ok_def IsoSession_init_def)

lemma session_ok_simps [simp]:
  "session_ok (s\<lparr>protocolOptions := b\<rparr>) = session_ok s"
  "session_ok (s\<lparr>sessionRequirement := r\<rparr>) = session_ok s"
  "session_ok (s\<lparr>userData := u\<rparr>) = session_ok s"
  by (simp_all add: session_ok_def)

lemma acceptParameter_safe:
  assumes "offset < length buf" and "session_ok session"
  shows "\<exists>session' f r. acceptParameter buf pi n offset (session, f0) = Some ((session', f), r) \<and>
           session_ok session' \<and> userData session' = userData session \<and> (\<forall>p. r = Ret p \<longrightarrow> offset \<le> p)"
  using assms by (cases f0) (auto simp: acceptParameter_def)

lemma acceptParameters_loop_safe:
  assumes "maxOffset \<le> length buf" and "session_ok session"
  shows "\<exists>session' f r. acceptParameters_loop buf maxOffset offset (session, f0) = Some ((session', f), r) \<and>
           session_ok session' \<and> userData session' = userData session \<and> (\<forall>p. r = Ret p \<longrightarrow> offset \<le> p)"
  using assms(2)
proof (induction "maxOffset - offset" arbitrary: offset session f0 rule: less_induct)
  case less
  note step = acceptParameters_loop.simps [of buf maxOffset offset "(session, f0)"]
  show ?case
  proof (cases "offset + 2 < maxOffset")
    case False
    with less.prems show ?thesis by (simp add: step)
  next
    case True
    with assms(1) have rd: "rd buf offset = Some (buf ! offset)" "rd buf (Suc offset) = Some (buf ! Suc offset)"
      by simp_all
    let ?n = "unat (buf ! Suc offset)"
    from True assms(1) have "offset + 2 < length buf" by simp
    then obtain s f r where h: "acceptParameter buf (buf ! offset) ?n (offset + 2) (session, f0) = Some ((s, f), r)"
      and s: "session_ok s" "userData s = userData session" and r: "\<And>p. r = Ret p \<Longrightarrow> offset + 2 \<le> p"
      using acceptParameter_safe [OF _ less.prems] by blast
    show ?thesis
    proof (cases "maxOffset < offset + 2 + ?n \<or> r = Fail")
      case True
      with \<open>offset + 2 < maxOffset\<close> h s less.prems show ?thesis by (auto simp: step rd Let_def)
    next
      case False
      then obtain p where p: "r = Ret p" by (cases r) auto
      with r have "offset + 2 \<le> p" by simp
      moreover from this True have "maxOffset - p < maxOffset - offset" by linarith
      ultimately obtain s' f' r' where "acceptParameters_loop buf maxOffset p (s, f) = Some ((s', f'), r')"
        "session_ok s'" "userData s' = userData s" "\<forall>q. r' = Ret q \<longrightarrow> p \<le> q"
        using less.hyps [of p s f] s(1) by blast
      moreover from this \<open>offset + 2 \<le> p\<close> have "\<forall>q. r' = Ret q \<longrightarrow> offset \<le> q" by auto
      ultimately show ?thesis
        using s True False h p by (simp add: step rd Let_def)
    qed
  qed
qed

lemma parseAcceptParameters_safe:
  assumes "offset + n \<le> length (bb_buffer message)" and "session_ok session"
  shows "\<exists>session' r. parseAcceptParameters session message offset n = Some (session', r) \<and>
           session_ok session' \<and> userData session' = userData session"
  using acceptParameters_loop_safe [OF assms, of offset "(False, False)"]
  by (auto simp: parseAcceptParameters_def)

text \<open>What a parser promises of the user data it sets: they are the rest of the message from
  some offset behind the header on.\<close>

definition rest_of :: "ByteBuffer \<Rightarrow> ByteBuffer \<Rightarrow> bool" where
  "rest_of message d \<longleftrightarrow> (\<exists>off. 2 \<le> off \<and> off \<le> bb_size message \<and>
     d = ByteBuffer_wrap (bb_buffer message) off (bb_size message - off) (bb_maxSize message - off))"

lemma rest_of_ok: "bb_ok message \<Longrightarrow> rest_of message d \<Longrightarrow> bb_ok d"
  by (auto simp: rest_of_def bb_ok_def ByteBuffer_wrap_def)

lemma headerParameter_safe:
  assumes "offset + n \<le> bb_size message" and "bb_ok message" and "session_ok session" and "2 \<le> offset"
  shows "\<exists>session' r. headerParameter message pgi n offset session = Some (session', r) \<and> session_ok session' \<and>
           (case r of Inr p \<Rightarrow> offset \<le> p \<and> userData session' = userData session
            | Inl ind \<Rightarrow> ind = SESSION_ERROR \<or> ind = SESSION_OK \<and> rest_of message (userData session'))"
proof -
  have fit: "offset + n \<le> length (bb_buffer message)" using assms(1,2) by (simp add: bb_ok_def)
  show ?thesis
  proof (cases "pgi = 5")
    case True
    with parseAcceptParameters_safe [OF fit assms(3)] show ?thesis
      by (auto simp: headerParameter_def split: ret.splits)
  next
    case False
    have "memcpy v 0 (bb_buffer message) offset n = Some (patch v 0 (take n (drop offset (bb_buffer message))))"
      if "length v = 16" "n \<le> 16" for v
      using memcpy_eq [of offset n "bb_buffer message" 0 v] fit that by simp
    with False fit assms show ?thesis
      by (auto simp: headerParameter_def session_ok_def selector_ok_def rest_of_def patch_def)
  qed
qed

lemma headerParameters_loop_safe:
  assumes "maxOffset \<le> bb_size message" and "bb_ok message"
    and "session_ok session" and "2 \<le> offset"
  shows "\<exists>session' ind. headerParameters_loop message maxOffset offset session = Some (session', ind) \<and>
           session_ok session' \<and> (ind = SESSION_ERROR \<or> ind = SESSION_OK \<and> rest_of message (userData session'))"
  using assms(3,4)
proof (induction "maxOffset - offset" arbitrary: offset session rule: less_induct)
  case less
  note step = headerParameters_loop.simps [of message maxOffset offset session]
  show ?case
  proof (cases "offset + 2 < maxOffset")
    case False
    with less.prems show ?thesis by (simp add: step)
  next
    case True
    let ?buf = "bb_buffer message" and ?n = "unat (bb_buffer message ! Suc offset)"
    from True assms(1,2) have rd: "rd ?buf offset = Some (?buf ! offset)" "rd ?buf (Suc offset) = Some (?buf ! Suc offset)"
      by (simp_all add: bb_ok_def)
    show ?thesis
    proof (cases "maxOffset < offset + 2 + ?n")
      case True
      with \<open>offset + 2 < maxOffset\<close> less.prems show ?thesis by (simp add: step rd Let_def)
    next
      case False
      with assms(1) have "offset + 2 + ?n \<le> bb_size message" by simp
      from headerParameter_safe [OF this assms(2) less.prems(1), of "?buf ! offset"]
      obtain s r where h: "headerParameter message (?buf ! offset) ?n (offset + 2) session = Some (s, r)"
        and s: "session_ok s" and r: "case r of Inr p \<Rightarrow> offset + 2 \<le> p \<and> userData s = userData session
            | Inl ind \<Rightarrow> ind = SESSION_ERROR \<or> ind = SESSION_OK \<and> rest_of message (userData s)"
        by auto
      show ?thesis
      proof (cases r)
        case (Inl ind)
        with True False h s r show ?thesis by (auto simp: step rd Let_def)
      next
        case (Inr p)
        with r have "offset + 2 \<le> p" by simp
        moreover from this True have "maxOffset - p < maxOffset - offset" by linarith
        ultimately show ?thesis
          using less.hyps [of p s] s True False h Inr by (auto simp: step rd Let_def)
      qed
    qed
  qed
qed

lemma parseSpdu_safe:
  assumes "bb_ok message" and "session_ok session" and "2 \<le> bb_size message" and "ind \<noteq> SESSION_ERROR"
  shows "\<exists>session' r. parseSpdu session message n ind = Some (session', r) \<and> session_ok session' \<and>
           (r = SESSION_ERROR \<or> r = ind \<and> rest_of message (userData session'))"
proof (cases "n = bb_size message - 2")
  case True
  with assms(3) have n: "2 + n = bb_size message" by simp
  from assms(1,2) obtain s r where "parseSessionHeaderParameters session message n = Some (s, r)"
    "session_ok s" "r = SESSION_ERROR \<or> r = SESSION_OK \<and> rest_of message (userData s)"
    using headerParameters_loop_safe [of "bb_size message" message session 2]
    unfolding parseSessionHeaderParameters_def n by auto
  with True assms(4) show ?thesis by (auto simp: parseSpdu_def)
qed (use assms in \<open>simp add: parseSpdu_def\<close>)

subsection \<open>What the encoders write\<close>

definition connect_accept_item :: "byte \<Rightarrow> byte list" where
  "connect_accept_item options = [5, 6, 0x13, 1, options, 0x16, 1, 2]"

definition requirement_item :: "IsoSession \<Rightarrow> byte list" where
  "requirement_item self =
     [0x14, 2, ucast (sessionRequirement self div 0x100), ucast (sessionRequirement self AND 0x00ff)]"

definition selector_item :: "byte \<Rightarrow> selector \<Rightarrow> byte list" where
  "selector_item tag sel = tag # of_nat (sel_size sel) # sel_bytes sel"

lemma writes_connectAcceptItem [writer_intros]: "writes (encodeConnectAcceptItem options) (connect_accept_item options)"
  unfolding encodeConnectAcceptItem_def [abs_def]
  by (rule writes_cong, (rule writer_intros)+, simp add: connect_accept_item_def)

lemma writes_sessionRequirement [writer_intros]: "writes (encodeSessionRequirement self) (requirement_item self)"
  unfolding encodeSessionRequirement_def [abs_def]
  by (rule writes_cong, (rule writer_intros)+, simp add: requirement_item_def)

lemma writes_selector_item:
  assumes "selector_ok k sel"
  shows "writes (\<lambda>s. do { s \<leftarrow> put tag s; s \<leftarrow> put (of_nat (sel_size sel)) s; put_from (sel_value sel) 0 (sel_size sel) s })
           (selector_item tag sel)"
proof -
  note sel = writes_selector [OF assms]
  show ?thesis by (rule writes_cong, (rule writes_bind writes_put sel)+, simp add: selector_item_def)
qed

lemma writes_sessionSelectors:
  assumes "session_ok self"
  shows "writes (encodeCallingSessionSelector self) (selector_item 0x33 (callingSessionSelector self))"
    and "writes (encodeCalledSessionSelector self) (selector_item 0x34 (calledSessionSelector self))"
  using assms unfolding session_ok_def encodeCallingSessionSelector_def [abs_def] encodeCalledSessionSelector_def [abs_def]
  by (auto intro: writes_selector_item)

lemma writes_sessionUserData [writer_intros]: "writes (encodeSessionUserData n) [0xc1, n]"
  unfolding encodeSessionUserData_def [abs_def]
  by (rule writes_cong, (rule writer_intros)+, simp)

text \<open>A tag byte, a length byte that is filled in at the end, and a body.\<close>

lemma length_slot:
  assumes "writes body bs" and "2 + length bs \<le> length buf"
  shows "do { s \<leftarrow> put t (buf, 0); s \<leftarrow> skip_byte s; (b, p) \<leftarrow> body s; b \<leftarrow> wr b 1 (f p); Some (b, p) } =
           Some (patch buf 0 (t # f (2 + length bs) # bs), 2 + length bs)"
proof -
  have "body (buf[0 := t], 2) = Some (patch (buf[0 := t]) 2 bs, 2 + length bs)"
    using writesD [OF assms(1), of 2 "buf[0 := t]"] assms(2) by simp
  moreover have "(patch (buf[0 := t]) 2 bs)[1 := v] = patch buf 0 (t # v # bs)" for v
  proof -
    obtain x y zs where "buf = x # y # zs" using assms(2) by (cases buf; cases "tl buf") auto
    then show ?thesis by (simp add: patch_def numeral_2_eq_2)
  qed
  moreover have "0 < length buf" "1 < length buf" using assms(2) by linarith+
  moreover have "length (patch (buf[0 := t]) 2 bs) = length buf"
    using assms(2) by (simp add: patch_def)
  ultimately show ?thesis by (simp add: skip_byte_def numeral_2_eq_2)
qed

subsection \<open>Parsing what was written\<close>

lemma headerParameters_step:
  assumes "has (bb_buffer message) offset [pgi, of_nat n]" and "n < 256"
    and "offset + 2 < maxOffset" and "offset + 2 + n \<le> maxOffset"
  shows "headerParameters_loop message maxOffset offset session =
           Option.bind (headerParameter message pgi n (offset + 2) session)
             (\<lambda>(session, r). case r of Inl ind \<Rightarrow> Some (session, ind)
                | Inr offset \<Rightarrow> headerParameters_loop message maxOffset offset session)"
  using assms by (subst headerParameters_loop.simps) (simp add: unat_byte_of_nat Let_def)

lemma acceptParameters_item:
  assumes "has buf offset [0x13, 1, options, 0x16, 1, 2]"
  shows "acceptParameters_loop buf (offset + 6) offset (session, False, False) =
           Some ((session\<lparr>protocolOptions := options\<rparr>, True, True), Ret (offset + 6))"
proof -
  have "acceptParameters_loop buf (offset + 6) (offset + 6) st = Some (st, Ret (offset + 6))" for st
    by (subst acceptParameters_loop.simps) simp
  moreover have "acceptParameters_loop buf (offset + 6) (offset + 3) (s, True, False) =
      acceptParameters_loop buf (offset + 6) (offset + 6) (s, True, True)" for s
    using assms by (subst acceptParameters_loop.simps) (simp add: acceptParameter_def nat_plus)
  moreover have "acceptParameters_loop buf (offset + 6) offset (session, False, False) =
      acceptParameters_loop buf (offset + 6) (offset + 3) (session\<lparr>protocolOptions := options\<rparr>, True, False)"
    using assms by (subst acceptParameters_loop.simps) (simp add: acceptParameter_def nat_plus)
  ultimately show ?thesis by simp
qed

lemma loop_connect_accept_item:
  assumes "has (bb_buffer message) offset (connect_accept_item options)" and "offset + 8 \<le> maxOffset"
  shows "headerParameters_loop message maxOffset offset session =
           headerParameters_loop message maxOffset (offset + 8) (session\<lparr>protocolOptions := options\<rparr>)"
  using assms acceptParameters_item [of "bb_buffer message" "offset + 2" options session]
  by (subst headerParameters_step [where pgi = 5 and n = 6])
     (simp_all add: headerParameter_def parseAcceptParameters_def connect_accept_item_def nat_plus)

lemma word16_split: "ucast (ucast (w div 0x100) :: byte) * 0x100 + ucast (ucast (w AND 0xff) :: byte) = (w :: 16 word)"
proof -
  have "uint w < 65536" using uint_bounded [of w] by simp
  then have "uint w div 256 < 256" by simp
  moreover have "0 \<le> uint w div 256" by (simp add: pos_imp_zdiv_nonneg_iff)
  ultimately have hi: "uint (ucast (w div 0x100) :: byte) = uint w div 256"
    by (simp add: unsigned_ucast_eq uint_div_distrib take_bit_eq_mod)
  have "w AND 0xff = take_bit 8 w"
    by (simp add: take_bit_eq_mask mask_eq_exp_minus_1)
  then have lo: "uint (ucast (w AND 0xff) :: byte) = uint w mod 256"
    by (simp add: unsigned_ucast_eq uint_mod_distrib take_bit_eq_mod)
  have "ucast (ucast (w div 0x100) :: byte) * 0x100 + ucast (ucast (w AND 0xff) :: byte) =
      (of_int (uint w div 256 * 256 + uint w mod 256) :: 16 word)"
    unfolding hi [symmetric] lo [symmetric] by simp
  then show ?thesis by simp
qed

lemma loop_requirement_item:
  assumes "has (bb_buffer message) offset (requirement_item s0)" and "offset + 4 \<le> maxOffset"
  shows "headerParameters_loop message maxOffset offset session =
           headerParameters_loop message maxOffset (offset + 4) (session\<lparr>sessionRequirement := sessionRequirement s0\<rparr>)"
  using assms word16_split [of "sessionRequirement s0"]
  by (subst headerParameters_step [where pgi = 20 and n = 2])
     (simp_all add: headerParameter_def requirement_item_def nat_plus)

lemma loop_selector_items:
  assumes sel: "selector_ok 16 sel" and ok: "session_ok session"
    and fit: "offset + 2 + sel_size sel \<le> maxOffset" "offset + 2 < maxOffset" "maxOffset \<le> length (bb_buffer message)"
  shows "has (bb_buffer message) offset (selector_item 0x33 sel) \<Longrightarrow>
      headerParameters_loop message maxOffset offset session =
        headerParameters_loop message maxOffset (offset + 2 + sel_size sel)
          (session\<lparr>callingSessionSelector := sel_set (sel_bytes sel) (callingSessionSelector session)\<rparr>)"
    and "has (bb_buffer message) offset (selector_item 0x34 sel) \<Longrightarrow>
      headerParameters_loop message maxOffset offset session =
        headerParameters_loop message maxOffset (offset + 2 + sel_size sel)
          (session\<lparr>calledSessionSelector := sel_set (sel_bytes sel) (calledSessionSelector session)\<rparr>)"
proof -
  note len = length_sel_bytes [OF sel]
  have n: "sel_size sel \<le> 16" using sel by (simp add: selector_ok_def)
  have cp: "memcpy v 0 (bb_buffer message) (Suc (Suc offset)) (sel_size sel) = Some (patch v 0 (sel_bytes sel))"
    if "length v = 16" "has (bb_buffer message) (Suc (Suc offset)) (sel_bytes sel)" for v
  proof -
    have "take (sel_size sel) (drop (Suc (Suc offset)) (bb_buffer message)) = sel_bytes sel"
      using that(2) by (simp add: has_def len)
    then show ?thesis
      using memcpy_eq [of "Suc (Suc offset)" "sel_size sel" "bb_buffer message" 0 v] fit n that(1) by simp
  qed
  show "has (bb_buffer message) offset (selector_item 0x33 sel) \<Longrightarrow>
      headerParameters_loop message maxOffset offset session =
        headerParameters_loop message maxOffset (offset + 2 + sel_size sel)
          (session\<lparr>callingSessionSelector := sel_set (sel_bytes sel) (callingSessionSelector session)\<rparr>)"
    using ok fit n by (subst headerParameters_step [where pgi = "0x33" and n = "sel_size sel"])
      (simp_all add: selector_item_def headerParameter_def cp session_ok_def selector_ok_def sel_set_def len)
  show "has (bb_buffer message) offset (selector_item 0x34 sel) \<Longrightarrow>
      headerParameters_loop message maxOffset offset session =
        headerParameters_loop message maxOffset (offset + 2 + sel_size sel)
          (session\<lparr>calledSessionSelector := sel_set (sel_bytes sel) (calledSessionSelector session)\<rparr>)"
    using ok fit n by (subst headerParameters_step [where pgi = "0x34" and n = "sel_size sel"])
      (simp_all add: selector_item_def headerParameter_def cp session_ok_def selector_ok_def sel_set_def len)
qed

lemma loop_user_data:
  assumes "has (bb_buffer message) offset [0xc1, of_nat n]" and "n < 256" and "0 < n" and "offset + 2 + n = maxOffset"
  shows "headerParameters_loop message maxOffset offset session =
           Some (session\<lparr>userData := ByteBuffer_wrap (bb_buffer message) (offset + 2)
             (bb_size message - (offset + 2)) (bb_maxSize message - (offset + 2))\<rparr>, SESSION_OK)"
  using assms by (subst headerParameters_step [where pgi = 193 and n = n]) (simp_all add: headerParameter_def)

subsection \<open>Whole SPDUs\<close>

definition connect_body :: "IsoSession \<Rightarrow> nat \<Rightarrow> byte list" where
  "connect_body self n =
     connect_accept_item 0 @ requirement_item self @ selector_item 0x33 (callingSessionSelector self) @
     selector_item 0x34 (calledSessionSelector self) @ [0xc1, of_nat n]"

definition accept_body :: "IsoSession \<Rightarrow> nat \<Rightarrow> byte list" where
  "accept_body self n =
     connect_accept_item (protocolOptions self) @ requirement_item self @
     selector_item 0x34 (calledSessionSelector self) @ [0xc1, of_nat n]"

definition with_length :: "byte \<Rightarrow> byte list \<Rightarrow> nat \<Rightarrow> byte list" where
  "with_length t body n = t # of_nat (length body + n) # body"

lemma createConnectSpdu_eq:
  fixes self :: IsoSession
  assumes "params_ok params" and "chain_ok payload"
  defines "self' \<equiv> self\<lparr>calledSessionSelector := remoteSSelector params, callingSessionSelector := localSSelector params\<rparr>"
  assumes "length (connect_body self' (ch_length payload)) + 2 \<le> length (ch_buffer buf)"
  shows "\<exists>c. IsoSession_createConnectSpdu self params buf payload = Some (self', c) \<and> session_ok self' \<and> 
           headed c (with_length 13 (connect_body self' (ch_length payload)) (ch_length payload)) payload \<and> length (ch_buffer c) = length (ch_buffer buf)"
proof -
  let ?n = "ch_length payload"
  let ?body = "\<lambda>s. do { s \<leftarrow> encodeConnectAcceptItem 0 s; s \<leftarrow> encodeSessionRequirement self' s;
      s \<leftarrow> encodeCallingSessionSelector self' s; s \<leftarrow> encodeCalledSessionSelector self' s;
      encodeSessionUserData (of_nat ?n) s }"
  have ok: "session_ok self'" using assms(1) by (simp add: self'_def session_ok_def params_ok_def)
  have w: "writes ?body (connect_body self' ?n)"
    unfolding connect_body_def by (rule writer_intros writes_sessionSelectors [OF ok])+
  have "do { s \<leftarrow> put 13 (ch_buffer buf, 0); s \<leftarrow> skip_byte s; (b, p) \<leftarrow> ?body s; b \<leftarrow> wr b 1 (of_nat (p - 1 - 1 + ?n)); Some (b, p) } =
      Some (patch (ch_buffer buf) 0 (13 # of_nat (2 + length (connect_body self' ?n) - 1 - 1 + ?n) # connect_body self' ?n),
        2 + length (connect_body self' ?n))"
    using assms(4) by (intro length_slot [OF w]) simp
  then have "IsoSession_createConnectSpdu self params buf payload =
      Some (self', chain_finish buf (patch (ch_buffer buf) 0 (with_length 13 (connect_body self' ?n) ?n))
        (2 + length (connect_body self' ?n)) payload)"
    by (simp add: IsoSession_createConnectSpdu_def self'_def [symmetric] with_length_def Let_def bind_eq_Some_conv
        split: prod.splits) (auto simp: bind_eq_Some_conv)
  with ok assms(2,4) show ?thesis
    using take_patch_0 [of "with_length 13 (connect_body self' ?n) ?n" "ch_buffer buf"]
    by (simp add: chain_finish_def with_length_def length_patch)
qed

lemma createAcceptSpdu_eq:
  assumes "session_ok self" and "chain_ok payload"
    and "length (accept_body self (ch_length payload)) + 2 \<le> length (ch_buffer buf)"
  shows "\<exists>c. IsoSession_createAcceptSpdu self buf payload = Some c \<and> 
           headed c (with_length 14 (accept_body self (ch_length payload)) (ch_length payload)) payload \<and> length (ch_buffer c) = length (ch_buffer buf)"
proof -
  let ?n = "ch_length payload"
  let ?body = "\<lambda>s. do { s \<leftarrow> encodeConnectAcceptItem (protocolOptions self) s; s \<leftarrow> encodeSessionRequirement self s;
      s \<leftarrow> encodeCalledSessionSelector self s; encodeSessionUserData (of_nat ?n) s }"
  have w: "writes ?body (accept_body self ?n)"
    unfolding accept_body_def by (rule writer_intros writes_sessionSelectors [OF assms(1)])+
  have "do { s \<leftarrow> put 14 (ch_buffer buf, 0); s \<leftarrow> skip_byte s; (b, p) \<leftarrow> ?body s; b \<leftarrow> wr b 1 (of_nat (p - 1 - 1 + ?n)); Some (b, p) } =
      Some (patch (ch_buffer buf) 0 (14 # of_nat (2 + length (accept_body self ?n) - 1 - 1 + ?n) # accept_body self ?n),
        2 + length (accept_body self ?n))"
    using assms(3) by (intro length_slot [OF w]) simp
  then have "IsoSession_createAcceptSpdu self buf payload =
      Some (chain_finish buf (patch (ch_buffer buf) 0 (with_length 14 (accept_body self ?n) ?n))
        (2 + length (accept_body self ?n)) payload)"
    by (simp add: IsoSession_createAcceptSpdu_def with_length_def Let_def bind_eq_Some_conv
        split: prod.splits) (auto simp: bind_eq_Some_conv)
  with assms(2,3) show ?thesis
    using take_patch_0 [of "with_length 14 (accept_body self ?n) ?n" "ch_buffer buf"]
    by (simp add: chain_finish_def with_length_def length_patch)
qed

lemma length_bodies:
  assumes "session_ok self"
  shows "length (connect_body self n) = 18 + sel_size (callingSessionSelector self) + sel_size (calledSessionSelector self)"
    and "length (accept_body self n) = 16 + sel_size (calledSessionSelector self)"
  using assms length_sel_bytes [of 16 "callingSessionSelector self"] length_sel_bytes [of 16 "calledSessionSelector self"]
  by (simp_all add: connect_body_def accept_body_def session_ok_def connect_accept_item_def requirement_item_def selector_item_def)

text \<open>A message that consists of a tag, a length byte and parameters is handed to the parameter
  loop when its length fits one byte, and rejected otherwise.\<close>

lemma parseMessage_with_length:
  assumes ok: "bb_ok message" and m: "bb_bytes message = with_length t body n @ dat" and n: "n = length dat"
    and t: "(t, ind) \<in> {(13, SESSION_CONNECT), (14, SESSION_CONNECT), (9, SESSION_FINISH), (10, SESSION_DISCONNECT)}"
  shows "IsoSession_parseMessage self message =
           (if length body + n < 256 then do {
              (self, r) \<leftarrow> headerParameters_loop message (bb_size message) 2 self;
              Some (self, if r = SESSION_OK then ind else SESSION_ERROR) }
            else Some (self, SESSION_ERROR))"
proof -
  let ?l = "length body + n"
  have size: "bb_size message = 2 + ?l"
    using length_bb_bytes [OF ok] by (simp add: m n with_length_def)
  have "has (bb_buffer message) 0 (with_length t body n @ dat)"
    using bb_has [OF ok] by (simp add: m)
  then have rd: "rd (bb_buffer message) 0 = Some t" "rd (bb_buffer message) (Suc 0) = Some (of_nat ?l)"
    by (simp_all add: with_length_def)
  have u: "unat (of_nat ?l :: byte) = ?l mod 256" by (simp add: unat_of_nat take_bit_eq_mod del: of_nat_add)
  have "IsoSession_parseMessage self message = parseSpdu self message (unat (of_nat ?l :: byte)) ind"
    using t size by (auto simp: IsoSession_parseMessage_def rd simp del: of_nat_add)
  also have "\<dots> = (if ?l < 256 then do {
              (self, r) \<leftarrow> headerParameters_loop message (bb_size message) 2 self;
              Some (self, if r = SESSION_OK then ind else SESSION_ERROR) }
            else Some (self, SESSION_ERROR))"
  proof (cases "?l < 256")
    case True
    then show ?thesis unfolding u by (simp add: parseSpdu_def parseSessionHeaderParameters_def size)
  next
    case False
    have "?l mod 256 < 256" by simp
    with False have "?l mod 256 \<noteq> bb_size message - 2" unfolding size by linarith
    with False show ?thesis unfolding u by (simp add: parseSpdu_def)
  qed
  finally show ?thesis .
qed

lemma loop_connect_body:
  assumes self: "session_ok self" and peer: "session_ok peer" and n: "0 < n" "n < 256"
    and has: "has (bb_buffer message) 2 (connect_body self n)"
    and size: "bb_size message = 2 + length (connect_body self n) + n" and ok: "bb_ok message"
  shows "\<exists>peer'. headerParameters_loop message (bb_size message) 2 peer = Some (peer', SESSION_OK) \<and>
           sel_bytes (callingSessionSelector peer') = sel_bytes (callingSessionSelector self) \<and>
           sel_bytes (calledSessionSelector peer') = sel_bytes (calledSessionSelector self) \<and>
           sessionRequirement peer' = sessionRequirement self \<and> protocolOptions peer' = 0 \<and>
           userData peer' = ByteBuffer_wrap (bb_buffer message) (bb_size message - n) n (bb_maxSize message - (bb_size message - n))"
proof -
  let ?a = "callingSessionSelector self" and ?b = "calledSessionSelector self"
  let ?M = "bb_size message" and ?B = "bb_buffer message"
  have sel: "selector_ok 16 ?a" "selector_ok 16 ?b" using self by (simp_all add: session_ok_def)
  note len = length_sel_bytes [OF sel(1)] length_sel_bytes [OF sel(2)]
  have M: "?M = 20 + sel_size ?a + sel_size ?b + n" using size length_bodies(1) [OF self] by simp
  have mem: "?M \<le> length ?B" using ok by (simp add: bb_ok_def)
  have h: "has ?B 2 (connect_accept_item 0)" "has ?B 10 (requirement_item self)"
    "has ?B 14 (selector_item 0x33 ?a)" "has ?B (16 + sel_size ?a) (selector_item 0x34 ?b)"
    "has ?B (18 + sel_size ?a + sel_size ?b) [0xc1, of_nat n]"
    using has by (simp_all add: connect_body_def connect_accept_item_def requirement_item_def selector_item_def len)
  define p1 where "p1 = peer\<lparr>protocolOptions := 0, sessionRequirement := sessionRequirement self\<rparr>"
  define p2 where "p2 = p1\<lparr>callingSessionSelector := sel_set (sel_bytes ?a) (callingSessionSelector p1)\<rparr>"
  define p3 where "p3 = p2\<lparr>calledSessionSelector := sel_set (sel_bytes ?b) (calledSessionSelector p2)\<rparr>"
  have p1: "session_ok p1" using peer by (simp add: p1_def)
  then have p2: "session_ok p2" "sel_bytes (callingSessionSelector p2) = sel_bytes ?a"
    using sel len sel_set_ok [of 16 "callingSessionSelector p1" "sel_bytes ?a"]
    by (auto simp: p2_def session_ok_def selector_ok_def)
  then have p3: "sel_bytes (calledSessionSelector p3) = sel_bytes ?b"
    using sel len sel_set_ok [of 16 "calledSessionSelector p2" "sel_bytes ?b"]
    by (auto simp: p3_def session_ok_def selector_ok_def)
  have "headerParameters_loop message ?M 2 peer = headerParameters_loop message ?M 14 p1"
    using loop_connect_accept_item [OF h(1), of ?M peer]
      loop_requirement_item [OF h(2), of ?M "peer\<lparr>protocolOptions := 0\<rparr>"] M by (simp add: p1_def)
  also have "\<dots> = headerParameters_loop message ?M (16 + sel_size ?a) p2"
    using loop_selector_items(1) [OF sel(1) p1, of 14 ?M message] h(3) M mem n by (simp add: p2_def)
  also have "\<dots> = headerParameters_loop message ?M (18 + sel_size ?a + sel_size ?b) p3"
    using loop_selector_items(2) [OF sel(2) p2(1), of "16 + sel_size ?a" ?M message] h(4) M mem n by (simp add: p3_def)
  also have "\<dots> = Some (p3\<lparr>userData := ByteBuffer_wrap ?B (?M - n) n (bb_maxSize message - (?M - n))\<rparr>, SESSION_OK)"
    using loop_user_data [OF h(5) n(2,1), of ?M p3] M by (simp add: add.assoc)
  finally show ?thesis
    using p2(2) p3 by (auto simp: p3_def p2_def p1_def)
qed

lemma loop_accept_body:
  assumes self: "session_ok self" and peer: "session_ok peer" and n: "0 < n" "n < 256"
    and has: "has (bb_buffer message) 2 (accept_body self n)"
    and size: "bb_size message = 2 + length (accept_body self n) + n" and ok: "bb_ok message"
  shows "\<exists>peer'. headerParameters_loop message (bb_size message) 2 peer = Some (peer', SESSION_OK) \<and>
           sel_bytes (calledSessionSelector peer') = sel_bytes (calledSessionSelector self) \<and>
           sessionRequirement peer' = sessionRequirement self \<and> protocolOptions peer' = protocolOptions self \<and>
           userData peer' = ByteBuffer_wrap (bb_buffer message) (bb_size message - n) n (bb_maxSize message - (bb_size message - n))"
proof -
  let ?b = "calledSessionSelector self" and ?M = "bb_size message" and ?B = "bb_buffer message"
  have sel: "selector_ok 16 ?b" using self by (simp add: session_ok_def)
  note len = length_sel_bytes [OF sel]
  have M: "?M = 18 + sel_size ?b + n" using size length_bodies(2) [OF self] by simp
  have mem: "?M \<le> length ?B" using ok by (simp add: bb_ok_def)
  have h: "has ?B 2 (connect_accept_item (protocolOptions self))" "has ?B 10 (requirement_item self)"
    "has ?B 14 (selector_item 0x34 ?b)" "has ?B (16 + sel_size ?b) [0xc1, of_nat n]"
    using has by (simp_all add: accept_body_def connect_accept_item_def requirement_item_def selector_item_def len)
  define p1 where "p1 = peer\<lparr>protocolOptions := protocolOptions self, sessionRequirement := sessionRequirement self\<rparr>"
  define p2 where "p2 = p1\<lparr>calledSessionSelector := sel_set (sel_bytes ?b) (calledSessionSelector p1)\<rparr>"
  have p1: "session_ok p1" using peer by (simp add: p1_def)
  then have p2: "sel_bytes (calledSessionSelector p2) = sel_bytes ?b"
    using sel len sel_set_ok [of 16 "calledSessionSelector p1" "sel_bytes ?b"]
    by (auto simp: p2_def session_ok_def selector_ok_def)
  have "headerParameters_loop message ?M 2 peer = headerParameters_loop message ?M 14 p1"
    using loop_connect_accept_item [OF h(1), of ?M peer]
      loop_requirement_item [OF h(2), of ?M "peer\<lparr>protocolOptions := protocolOptions self\<rparr>"] M by (simp add: p1_def)
  also have "\<dots> = headerParameters_loop message ?M (16 + sel_size ?b) p2"
    using loop_selector_items(2) [OF sel p1, of 14 ?M message] h(3) M mem n by (simp add: p2_def)
  also have "\<dots> = Some (p2\<lparr>userData := ByteBuffer_wrap ?B (?M - n) n (bb_maxSize message - (?M - n))\<rparr>, SESSION_OK)"
    using loop_user_data [OF h(4) n(2,1), of ?M p2] M by (simp add: add.assoc)
  finally show ?thesis
    using p2 by (auto simp: p2_def p1_def)
qed

text \<open>The data transfer, finish and disconnect SPDUs satisfy the contract of a protocol layer.\<close>

lemma finish_header:
  assumes "chain_ok payload" and "writes w hdr" and "length hdr \<le> length (ch_buffer buf)"
  shows "\<exists>c. (do { (b, offset) \<leftarrow> w (ch_buffer buf, 0); Some (chain_finish buf b offset payload) }) = Some c \<and>
           headed c hdr payload \<and> length (ch_buffer c) = length (ch_buffer buf)"
proof -
  obtain b where "w (ch_buffer buf, 0) = Some (b, length hdr)" "headed (chain_finish buf b (length hdr) payload) hdr payload"
    "length (ch_buffer (chain_finish buf b (length hdr) payload)) = length (ch_buffer buf)"
    using chain_finish_writes [OF assms(2,1,3)] by blast
  then show ?thesis by simp
qed

interpretation session_data: layer "IsoSession_createDataSpdu self" "\<lambda>n. dataSpdu" for self
  by unfold_locales (simp add: IsoSession_createDataSpdu_def chain_finish_def dataSpdu_def)

interpretation session_finish: layer_in_place "IsoSession_createFinishSpdu self" "\<lambda>n. with_length 9 [193, of_nat n] n" for self
proof
  fix payload wb
  assume *: "chain_ok payload" "length (with_length 9 [193, of_nat (ch_length payload)] (ch_length payload)) \<le> length (ch_buffer wb)"
  have "writes (\<lambda>s. do { s \<leftarrow> put 9 s; s \<leftarrow> put (of_nat (2 + ch_length payload)) s; s \<leftarrow> put 193 s; put (of_nat (ch_length payload)) s })
      [9, of_nat (2 + ch_length payload), 193, of_nat (ch_length payload)]"
    by (rule writes_cong, (rule writer_intros)+, simp)
  from finish_header [OF *(1) this, of wb] *(2)
  show "\<exists>c. IsoSession_createFinishSpdu self wb payload = Some c \<and> headed c (with_length 9 [193, of_nat (ch_length payload)] (ch_length payload)) payload \<and> length (ch_buffer c) = length (ch_buffer wb)"
    by (simp add: IsoSession_createFinishSpdu_def with_length_def)
qed

interpretation session_disconnect: layer_in_place "IsoSession_createDisconnectSpdu self" "\<lambda>n. with_length 10 [193, of_nat n] n" for self
proof
  fix payload wb
  assume *: "chain_ok payload" "length (with_length 10 [193, of_nat (ch_length payload)] (ch_length payload)) \<le> length (ch_buffer wb)"
  have "writes (\<lambda>s. do { s \<leftarrow> put 10 s; s \<leftarrow> put (of_nat (2 + ch_length payload)) s; s \<leftarrow> put 193 s; put (of_nat (ch_length payload)) s })
      [10, of_nat (2 + ch_length payload), 193, of_nat (ch_length payload)]"
    by (rule writes_cong, (rule writer_intros)+, simp)
  from finish_header [OF *(1) this, of wb] *(2)
  show "\<exists>c. IsoSession_createDisconnectSpdu self wb payload = Some c \<and> headed c (with_length 10 [193, of_nat (ch_length payload)] (ch_length payload)) payload \<and> length (ch_buffer c) = length (ch_buffer wb)"
    by (simp add: IsoSession_createDisconnectSpdu_def with_length_def)
qed

interpretation session_abort: layer_in_place "IsoSession_createAbortSpdu self" "\<lambda>n. with_length 25 [17, 1, 11, 193, of_nat n] n" for self
proof
  fix payload wb
  let ?n = "ch_length payload"
  assume *: "chain_ok payload" "length (with_length 25 [17, 1, 11, 193, of_nat ?n] ?n) \<le> length (ch_buffer wb)"
  have w: "writes (\<lambda>s. do { s \<leftarrow> put 25 s; s \<leftarrow> put (of_nat (5 + ?n)) s; s \<leftarrow> put 17 s; s \<leftarrow> put 1 s; s \<leftarrow> put 11 s; s \<leftarrow> put 193 s; put (of_nat ?n) s })
      [25, of_nat (5 + ?n), 17, 1, 11, 193, of_nat ?n]"
    by (rule writes_cong, (rule writer_intros)+, simp)
  from finish_header [OF *(1) w, of wb] *(2)
  show "\<exists>c. IsoSession_createAbortSpdu self wb payload = Some c \<and> headed c (with_length 25 [17, 1, 11, 193, of_nat ?n] ?n) payload \<and> length (ch_buffer c) = length (ch_buffer wb)"
    by (simp add: IsoSession_createAbortSpdu_def with_length_def)
qed

lemma parse_data_spdu:
  assumes "bb_ok message" and "bb_bytes message = dataSpdu @ dat"
  shows "IsoSession_parseMessage self message =
           Some (self\<lparr>userData := ByteBuffer_wrap (bb_buffer message) 4 (length dat) (bb_maxSize message - 4)\<rparr>, SESSION_DATA)"
proof -
  have "has (bb_buffer message) 0 (dataSpdu @ dat)" using bb_has [OF assms(1)] assms(2) by simp
  then have r: "rd (bb_buffer message) i = Some ((dataSpdu @ dat) ! i)" if "i < 4" for i
    using has_rd [of "bb_buffer message" 0 "dataSpdu @ dat" i] that by (simp add: dataSpdu_def del: rd_eq_Some)
  have "rd (bb_buffer message) 0 = Some 1" "rd (bb_buffer message) (Suc 0) = Some 0"
    "rd (bb_buffer message) 2 = Some 1" "rd (bb_buffer message) 3 = Some 0"
    using r [of 0] r [of 1] r [of 2] r [of 3] by (simp_all add: dataSpdu_def del: rd_eq_Some rd_Some)
  moreover have "bb_size message = 4 + length dat"
    using length_bb_bytes [OF assms(1)] assms(2) by (simp add: dataSpdu_def)
  ultimately show ?thesis
    by (simp add: IsoSession_parseMessage_def)
qed

lemma session_parse_ok:
  assumes "bb_ok message" and "session_ok self"
  shows "\<exists>self' ind. IsoSession_parseMessage self message = Some (self', ind) \<and> session_ok self' \<and>
           (ind \<in> {SESSION_CONNECT, SESSION_DATA, SESSION_FINISH, SESSION_DISCONNECT} \<longrightarrow>
              rest_of message (userData self'))"
proof (cases "1 < bb_size message")
  case False
  with assms show ?thesis by (simp add: IsoSession_parseMessage_def)
next
  case True
  let ?P = "\<lambda>r. \<exists>self' ind. r = Some (self', ind) \<and> session_ok self' \<and>
     (ind \<in> {SESSION_CONNECT, SESSION_DATA, SESSION_FINISH, SESSION_DISCONNECT} \<longrightarrow> rest_of message (userData self'))"
  have sp: "?P (parseSpdu self message n ind)" if "ind \<noteq> SESSION_ERROR" for n ind
    using parseSpdu_safe [OF assms _ that, of n] True by auto
  let ?b = "\<lambda>i. bb_buffer message ! i"
  have "0 < length (bb_buffer message)" "1 < length (bb_buffer message)"
    using assms(1) True unfolding bb_ok_def by linarith+
  then have "rd (bb_buffer message) 0 = Some (?b 0)" "rd (bb_buffer message) (Suc 0) = Some (?b 1)"
    by (simp_all add: rd_def)
  moreover have "3 < length (bb_buffer message)" if "\<not> bb_size message < 4"
    using assms(1) that by (simp add: bb_ok_def)
  moreover have "rest_of message (ByteBuffer_wrap (bb_buffer message) 4 (bb_size message - 4) (bb_maxSize message - 4))"
    if "\<not> bb_size message < 4"
    using that unfolding rest_of_def by (intro exI [of _ 4]) simp
  ultimately show ?thesis
    using True assms(2) sp by (cases "bb_size message < 4") (simp_all add: IsoSession_parseMessage_def)
qed

subsection \<open>Properties\<close>

text \<open>C27: Parsing any received session message is memory safe and terminates; it keeps the
  session object well formed, and whenever it reports data, connect, finish or disconnect, the
  user data handed to the upper layer are a suffix of the message behind its two header bytes.\<close>

theorem session_parse_safe:
  assumes "bb_ok message" and "session_ok self"
  shows "\<exists>self' ind. IsoSession_parseMessage self message = Some (self', ind) \<and> session_ok self' \<and>
           (ind \<in> {SESSION_CONNECT, SESSION_DATA, SESSION_FINISH, SESSION_DISCONNECT} \<longrightarrow>
              bb_ok (userData self') \<and> (\<exists>off\<ge>2. bb_bytes (userData self') = drop off (bb_bytes message)))"
  using session_parse_ok [OF assms] rest_of_ok [OF assms(1)] by (fastforce simp: rest_of_def wrap_bytes)

theorem session_parse_safe_witness:
  "\<exists>self' ind. IsoSession_parseMessage IsoSession_init
       \<lparr>bb_buffer = [13, 5, 20, 2, 9, 193, 200], bb_maxSize = 7, bb_size = 7\<rparr> = Some (self', ind) \<and> session_ok self'"
  using session_parse_safe [of "\<lparr>bb_buffer = [13, 5, 20, 2, 9, 193, 200], bb_maxSize = 7, bb_size = 7\<rparr>" IsoSession_init]
    session_ok_init by (fastforce simp: bb_ok_def)

text \<open>C34: A connect SPDU created from well formed parameters is parsed by a peer as a connect
  indication with the same payload, the same calling and called session selectors and the same
  session requirement, if payload and parameters fit the one-byte length field; a longer one is
  truncated in that field and the peer rejects it.\<close>

theorem session_connect_roundtrip:
  assumes "params_ok params" and "chain_ok payload" and "0 < ch_length payload"
    and "IsoSession_createConnectSpdu self params buf payload = Some (self', c)" and "52 \<le> length (ch_buffer buf)"
    and "bb_ok message" and "bb_bytes message = chain_bytes c" and "session_ok peer"
  shows "if 18 + sel_size (localSSelector params) + sel_size (remoteSSelector params) + ch_length payload < 256
         then \<exists>peer'. IsoSession_parseMessage peer message = Some (peer', SESSION_CONNECT) \<and>
           bb_bytes (userData peer') = chain_bytes payload \<and>
           sel_bytes (callingSessionSelector peer') = sel_bytes (localSSelector params) \<and>
           sel_bytes (calledSessionSelector peer') = sel_bytes (remoteSSelector params) \<and>
           sessionRequirement peer' = sessionRequirement self
         else IsoSession_parseMessage peer message = Some (peer, SESSION_ERROR)"
proof -
  define s' where "s' = self\<lparr>calledSessionSelector := remoteSSelector params, callingSessionSelector := localSSelector params\<rparr>"
  let ?n = "ch_length payload"
  have s': "session_ok s'" using assms(1) by (simp add: s'_def session_ok_def params_ok_def)
  have sizes: "sel_size (localSSelector params) \<le> 16" "sel_size (remoteSSelector params) \<le> 16"
    using assms(1) by (simp_all add: params_ok_def selector_ok_def)
  have len: "length (connect_body s' ?n) = 18 + sel_size (localSSelector params) + sel_size (remoteSSelector params)"
    using length_bodies(1) [OF s'] by (simp add: s'_def)
  have bytes: "bb_bytes message = with_length 13 (connect_body s' ?n) ?n @ chain_bytes payload"
    using createConnectSpdu_eq [OF assms(1,2), of self buf] assms(4,5,7) len sizes by (simp add: s'_def [symmetric])
  have n: "?n = length (chain_bytes payload)" using length_chain_bytes [OF assms(2)] by simp
  note parse = parseMessage_with_length [OF assms(6) bytes n, of SESSION_CONNECT peer]
  show ?thesis
  proof (cases "length (connect_body s' ?n) + ?n < 256")
    case False
    with parse len show ?thesis by simp
  next
    case True
    have "has (bb_buffer message) 2 (connect_body s' ?n)"
      using bb_has [OF assms(6)] by (simp add: bytes with_length_def numeral_2_eq_2)
    moreover have size: "bb_size message = 2 + length (connect_body s' ?n) + ?n"
      using length_bb_bytes [OF assms(6)] n by (simp add: bytes with_length_def)
    ultimately obtain peer' where p: "headerParameters_loop message (bb_size message) 2 peer = Some (peer', SESSION_OK)"
      "sel_bytes (callingSessionSelector peer') = sel_bytes (callingSessionSelector s')"
      "sel_bytes (calledSessionSelector peer') = sel_bytes (calledSessionSelector s')"
      "sessionRequirement peer' = sessionRequirement s'"
      "userData peer' = ByteBuffer_wrap (bb_buffer message) (bb_size message - ?n) ?n (bb_maxSize message - (bb_size message - ?n))"
      using loop_connect_body [OF s' assms(8,3)] True assms(6) by (metis add_lessD1 add.commute)
    from suffix_bytes [OF assms(6) bytes] have "bb_bytes (userData peer') = chain_bytes payload"
      unfolding p(5) n .
    then show ?thesis using parse True p len by (simp add: s'_def)
  qed
qed

theorem session_connect_roundtrip_witness:
  "\<exists>self' c. IsoSession_createConnectSpdu IsoSession_init
       \<lparr>acseAuthParameter = None, hostname = None, tcpPort = 102, localIpAddress = None, localTcpPort = 0,
        remoteApTitle = replicate 10 0, remoteApTitleLen = 0, remoteAEQualifier = 0,
        remotePSelector = \<lparr>sel_size = 0, sel_value = replicate 16 0\<rparr>,
        remoteSSelector = \<lparr>sel_size = 2, sel_value = 0 # 1 # replicate 14 0\<rparr>,
        remoteTSelector = \<lparr>sel_size = 0, sel_value = replicate 4 0\<rparr>,
        localApTitle = replicate 10 0, localApTitleLen = 0, localAEQualifier = 0,
        localPSelector = \<lparr>sel_size = 0, sel_value = replicate 16 0\<rparr>,
        localSSelector = \<lparr>sel_size = 1, sel_value = 7 # replicate 15 0\<rparr>,
        localTSelector = \<lparr>sel_size = 0, sel_value = replicate 4 0\<rparr>\<rparr>
       (BufferChain 0 0 60 (replicate 60 0) None) (BufferChain 3 3 3 [10, 11, 12] None) = Some (self', c) \<and>
     (\<exists>peer'. IsoSession_parseMessage IsoSession_init
         \<lparr>bb_buffer = chain_bytes c, bb_maxSize = length (chain_bytes c), bb_size = length (chain_bytes c)\<rparr> = Some (peer', SESSION_CONNECT) \<and>
       bb_bytes (userData peer') = [10, 11, 12] \<and> sel_bytes (callingSessionSelector peer') = [7])"
proof -
  let ?p = "\<lparr>acseAuthParameter = None, hostname = None, tcpPort = 102, localIpAddress = None, localTcpPort = 0,
        remoteApTitle = replicate 10 0, remoteApTitleLen = 0, remoteAEQualifier = 0,
        remotePSelector = \<lparr>sel_size = 0, sel_value = replicate 16 0\<rparr>,
        remoteSSelector = \<lparr>sel_size = 2, sel_value = 0 # 1 # replicate 14 0\<rparr>,
        remoteTSelector = \<lparr>sel_size = 0, sel_value = replicate 4 0\<rparr>,
        localApTitle = replicate 10 0, localApTitleLen = 0, localAEQualifier = 0,
        localPSelector = \<lparr>sel_size = 0, sel_value = replicate 16 0\<rparr>,
        localSSelector = \<lparr>sel_size = 1, sel_value = 7 # replicate 15 0\<rparr>,
        localTSelector = \<lparr>sel_size = 0, sel_value = replicate 4 0\<rparr>\<rparr>"
  let ?b = "BufferChain 0 0 60 (replicate 60 0) None" and ?d = "BufferChain 3 3 3 [10, 11, 12] None"
  define s' where "s' = IsoSession_init\<lparr>calledSessionSelector := remoteSSelector ?p, callingSessionSelector := localSSelector ?p\<rparr>"
  have p: "params_ok ?p" "chain_ok ?d" by (simp_all add: params_ok_def selector_ok_def)
  have ok: "session_ok s'" by (simp add: s'_def session_ok_def selector_ok_def)
  have "length (connect_body s' (ch_length ?d)) + 2 \<le> length (ch_buffer ?b)"
    using length_bodies(1) [OF ok, of 3] by (simp add: s'_def)
  then obtain c where c: "IsoSession_createConnectSpdu IsoSession_init ?p ?b ?d = Some (s', c)"
    using createConnectSpdu_eq [OF p, of IsoSession_init ?b] by (auto simp: s'_def)
  let ?m = "\<lparr>bb_buffer = chain_bytes c, bb_maxSize = length (chain_bytes c), bb_size = length (chain_bytes c)\<rparr>"
  have "bb_ok ?m" "bb_bytes ?m = chain_bytes c" by (simp_all add: bb_ok_def bb_bytes_def)
  from session_connect_roundtrip [OF p _ c _ this session_ok_init] c show ?thesis
    by (auto simp: sel_bytes_def)
qed

text \<open>C35: An accept SPDU created by a well formed session is parsed by the peer as a connect
  indication with the same payload, called session selector, session requirement and protocol
  options, if it fits the one-byte length field; a longer one is rejected.\<close>

theorem session_accept_roundtrip:
  assumes "session_ok self" and "chain_ok payload" and "0 < ch_length payload"
    and "IsoSession_createAcceptSpdu self buf payload = Some c" and "34 \<le> length (ch_buffer buf)"
    and "bb_ok message" and "bb_bytes message = chain_bytes c" and "session_ok peer"
  shows "if 16 + sel_size (calledSessionSelector self) + ch_length payload < 256
         then \<exists>peer'. IsoSession_parseMessage peer message = Some (peer', SESSION_CONNECT) \<and>
           bb_bytes (userData peer') = chain_bytes payload \<and>
           sel_bytes (calledSessionSelector peer') = sel_bytes (calledSessionSelector self) \<and>
           sessionRequirement peer' = sessionRequirement self \<and> protocolOptions peer' = protocolOptions self
         else IsoSession_parseMessage peer message = Some (peer, SESSION_ERROR)"
proof -
  let ?n = "ch_length payload"
  have "sel_size (calledSessionSelector self) \<le> 16"
    using assms(1) by (simp add: session_ok_def selector_ok_def)
  moreover note len = length_bodies(2) [OF assms(1), of ?n]
  ultimately have bytes: "bb_bytes message = with_length 14 (accept_body self ?n) ?n @ chain_bytes payload"
    using createAcceptSpdu_eq [OF assms(1,2), of buf] assms(4,5,7) by simp
  have n: "?n = length (chain_bytes payload)" using length_chain_bytes [OF assms(2)] by simp
  note parse = parseMessage_with_length [OF assms(6) bytes n, of SESSION_CONNECT peer]
  show ?thesis
  proof (cases "length (accept_body self ?n) + ?n < 256")
    case False
    with parse len show ?thesis by simp
  next
    case True
    have "has (bb_buffer message) 2 (accept_body self ?n)"
      using bb_has [OF assms(6)] by (simp add: bytes with_length_def numeral_2_eq_2)
    moreover have "bb_size message = 2 + length (accept_body self ?n) + ?n"
      using length_bb_bytes [OF assms(6)] n by (simp add: bytes with_length_def)
    ultimately obtain peer' where p: "headerParameters_loop message (bb_size message) 2 peer = Some (peer', SESSION_OK)"
      "sel_bytes (calledSessionSelector peer') = sel_bytes (calledSessionSelector self)"
      "sessionRequirement peer' = sessionRequirement self" "protocolOptions peer' = protocolOptions self"
      "userData peer' = ByteBuffer_wrap (bb_buffer message) (bb_size message - ?n) ?n (bb_maxSize message - (bb_size message - ?n))"
      using loop_accept_body [OF assms(1,8,3)] True assms(6) by (metis add_lessD1 add.commute)
    from suffix_bytes [OF assms(6) bytes] have "bb_bytes (userData peer') = chain_bytes payload"
      unfolding p(5) n .
    then show ?thesis using parse True p len by simp
  qed
qed

theorem session_accept_roundtrip_witness:
  "\<exists>c peer'. IsoSession_createAcceptSpdu IsoSession_init (BufferChain 0 0 40 (replicate 40 0) None)
       (BufferChain 3 3 3 [10, 11, 12] None) = Some c \<and>
     IsoSession_parseMessage IsoSession_init
       \<lparr>bb_buffer = chain_bytes c, bb_maxSize = length (chain_bytes c), bb_size = length (chain_bytes c)\<rparr> = Some (peer', SESSION_CONNECT) \<and>
     bb_bytes (userData peer') = [10, 11, 12]"
proof -
  let ?b = "BufferChain 0 0 40 (replicate 40 0) None" and ?d = "BufferChain 3 3 3 [10, 11, 12] None"
  have sz: "sel_size (calledSessionSelector IsoSession_init) = 2" by (simp add: IsoSession_init_def)
  then obtain c where c: "IsoSession_createAcceptSpdu IsoSession_init ?b ?d = Some c"
    using createAcceptSpdu_eq [OF session_ok_init, of ?d ?b] length_bodies(2) [OF session_ok_init, of 3] by auto
  let ?m = "\<lparr>bb_buffer = chain_bytes c, bb_maxSize = length (chain_bytes c), bb_size = length (chain_bytes c)\<rparr>"
  have "bb_ok ?m" "bb_bytes ?m = chain_bytes c" by (simp_all add: bb_ok_def bb_bytes_def)
  from session_accept_roundtrip [OF session_ok_init _ _ c _ this session_ok_init] c sz show ?thesis by auto
qed

text \<open>C36: A data SPDU carries a payload of any length: the peer reports data and hands exactly
  the payload to the upper layer. Finish and disconnect SPDUs carry a non-empty payload of up to
  253 bytes.\<close>

theorem session_transfer_roundtrip:
  assumes "chain_ok payload" and "bb_ok message" and "4 \<le> length (ch_buffer buf)"
  shows "(\<forall>c. IsoSession_createDataSpdu self buf payload = Some c \<and> bb_bytes message = chain_bytes c \<longrightarrow>
            (\<exists>peer'. IsoSession_parseMessage peer message = Some (peer', SESSION_DATA) \<and>
               bb_bytes (userData peer') = chain_bytes payload)) \<and>
         (\<forall>c. IsoSession_createFinishSpdu self buf payload = Some c \<and> bb_bytes message = chain_bytes c \<and>
              0 < ch_length payload \<and> ch_length payload \<le> 253 \<longrightarrow>
            (\<exists>peer'. IsoSession_parseMessage peer message = Some (peer', SESSION_FINISH) \<and>
               bb_bytes (userData peer') = chain_bytes payload)) \<and>
         (\<forall>c. IsoSession_createDisconnectSpdu self buf payload = Some c \<and> bb_bytes message = chain_bytes c \<and>
              0 < ch_length payload \<and> ch_length payload \<le> 253 \<longrightarrow>
            (\<exists>peer'. IsoSession_parseMessage peer message = Some (peer', SESSION_DISCONNECT) \<and>
               bb_bytes (userData peer') = chain_bytes payload))"
proof -
  let ?n = "ch_length payload"
  have n: "?n = length (chain_bytes payload)" using length_chain_bytes [OF assms(1)] by simp
  have ud: "\<exists>peer'. IsoSession_parseMessage peer message = Some (peer', ind) \<and> bb_bytes (userData peer') = chain_bytes payload"
    if bytes: "bb_bytes message = with_length t [193, of_nat ?n] ?n @ chain_bytes payload"
      and t: "(t, ind) \<in> {(9, SESSION_FINISH), (10, SESSION_DISCONNECT)}" and l: "0 < ?n" "?n \<le> 253" for t ind
  proof -
    have size: "bb_size message = 4 + ?n"
      using length_bb_bytes [OF assms(2)] n by (simp add: bytes with_length_def)
    have "has (bb_buffer message) 2 [193, of_nat ?n]"
      using bb_has [OF assms(2)] by (simp add: bytes with_length_def numeral_2_eq_2)
    with size l have "headerParameters_loop message (bb_size message) 2 peer =
        Some (peer\<lparr>userData := ByteBuffer_wrap (bb_buffer message) 4 (bb_size message - 4) (bb_maxSize message - 4)\<rparr>, SESSION_OK)"
      by (subst loop_user_data [where n = ?n]) simp_all
    moreover have "bb_bytes (ByteBuffer_wrap (bb_buffer message) 4 (bb_size message - 4) (bb_maxSize message - 4)) = chain_bytes payload"
      using wrap_bytes [of message 4] by (simp add: bytes with_length_def)
    ultimately show ?thesis
      using parseMessage_with_length [OF assms(2) bytes n, of ind peer] t l by auto
  qed
  show ?thesis
  proof (intro conjI allI impI, goal_cases)
    case (1 c)
    with session_data.create_header [OF assms(1), of buf self] assms(3)
    have bytes: "bb_bytes message = dataSpdu @ chain_bytes payload" by (auto simp: dataSpdu_def)
    have "bb_size message = 4 + length (chain_bytes payload)"
      using length_bb_bytes [OF assms(2)] by (simp add: bytes dataSpdu_def)
    with wrap_bytes [of message 4]
    have "bb_bytes (ByteBuffer_wrap (bb_buffer message) 4 (length (chain_bytes payload)) k) = chain_bytes payload" for k
      by (simp add: bytes dataSpdu_def)
    with parse_data_spdu [OF assms(2) bytes, of peer] show ?case by simp
  next
    case (2 c)
    then show ?case
      using session_finish.create_header [OF assms(1), of buf self] assms(3) by (intro ud) (auto simp: with_length_def)
  next
    case (3 c)
    then show ?case
      using session_disconnect.create_header [OF assms(1), of buf self] assms(3) by (intro ud) (auto simp: with_length_def)
  qed
qed

theorem session_transfer_roundtrip_witness:
  "\<exists>c peer'. IsoSession_createDataSpdu IsoSession_init (BufferChain 0 0 4 [0, 0, 0, 0] None)
       (BufferChain 2 2 2 [8, 9] None) = Some c \<and>
     IsoSession_parseMessage IsoSession_init
       \<lparr>bb_buffer = [1, 0, 1, 0, 8, 9], bb_maxSize = 6, bb_size = 6\<rparr> = Some (peer', SESSION_DATA) \<and>
     bb_bytes (userData peer') = [8, 9]"
  using session_transfer_roundtrip [of "BufferChain 2 2 2 [8, 9] None"
      "\<lparr>bb_buffer = [1, 0, 1, 0, 8, 9], bb_maxSize = 6, bb_size = 6\<rparr>" "BufferChain 0 0 4 [0, 0, 0, 0] None"
      IsoSession_init IsoSession_init]
  by (simp add: IsoSession_createDataSpdu_def chain_finish_def dataSpdu_def bb_ok_def bb_bytes_def)

end
