(* ===== verification/Tlv_Loop.thy ===== *)
theory Tlv_Loop
  imports Ber_Decoder
begin

section \<open>The element loop of the BER parsers\<close>

text \<open>
  The parsers of the presentation layer and of ACSE share one shape:
  \<open>while (bufPos < endPos) { tag = buffer[bufPos++]; bufPos = BerDecoder_decodeLength(buffer, &len, bufPos, endPos);
  if (bufPos < 0) return error; switch (tag) { ... } }\<close>.
  \<open>tlv_loop\<close> is that loop; the body of the \<open>switch\<close> is its argument. A handler gets the
  buffer, the end of the range, the tag, the length, the position of the contents and the state
  (the object and the local flags), and returns the new state with the position to go on with,
  or \<open>Fail\<close> for an error return. The locale \<open>tlv_handler\<close> states what a handler has to
  promise; under it every such loop is memory safe and terminates.
\<close>

type_synonym 's handler = "byte list \<Rightarrow> nat \<Rightarrow> byte \<Rightarrow> nat \<Rightarrow> nat \<Rightarrow> 's \<Rightarrow> ('s \<times> nat ret) option"

partial_function (option) tlv_loop :: "'s handler \<Rightarrow> byte list \<Rightarrow> nat \<Rightarrow> nat \<Rightarrow> 's \<Rightarrow> ('s \<times> nat ret) option" where
  "tlv_loop h buffer endPos bufPos s =
     (if bufPos < endPos then do {
        tag \<leftarrow> rd buffer bufPos;
        Option.bind (BerDecoder_decodeLength buffer (Suc bufPos) endPos)
          (\<lambda>r. case r of
              Fail \<Rightarrow> Some (s, Fail)
            | Ret (bufPos, len) \<Rightarrow>
                Option.bind (h buffer endPos tag len bufPos s)
                  (\<lambda>(s, r). case r of Fail \<Rightarrow> Some (s, Fail) | Ret bufPos \<Rightarrow> tlv_loop h buffer endPos bufPos s)) }
      else Some (s, Ret bufPos))"

declare tlv_loop.simps [code]

text \<open>The promise of a handler as a predicate on its result, with one rule for each way a handler
  goes on: the rules take a handler apart along its \<open>switch\<close>.\<close>

named_theorems step_intros \<open>introduction rules for the promise of a handler\<close>

definition step_ok :: "('s \<Rightarrow> bool) \<Rightarrow> nat \<Rightarrow> nat \<Rightarrow> ('s \<times> nat ret) option \<Rightarrow> bool" where
  "step_ok P bufPos endPos x \<longleftrightarrow>
     (\<exists>s r. x = Some (s, r) \<and> P s \<and> (\<forall>p. r = Ret p \<longrightarrow> bufPos \<le> p \<and> p \<le> endPos))"

lemma step_if [step_intros]:
  "(c \<Longrightarrow> step_ok P bufPos endPos x) \<Longrightarrow> (\<not> c \<Longrightarrow> step_ok P bufPos endPos y) \<Longrightarrow>
   step_ok P bufPos endPos (if c then x else y)"
  by simp

lemma step_ret [step_intros]:
  "P s \<Longrightarrow> bufPos \<le> p \<Longrightarrow> p \<le> endPos \<Longrightarrow> step_ok P bufPos endPos (Some (s, Ret p))"
  by (simp add: step_ok_def)

lemma step_fail [step_intros]: "P s \<Longrightarrow> step_ok P bufPos endPos (Some (s, Fail))"
  by (simp add: step_ok_def)

lemma step_rd [step_intros]:
  "i < length buffer \<Longrightarrow> step_ok P bufPos endPos (f (buffer ! i)) \<Longrightarrow> step_ok P bufPos endPos (rd buffer i \<bind> f)"
  by simp

lemma step_bind:
  "\<exists>v. x = Some v \<Longrightarrow> (\<And>v. step_ok P bufPos endPos (f v)) \<Longrightarrow> step_ok P bufPos endPos (x \<bind> f)"
  by auto

lemma step_length [step_intros]:
  assumes "endPos \<le> length buffer" and "step_ok P bufPos endPos x"
    and "\<And>p l. q < p \<Longrightarrow> p + l \<le> endPos \<Longrightarrow> step_ok P bufPos endPos (f p l)"
  shows "step_ok P bufPos endPos
           (BerDecoder_decodeLength buffer q endPos \<bind> (\<lambda>r. case r of Fail \<Rightarrow> x | Ret (p, l) \<Rightarrow> f p l))"
  using decodeLength_ok [OF assms(1), of q] by (cases rule: length_okE) (use assms(2,3) in auto)

lemma step_uint32 [step_intros]:
  "p + l \<le> length buffer \<Longrightarrow> (\<And>v. step_ok P bufPos endPos (f v)) \<Longrightarrow>
   step_ok P bufPos endPos (BerDecoder_decodeUint32 buffer l p \<bind> f)"
  by (rule step_bind [OF decodeUint32_safe])

locale tlv_handler =
  fixes h :: "'s handler" and inv :: "byte list \<Rightarrow> nat \<Rightarrow> 's \<Rightarrow> bool"
  assumes handler_safe:
    "endPos \<le> length buffer \<Longrightarrow> inv buffer endPos s \<Longrightarrow> bufPos + len \<le> endPos \<Longrightarrow>
     \<exists>s' r. h buffer endPos tag len bufPos s = Some (s', r) \<and> inv buffer endPos s' \<and>
       (\<forall>p. r = Ret p \<longrightarrow> bufPos \<le> p \<and> p \<le> endPos)"
begin

lemma loop_safe:
  assumes "endPos \<le> length buffer" and "inv buffer endPos s" and "bufPos \<le> endPos"
  shows "\<exists>s' r. tlv_loop h buffer endPos bufPos s = Some (s', r) \<and> inv buffer endPos s' \<and>
           (\<forall>p. r = Ret p \<longrightarrow> p = endPos)"
  using assms(2,3)
proof (induction "endPos - bufPos" arbitrary: bufPos s rule: less_induct)
  case less
  note step = tlv_loop.simps [of h buffer endPos bufPos s]
  show ?case
  proof (cases "bufPos < endPos")
    case False
    then have "tlv_loop h buffer endPos bufPos s = Some (s, Ret bufPos)" by (simp add: step)
    with False less.prems show ?thesis by auto
  next
    case True
    with assms(1) have rd: "rd buffer bufPos = Some (buffer ! bufPos)" by simp
    from decodeLength_ok [OF assms(1), of "Suc bufPos"] show ?thesis
    proof (cases rule: length_okE)
      case 1
      with True less.prems show ?thesis by (simp add: step rd)
    next
      case (2 p l)
      from handler_safe [OF assms(1) less.prems(1) 2(3), of "buffer ! bufPos"]
      obtain s1 r1 where h: "h buffer endPos (buffer ! bufPos) l p s = Some (s1, r1)" "inv buffer endPos s1"
        and r1: "\<And>q. r1 = Ret q \<Longrightarrow> p \<le> q \<and> q \<le> endPos" by blast
      have eq: "tlv_loop h buffer endPos bufPos s =
          (case r1 of Fail \<Rightarrow> Some (s1, Fail) | Ret q \<Rightarrow> tlv_loop h buffer endPos q s1)"
        using True 2 h by (simp add: step rd)
      show ?thesis
      proof (cases r1)
        case Fail
        with eq h show ?thesis by simp
      next
        case (Ret q)
        with r1 2 True have "q \<le> endPos" "endPos - q < endPos - bufPos" by auto
        with less.hyps [of q s1] h Ret eq show ?thesis by simp
      qed
    qed
  qed
qed

end

text \<open>One step of the loop over an element an encoder wrote.\<close>

lemma tlv_loop_element:
  assumes "has buffer bufPos (tag # ber_length n)" and "n < 2 ^ 24"
    and "bufPos + 1 + length (ber_length n) + n \<le> endPos"
  shows "tlv_loop h buffer endPos bufPos s =
           Option.bind (h buffer endPos tag n (bufPos + 1 + length (ber_length n)) s)
             (\<lambda>(s, r). case r of Fail \<Rightarrow> Some (s, Fail) | Ret bufPos \<Rightarrow> tlv_loop h buffer endPos bufPos s)"
proof -
  have "BerDecoder_decodeLength buffer (Suc bufPos) endPos = Some (Ret (bufPos + 1 + length (ber_length n), n))"
    using assms decodeLength_has [of buffer "Suc bufPos" n endPos] by simp
  moreover from assms(3) have "bufPos < endPos" by simp
  ultimately show ?thesis using assms(1) by (subst tlv_loop.simps) simp
qed

lemma tlv_loop_end: "endPos \<le> bufPos \<Longrightarrow> tlv_loop h buffer endPos bufPos s = Some (s, Ret bufPos)"
  by (subst tlv_loop.simps) simp

lemma ber_length_small: "n < 128 \<Longrightarrow> ber_length n = [of_nat n]"
  by (simp add: ber_length_def)

lemma tlv_loop_small:
  assumes "has buffer bufPos [tag, of_nat n]" and "n < 128" and "bufPos + 2 + n \<le> endPos"
  shows "tlv_loop h buffer endPos bufPos s =
           Option.bind (h buffer endPos tag n (bufPos + 2) s)
             (\<lambda>(s, r). case r of Fail \<Rightarrow> Some (s, Fail) | Ret bufPos \<Rightarrow> tlv_loop h buffer endPos bufPos s)"
  using assms tlv_loop_element [of buffer bufPos tag n endPos h s] by (simp add: ber_length_small)

text \<open>The same steps as equations between two positions of the loop.\<close>

lemma tlv_loop_goto:
  assumes "has buffer bufPos (tag # ber_length n)" and "n < 2 ^ 24" and "bufPos + 1 + length (ber_length n) + n \<le> endPos"
    and "h buffer endPos tag n (bufPos + 1 + length (ber_length n)) s = Some (s', Ret q)"
  shows "tlv_loop h buffer endPos bufPos s = tlv_loop h buffer endPos q s'"
  using tlv_loop_element [OF assms(1-3), of h s] assms(4) by simp

lemma tlv_loop_goto_small:
  assumes "has buffer bufPos [tag, of_nat n]" and "n < 128" and "bufPos + 2 + n \<le> endPos"
    and "h buffer endPos tag n (bufPos + 2) s = Some (s', Ret q)"
  shows "tlv_loop h buffer endPos bufPos s = tlv_loop h buffer endPos q s'"
  using tlv_loop_small [OF assms(1-3), of h s] assms(4) by simp

end
