(* ===== verification/Iso_Presentation.thy ===== *)
theory Iso_Presentation
  imports Tlv_Loop Connection_Parameters
begin

unbundle bit_operations_syntax

section \<open>The presentation layer\<close>

text \<open>
  Model of \<open>src/mms/iso_presentation/iso_presentation.c\<close>. The element loops are instances of
  \<open>tlv_loop\<close>; each \<open>..._element\<close> function is the \<open>switch\<close> of one loop, its state the object
  and the local flags. The pointer \<open>nextPayload.buffer = buffer + bufPos\<close> is the rest of the
  buffer from \<open>bufPos\<close> on. Results 1 and 0 of the parsers are \<open>True\<close> and \<open>False\<close>. The encoders
  are writers; the lengths they announce are computed by the same arithmetic as in the code.
  The theorems show that every parser is memory safe and terminates (for user data PDUs: if one
  byte can be read behind the message), that the announced lengths are the written ones, and
  that what the encoders create is parsed back.
\<close>

record IsoPresentation =
  callingPresentationSelector :: PSelector
  calledPresentationSelector :: PSelector
  nextContextId :: byte
  acseContextId :: byte
  mmsContextId :: byte
  nextPayload :: ByteBuffer

definition calledPresentationSelector_value :: "byte list" where
  "calledPresentationSelector_value = [0x00, 0x00, 0x00, 0x01]"

definition asn_id_as_acse :: "byte list" where
  "asn_id_as_acse = [0x52, 0x01, 0x00, 0x01]"

definition asn_id_mms :: "byte list" where
  "asn_id_mms = [0x28, 0xca, 0x22, 0x02, 0x01]"

definition ber_id :: "byte list" where
  "ber_id = [0x51, 0x01]"

subsection \<open>Encoding\<close>

definition encodeAcceptBer :: writer where
  "encodeAcceptBer s = do {
     s \<leftarrow> BerEncoder_encodeTL 0x30 7 s;
     s \<leftarrow> BerEncoder_encodeTL 0x80 1 s;
     s \<leftarrow> put 0 s;
     s \<leftarrow> BerEncoder_encodeTL 0x81 2 s;
     s \<leftarrow> put 0x51 s;
     put 0x01 s }"

text \<open>The two inner lengths of \<open>encodeUserData\<close>, and its result for \<open>encode = false\<close>.\<close>

definition encodedDataSetLength :: "nat \<Rightarrow> nat" where
  "encodedDataSetLength payloadLength = 3 + (payloadLength + 1) + BerEncoder_determineLengthSize payloadLength"

definition fullyEncodedDataLength :: "nat \<Rightarrow> nat" where
  "fullyEncodedDataLength payloadLength =
     encodedDataSetLength payloadLength + (BerEncoder_determineLengthSize (encodedDataSetLength payloadLength) + 1)"

definition encodeUserData_length :: "nat \<Rightarrow> nat" where
  "encodeUserData_length payloadLength =
     fullyEncodedDataLength payloadLength + 1 + BerEncoder_determineLengthSize (fullyEncodedDataLength payloadLength)"

definition encodeUserData :: "nat \<Rightarrow> byte \<Rightarrow> writer" where
  "encodeUserData payloadLength contextId s = do {
     s \<leftarrow> BerEncoder_encodeTL 0x61 (fullyEncodedDataLength payloadLength) s;
     s \<leftarrow> BerEncoder_encodeTL 0x30 (encodedDataSetLength payloadLength) s;
     s \<leftarrow> BerEncoder_encodeTL 0x02 1 s;
     s \<leftarrow> put contextId s;
     BerEncoder_encodeTL 0xa0 payloadLength s }"

text \<open>The presentation context definition list of \<open>createConnectPdu\<close>.\<close>

definition encodeContextList :: writer where
  "encodeContextList s = do {
     s \<leftarrow> BerEncoder_encodeTL 0xa4 35 s;
     s \<leftarrow> BerEncoder_encodeTL 0x30 15 s;
     s \<leftarrow> BerEncoder_encodeTL 0x02 1 s;
     s \<leftarrow> put 1 s;
     s \<leftarrow> BerEncoder_encodeTL 0x06 4 s;
     s \<leftarrow> put_from asn_id_as_acse 0 4 s;
     s \<leftarrow> BerEncoder_encodeTL 0x30 4 s;
     s \<leftarrow> BerEncoder_encodeTL 0x06 2 s;
     s \<leftarrow> put_from ber_id 0 2 s;
     s \<leftarrow> BerEncoder_encodeTL 0x30 16 s;
     s \<leftarrow> BerEncoder_encodeTL 0x02 1 s;
     s \<leftarrow> put 3 s;
     s \<leftarrow> BerEncoder_encodeTL 0x06 5 s;
     s \<leftarrow> put_from asn_id_mms 0 5 s;
     s \<leftarrow> BerEncoder_encodeTL 0x30 4 s;
     s \<leftarrow> BerEncoder_encodeTL 0x06 2 s;
     put_from ber_id 0 2 s }"

definition createConnectPdu :: "IsoPresentation \<Rightarrow> bufferChain \<Rightarrow> bufferChain \<Rightarrow> bufferChain option" where
  "createConnectPdu self writeBuffer payload = do {
     let pclLength = 27 + sel_size (callingPresentationSelector self) + sel_size (calledPresentationSelector self);
     let normalModeLength = 12 + pclLength + encodeUserData_length (ch_length payload) + 2;
     let contentLength = 5 + normalModeLength + (1 + BerEncoder_determineLengthSize normalModeLength);
     s \<leftarrow> BerEncoder_encodeTL 0x31 contentLength (ch_buffer writeBuffer, 0);
     s \<leftarrow> BerEncoder_encodeTL 0xa0 3 s;
     s \<leftarrow> BerEncoder_encodeTL 0x80 1 s;
     s \<leftarrow> put 1 s;
     s \<leftarrow> BerEncoder_encodeTL 0xa2 normalModeLength s;
     s \<leftarrow> BerEncoder_encodeTL 0x81 (sel_size (callingPresentationSelector self)) s;
     s \<leftarrow> put_from (sel_value (callingPresentationSelector self)) 0 (sel_size (callingPresentationSelector self)) s;
     s \<leftarrow> BerEncoder_encodeTL 0x82 (sel_size (calledPresentationSelector self)) s;
     s \<leftarrow> put_from (sel_value (calledPresentationSelector self)) 0 (sel_size (calledPresentationSelector self)) s;
     s \<leftarrow> encodeContextList s;
     (buffer, bufPos) \<leftarrow> encodeUserData (ch_length payload) (acseContextId self) s;
     Some (chain_finish writeBuffer buffer bufPos payload) }"

definition IsoPresentation_createConnectPdu ::
  "IsoPresentation \<Rightarrow> IsoConnectionParameters \<Rightarrow> bufferChain \<Rightarrow> bufferChain \<Rightarrow> (IsoPresentation \<times> bufferChain) option" where
  "IsoPresentation_createConnectPdu self parameters buffer payload = do {
     let self = self\<lparr>acseContextId := 1, mmsContextId := 3,
                     callingPresentationSelector := localPSelector parameters,
                     calledPresentationSelector := remotePSelector parameters\<rparr>;
     c \<leftarrow> createConnectPdu self buffer payload;
     Some (self, c) }"

text \<open>\<open>IsoPresentation_createUserData\<close> and \<open>IsoPresentation_createUserDataACSE\<close> differ in the
  context identifier only.\<close>

definition pdvListLength :: "nat \<Rightarrow> nat" where
  "pdvListLength payloadLength = payloadLength + (BerEncoder_determineLengthSize payloadLength + 4)"

definition presentationLength :: "nat \<Rightarrow> nat" where
  "presentationLength payloadLength =
     pdvListLength payloadLength + (BerEncoder_determineLengthSize (pdvListLength payloadLength) + 1)"

definition encodePdvHeader :: "nat \<Rightarrow> byte \<Rightarrow> writer" where
  "encodePdvHeader payloadLength contextId s = do {
     s \<leftarrow> BerEncoder_encodeTL 0x61 (presentationLength payloadLength) s;
     s \<leftarrow> BerEncoder_encodeTL 0x30 (pdvListLength payloadLength) s;
     s \<leftarrow> put 0x02 s;
     s \<leftarrow> put 0x01 s;
     s \<leftarrow> put contextId s;
     BerEncoder_encodeTL 0xa0 payloadLength s }"

definition IsoPresentation_createUserData :: "IsoPresentation \<Rightarrow> bufferChain \<Rightarrow> bufferChain \<Rightarrow> bufferChain option" where
  "IsoPresentation_createUserData self writeBuffer payload = do {
     (buffer, bufPos) \<leftarrow> encodePdvHeader (ch_length payload) (mmsContextId self) (ch_buffer writeBuffer, 0);
     Some (chain_finish writeBuffer buffer bufPos payload) }"

definition IsoPresentation_createUserDataACSE :: "IsoPresentation \<Rightarrow> bufferChain \<Rightarrow> bufferChain \<Rightarrow> bufferChain option" where
  "IsoPresentation_createUserDataACSE self writeBuffer payload = do {
     (buffer, bufPos) \<leftarrow> encodePdvHeader (ch_length payload) (acseContextId self) (ch_buffer writeBuffer, 0);
     Some (chain_finish writeBuffer buffer bufPos payload) }"

definition IsoPresentation_createAbortUserMessage :: "IsoPresentation \<Rightarrow> bufferChain \<Rightarrow> bufferChain \<Rightarrow> bufferChain option" where
  "IsoPresentation_createAbortUserMessage self writeBuffer payload = do {
     let contentLength = encodeUserData_length (ch_length payload);
     s \<leftarrow> BerEncoder_encodeTL 0xa0 contentLength (ch_buffer writeBuffer, 0);
     (buffer, bufPos) \<leftarrow> encodeUserData (ch_length payload) (acseContextId self) s;
     Some (chain_finish writeBuffer buffer bufPos payload) }"

definition IsoPresentation_createCpaMessage :: "IsoPresentation \<Rightarrow> bufferChain \<Rightarrow> bufferChain \<Rightarrow> bufferChain option" where
  "IsoPresentation_createCpaMessage self writeBuffer payload = do {
     let normalModeLength = 6 + 20 + encodeUserData_length (ch_length payload);
     let contentLength = 5 + normalModeLength + (BerEncoder_determineLengthSize normalModeLength + 1);
     s \<leftarrow> BerEncoder_encodeTL 0x31 contentLength (ch_buffer writeBuffer, 0);
     s \<leftarrow> BerEncoder_encodeTL 0xa0 3 s;
     s \<leftarrow> BerEncoder_encodeTL 0x80 1 s;
     s \<leftarrow> put 1 s;
     s \<leftarrow> BerEncoder_encodeTL 0xa2 normalModeLength s;
     s \<leftarrow> BerEncoder_encodeTL 0x83 4 s;
     s \<leftarrow> put_from calledPresentationSelector_value 0 4 s;
     s \<leftarrow> BerEncoder_encodeTL 0xa5 18 s;
     s \<leftarrow> encodeAcceptBer s;
     s \<leftarrow> encodeAcceptBer s;
     (buffer, bufPos) \<leftarrow> encodeUserData (ch_length payload) (acseContextId self) s;
     Some (chain_finish writeBuffer buffer bufPos payload) }"

subsection \<open>Parsing\<close>

definition fullyEncodedData_element :: "(IsoPresentation \<times> bool) handler" where
  "fullyEncodedData_element buffer endPos tag len bufPos st =
     (case st of (self, userDataPresent) \<Rightarrow>
       if tag = 0x02 then do {
         presentationSelector \<leftarrow> BerDecoder_decodeUint32 buffer len bufPos;
         Some ((self\<lparr>nextContextId := ucast presentationSelector\<rparr>, userDataPresent), Ret (bufPos + len)) }
       else if tag = 0x06 then Some (st, Ret (bufPos + len))
       else if tag = 0xa0 then
         Some ((self\<lparr>nextPayload := (nextPayload self)\<lparr>bb_buffer := drop bufPos buffer, bb_size := len\<rparr>\<rparr>, True),
               Ret (bufPos + len))
       else if tag = 0x00 then Some (st, Ret bufPos)
       else Some (st, Ret (bufPos + len)))"

definition parseFullyEncodedData ::
  "IsoPresentation \<Rightarrow> byte list \<Rightarrow> nat \<Rightarrow> nat \<Rightarrow> (IsoPresentation \<times> nat ret) option" where
  "parseFullyEncodedData self buffer len bufPos = do {
     let endPos = bufPos + len;
     ok \<leftarrow> (if len < 1 then Some False else do { b \<leftarrow> rd buffer bufPos; Some (b = 0x30) });
     if \<not> ok then Some (self, Fail)
     else do {
       r \<leftarrow> BerDecoder_decodeLength buffer (Suc bufPos) endPos;
       (case r of
          Fail \<Rightarrow> Some (self, Fail)
        | Ret (bufPos, len) \<Rightarrow> do {
            ((self, userDataPresent), r) \<leftarrow>
              tlv_loop fullyEncodedData_element buffer (bufPos + len) bufPos (self, False);
            Some (self, case r of Fail \<Rightarrow> Fail | Ret p \<Rightarrow> if userDataPresent then Ret p else Fail) }) } }"

text \<open>The local variables of \<open>parsePCDLEntry\<close> are the context identifier (an \<open>int\<close>, \<open>-1\<close> at
  first) and the two flags.\<close>

definition pcdlEntry_element :: "(int \<times> bool \<times> bool) handler" where
  "pcdlEntry_element buffer endPos tag len bufPos st =
     (case st of (contextId, isAcse, isMms) \<Rightarrow>
       if tag = 0x02 then do {
         v \<leftarrow> BerDecoder_decodeUint32 buffer len bufPos;
         Some ((sint v, isAcse, isMms), Ret (bufPos + len)) }
       else if tag = 0x06 then
         if len = 5 then do {
           bs \<leftarrow> rd_block buffer bufPos 5;
           Some ((contextId, isAcse, if bs = asn_id_mms then True else isMms), Ret (bufPos + len)) }
         else if len = 4 then do {
           bs \<leftarrow> rd_block buffer bufPos 4;
           Some ((contextId, if bs = asn_id_as_acse then True else isAcse, isMms), Ret (bufPos + len)) }
         else Some (st, Ret (bufPos + len))
       else if tag = 0x30 then Some (st, Ret (bufPos + len))
       else if tag = 0x00 then Some (st, Ret bufPos)
       else Some (st, Ret (bufPos + len)))"

definition parsePCDLEntry ::
  "IsoPresentation \<Rightarrow> byte list \<Rightarrow> nat \<Rightarrow> nat \<Rightarrow> (IsoPresentation \<times> nat ret) option" where
  "parsePCDLEntry self buffer totalLength bufPos = do {
     ((contextId, isAcse, isMms), r) \<leftarrow>
       tlv_loop pcdlEntry_element buffer (bufPos + totalLength) bufPos (- 1, False, False);
     (case r of
        Fail \<Rightarrow> Some (self, Fail)
      | Ret p \<Rightarrow>
          if contextId < 0 then Some (self, Fail)
          else if \<not> isAcse \<and> \<not> isMms then Some (self, Fail)
          else if isMms then Some (self\<lparr>mmsContextId := of_int contextId\<rparr>, Ret p)
          else Some (self\<lparr>acseContextId := of_int contextId\<rparr>, Ret p)) }"

definition pcdl_element :: "IsoPresentation handler" where
  "pcdl_element buffer endPos tag len bufPos self =
     (if tag = 0x30 then parsePCDLEntry self buffer len bufPos
      else if tag = 0x00 then Some (self, Ret bufPos)
      else Some (self, Ret (bufPos + len)))"

definition parsePresentationContextDefinitionList ::
  "IsoPresentation \<Rightarrow> byte list \<Rightarrow> nat \<Rightarrow> nat \<Rightarrow> (IsoPresentation \<times> nat ret) option" where
  "parsePresentationContextDefinitionList self buffer totalLength bufPos =
     tlv_loop pcdl_element buffer (bufPos + totalLength) bufPos self"

definition store_selector :: "byte list \<Rightarrow> nat \<Rightarrow> nat \<Rightarrow> selector \<Rightarrow> selector option" where
  "store_selector buffer bufPos len sel =
     (if 16 < len then Some sel
      else do { v \<leftarrow> memcpy (sel_value sel) 0 buffer bufPos len; Some \<lparr>sel_size = len, sel_value = v\<rparr> })"

definition normalMode_element :: "(IsoPresentation \<times> bool) handler" where
  "normalMode_element buffer endPos tag len bufPos st =
     (case st of (self, hasUserData) \<Rightarrow>
       if tag = 0x81 then do {
         sel \<leftarrow> store_selector buffer bufPos len (callingPresentationSelector self);
         Some ((self\<lparr>callingPresentationSelector := sel\<rparr>, hasUserData), Ret (bufPos + len)) }
       else if tag = 0x82 then do {
         sel \<leftarrow> store_selector buffer bufPos len (calledPresentationSelector self);
         Some ((self\<lparr>calledPresentationSelector := sel\<rparr>, hasUserData), Ret (bufPos + len)) }
       else if tag = 0x83 then Some (st, Ret (bufPos + len))
       else if tag = 0xa4 then do {
         (self, r) \<leftarrow> parsePresentationContextDefinitionList self buffer len bufPos;
         Some ((self, hasUserData), r) }
       else if tag = 0xa5 then Some (st, Ret (bufPos + len))
       else if tag = 0x61 then do {
         (self, r) \<leftarrow> parseFullyEncodedData self buffer len bufPos;
         (case r of
            Fail \<Rightarrow> Some ((self, hasUserData), Fail)
          | Ret p \<Rightarrow> Some ((self, if 0 < bb_size (nextPayload self) then True else hasUserData), Ret p)) }
       else if tag = 0x00 then Some (st, Ret bufPos)
       else Some (st, Ret (bufPos + len)))"

definition parseNormalModeParameters ::
  "IsoPresentation \<Rightarrow> byte list \<Rightarrow> nat \<Rightarrow> nat \<Rightarrow> (IsoPresentation \<times> nat ret) option" where
  "parseNormalModeParameters self buffer totalLength bufPos = do {
     let self = self\<lparr>calledPresentationSelector := (calledPresentationSelector self)\<lparr>sel_size := 0\<rparr>,
                     callingPresentationSelector := (callingPresentationSelector self)\<lparr>sel_size := 0\<rparr>\<rparr>;
     ((self, hasUserData), r) \<leftarrow> tlv_loop normalMode_element buffer (bufPos + totalLength) bufPos (self, False);
     Some (self, case r of Fail \<Rightarrow> Fail | Ret p \<Rightarrow> if hasUserData then Ret p else Fail) }"

definition acceptMessage_element :: "IsoPresentation handler" where
  "acceptMessage_element buffer endPos tag len bufPos self =
     (if tag = 0xa0 then Some (self, Ret (bufPos + len))
      else if tag = 0xa2 then parseNormalModeParameters self buffer len bufPos
      else if tag = 0x00 then Some (self, Ret bufPos)
      else Some (self, Ret (bufPos + len)))"

definition IsoPresentation_parseAcceptMessage :: "IsoPresentation \<Rightarrow> ByteBuffer \<Rightarrow> (IsoPresentation \<times> bool) option" where
  "IsoPresentation_parseAcceptMessage self byteBuffer =
     (let buffer = bb_buffer byteBuffer; maxBufPos = bb_size byteBuffer in
      if maxBufPos < 1 then Some (self, False)
      else do {
        cpTag \<leftarrow> rd buffer 0;
        if cpTag \<noteq> 0x31 then Some (self, False)
        else do {
          r \<leftarrow> BerDecoder_decodeLength buffer 1 maxBufPos;
          (case r of
             Fail \<Rightarrow> Some (self, False)
           | Ret (bufPos, len) \<Rightarrow> do {
               (self, r) \<leftarrow> tlv_loop acceptMessage_element buffer maxBufPos bufPos self;
               Some (self, r \<noteq> Fail) }) } })"

text \<open>The loop of \<open>IsoPresentation_parseUserData\<close> also reads the first length byte, and skips
  the contents of known elements only.\<close>

partial_function (option) parseUserData_loop ::
  "byte list \<Rightarrow> nat \<Rightarrow> nat \<Rightarrow> IsoPresentation \<Rightarrow> bool \<Rightarrow> (IsoPresentation \<times> bool) option" where
  "parseUserData_loop buffer maxBufPos bufPos self hasAbstractSyntaxName =
     (if bufPos + 1 < maxBufPos then do {
        tag \<leftarrow> rd buffer bufPos;
        lenField \<leftarrow> rd buffer (Suc bufPos);
        Option.bind (BerDecoder_decodeLength buffer (Suc bufPos) maxBufPos)
          (\<lambda>r. case r of
              Fail \<Rightarrow> Some (self, False)
            | Ret (bufPos, len) \<Rightarrow>
                if tag = 0x02 then do {
                  b \<leftarrow> rd buffer bufPos;
                  parseUserData_loop buffer maxBufPos (bufPos + len) (self\<lparr>nextContextId := b\<rparr>) True }
                else if tag = 0x06 then do {
                  ok \<leftarrow> (if len < 2 then Some False
                         else do {
                           b0 \<leftarrow> rd buffer bufPos;
                           if b0 \<noteq> 0x51 then Some False
                           else do { b1 \<leftarrow> rd buffer (Suc bufPos); Some (b1 = 0x01) } });
                  if ok then parseUserData_loop buffer maxBufPos (bufPos + len) self hasAbstractSyntaxName
                  else Some (self, False) }
                else if tag = 0xa0 then
                  if \<not> hasAbstractSyntaxName then Some (self, False)
                  else
                    let userDataLength = (if lenField = 0x80 then len - 2 else len) in
                    Some (self\<lparr>nextPayload := ByteBuffer_wrap buffer bufPos userDataLength userDataLength\<rparr>, True)
                else parseUserData_loop buffer maxBufPos bufPos self hasAbstractSyntaxName) }
      else Some (self, False))"

definition IsoPresentation_parseUserData :: "IsoPresentation \<Rightarrow> ByteBuffer \<Rightarrow> (IsoPresentation \<times> bool) option" where
  "IsoPresentation_parseUserData self readBuffer =
     (let buffer = bb_buffer readBuffer; maxBufPos = bb_size readBuffer in
      if maxBufPos < 9 then Some (self, False)
      else do {
        b \<leftarrow> rd buffer 0;
        if b \<noteq> 0x61 then Some (self, False)
        else do {
          r \<leftarrow> BerDecoder_decodeLength buffer 1 maxBufPos;
          (case r of
             Fail \<Rightarrow> Some (self, False)
           | Ret (bufPos, len) \<Rightarrow> do {
               b \<leftarrow> rd buffer bufPos;
               if b \<noteq> 0x30 then Some (self, False)
               else do {
                 r \<leftarrow> BerDecoder_decodeLength buffer (Suc bufPos) maxBufPos;
                 (case r of
                    Fail \<Rightarrow> Some (self, False)
                  | Ret (bufPos, len) \<Rightarrow> parseUserData_loop buffer maxBufPos bufPos self False) } }) } })"

definition connect_element :: "(IsoPresentation \<times> bool) handler" where
  "connect_element buffer endPos tag len bufPos st =
     (case st of (self, hasNormalModeParameters) \<Rightarrow>
       if tag = 0xa0 then do {
         ok \<leftarrow> (if len < 1 then Some False else do { b \<leftarrow> rd buffer bufPos; Some (b = 0x80) });
         if \<not> ok then Some (st, Fail)
         else do {
           r \<leftarrow> BerDecoder_decodeLength buffer (Suc bufPos) endPos;
           (case r of
              Fail \<Rightarrow> Some (st, Fail)
            | Ret (bufPos, len) \<Rightarrow> do {
                modeSelector \<leftarrow> BerDecoder_decodeUint32 buffer len bufPos;
                Some (st, Ret (bufPos + len)) }) } }
       else if tag = 0xa2 then do {
         (self, r) \<leftarrow> parseNormalModeParameters self buffer len bufPos;
         (case r of
            Fail \<Rightarrow> Some ((self, hasNormalModeParameters), Fail)
          | Ret p \<Rightarrow> Some ((self, True), Ret p)) }
       else if tag = 0x00 then Some (st, Ret bufPos)
       else Some (st, Ret (bufPos + len)))"

definition IsoPresentation_parseConnect :: "IsoPresentation \<Rightarrow> ByteBuffer \<Rightarrow> (IsoPresentation \<times> bool) option" where
  "IsoPresentation_parseConnect self byteBuffer =
     (let buffer = bb_buffer byteBuffer; maxBufPos = bb_size byteBuffer in
      if maxBufPos < 1 then Some (self, False)
      else do {
        cpTag \<leftarrow> rd buffer 0;
        if cpTag \<noteq> 0x31 then Some (self, False)
        else do {
          r \<leftarrow> BerDecoder_decodeLength buffer 1 maxBufPos;
          (case r of
             Fail \<Rightarrow> Some (self, False)
           | Ret (bufPos, len) \<Rightarrow> do {
               ((self, hasNormalModeParameters), r) \<leftarrow>
                 tlv_loop connect_element buffer maxBufPos bufPos (self, False);
               Some (self, r \<noteq> Fail \<and> hasNormalModeParameters) }) } })"

declare parseUserData_loop.simps [code]

subsection \<open>The parsers are safe\<close>

definition presentation_ok :: "IsoPresentation \<Rightarrow> bool" where
  "presentation_ok self \<longleftrightarrow>
     selector_ok 16 (callingPresentationSelector self) \<and> selector_ok 16 (calledPresentationSelector self)"

text \<open>The payload lies inside the first \<open>endPos\<close> bytes of the buffer.\<close>

definition payload_in :: "byte list \<Rightarrow> nat \<Rightarrow> IsoPresentation \<Rightarrow> bool" where
  "payload_in buffer endPos self \<longleftrightarrow>
     (\<exists>off. bb_buffer (nextPayload self) = drop off buffer \<and> off + bb_size (nextPayload self) \<le> endPos)"

lemma payload_in_mono: "payload_in buffer n self \<Longrightarrow> n \<le> m \<Longrightarrow> payload_in buffer m self"
  unfolding payload_in_def by (meson le_trans)

lemma payload_in_cong: "nextPayload self = nextPayload self' \<Longrightarrow> payload_in buffer n self = payload_in buffer n self'"
  by (simp add: payload_in_def)

lemma presentation_ok_simps [simp]:
  "presentation_ok (self\<lparr>nextContextId := c\<rparr>) = presentation_ok self"
  "presentation_ok (self\<lparr>mmsContextId := c\<rparr>) = presentation_ok self"
  "presentation_ok (self\<lparr>acseContextId := c\<rparr>) = presentation_ok self"
  "presentation_ok (self\<lparr>nextPayload := d\<rparr>) = presentation_ok self"
  by (simp_all add: presentation_ok_def)

lemma payload_in_simps [simp]:
  "payload_in buffer n (self\<lparr>nextContextId := c\<rparr>) = payload_in buffer n self"
  "payload_in buffer n (self\<lparr>mmsContextId := c\<rparr>) = payload_in buffer n self"
  "payload_in buffer n (self\<lparr>acseContextId := c\<rparr>) = payload_in buffer n self"
  "payload_in buffer n (self\<lparr>callingPresentationSelector := sel\<rparr>) = payload_in buffer n self"
  "payload_in buffer n (self\<lparr>calledPresentationSelector := sel\<rparr>) = payload_in buffer n self"
  by (simp_all add: payload_in_def)

lemma payload_in_set [simp]:
  "bufPos + len \<le> n \<Longrightarrow> payload_in buffer n (self\<lparr>nextPayload := d\<lparr>bb_buffer := drop bufPos buffer, bb_size := len\<rparr>\<rparr>)"
  by (auto simp: payload_in_def)

text \<open>What a parser of the object promises on a range that ends at \<open>endPos\<close>: it returns, keeps
  the object well formed, a position it returns lies in the range, and the payload is either
  the old one or lies in the range.\<close>

definition parser_ok ::
  "byte list \<Rightarrow> nat \<Rightarrow> nat \<Rightarrow> IsoPresentation \<Rightarrow> (IsoPresentation \<times> nat ret) option \<Rightarrow> bool" where
  "parser_ok buffer bufPos endPos self r \<longleftrightarrow>
     (\<exists>self' p. r = Some (self', p) \<and> presentation_ok self' \<and>
        (nextPayload self' = nextPayload self \<or> payload_in buffer endPos self') \<and>
        (\<forall>q. p = Ret q \<longrightarrow> bufPos \<le> q \<and> q \<le> endPos))"

definition fed_inv :: "ByteBuffer \<Rightarrow> byte list \<Rightarrow> nat \<Rightarrow> IsoPresentation \<times> bool \<Rightarrow> bool" where
  "fed_inv np buffer endPos st \<longleftrightarrow>
     (case st of (self, present) \<Rightarrow> presentation_ok self \<and>
        (if present then payload_in buffer endPos self else nextPayload self = np))"

interpretation fed: tlv_handler fullyEncodedData_element "fed_inv np" for np
proof
  fix endPos buffer st bufPos len tag
  assume *: "endPos \<le> length buffer" "fed_inv np buffer endPos st" "bufPos + len \<le> endPos"
  then obtain v where "BerDecoder_decodeUint32 buffer len bufPos = Some v"
    using decodeUint32_safe [of bufPos len buffer] by auto
  with * show "\<exists>s' r. fullyEncodedData_element buffer endPos tag len bufPos st = Some (s', r) \<and>
      fed_inv np buffer endPos s' \<and> (\<forall>p. r = Ret p \<longrightarrow> bufPos \<le> p \<and> p \<le> endPos)"
    by (cases st) (auto simp: fullyEncodedData_element_def fed_inv_def)
qed

lemma parseFullyEncodedData_ok:
  assumes "bufPos + len \<le> length buffer" and "presentation_ok self"
  shows "parser_ok buffer bufPos (bufPos + len) self (parseFullyEncodedData self buffer len bufPos)"
    and "parseFullyEncodedData self buffer len bufPos = Some (self', Ret p) \<Longrightarrow> payload_in buffer (bufPos + len) self'"
proof -
  have "\<exists>s' r. parseFullyEncodedData self buffer len bufPos = Some (s', r) \<and> presentation_ok s' \<and>
      (nextPayload s' = nextPayload self \<or> payload_in buffer (bufPos + len) s') \<and>
      (\<forall>q. r = Ret q \<longrightarrow> bufPos \<le> q \<and> q \<le> bufPos + len \<and> payload_in buffer (bufPos + len) s')"
  proof (cases "0 < len \<and> buffer ! bufPos = 0x30")
    case False
    then show ?thesis using assms by (auto simp: parseFullyEncodedData_def)
  next
    case True
    with assms have rd: "rd buffer bufPos = Some 0x30" by simp
    from decodeLength_ok [OF assms(1), of "Suc bufPos"] show ?thesis
    proof (cases rule: length_okE)
      case 1
      with True rd assms(2) show ?thesis by (simp add: parseFullyEncodedData_def)
    next
      case (2 q l)
      with assms(1) have "q + l \<le> length buffer" by simp
      moreover have "fed_inv (nextPayload self) buffer (q + l) (self, False)"
        using assms(2) by (simp add: fed_inv_def)
      ultimately have "\<exists>st r. tlv_loop fullyEncodedData_element buffer (q + l) q (self, False) = Some (st, r) \<and>
          fed_inv (nextPayload self) buffer (q + l) st \<and> (\<forall>p. r = Ret p \<longrightarrow> p = q + l)"
        by (intro fed.loop_safe) simp_all
      then obtain s' f r where lp: "tlv_loop fullyEncodedData_element buffer (q + l) q (self, False) = Some ((s', f), r)"
        "fed_inv (nextPayload self) buffer (q + l) (s', f)" "\<forall>p. r = Ret p \<longrightarrow> p = q + l"
        by auto
      from lp(2) have "nextPayload s' = nextPayload self \<or> payload_in buffer (bufPos + len) s'"
        "f \<Longrightarrow> payload_in buffer (bufPos + len) s'" "presentation_ok s'"
        using 2(3) payload_in_mono [of buffer "q + l" s' "bufPos + len"] by (auto simp: fed_inv_def split: if_splits)
      moreover have "parseFullyEncodedData self buffer len bufPos =
          Some (s', case r of Fail \<Rightarrow> Fail | Ret p \<Rightarrow> if f then Ret p else Fail)"
        using True rd 2(1) lp(1) by (simp add: parseFullyEncodedData_def)
      moreover from lp(3) 2(2,3) have "bufPos \<le> p \<and> p \<le> bufPos + len" if "r = Ret p" for p using that by auto
      ultimately show ?thesis by (cases r; cases f) simp_all
    qed
  qed
  then show "parser_ok buffer bufPos (bufPos + len) self (parseFullyEncodedData self buffer len bufPos)"
    and "parseFullyEncodedData self buffer len bufPos = Some (self', Ret p) \<Longrightarrow> payload_in buffer (bufPos + len) self'"
    by (auto simp: parser_ok_def)
qed

interpretation pcdlEntry: tlv_handler pcdlEntry_element "\<lambda>buffer endPos st. True"
proof
  fix endPos and buffer :: "byte list" and st :: "int \<times> bool \<times> bool" and bufPos len and tag :: byte
  assume *: "endPos \<le> length buffer" "bufPos + len \<le> endPos"
  then obtain v where "BerDecoder_decodeUint32 buffer len bufPos = Some v"
    using decodeUint32_safe [of bufPos len buffer] by auto
  with * show "\<exists>s' r. pcdlEntry_element buffer endPos tag len bufPos st = Some (s', r) \<and> True \<and>
      (\<forall>p. r = Ret p \<longrightarrow> bufPos \<le> p \<and> p \<le> endPos)"
    by (cases st) (simp add: pcdlEntry_element_def rd_block_eq)
qed

lemma parsePCDLEntry_ok:
  assumes "bufPos + len \<le> length buffer" and "presentation_ok self"
  shows "parser_ok buffer bufPos (bufPos + len) self (parsePCDLEntry self buffer len bufPos)"
proof -
  obtain c a m r where "tlv_loop pcdlEntry_element buffer (bufPos + len) bufPos (- 1, False, False) = Some ((c, a, m), r)"
    "\<forall>p. r = Ret p \<longrightarrow> p = bufPos + len"
    using pcdlEntry.loop_safe [OF assms(1), of bufPos "(- 1, False, False)"] by auto
  with assms(2) show ?thesis by (cases r) (simp_all add: parsePCDLEntry_def parser_ok_def)
qed

definition object_inv :: "ByteBuffer \<Rightarrow> byte list \<Rightarrow> nat \<Rightarrow> IsoPresentation \<Rightarrow> bool" where
  "object_inv np buffer endPos self \<longleftrightarrow>
     presentation_ok self \<and> (nextPayload self = np \<or> payload_in buffer endPos self)"

lemma parser_ok_object:
  assumes "parser_ok buffer bufPos n self r" and "object_inv np buffer endPos self" and "n \<le> endPos"
  shows "\<exists>s' p. r = Some (s', p) \<and> object_inv np buffer endPos s' \<and> (\<forall>q. p = Ret q \<longrightarrow> bufPos \<le> q \<and> q \<le> endPos)"
  using assms payload_in_mono payload_in_cong unfolding parser_ok_def object_inv_def by (metis le_trans)

interpretation pcdl: tlv_handler pcdl_element "object_inv np" for np
proof
  fix endPos buffer self bufPos len tag
  assume *: "endPos \<le> length buffer" "object_inv np buffer endPos self" "bufPos + len \<le> endPos"
  then have "parser_ok buffer bufPos (bufPos + len) self (parsePCDLEntry self buffer len bufPos)"
    by (intro parsePCDLEntry_ok) (auto simp: object_inv_def)
  from parser_ok_object [OF this *(2,3)] *
  show "\<exists>s' r. pcdl_element buffer endPos tag len bufPos self = Some (s', r) \<and> object_inv np buffer endPos s' \<and>
      (\<forall>p. r = Ret p \<longrightarrow> bufPos \<le> p \<and> p \<le> endPos)"
    by (simp add: pcdl_element_def)
qed

lemma parsePresentationContextDefinitionList_ok:
  assumes "bufPos + len \<le> length buffer" and "presentation_ok self"
  shows "parser_ok buffer bufPos (bufPos + len) self (parsePresentationContextDefinitionList self buffer len bufPos)"
proof -
  have "object_inv (nextPayload self) buffer (bufPos + len) self" using assms(2) by (simp add: object_inv_def)
  from pcdl.loop_safe [OF assms(1) this, of bufPos] show ?thesis
    unfolding parser_ok_def parsePresentationContextDefinitionList_def object_inv_def by (metis le_add1 order_refl)
qed

definition nm_inv :: "ByteBuffer \<Rightarrow> byte list \<Rightarrow> nat \<Rightarrow> IsoPresentation \<times> bool \<Rightarrow> bool" where
  "nm_inv np buffer endPos st \<longleftrightarrow>
     (case st of (self, present) \<Rightarrow> object_inv np buffer endPos self \<and> (present \<longrightarrow> payload_in buffer endPos self))"

lemma store_selector_ok:
  assumes "selector_ok 16 sel" and "bufPos + len \<le> length buffer"
  shows "\<exists>sel'. store_selector buffer bufPos len sel = Some sel' \<and> selector_ok 16 sel'"
proof (cases "16 < len")
  case False
  then have "memcpy (sel_value sel) 0 buffer bufPos len = Some (patch (sel_value sel) 0 (take len (drop bufPos buffer)))"
    using assms memcpy_eq [of bufPos len buffer 0 "sel_value sel"] by (simp add: selector_ok_def)
  with False assms show ?thesis
    by (simp add: store_selector_def selector_ok_def)
qed (use assms in \<open>simp add: store_selector_def\<close>)

lemma parser_ok_nm:
  assumes "parser_ok buffer bufPos n self r" and "nm_inv np buffer endPos (self, present)" and "n \<le> endPos"
  shows "\<exists>s' p. r = Some (s', p) \<and> nm_inv np buffer endPos (s', present) \<and>
           (\<forall>q. p = Ret q \<longrightarrow> bufPos \<le> q \<and> q \<le> endPos)"
proof -
  from assms(2) have o: "object_inv np buffer endPos self" and pin: "present \<Longrightarrow> payload_in buffer endPos self"
    by (simp_all add: nm_inv_def)
  obtain s' p where s': "r = Some (s', p)" "nextPayload s' = nextPayload self \<or> payload_in buffer n s'"
    "object_inv np buffer endPos s'" "\<And>q. p = Ret q \<Longrightarrow> bufPos \<le> q \<and> q \<le> endPos"
    using assms(1) parser_ok_object [OF assms(1) o assms(3)] by (auto simp: parser_ok_def)
  moreover from s'(2) pin have "payload_in buffer endPos s'" if present
    using that payload_in_mono [OF _ assms(3)] payload_in_cong [of s' self] by blast
  ultimately show ?thesis by (auto simp: nm_inv_def)
qed

lemma object_inv_selectors:
  "object_inv np buffer n self \<Longrightarrow> selector_ok 16 sel \<Longrightarrow> object_inv np buffer n (self\<lparr>callingPresentationSelector := sel\<rparr>)"
  "object_inv np buffer n self \<Longrightarrow> selector_ok 16 sel \<Longrightarrow> object_inv np buffer n (self\<lparr>calledPresentationSelector := sel\<rparr>)"
  by (simp_all add: object_inv_def presentation_ok_def)

lemma normalMode_nested:
  assumes "endPos \<le> length buffer" and inv: "nm_inv np buffer endPos (self, present)" and "bufPos + len \<le> endPos"
  shows "\<exists>s' r. normalMode_element buffer endPos 0xa4 len bufPos (self, present) = Some (s', r) \<and> nm_inv np buffer endPos s' \<and>
           (\<forall>p. r = Ret p \<longrightarrow> bufPos \<le> p \<and> p \<le> endPos)"
    and "\<exists>s' r. normalMode_element buffer endPos 0x61 len bufPos (self, present) = Some (s', r) \<and> nm_inv np buffer endPos s' \<and>
           (\<forall>p. r = Ret p \<longrightarrow> bufPos \<le> p \<and> p \<le> endPos)"
proof -
  have fit: "bufPos + len \<le> length buffer" and ok: "presentation_ok self"
    using assms by (auto simp: nm_inv_def object_inv_def)
  obtain s1 p1 where "parsePresentationContextDefinitionList self buffer len bufPos = Some (s1, p1)"
    "nm_inv np buffer endPos (s1, present)" "\<And>q. p1 = Ret q \<Longrightarrow> bufPos \<le> q \<and> q \<le> endPos"
    using parser_ok_nm [OF parsePresentationContextDefinitionList_ok [OF fit ok] inv assms(3)] by auto
  then show "\<exists>s' r. normalMode_element buffer endPos 0xa4 len bufPos (self, present) = Some (s', r) \<and> nm_inv np buffer endPos s' \<and>
           (\<forall>p. r = Ret p \<longrightarrow> bufPos \<le> p \<and> p \<le> endPos)"
    by (simp add: normalMode_element_def)
  obtain s2 p2 where s2: "parseFullyEncodedData self buffer len bufPos = Some (s2, p2)"
    "nm_inv np buffer endPos (s2, present)" "\<And>q. p2 = Ret q \<Longrightarrow> bufPos \<le> q \<and> q \<le> endPos"
    using parser_ok_nm [OF parseFullyEncodedData_ok(1) [OF fit ok] inv assms(3)] by auto
  have "nm_inv np buffer endPos (s2, True)" if "p2 = Ret q" for q
    using s2(2) parseFullyEncodedData_ok(2) [OF fit ok, of s2 q] s2(1) that payload_in_mono [OF _ assms(3)]
    by (simp add: nm_inv_def)
  with s2 show "\<exists>s' r. normalMode_element buffer endPos 0x61 len bufPos (self, present) = Some (s', r) \<and> nm_inv np buffer endPos s' \<and>
           (\<forall>p. r = Ret p \<longrightarrow> bufPos \<le> p \<and> p \<le> endPos)"
    by (cases p2) (simp_all add: normalMode_element_def)
qed

interpretation normalMode: tlv_handler normalMode_element "nm_inv np" for np
proof
  fix endPos buffer st bufPos len tag
  assume *: "endPos \<le> length buffer" "nm_inv np buffer endPos st" "bufPos + len \<le> endPos"
  obtain self present where st: "st = (self, present)" by (cases st)
  have sel: "selector_ok 16 (callingPresentationSelector self)" "selector_ok 16 (calledPresentationSelector self)"
    using *(2) by (simp_all add: st nm_inv_def object_inv_def presentation_ok_def)
  have fit: "bufPos + len \<le> length buffer" using * by simp
  obtain c1 where c1: "store_selector buffer bufPos len (callingPresentationSelector self) = Some c1" "selector_ok 16 c1"
    using store_selector_ok [OF sel(1) fit] by blast
  obtain c2 where c2: "store_selector buffer bufPos len (calledPresentationSelector self) = Some c2" "selector_ok 16 c2"
    using store_selector_ok [OF sel(2) fit] by blast
  show "\<exists>s' r. normalMode_element buffer endPos tag len bufPos st = Some (s', r) \<and> nm_inv np buffer endPos s' \<and>
      (\<forall>p. r = Ret p \<longrightarrow> bufPos \<le> p \<and> p \<le> endPos)"
  proof (cases "tag = 0xa4 \<or> tag = 0x61")
    case True
    with normalMode_nested [OF *(1) _ *(3)] *(2) st show ?thesis by blast
  next
    case False
    with * c1 c2 st show ?thesis
      using object_inv_selectors [of np buffer endPos self c1] object_inv_selectors [of np buffer endPos self c2]
      by (auto simp: normalMode_element_def nm_inv_def)
  qed
qed

lemma parseNormalModeParameters_ok:
  assumes "bufPos + len \<le> length buffer" and "presentation_ok self"
  shows "parser_ok buffer bufPos (bufPos + len) self (parseNormalModeParameters self buffer len bufPos)"
    and "parseNormalModeParameters self buffer len bufPos = Some (self', Ret p) \<Longrightarrow> payload_in buffer (bufPos + len) self'"
proof -
  define self0 where "self0 = self\<lparr>calledPresentationSelector := (calledPresentationSelector self)\<lparr>sel_size := 0\<rparr>,
                     callingPresentationSelector := (callingPresentationSelector self)\<lparr>sel_size := 0\<rparr>\<rparr>"
  have "nm_inv (nextPayload self) buffer (bufPos + len) (self0, False)"
    using assms(2) by (simp add: nm_inv_def object_inv_def self0_def presentation_ok_def selector_ok_def)
  then have "\<exists>st r. tlv_loop normalMode_element buffer (bufPos + len) bufPos (self0, False) = Some (st, r) \<and>
      nm_inv (nextPayload self) buffer (bufPos + len) st \<and> (\<forall>p. r = Ret p \<longrightarrow> p = bufPos + len)"
    by (intro normalMode.loop_safe [OF assms(1)]) simp_all
  then obtain s' f r where lp: "tlv_loop normalMode_element buffer (bufPos + len) bufPos (self0, False) = Some ((s', f), r)"
    "nm_inv (nextPayload self) buffer (bufPos + len) (s', f)" "\<forall>p. r = Ret p \<longrightarrow> p = bufPos + len" by auto
  then have eq: "parseNormalModeParameters self buffer len bufPos =
      Some (s', case r of Fail \<Rightarrow> Fail | Ret p \<Rightarrow> if f then Ret p else Fail)"
    by (simp add: parseNormalModeParameters_def self0_def Let_def)
  with lp(2,3) show "parser_ok buffer bufPos (bufPos + len) self (parseNormalModeParameters self buffer len bufPos)"
    by (cases r; cases f) (simp_all add: parser_ok_def nm_inv_def object_inv_def)
  assume "parseNormalModeParameters self buffer len bufPos = Some (self', Ret p)"
  with eq lp(2) show "payload_in buffer (bufPos + len) self'"
    by (cases r; cases f) (simp_all add: nm_inv_def)
qed

interpretation acceptMessage: tlv_handler acceptMessage_element "object_inv np" for np
proof
  fix endPos buffer self bufPos len tag
  assume *: "endPos \<le> length buffer" "object_inv np buffer endPos self" "bufPos + len \<le> endPos"
  then have "parser_ok buffer bufPos (bufPos + len) self (parseNormalModeParameters self buffer len bufPos)"
    by (intro parseNormalModeParameters_ok) (auto simp: object_inv_def)
  from parser_ok_object [OF this *(2,3)] *
  show "\<exists>s' r. acceptMessage_element buffer endPos tag len bufPos self = Some (s', r) \<and> object_inv np buffer endPos s' \<and>
      (\<forall>p. r = Ret p \<longrightarrow> bufPos \<le> p \<and> p \<le> endPos)"
    by (simp add: acceptMessage_element_def)
qed

interpretation connectPdu: tlv_handler connect_element "nm_inv np" for np
proof
  fix endPos buffer st bufPos len tag
  assume *: "endPos \<le> length buffer" "nm_inv np buffer endPos st" "bufPos + len \<le> endPos"
  obtain self present where st: "st = (self, present)" by (cases st)
  have fit: "bufPos + len \<le> length buffer" and ok: "presentation_ok self"
    using * by (auto simp: st nm_inv_def object_inv_def)
  obtain s1 p1 where s1: "parseNormalModeParameters self buffer len bufPos = Some (s1, p1)"
    "nm_inv np buffer endPos (s1, present)" "\<And>q. p1 = Ret q \<Longrightarrow> bufPos \<le> q \<and> q \<le> endPos"
    using parser_ok_nm [OF parseNormalModeParameters_ok(1) [OF fit ok] *(2) [unfolded st] *(3)] by auto
  have s1': "nm_inv np buffer endPos (s1, True)" if "p1 = Ret q" for q
    using s1(2) parseNormalModeParameters_ok(2) [OF fit ok, of s1 q] s1(1) that payload_in_mono [OF _ *(3)]
    by (simp add: nm_inv_def)
  show "\<exists>s' r. connect_element buffer endPos tag len bufPos st = Some (s', r) \<and> nm_inv np buffer endPos s' \<and>
      (\<forall>p. r = Ret p \<longrightarrow> bufPos \<le> p \<and> p \<le> endPos)"
  proof (cases "tag = 0xa0 \<and> 0 < len")
    case True
    with fit have rd: "rd buffer bufPos = Some (buffer ! bufPos)" by simp
    from decodeLength_ok [OF *(1), of "Suc bufPos"] show ?thesis
    proof (cases rule: length_okE)
      case 1
      with True rd * show ?thesis by (simp add: connect_element_def st)
    next
      case (2 p l)
      moreover from 2(3) *(1) obtain v where "BerDecoder_decodeUint32 buffer l p = Some v"
        using decodeUint32_safe [of p l buffer] by auto
      ultimately show ?thesis using True rd * by (simp add: connect_element_def st)
    qed
  next
    case False
    with s1 s1' * st show ?thesis by (cases p1) (auto simp: connect_element_def)
  qed
qed

lemma parseUserData_loop_safe:
  assumes "maxBufPos < length buffer"
  shows "\<exists>self' ok. parseUserData_loop buffer maxBufPos bufPos self f = Some (self', ok) \<and>
           callingPresentationSelector self' = callingPresentationSelector self \<and>
           calledPresentationSelector self' = calledPresentationSelector self \<and>
           (if ok then payload_in buffer maxBufPos self' else nextPayload self' = nextPayload self)"
proof (induction "maxBufPos - bufPos" arbitrary: bufPos self f rule: less_induct)
  case less
  note step = parseUserData_loop.simps [of buffer maxBufPos bufPos self f]
  let ?P = "\<lambda>r s. \<exists>s' ok. r = Some (s', ok) \<and> callingPresentationSelector s' = callingPresentationSelector s \<and>
      calledPresentationSelector s' = calledPresentationSelector s \<and>
      (if ok then payload_in buffer maxBufPos s' else nextPayload s' = nextPayload s)"
  show ?case
  proof (cases "bufPos + 1 < maxBufPos")
    case False
    then show ?thesis by (auto simp: step)
  next
    case True
    with assms have rd: "rd buffer bufPos = Some (buffer ! bufPos)" "rd buffer (Suc bufPos) = Some (buffer ! Suc bufPos)"
      by simp_all
    have "maxBufPos \<le> length buffer" using assms by simp
    from decodeLength_ok [OF this, of "Suc bufPos"] show ?thesis
    proof (cases rule: length_okE)
      case 1
      with True rd show ?thesis by (auto simp: step)
    next
      case (2 p l)
      have ih: "?P (parseUserData_loop buffer maxBufPos q s g) s" if "p \<le> q" for q s g
        using less.hyps [of q s g] that 2(2) True by simp
      have rd2: "rd buffer p = Some (buffer ! p)" using 2(3) assms by simp
      have rd3: "rd buffer (Suc p) = Some (buffer ! Suc p)" if "\<not> l < 2" using that 2(3) assms by simp
      define n where "n = (if buffer ! Suc bufPos = 0x80 then l - 2 else l)"
      have "payload_in buffer maxBufPos (self\<lparr>nextPayload := ByteBuffer_wrap buffer p n n\<rparr>)"
        using 2(3) unfolding n_def payload_in_def by (intro exI [of _ p]) (auto simp: ByteBuffer_wrap_def)
      then have payload: "?P (Some (self\<lparr>nextPayload := ByteBuffer_wrap buffer p n n\<rparr>, True)) self" by auto
      have err: "?P (Some (self, False)) self" by auto
      let ?t = "buffer ! bufPos" and ?ok = "\<not> l < 2 \<and> buffer ! p = 0x51 \<and> buffer ! Suc p = 0x01"
      have eq: "parseUserData_loop buffer maxBufPos bufPos self f =
          (if ?t = 0x02 then parseUserData_loop buffer maxBufPos (p + l) (self\<lparr>nextContextId := buffer ! p\<rparr>) True
           else if ?t = 0x06 then
             if ?ok then parseUserData_loop buffer maxBufPos (p + l) self f else Some (self, False)
           else if ?t = 0xa0 then
             if f then Some (self\<lparr>nextPayload := ByteBuffer_wrap buffer p n n\<rparr>, True) else Some (self, False)
           else parseUserData_loop buffer maxBufPos p self f)"
        using True rd 2(1) rd2 rd3 by (simp add: step Let_def n_def)
      have "?P (parseUserData_loop buffer maxBufPos (p + l) (self\<lparr>nextContextId := buffer ! p\<rparr>) True) self"
        using ih [of "p + l" "self\<lparr>nextContextId := buffer ! p\<rparr>" True] by (simp split del: if_split cong: if_cong)
      with ih [of "p + l" self f] ih [of p self f] payload err show ?thesis
        unfolding eq by (simp only: le_add1 order_refl split: if_split) blast
    qed
  qed
qed

subsection \<open>What the encoders write\<close>

definition pdv_header :: "byte \<Rightarrow> nat \<Rightarrow> byte list" where
  "pdv_header contextId n =
     0x30 # ber_length (encodedDataSetLength n) @ [0x02, 0x01, contextId] @ 0xa0 # ber_length n"

definition user_data_header :: "byte \<Rightarrow> nat \<Rightarrow> byte list" where
  "user_data_header contextId n = 0x61 # ber_length (fullyEncodedDataLength n) @ pdv_header contextId n"

lemma pdv_lengths: "pdvListLength n = encodedDataSetLength n" "presentationLength n = fullyEncodedDataLength n"
  by (simp_all add: pdvListLength_def presentationLength_def encodedDataSetLength_def fullyEncodedDataLength_def
      add.commute add.left_commute)

lemma writes_encodeUserData [writer_intros]: "writes (encodeUserData n contextId) (user_data_header contextId n)"
  unfolding encodeUserData_def [abs_def]
  by (rule writes_cong, (rule writer_intros)+, simp add: user_data_header_def pdv_header_def ber_length_small)

lemma writes_encodePdvHeader [writer_intros]: "writes (encodePdvHeader n contextId) (user_data_header contextId n)"
  unfolding encodePdvHeader_def [abs_def]
  by (rule writes_cong, (rule writer_intros)+, simp add: user_data_header_def pdv_header_def pdv_lengths)

text \<open>For payloads up to 65000 bytes (the largest MMS PDU) the announced lengths are exact.\<close>

lemma pdv_sizes:
  assumes "n \<le> 65000"
  shows "length (pdv_header contextId n) + n = fullyEncodedDataLength n"
    and "length (user_data_header contextId n) + n = encodeUserData_length n"
    and "fullyEncodedDataLength n \<le> n + 13" and "encodeUserData_length n \<le> n + 18" and "encodedDataSetLength n \<le> n + 8"
proof -
  have sz: "BerEncoder_determineLengthSize k \<le> 4" for k by (simp add: BerEncoder_determineLengthSize_def)
  show d: "encodedDataSetLength n \<le> n + 8" and f: "fullyEncodedDataLength n \<le> n + 13"
    and "encodeUserData_length n \<le> n + 18"
    using sz [of n] sz [of "encodedDataSetLength n"] sz [of "fullyEncodedDataLength n"]
    by (simp_all add: encodedDataSetLength_def fullyEncodedDataLength_def encodeUserData_length_def)
  have ne: "n \<noteq> 65535" "encodedDataSetLength n \<noteq> 65535" "fullyEncodedDataLength n \<noteq> 65535"
    using assms d f by auto
  show p: "length (pdv_header contextId n) + n = fullyEncodedDataLength n"
    using ne by (simp add: pdv_header_def length_ber_length fullyEncodedDataLength_def encodedDataSetLength_def)
  show "length (user_data_header contextId n) + n = encodeUserData_length n"
    using ne p by (simp add: user_data_header_def length_ber_length encodeUserData_length_def)
qed

interpretation presentation_data: layer_in_place "IsoPresentation_createUserData self" "user_data_header (mmsContextId self)" for self
proof
  fix payload wb
  assume "chain_ok payload" "length (user_data_header (mmsContextId self) (ch_length payload)) \<le> length (ch_buffer wb)"
  from chain_finish_writes [OF writes_encodePdvHeader this]
  show "\<exists>c. IsoPresentation_createUserData self wb payload = Some c \<and> headed c (user_data_header (mmsContextId self) (ch_length payload)) payload \<and> length (ch_buffer c) = length (ch_buffer wb)"
    by (auto simp: IsoPresentation_createUserData_def)
qed

interpretation presentation_acse: layer_in_place "IsoPresentation_createUserDataACSE self" "user_data_header (acseContextId self)" for self
proof
  fix payload wb
  assume "chain_ok payload" "length (user_data_header (acseContextId self) (ch_length payload)) \<le> length (ch_buffer wb)"
  from chain_finish_writes [OF writes_encodePdvHeader this]
  show "\<exists>c. IsoPresentation_createUserDataACSE self wb payload = Some c \<and> headed c (user_data_header (acseContextId self) (ch_length payload)) payload \<and> length (ch_buffer c) = length (ch_buffer wb)"
    by (auto simp: IsoPresentation_createUserDataACSE_def)
qed

definition abort_header :: "byte \<Rightarrow> nat \<Rightarrow> byte list" where
  "abort_header contextId n = 0xa0 # ber_length (encodeUserData_length n) @ user_data_header contextId n"

interpretation presentation_abort: layer_in_place "IsoPresentation_createAbortUserMessage self" "abort_header (acseContextId self)" for self
proof
  fix payload wb
  assume *: "chain_ok payload" "length (abort_header (acseContextId self) (ch_length payload)) \<le> length (ch_buffer wb)"
  have w: "writes (\<lambda>s. do { s \<leftarrow> BerEncoder_encodeTL 0xa0 (encodeUserData_length (ch_length payload)) s;
      encodeUserData (ch_length payload) (acseContextId self) s }) (abort_header (acseContextId self) (ch_length payload))"
    by (rule writes_cong, (rule writer_intros)+, simp add: abort_header_def)
  from chain_finish_writes [OF w *]
  show "\<exists>c. IsoPresentation_createAbortUserMessage self wb payload = Some c \<and> headed c (abort_header (acseContextId self) (ch_length payload)) payload \<and> length (ch_buffer c) = length (ch_buffer wb)"
    by (auto simp: IsoPresentation_createAbortUserMessage_def bind_eq_Some_conv split: prod.splits)
qed

subsection \<open>Parsing what was written\<close>

lemma ucast_down_up: "ucast (ucast (b :: byte) :: 32 word) = b"
  by (rule bit_word_eqI) (simp add: bit_simps)

lemma fullyEncodedData_has:
  assumes n: "n \<le> 65000" and has: "has buffer bufPos (pdv_header contextId n)"
    and fit: "bufPos + fullyEncodedDataLength n \<le> length buffer"
  shows "parseFullyEncodedData self buffer (fullyEncodedDataLength n) bufPos =
           Some (self\<lparr>nextContextId := contextId,
                   nextPayload := (nextPayload self)\<lparr>bb_buffer := drop (bufPos + length (pdv_header contextId n)) buffer, bb_size := n\<rparr>\<rparr>,
                 Ret (bufPos + fullyEncodedDataLength n))"
proof -
  let ?F = "fullyEncodedDataLength n" and ?D = "encodedDataSetLength n"
  define p where "p = bufPos + 1 + length (ber_length ?D)"
  note sz = pdv_sizes [OF n]
  have D: "?D = 4 + length (ber_length n) + n" and F: "?F = 1 + length (ber_length ?D) + ?D"
    using sz(1) [of contextId] n sz(5)
    by (simp_all add: pdv_header_def length_ber_length encodedDataSetLength_def)
  have h: "rd buffer bufPos = Some 0x30" "has buffer (Suc bufPos) (ber_length ?D)" "has buffer p [0x02, 0x01, contextId]"
    "has buffer (p + 3) (0xa0 # ber_length n)"
    using has by (simp_all add: pdv_header_def p_def nat_plus)
  have dec: "BerDecoder_decodeLength buffer (Suc bufPos) (bufPos + ?F) = Some (Ret (p, ?D))"
    using decodeLength_has [OF h(2), of "bufPos + ?F"] sz(5) n F by (simp add: p_def)
  let ?s = "self\<lparr>nextContextId := contextId\<rparr>"
  have "tlv_loop fullyEncodedData_element buffer (p + ?D) p (self, False) =
      tlv_loop fullyEncodedData_element buffer (p + ?D) (p + 3) (?s, False)"
  proof -
    have "BerDecoder_decodeUint32 buffer 1 (p + 2) = Some (of_int (uint contextId))"
      using decodeUint32_has [of buffer "p + 2" "[contextId]"] h(3) by (simp add: nat_plus)
    then show ?thesis
      using h(3) D by (subst tlv_loop_small [where tag = "0x02" and n = 1]) (simp_all add: fullyEncodedData_element_def nat_plus ucast_down_up)
  qed
  also have "\<dots> = Some ((?s\<lparr>nextPayload := (nextPayload self)\<lparr>bb_buffer := drop (p + 3 + 1 + length (ber_length n)) buffer, bb_size := n\<rparr>\<rparr>, True),
      Ret (p + ?D))"
    using h(4) D n by (subst tlv_loop_element [where tag = "0xa0" and n = n]) (simp_all add: fullyEncodedData_element_def tlv_loop_end)
  finally have lp: "tlv_loop fullyEncodedData_element buffer (p + ?D) p (self, False) =
      Some ((?s\<lparr>nextPayload := (nextPayload self)\<lparr>bb_buffer := drop (p + 3 + 1 + length (ber_length n)) buffer, bb_size := n\<rparr>\<rparr>, True),
      Ret (p + ?D))" .
  have e: "bufPos + length (pdv_header contextId n) = p + 3 + 1 + length (ber_length n)" "p + ?D = bufPos + ?F" "\<not> ?F < 1"
    using F by (simp_all add: pdv_header_def p_def)
  show ?thesis
    unfolding parseFullyEncodedData_def e(1) using h(1) dec lp e(3) by (simp add: e(2))
qed

definition acse_entry :: "byte list" where
  "acse_entry = [0x02, 1, 1, 0x06, 4, 0x52, 0x01, 0x00, 0x01, 0x30, 4, 0x06, 2, 0x51, 0x01]"

definition mms_entry :: "byte list" where
  "mms_entry = [0x02, 1, 3, 0x06, 5, 0x28, 0xca, 0x22, 0x02, 0x01, 0x30, 4, 0x06, 2, 0x51, 0x01]"

definition context_entries :: "byte list" where
  "context_entries = [0x30, 15] @ acse_entry @ [0x30, 16] @ mms_entry"

lemma writes_encodeContextList [writer_intros]: "writes encodeContextList ([0xa4, 35] @ context_entries)"
proof -
  have pf: "writes (put_from asn_id_as_acse 0 4) asn_id_as_acse" "writes (put_from ber_id 0 2) ber_id"
    "writes (put_from asn_id_mms 0 5) asn_id_mms"
    by (rule writes_take; simp add: asn_id_as_acse_def ber_id_def asn_id_mms_def)+
  show ?thesis
    unfolding encodeContextList_def [abs_def]
    by (rule writes_cong, (rule writes_bind writes_encodeTL writes_put pf)+)
       (simp add: ber_length_small context_entries_def acse_entry_def mms_entry_def
          asn_id_as_acse_def ber_id_def asn_id_mms_def)
qed

lemma acse_entry_parsed:
  assumes "has buffer pos acse_entry"
  shows "parsePCDLEntry self buffer 15 pos = Some (self\<lparr>acseContextId := 1\<rparr>, Ret (pos + 15))"
proof -
  let ?L = "tlv_loop pcdlEntry_element buffer (pos + 15)"
  note h = assms [unfolded acse_entry_def] has_drop [OF assms, of 2] has_drop [OF assms, of 3]
    has_drop [OF assms, of 5] has_drop [OF assms, of 9]
  have "BerDecoder_decodeUint32 buffer 1 (pos + 2) = Some 1"
    using decodeUint32_has [of buffer "pos + 2" "[1]"] h(2) by (simp add: acse_entry_def)
  then have "?L pos (- 1, False, False) = ?L (pos + 3) (1, False, False)"
    using h(1) by (subst tlv_loop_small [where tag = "0x02" and n = 1]) (simp_all add: pcdlEntry_element_def nat_plus)
  also have "\<dots> = ?L (pos + 9) (1, True, False)"
  proof -
    have "has buffer (pos + 5) asn_id_as_acse" "length asn_id_as_acse = 4"
      using h(4) by (simp_all add: acse_entry_def asn_id_as_acse_def)
    then have "rd_block buffer (pos + 5) 4 = Some asn_id_as_acse"
      using rd_block_has [of buffer "pos + 5" asn_id_as_acse] by simp
    then show ?thesis
      using h(3) by (subst tlv_loop_small [where tag = "0x06" and n = 4]) (simp_all add: pcdlEntry_element_def acse_entry_def add.commute [of pos])
  qed
  also have "\<dots> = Some ((1, True, False), Ret (pos + 15))"
    using h(5) by (subst tlv_loop_small [where tag = "0x30" and n = 4])
      (simp_all add: pcdlEntry_element_def acse_entry_def tlv_loop_end)
  finally show ?thesis by (simp add: parsePCDLEntry_def)
qed

lemma mms_entry_parsed:
  assumes "has buffer pos mms_entry"
  shows "parsePCDLEntry self buffer 16 pos = Some (self\<lparr>mmsContextId := 3\<rparr>, Ret (pos + 16))"
proof -
  let ?L = "tlv_loop pcdlEntry_element buffer (pos + 16)"
  note h = assms [unfolded mms_entry_def] has_drop [OF assms, of 2] has_drop [OF assms, of 3]
    has_drop [OF assms, of 5] has_drop [OF assms, of 10]
  have "BerDecoder_decodeUint32 buffer 1 (pos + 2) = Some 3"
    using decodeUint32_has [of buffer "pos + 2" "[3]"] h(2) by (simp add: mms_entry_def)
  then have "?L pos (- 1, False, False) = ?L (pos + 3) (3, False, False)"
    using h(1) by (subst tlv_loop_small [where tag = "0x02" and n = 1]) (simp_all add: pcdlEntry_element_def nat_plus)
  also have "\<dots> = ?L (pos + 10) (3, False, True)"
  proof -
    have "has buffer (pos + 5) asn_id_mms" "length asn_id_mms = 5"
      using h(4) by (simp_all add: mms_entry_def asn_id_mms_def)
    then have "rd_block buffer (pos + 5) 5 = Some asn_id_mms"
      using rd_block_has [of buffer "pos + 5" asn_id_mms] by simp
    then show ?thesis
      using h(3) by (subst tlv_loop_small [where tag = "0x06" and n = 5]) (simp_all add: pcdlEntry_element_def mms_entry_def add.commute [of pos])
  qed
  also have "\<dots> = Some ((3, False, True), Ret (pos + 16))"
    using h(5) by (subst tlv_loop_small [where tag = "0x30" and n = 4])
      (simp_all add: pcdlEntry_element_def mms_entry_def tlv_loop_end)
  finally show ?thesis by (simp add: parsePCDLEntry_def)
qed

lemma context_entries_parsed:
  assumes "has buffer pos context_entries"
  shows "parsePresentationContextDefinitionList self buffer 35 pos =
           Some (self\<lparr>acseContextId := 1, mmsContextId := 3\<rparr>, Ret (pos + 35))"
proof -
  have len: "length acse_entry = 15" by (simp add: acse_entry_def)
  have h: "has buffer pos [0x30, 15]" "has buffer (pos + 2) acse_entry" "has buffer (pos + 17) [0x30, 16]"
    "has buffer (pos + 19) mms_entry"
    using assms by (simp_all add: context_entries_def len add.commute)
  have "tlv_loop pcdl_element buffer (pos + 35) pos self =
      tlv_loop pcdl_element buffer (pos + 35) (pos + 17) (self\<lparr>acseContextId := 1\<rparr>)"
    using h(1) acse_entry_parsed [OF h(2), of self]
    by (subst tlv_loop_small [where tag = "0x30" and n = 15]) (simp_all add: pcdl_element_def add.commute)
  also have "\<dots> = Some (self\<lparr>acseContextId := 1, mmsContextId := 3\<rparr>, Ret (pos + 35))"
    using h(3) mms_entry_parsed [OF h(4), of "self\<lparr>acseContextId := 1\<rparr>"]
    by (subst tlv_loop_small [where tag = "0x30" and n = 16]) (simp_all add: pcdl_element_def tlv_loop_end add.commute)
  finally show ?thesis by (simp add: parsePresentationContextDefinitionList_def)
qed

lemma presentation_ok_params: "params_ok p \<Longrightarrow>
    presentation_ok (self\<lparr>acseContextId := a, mmsContextId := m, callingPresentationSelector := localPSelector p,
      calledPresentationSelector := remotePSelector p\<rparr>)"
  by (simp add: params_ok_def presentation_ok_def)

definition normal_mode_length :: "IsoPresentation \<Rightarrow> nat \<Rightarrow> nat" where
  "normal_mode_length self n =
     41 + sel_size (callingPresentationSelector self) + sel_size (calledPresentationSelector self) + encodeUserData_length n"

definition normal_parameters :: "IsoPresentation \<Rightarrow> nat \<Rightarrow> byte list" where
  "normal_parameters self n =
     ber_tlv 0x81 (sel_bytes (callingPresentationSelector self)) @ ber_tlv 0x82 (sel_bytes (calledPresentationSelector self)) @
     [0xa4, 35] @ context_entries @ user_data_header (acseContextId self) n"

definition connect_header :: "IsoPresentation \<Rightarrow> nat \<Rightarrow> byte list" where
  "connect_header self n =
     (let N = normal_mode_length self n
      in 0x31 # ber_length (5 + N + (1 + BerEncoder_determineLengthSize N)) @ [0xa0, 3, 0x80, 1, 1] @
         0xa2 # ber_length N @ normal_parameters self n)"

lemma createConnectPdu_eq:
  assumes "presentation_ok self" and "chain_ok payload" and "length (connect_header self (ch_length payload)) \<le> length (ch_buffer wb)"
  shows "\<exists>c. createConnectPdu self wb payload = Some c \<and> headed c (connect_header self (ch_length payload)) payload \<and>
           length (ch_buffer c) = length (ch_buffer wb)"
proof -
  let ?a = "callingPresentationSelector self" and ?b = "calledPresentationSelector self" and ?n = "ch_length payload"
  let ?N = "12 + (27 + sel_size ?a + sel_size ?b) + encodeUserData_length ?n + 2"
  let ?w = "\<lambda>s. do { s \<leftarrow> BerEncoder_encodeTL 0x31 (5 + ?N + (1 + BerEncoder_determineLengthSize ?N)) s;
     s \<leftarrow> BerEncoder_encodeTL 0xa0 3 s; s \<leftarrow> BerEncoder_encodeTL 0x80 1 s; s \<leftarrow> put 1 s;
     s \<leftarrow> BerEncoder_encodeTL 0xa2 ?N s;
     s \<leftarrow> BerEncoder_encodeTL 0x81 (sel_size ?a) s; s \<leftarrow> put_from (sel_value ?a) 0 (sel_size ?a) s;
     s \<leftarrow> BerEncoder_encodeTL 0x82 (sel_size ?b) s; s \<leftarrow> put_from (sel_value ?b) 0 (sel_size ?b) s;
     s \<leftarrow> encodeContextList s; encodeUserData ?n (acseContextId self) s }"
  have sel: "selector_ok 16 ?a" "selector_ok 16 ?b" using assms(1) by (simp_all add: presentation_ok_def)
  have N: "?N = normal_mode_length self ?n" by (simp add: normal_mode_length_def)
  have w: "writes ?w (connect_header self ?n)"
    unfolding N
    by (rule writes_cong, (rule writer_intros writes_selector [OF sel(1)] writes_selector [OF sel(2)])+)
       (simp add: connect_header_def normal_parameters_def Let_def ber_length_small ber_tlv_def
          length_sel_bytes [OF sel(1)] length_sel_bytes [OF sel(2)])
  from chain_finish_writes [OF w assms(2,3)] show ?thesis
    by (auto simp: createConnectPdu_def Let_def bind_eq_Some_conv split: prod.splits)
qed

lemma store_selector_has:
  assumes "has buffer pos (sel_bytes s0)" and "selector_ok 16 s0" and "selector_ok 16 sel"
    and "pos + sel_size s0 \<le> length buffer"
  shows "store_selector buffer pos (sel_size s0) sel = Some (sel_set (sel_bytes s0) sel)"
proof -
  have n: "sel_size s0 \<le> 16" and len: "length (sel_bytes s0) = sel_size s0"
    using assms(2) length_sel_bytes by (auto simp: selector_ok_def)
  have "take (sel_size s0) (drop pos buffer) = sel_bytes s0" using assms(1) by (simp add: has_def len)
  with n assms(3,4) have "memcpy (sel_value sel) 0 buffer pos (sel_size s0) = Some (patch (sel_value sel) 0 (sel_bytes s0))"
    using memcpy_eq [of pos "sel_size s0" buffer 0 "sel_value sel"] by (simp add: selector_ok_def)
  with n show ?thesis by (simp add: store_selector_def sel_set_def len)
qed

lemma length_normal_parameters:
  assumes "presentation_ok self" and "n \<le> 65000"
  shows "length (normal_parameters self n) + n = normal_mode_length self n"
proof -
  have sel: "selector_ok 16 (callingPresentationSelector self)" "selector_ok 16 (calledPresentationSelector self)"
    using assms(1) by (simp_all add: presentation_ok_def)
  have le: "sel_size (callingPresentationSelector self) < 128" "sel_size (calledPresentationSelector self) < 128"
    using sel by (simp_all add: selector_ok_def)
  show ?thesis
    using pdv_sizes(2) [OF assms(2), of "acseContextId self"] le
    by (simp add: normal_parameters_def normal_mode_length_def ber_tlv_def context_entries_def acse_entry_def mms_entry_def
        length_sel_bytes [OF sel(1)] length_sel_bytes [OF sel(2)] ber_length_small)
qed

lemma normalMode_user_data:
  assumes n: "0 < n" "n \<le> 65000" and has: "has buffer p (user_data_header c n)"
    and E: "E = p + encodeUserData_length n" and fit: "E \<le> length buffer"
  shows "tlv_loop normalMode_element buffer E p (s, f) =
           Some ((s\<lparr>nextContextId := c, nextPayload := (nextPayload s)\<lparr>bb_buffer := drop (p + length (user_data_header c n)) buffer,
             bb_size := n\<rparr>\<rparr>, True), Ret E)"
proof -
  let ?F = "fullyEncodedDataLength n" and ?q = "p + 1 + length (ber_length (fullyEncodedDataLength n))"
  have h: "has buffer p (0x61 # ber_length ?F)" "has buffer ?q (pdv_header c n)"
    using has by (simp_all add: user_data_header_def)
  have q: "?q + ?F = E" "?q + length (pdv_header c n) = p + length (user_data_header c n)"
    using pdv_sizes(1,2) [OF n(2), of c] E by (simp_all add: user_data_header_def)
  have "parseFullyEncodedData s buffer ?F ?q = Some (s\<lparr>nextContextId := c, nextPayload := (nextPayload s)\<lparr>bb_buffer :=
      drop (p + length (user_data_header c n)) buffer, bb_size := n\<rparr>\<rparr>, Ret E)"
    using fullyEncodedData_has [OF n(2) h(2), of s] fit unfolding q by simp
  moreover have "?F < 2 ^ 24" using pdv_sizes(3) [OF n(2)] n(2) by simp
  moreover have "?q + ?F \<le> E" using q by simp
  ultimately show ?thesis
    using n(1) by (subst tlv_loop_element [OF h(1)]) (simp_all add: normalMode_element_def tlv_loop_end)
qed

lemma normal_parameters_parsed:
  assumes self: "presentation_ok self" and peer: "presentation_ok peer" and n: "0 < n" "n \<le> 65000"
    and has: "has buffer pos (normal_parameters self n)" and fit: "pos + normal_mode_length self n \<le> length buffer"
  shows "\<exists>peer'. parseNormalModeParameters peer buffer (normal_mode_length self n) pos = Some (peer', Ret (pos + normal_mode_length self n)) \<and>
           sel_bytes (callingPresentationSelector peer') = sel_bytes (callingPresentationSelector self) \<and>
           sel_bytes (calledPresentationSelector peer') = sel_bytes (calledPresentationSelector self) \<and>
           acseContextId peer' = 1 \<and> mmsContextId peer' = 3 \<and> nextContextId peer' = acseContextId self \<and>
           bb_bytes (nextPayload peer') = take n (drop (pos + length (normal_parameters self n)) buffer)"
proof -
  let ?a = "callingPresentationSelector self" and ?b = "calledPresentationSelector self" and ?N = "normal_mode_length self n"
  let ?c = "acseContextId self"
  have sel: "selector_ok 16 ?a" "selector_ok 16 ?b" using self by (simp_all add: presentation_ok_def)
  note la = length_sel_bytes [OF sel(1)] and lb = length_sel_bytes [OF sel(2)]
  have small: "sel_size ?a \<le> 16" "sel_size ?b \<le> 16" using sel by (simp_all add: selector_ok_def)
  define p2 where "p2 = pos + 2 + sel_size ?a"
  define p3 where "p3 = p2 + 2 + sel_size ?b"
  define p4 where "p4 = p3 + 37"
  have ce: "length context_entries = 35" by (simp add: context_entries_def acse_entry_def mms_entry_def)
  have bl: "ber_length (sel_size ?a) = [of_nat (sel_size ?a)]" "ber_length (sel_size ?b) = [of_nat (sel_size ?b)]"
    using small by (simp_all add: ber_length_small)
  have h: "has buffer pos [0x81, of_nat (sel_size ?a)]" "has buffer (pos + 2) (sel_bytes ?a)"
    "has buffer p2 [0x82, of_nat (sel_size ?b)]" "has buffer (p2 + 2) (sel_bytes ?b)"
    "has buffer p3 [0xa4, 35]" "has buffer (p3 + 2) context_entries"
    "has buffer p4 (user_data_header ?c n)"
    using has by (simp_all add: normal_parameters_def ber_tlv_def la lb ce bl p4_def p3_def p2_def add.commute [of pos] add.left_commute [of pos] add.assoc)
  have end4: "pos + ?N = p4 + encodeUserData_length n"
    by (simp add: p4_def p3_def p2_def normal_mode_length_def)
  define s0 where "s0 = peer\<lparr>calledPresentationSelector := (calledPresentationSelector peer)\<lparr>sel_size := 0\<rparr>,
                     callingPresentationSelector := (callingPresentationSelector peer)\<lparr>sel_size := 0\<rparr>\<rparr>"
  define s1 where "s1 = s0\<lparr>callingPresentationSelector := sel_set (sel_bytes ?a) (callingPresentationSelector s0)\<rparr>"
  define s2 where "s2 = s1\<lparr>calledPresentationSelector := sel_set (sel_bytes ?b) (calledPresentationSelector s1)\<rparr>"
  define s3 where "s3 = s2\<lparr>acseContextId := 1, mmsContextId := 3\<rparr>"
  define s4 where "s4 = s3\<lparr>nextContextId := ?c, nextPayload := (nextPayload s3)\<lparr>bb_buffer := drop (p4 + length (user_data_header ?c n)) buffer, bb_size := n\<rparr>\<rparr>"
  have s0: "selector_ok 16 (callingPresentationSelector s0)" "selector_ok 16 (calledPresentationSelector s1)"
    using peer by (simp_all add: s0_def s1_def presentation_ok_def selector_ok_def)
  have E: "pos + 2 + sel_size ?a \<le> pos + ?N" "p2 + 2 + sel_size ?b \<le> pos + ?N" "p3 + 2 + 35 \<le> pos + ?N"
    using end4 by (simp_all add: p4_def p3_def p2_def)
  let ?L = "tlv_loop normalMode_element buffer (pos + ?N)"
  have "?L pos (s0, False) = ?L p2 (s1, False)"
    using store_selector_has [OF h(2) sel(1) s0(1)] E(1) fit small
    by (subst tlv_loop_small [OF h(1) _ E(1)]) (simp_all add: normalMode_element_def s1_def p2_def)
  also have "\<dots> = ?L p3 (s2, False)"
    using store_selector_has [OF h(4) sel(2) s0(2)] E(2) fit small
    by (subst tlv_loop_small [OF h(3) _ E(2)]) (simp_all add: normalMode_element_def s2_def p3_def)
  also have "\<dots> = ?L p4 (s3, False)"
    using context_entries_parsed [OF h(6), of s2] h(5) E(3)
    by (subst tlv_loop_small [where tag = "0xa4" and n = 35]) (simp_all add: normalMode_element_def s3_def p4_def add.commute [of p3])
  also have "\<dots> = Some ((s4, True), Ret (pos + ?N))"
    using normalMode_user_data [OF n h(7) end4 fit, of s3 False] by (simp add: s4_def)
  finally have "parseNormalModeParameters peer buffer ?N pos = Some (s4, Ret (pos + ?N))"
    by (simp add: parseNormalModeParameters_def s0_def Let_def)
  moreover have "sel_bytes (callingPresentationSelector s4) = sel_bytes ?a" "sel_bytes (calledPresentationSelector s4) = sel_bytes ?b"
    using sel_set_ok [OF s0(1), of "sel_bytes ?a"] sel_set_ok [OF s0(2), of "sel_bytes ?b"] small la lb
    by (simp_all add: s4_def s3_def s2_def s1_def)
  moreover have "p4 + length (user_data_header ?c n) = pos + length (normal_parameters self n)"
    using pdv_sizes(2) [OF n(2), of ?c] length_normal_parameters [OF self n(2)] end4 by linarith
  ultimately show ?thesis
    by (intro exI [of _ s4]) (simp add: s4_def s3_def bb_bytes_def)
qed

definition cpa_length :: "nat \<Rightarrow> nat" where
  "cpa_length n = 26 + encodeUserData_length n"

definition cpa_parameters :: "byte \<Rightarrow> nat \<Rightarrow> byte list" where
  "cpa_parameters contextId n =
     [0x83, 4, 0, 0, 0, 1] @ [0xa5, 18, 0x30, 7, 0x80, 1, 0, 0x81, 2, 0x51, 1, 0x30, 7, 0x80, 1, 0, 0x81, 2, 0x51, 1] @
     user_data_header contextId n"

definition cpa_header :: "byte \<Rightarrow> nat \<Rightarrow> byte list" where
  "cpa_header contextId n =
     (let N = cpa_length n
      in 0x31 # ber_length (5 + N + (BerEncoder_determineLengthSize N + 1)) @ [0xa0, 3, 0x80, 1, 1] @
         0xa2 # ber_length N @ cpa_parameters contextId n)"

lemma writes_encodeAcceptBer [writer_intros]: "writes encodeAcceptBer [0x30, 7, 0x80, 1, 0, 0x81, 2, 0x51, 1]"
  unfolding encodeAcceptBer_def [abs_def]
  by (rule writes_cong, (rule writer_intros)+, simp add: ber_length_small)

interpretation presentation_cpa: layer_in_place "IsoPresentation_createCpaMessage self" "cpa_header (acseContextId self)" for self
proof
  fix payload wb
  let ?n = "ch_length payload"
  let ?N = "6 + 20 + encodeUserData_length ?n"
  assume *: "chain_ok payload" "length (cpa_header (acseContextId self) ?n) \<le> length (ch_buffer wb)"
  have pf: "writes (put_from calledPresentationSelector_value 0 4) [0, 0, 0, 1]"
    by (rule writes_take; simp add: calledPresentationSelector_value_def)
  let ?w = "\<lambda>s. do { s \<leftarrow> BerEncoder_encodeTL 0x31 (5 + ?N + (BerEncoder_determineLengthSize ?N + 1)) s;
     s \<leftarrow> BerEncoder_encodeTL 0xa0 3 s; s \<leftarrow> BerEncoder_encodeTL 0x80 1 s; s \<leftarrow> put 1 s;
     s \<leftarrow> BerEncoder_encodeTL 0xa2 ?N s; s \<leftarrow> BerEncoder_encodeTL 0x83 4 s;
     s \<leftarrow> put_from calledPresentationSelector_value 0 4 s; s \<leftarrow> BerEncoder_encodeTL 0xa5 18 s;
     s \<leftarrow> encodeAcceptBer s; s \<leftarrow> encodeAcceptBer s; encodeUserData ?n (acseContextId self) s }"
  have N: "?N = cpa_length ?n" by (simp add: cpa_length_def)
  have w: "writes ?w (cpa_header (acseContextId self) ?n)"
    unfolding N
    by (rule writes_cong, (rule writer_intros pf)+) (simp add: cpa_header_def cpa_parameters_def Let_def ber_length_small)
  from chain_finish_writes [OF w *]
  show "\<exists>c. IsoPresentation_createCpaMessage self wb payload = Some c \<and> headed c (cpa_header (acseContextId self) (ch_length payload)) payload \<and> length (ch_buffer c) = length (ch_buffer wb)"
    by (auto simp: IsoPresentation_createCpaMessage_def Let_def bind_eq_Some_conv split: prod.splits)
qed

lemma length_cpa_parameters: "n \<le> 65000 \<Longrightarrow> length (cpa_parameters contextId n) + n = cpa_length n"
  using pdv_sizes(2) [of n contextId] by (simp add: cpa_parameters_def cpa_length_def)

lemma cpa_parameters_parsed:
  assumes peer: "presentation_ok peer" and n: "0 < n" "n \<le> 65000"
    and has: "has buffer pos (cpa_parameters contextId n)" and fit: "pos + cpa_length n \<le> length buffer"
  shows "\<exists>peer'. parseNormalModeParameters peer buffer (cpa_length n) pos = Some (peer', Ret (pos + cpa_length n)) \<and>
           acseContextId peer' = acseContextId peer \<and> mmsContextId peer' = mmsContextId peer \<and> nextContextId peer' = contextId \<and>
           bb_bytes (nextPayload peer') = take n (drop (pos + length (cpa_parameters contextId n)) buffer)"
proof -
  let ?N = "cpa_length n"
  define p4 where "p4 = pos + 26"
  have h: "has buffer pos [0x83, 4]" "has buffer (pos + 6) [0xa5, 18]" "has buffer p4 (user_data_header contextId n)"
    using has has_drop [OF has, of 6] has_drop [OF has, of 26]
    by (simp_all add: cpa_parameters_def p4_def)
  have end4: "pos + ?N = p4 + encodeUserData_length n" and N: "26 \<le> ?N"
    by (simp_all add: p4_def cpa_length_def)
  define s0 where "s0 = peer\<lparr>calledPresentationSelector := (calledPresentationSelector peer)\<lparr>sel_size := 0\<rparr>,
                     callingPresentationSelector := (callingPresentationSelector peer)\<lparr>sel_size := 0\<rparr>\<rparr>"
  define s4 where "s4 = s0\<lparr>nextContextId := contextId,
      nextPayload := (nextPayload s0)\<lparr>bb_buffer := drop (p4 + length (user_data_header contextId n)) buffer, bb_size := n\<rparr>\<rparr>"
  let ?L = "tlv_loop normalMode_element buffer (pos + ?N)"
  have "?L pos (s0, False) = ?L (pos + 6) (s0, False)"
    using N h(1) by (subst tlv_loop_small [where tag = "0x83" and n = 4]) (simp_all add: normalMode_element_def nat_plus)
  also have "\<dots> = ?L p4 (s0, False)"
    using N h(2) by (subst tlv_loop_small [where tag = "0xa5" and n = 18]) (simp_all add: normalMode_element_def p4_def add.commute [of pos])
  also have "\<dots> = Some ((s4, True), Ret (pos + ?N))"
    using normalMode_user_data [OF n h(3) end4 fit, of s0 False] by (simp add: s4_def)
  finally have "parseNormalModeParameters peer buffer ?N pos = Some (s4, Ret (pos + ?N))"
    by (simp add: parseNormalModeParameters_def s0_def Let_def)
  moreover have "p4 + length (user_data_header contextId n) = pos + length (cpa_parameters contextId n)"
    using pdv_sizes(2) [OF n(2), of contextId] length_cpa_parameters [OF n(2), of contextId] end4 by linarith
  ultimately show ?thesis
    by (intro exI [of _ s4]) (simp add: s4_def s0_def bb_bytes_def)
qed

text \<open>The common frame of the connect and the accept PDU.\<close>

lemma cp_frame:
  assumes ok: "bb_ok m" and N: "N = length params + length dat" "N \<le> 65200"
    and m: "bb_bytes m = 0x31 # ber_length C @ [0xa0, 3, 0x80, 1, 1] @ 0xa2 # ber_length N @ params @ dat"
    and C: "C = 5 + N + (1 + BerEncoder_determineLengthSize N)"
  obtains p1 p3 where "rd (bb_buffer m) 0 = Some 0x31" "BerDecoder_decodeLength (bb_buffer m) 1 (bb_size m) = Some (Ret (p1, C))"
    "has (bb_buffer m) p1 [0xa0, 3, 0x80, 1, 1]" "has (bb_buffer m) (p1 + 5) (0xa2 # ber_length N)"
    "p1 + 5 + 1 + length (ber_length N) = p3" "has (bb_buffer m) p3 params" "p3 + N = bb_size m"
    "take (length dat) (drop (p3 + length params) (bb_buffer m)) = dat" "1 \<le> bb_size m" "p1 + 5 \<le> bb_size m"
proof -
  let ?b = "bb_buffer m"
  define p1 where "p1 = 1 + length (ber_length C)"
  define p3 where "p3 = p1 + 5 + 1 + length (ber_length N)"
  have lN: "length (ber_length N) = BerEncoder_determineLengthSize N" using N(2) by (simp add: length_ber_length)
  have has: "has ?b 0 (0x31 # ber_length C @ [0xa0, 3, 0x80, 1, 1] @ 0xa2 # ber_length N @ params @ dat)"
    using bb_has [OF ok] by (simp only: m)
  then have h: "rd ?b 0 = Some 0x31" "has ?b 1 (ber_length C)" "has ?b p1 [0xa0, 3, 0x80, 1, 1]"
    "has ?b (p1 + 5) (0xa2 # ber_length N)" "has ?b p3 params" "has ?b (p3 + length params) dat"
    by (simp_all add: p1_def p3_def nat_plus)
  have size: "p3 + N = bb_size m"
    using length_bb_bytes [OF ok] N(1) by (simp add: m p3_def p1_def)
  have C': "p1 + C = bb_size m" using size by (simp add: C p3_def lN)
  have "C < 2 ^ 24" using N(2) by (simp add: C BerEncoder_determineLengthSize_def)
  then have dec: "BerDecoder_decodeLength ?b 1 (bb_size m) = Some (Ret (p1, C))"
    using decodeLength_has [OF h(2), of "bb_size m"] C' by (simp add: p1_def)
  have "take (length dat) (drop (p3 + length params) ?b) = dat" using h(6) by (simp add: has_def)
  moreover have "1 \<le> bb_size m" "p1 + 5 \<le> bb_size m" using size by (simp_all add: p3_def)
  ultimately show thesis using that [of p1 p3] h dec size p3_def by simp
qed

lemma connect_mode_selector:
  assumes "has buffer p [0xa0, 3, 0x80, 1, 1]" and "p + 5 \<le> E"
  shows "tlv_loop connect_element buffer E p (s, f) = tlv_loop connect_element buffer E (p + 5) (s, f)"
proof -
  have h: "has buffer p [0xa0, 3]" "rd buffer (p + 2) = Some 0x80" "has buffer (p + 3) (ber_length 1)" "has buffer (p + 4) [1]"
    using assms(1) by (simp_all add: nat_plus ber_length_small)
  have "BerDecoder_decodeLength buffer (Suc (p + 2)) E = Some (Ret (p + 4, 1))"
    using decodeLength_has [OF h(3), of E] assms(2) by (simp add: ber_length_small nat_plus)
  moreover have "BerDecoder_decodeUint32 buffer 1 (p + 4) = Some 1"
    using decodeUint32_has [OF h(4)] by simp
  ultimately show ?thesis
    using h(1,2) assms(2) by (subst tlv_loop_small [where tag = "0xa0" and n = 3])
      (simp_all add: connect_element_def nat_plus)
qed

lemma ber_length_head: "hd (ber_length n) \<noteq> 0x80"
proof (cases "n < 128")
  case True
  then have "unat (of_nat n :: byte) \<noteq> unat (0x80 :: byte)" by (simp add: unat_byte_of_nat)
  with True show ?thesis by (auto simp: ber_length_def)
qed (simp add: ber_length_def)

lemma user_data_parsed:
  assumes ok: "bb_ok m" and m: "bb_bytes m = user_data_header c n @ dat" and n: "n = length dat" "n \<le> 65000"
  shows "IsoPresentation_parseUserData peer m =
           Some (peer\<lparr>nextContextId := c, nextPayload := ByteBuffer_wrap (bb_buffer m) (bb_size m - n) n n\<rparr>, True)"
proof -
  let ?b = "bb_buffer m" and ?M = "bb_size m" and ?F = "fullyEncodedDataLength n" and ?D = "encodedDataSetLength n"
  define q where "q = 1 + length (ber_length ?F)"
  define p where "p = q + 1 + length (ber_length ?D)"
  have has: "has ?b 0 (user_data_header c n @ dat)" using bb_has [OF ok] by (simp only: m)
  then have h: "rd ?b 0 = Some 0x61" "has ?b 1 (ber_length ?F)" "rd ?b q = Some 0x30" "has ?b (Suc q) (ber_length ?D)"
    "has ?b p [0x02, 0x01, c]" "has ?b (p + 3) (0xa0 # ber_length n)"
    by (simp_all add: user_data_header_def pdv_header_def p_def q_def nat_plus)
  have size: "?M = p + 4 + length (ber_length n) + n"
    using length_bb_bytes [OF ok] n(1) by (simp add: m user_data_header_def pdv_header_def p_def q_def)
  have F: "q + ?F = ?M" "p + ?D = ?M" and D: "?D \<le> n + 8" and F': "?F \<le> n + 13"
    using pdv_sizes(1,2) [OF n(2), of c] pdv_sizes(3,5) [OF n(2)] size n(2)
    by (simp_all add: pdv_header_def user_data_header_def p_def q_def length_ber_length encodedDataSetLength_def)
  have ne: "0 < length (ber_length k)" for k by simp
  have M: "\<not> ?M < 9" using size ne [of n] ne [of ?F] ne [of ?D] unfolding p_def q_def by linarith
  have d1: "BerDecoder_decodeLength ?b 1 ?M = Some (Ret (q, ?F))"
    using decodeLength_has [OF h(2), of ?M] F F' n(2) by (simp add: q_def)
  have d2: "BerDecoder_decodeLength ?b (Suc q) ?M = Some (Ret (p, ?D))"
    using decodeLength_has [OF h(4), of ?M] F D n(2) by (simp add: p_def)
  have h5: "rd ?b p = Some 0x02" "rd ?b (Suc p) = Some 1" "has ?b (Suc p) (ber_length 1)" "rd ?b (p + 2) = Some c"
    using h(5) by (simp_all add: ber_length_small nat_plus)
  have d3: "BerDecoder_decodeLength ?b (Suc p) ?M = Some (Ret (p + 2, 1))"
    using decodeLength_has [OF h5(3), of ?M] size by (simp add: ber_length_small nat_plus)
  let ?r = "p + 4 + length (ber_length n)"
  have h6: "has ?b (Suc (p + 3)) (ber_length n)" "rd ?b (p + 3) = Some 0xa0" using h(6) by simp_all
  have d4: "BerDecoder_decodeLength ?b (Suc (p + 3)) ?M = Some (Ret (?r, n))"
    using decodeLength_has [OF h6(1), of ?M] size n(2) by simp
  obtain x xs where x: "ber_length n = x # xs" by (cases "ber_length n") auto
  with h6(1) ber_length_head [of n] have lf: "rd ?b (Suc (p + 3)) = Some x" "x \<noteq> 0x80" by simp_all
  have ltp: "p + 1 < ?M" and ltq: "p + 3 + 1 < ?M" using size ne [of n] by linarith+
  let ?s = "peer\<lparr>nextContextId := c\<rparr>"
  have "parseUserData_loop ?b ?M p peer False = parseUserData_loop ?b ?M (p + 3) ?s True"
    using ltp h5 d3 by (subst parseUserData_loop.simps) (simp add: nat_plus)
  also have "\<dots> = Some (?s\<lparr>nextPayload := ByteBuffer_wrap ?b ?r n n\<rparr>, True)"
    using ltq h6(2) lf d4 by (subst parseUserData_loop.simps) (simp add: Let_def)
  finally have "IsoPresentation_parseUserData peer m = Some (?s\<lparr>nextPayload := ByteBuffer_wrap ?b ?r n n\<rparr>, True)"
    using M h(1,3) d1 d2 by (simp add: IsoPresentation_parseUserData_def)
  moreover have "?r = ?M - n" using size by simp
  ultimately show ?thesis by simp
qed

text \<open>A zeroed presentation object, used in the examples.\<close>

definition presentation_zero :: IsoPresentation where
  "presentation_zero =
     \<lparr>callingPresentationSelector = \<lparr>sel_size = 0, sel_value = replicate 16 0\<rparr>,
      calledPresentationSelector = \<lparr>sel_size = 0, sel_value = replicate 16 0\<rparr>, nextContextId = 0, acseContextId = 0,
      mmsContextId = 0, nextPayload = \<lparr>bb_buffer = [], bb_maxSize = 0, bb_size = 0\<rparr>\<rparr>"

lemma presentation_zero_ok: "presentation_ok presentation_zero"
  by (simp add: presentation_zero_def presentation_ok_def selector_ok_def)

lemma connect_parsers_ok:
  assumes "bb_size message \<le> length (bb_buffer message)" and "presentation_ok self"
  shows "(\<exists>self' ok. IsoPresentation_parseConnect self message = Some (self', ok) \<and> presentation_ok self' \<and>
            (ok \<longrightarrow> payload_in (bb_buffer message) (bb_size message) self')) \<and>
         (\<exists>self' ok. IsoPresentation_parseAcceptMessage self message = Some (self', ok) \<and> presentation_ok self' \<and>
            (nextPayload self' = nextPayload self \<or> payload_in (bb_buffer message) (bb_size message) self'))"
proof (cases "1 \<le> bb_size message \<and> bb_buffer message ! 0 = 0x31")
  case False
  have "IsoPresentation_parseConnect self message = Some (self, False) \<and>
      IsoPresentation_parseAcceptMessage self message = Some (self, False)"
  proof (cases "bb_size message = 0")
    case neq: False
    then have "0 < length (bb_buffer message)" using assms(1) by linarith
    with neq False show ?thesis
      by (simp add: IsoPresentation_parseConnect_def IsoPresentation_parseAcceptMessage_def)
  qed (simp add: IsoPresentation_parseConnect_def IsoPresentation_parseAcceptMessage_def)
  with assms(2) show ?thesis by auto
next
  case True
  let ?b = "bb_buffer message" and ?n = "bb_size message"
  have len: "?n \<le> length ?b" using assms(1) by simp
  moreover from this True have "0 < length ?b" by linarith
  ultimately have rd: "rd ?b 0 = Some 0x31" using True by (simp add: rd_def)
  from decodeLength_ok [OF len, of 1] show ?thesis
  proof (cases rule: length_okE)
    case 1
    with True rd assms(2) show ?thesis
      by (auto simp: IsoPresentation_parseConnect_def IsoPresentation_parseAcceptMessage_def)
  next
    case (2 p l)
    then have p: "p \<le> ?n" by simp
    have "nm_inv (nextPayload self) ?b ?n (self, False)" "object_inv (nextPayload self) ?b ?n self"
      using assms(2) by (simp_all add: nm_inv_def object_inv_def)
    with connectPdu.loop_safe [OF len _ p] acceptMessage.loop_safe [OF len _ p]
    have "\<exists>st r. tlv_loop connect_element ?b ?n p (self, False) = Some (st, r) \<and> nm_inv (nextPayload self) ?b ?n st"
      and "\<exists>s r. tlv_loop acceptMessage_element ?b ?n p self = Some (s, r) \<and> object_inv (nextPayload self) ?b ?n s"
      by blast+
    then show ?thesis
      using True rd 2(1)
      by (auto simp: IsoPresentation_parseConnect_def IsoPresentation_parseAcceptMessage_def nm_inv_def object_inv_def)
  qed
qed

lemma user_data_parser_ok:
  assumes "bb_size message < length (bb_buffer message)"
  shows "\<exists>self' ok. IsoPresentation_parseUserData self message = Some (self', ok) \<and>
           callingPresentationSelector self' = callingPresentationSelector self \<and>
           calledPresentationSelector self' = calledPresentationSelector self \<and>
           (if ok then payload_in (bb_buffer message) (bb_size message) self' else nextPayload self' = nextPayload self)"
proof (cases "9 \<le> bb_size message \<and> bb_buffer message ! 0 = 0x61")
  case False
  have "0 < length (bb_buffer message)" using assms by linarith
  with False have "IsoPresentation_parseUserData self message = Some (self, False)"
    by (auto simp: IsoPresentation_parseUserData_def Let_def)
  then show ?thesis by auto
next
  case True
  let ?b = "bb_buffer message" and ?n = "bb_size message"
  have len: "?n \<le> length ?b" using assms by simp
  have "0 < length ?b" using assms by linarith
  then have rd: "rd ?b 0 = Some 0x61" using True by (simp add: rd_def)
  have rd': "rd ?b p = Some (?b ! p)" if "p \<le> ?n" for p using that assms by simp
  have err: "\<exists>self' ok. Some (self, False) = Some (self', ok) \<and> callingPresentationSelector self' = callingPresentationSelector self \<and>
      calledPresentationSelector self' = calledPresentationSelector self \<and>
      (if ok then payload_in ?b ?n self' else nextPayload self' = nextPayload self)" by auto
  from decodeLength_ok [OF len, of 1] show ?thesis
  proof (cases rule: length_okE)
    case 1
    with True rd err show ?thesis by (simp add: IsoPresentation_parseUserData_def)
  next
    case (2 p l)
    note first = this
    have rdp: "rd ?b p = Some (?b ! p)" using rd' [of p] 2(3) by simp
    show ?thesis
    proof (cases "?b ! p = 0x30")
      case False
      with True rd rdp 2(1) err show ?thesis by (simp add: IsoPresentation_parseUserData_def)
    next
      case eq: True
      from decodeLength_ok [OF len, of "Suc p"] show ?thesis
      proof (cases rule: length_okE)
        case 1
        with True rd rdp eq first(1) err show ?thesis by (simp add: IsoPresentation_parseUserData_def)
      next
        case (2 q k)
        then have "IsoPresentation_parseUserData self message = parseUserData_loop ?b ?n q self False"
          using True rd rdp eq first(1) by (simp add: IsoPresentation_parseUserData_def)
        with parseUserData_loop_safe [OF assms, of q self False] show ?thesis by metis
      qed
    qed
  qed
qed

subsection \<open>Properties\<close>

lemma accept_stale_payload:
  "IsoPresentation_parseAcceptMessage self \<lparr>bb_buffer = [0x31, 0], bb_maxSize = 2, bb_size = 2\<rparr> = Some (self, True)"
proof -
  have "BerDecoder_decodeLength [0x31, 0] 1 2 = Some (Ret (2, 0))" by code_simp
  then show ?thesis
    by (simp add: IsoPresentation_parseAcceptMessage_def tlv_loop.simps [of _ _ 2 2])
qed

text \<open>C28: The parsers for the connect request and the connect response (CPA) of the presentation
  layer are memory safe and terminate on every message, and keep the object well formed. Whenever
  the connect request parser succeeds, the payload handed to ACSE lies inside the message. For the
  response parser this does not hold: it leaves the payload as it was or sets it to a part of the
  message, also when it succeeds, and the first case happens: a response that is only an empty SET
  is accepted with everything, the payload of an earlier message included, as it was.\<close>

theorem presentation_connect_parsers_safe:
  assumes "bb_ok message" and "presentation_ok self"
  shows "(\<exists>self' ok. IsoPresentation_parseConnect self message = Some (self', ok) \<and> presentation_ok self' \<and>
            (ok \<longrightarrow> payload_in (bb_buffer message) (bb_size message) self')) \<and>
         (\<exists>self' ok. IsoPresentation_parseAcceptMessage self message = Some (self', ok) \<and> presentation_ok self' \<and>
            (nextPayload self' = nextPayload self \<or> payload_in (bb_buffer message) (bb_size message) self')) \<and>
         IsoPresentation_parseAcceptMessage self \<lparr>bb_buffer = [0x31, 0], bb_maxSize = 2, bb_size = 2\<rparr> = Some (self, True)"
  using connect_parsers_ok [OF _ assms(2)] assms(1) accept_stale_payload [of self] by (simp add: bb_ok_def)

theorem presentation_connect_parsers_safe_witness:
  "\<exists>self' ok. IsoPresentation_parseConnect
       presentation_zero
       \<lparr>bb_buffer = [0x31, 0x80, 0xa2, 4, 0x81, 0x90, 0, 0], bb_maxSize = 8, bb_size = 8\<rparr> = Some (self', ok) \<and>
     presentation_ok self'"
proof -
  let ?s = "presentation_zero"
  let ?m = "\<lparr>bb_buffer = [0x31, 0x80, 0xa2, 4, 0x81, 0x90, 0, 0], bb_maxSize = 8, bb_size = 8\<rparr>"
  have "bb_ok ?m" "presentation_ok ?s" by (simp_all add: bb_ok_def presentation_zero_ok)
  from presentation_connect_parsers_safe [OF this] show ?thesis by blast
qed

text \<open>C33: Parsing a presentation user data PDU is memory safe and terminates on every message,
  provided that one byte can be read behind the message; on success the payload, with the two
  end-of-contents octets of an indefinite length removed, lies inside the message, and on failure
  the payload is unchanged.\<close>

theorem presentation_user_data_safe:
  assumes "bb_ok message" and "bb_size message < length (bb_buffer message)"
  shows "\<exists>self' ok. IsoPresentation_parseUserData self message = Some (self', ok) \<and>
           (if ok then payload_in (bb_buffer message) (bb_size message) self' else nextPayload self' = nextPayload self)"
  using user_data_parser_ok [OF assms(2)] by blast

theorem presentation_user_data_safe_witness:
  "\<exists>self' ok. IsoPresentation_parseUserData
       presentation_zero
       \<lparr>bb_buffer = [0x61, 7, 0x30, 5, 0x01, 0x81, 0, 0x02, 0, 9], bb_maxSize = 10, bb_size = 9\<rparr> = Some (self', ok)"
  using presentation_user_data_safe [of "\<lparr>bb_buffer = [0x61, 7, 0x30, 5, 0x01, 0x81, 0, 0x02, 0, 9], bb_maxSize = 10, bb_size = 9\<rparr>"
      "presentation_zero"]
  by (auto simp: bb_ok_def)

text \<open>The byte behind the message is really read: a user data PDU whose last element is a
  context identifier of length 0 makes the parser read one byte behind the message, which is
  undefined when the message fills its memory.\<close>

theorem presentation_user_data_overread:
  "IsoPresentation_parseUserData self
     \<lparr>bb_buffer = [0x61, 7, 0x30, 5, 0x01, 0x81, 0, 0x02, 0], bb_maxSize = 9, bb_size = 9\<rparr> = None"
proof -
  let ?b = "[0x61, 7, 0x30, 5, 0x01, 0x81, 0, 0x02, 0] :: byte list"
  have d: "BerDecoder_decodeLength ?b 1 9 = Some (Ret (2, 7))" "BerDecoder_decodeLength ?b 3 9 = Some (Ret (4, 5))"
    "BerDecoder_decodeLength ?b 5 9 = Some (Ret (7, 0))" "BerDecoder_decodeLength ?b 8 9 = Some (Ret (9, 0))" by code_simp+
  have "parseUserData_loop ?b 9 7 self False = None"
    using d(4) by (subst parseUserData_loop.simps) simp
  moreover have "parseUserData_loop ?b 9 4 self False = parseUserData_loop ?b 9 7 self False"
    using d(3) by (subst parseUserData_loop.simps) simp
  ultimately show ?thesis using d(1,2) by (simp add: IsoPresentation_parseUserData_def)
qed

text \<open>C32: An MMS payload of up to 65000 bytes wrapped into a presentation user data PDU is
  unwrapped by the peer to the same payload and the sender's MMS context identifier; an ACSE
  payload likewise with the ACSE context identifier.\<close>

theorem presentation_user_data_roundtrip:
  assumes "chain_ok payload" and "ch_length payload \<le> 65000" and "bb_ok message" and "24 \<le> length (ch_buffer wb)"
    and "IsoPresentation_createUserData self wb payload = Some c \<and> ctx = mmsContextId self \<or>
         IsoPresentation_createUserDataACSE self wb payload = Some c \<and> ctx = acseContextId self"
    and "bb_bytes message = chain_bytes c"
  shows "\<exists>peer'. IsoPresentation_parseUserData peer message = Some (peer', True) \<and> nextContextId peer' = ctx \<and>
           bb_bytes (nextPayload peer') = chain_bytes payload"
proof -
  let ?n = "ch_length payload"
  have n: "?n = length (chain_bytes payload)" using length_chain_bytes [OF assms(1)] by simp
  have "length (user_data_header ctx ?n) \<le> 18"
    using pdv_sizes(2) [OF assms(2), of ctx] pdv_sizes(4) [OF assms(2)] by linarith
  then have "length (user_data_header ctx ?n) \<le> length (ch_buffer wb)" using assms(4) by linarith
  then have bytes: "bb_bytes message = user_data_header ctx ?n @ chain_bytes payload"
    using assms(5,6) presentation_data.create_header [OF assms(1), of self wb]
      presentation_acse.create_header [OF assms(1), of self wb] by auto
  from user_data_parsed [OF assms(3) bytes n assms(2), of peer]
  show ?thesis using suffix_bytes [OF assms(3) bytes, of ?n] n by auto
qed

theorem presentation_user_data_roundtrip_witness:
  "\<exists>c peer'. IsoPresentation_createUserData
       (presentation_zero\<lparr>mmsContextId := 3\<rparr>)
       (BufferChain 0 0 24 (replicate 24 0) None) (BufferChain 2 2 2 [0xa0, 0] None) = Some c \<and>
     IsoPresentation_parseUserData
       (presentation_zero\<lparr>mmsContextId := 3\<rparr>)
       \<lparr>bb_buffer = chain_bytes c, bb_maxSize = length (chain_bytes c), bb_size = length (chain_bytes c)\<rparr> = Some (peer', True) \<and>
     nextContextId peer' = 3 \<and> bb_bytes (nextPayload peer') = [0xa0, 0]"
proof -
  let ?s = "(presentation_zero\<lparr>mmsContextId := 3\<rparr>)"
  let ?wb = "BufferChain 0 0 24 (replicate 24 0) None" and ?d = "BufferChain 2 2 2 [0xa0, 0] None"
  have d: "chain_ok ?d" "ch_length ?d \<le> 65000" by simp_all
  have "length (user_data_header 3 2) \<le> 24"
    using pdv_sizes(2) [of 2 3] pdv_sizes(4) [of 2] by simp
  then obtain c where c: "IsoPresentation_createUserData ?s ?wb ?d = Some c"
    using presentation_data.create_header [OF d(1), of ?s ?wb] by auto
  let ?m = "\<lparr>bb_buffer = chain_bytes c, bb_maxSize = length (chain_bytes c), bb_size = length (chain_bytes c)\<rparr>"
  have "bb_ok ?m" "bb_bytes ?m = chain_bytes c" by (simp_all add: bb_ok_def bb_bytes_def)
  with c presentation_user_data_roundtrip [OF d, of ?m ?wb ?s c 3 ?s] show ?thesis by auto
qed

text \<open>C30: A presentation connect PDU created for well formed parameters is parsed by the peer:
  it finds the calling and called presentation selectors, the context identifiers 1 for ACSE and
  3 for MMS, and exactly the ACSE payload, addressed to the ACSE context.\<close>

theorem presentation_connect_roundtrip:
  assumes "params_ok params" and "chain_ok payload" and "0 < ch_length payload" and "ch_length payload \<le> 65000"
    and "120 \<le> length (ch_buffer wb)" and "IsoPresentation_createConnectPdu self params wb payload = Some (self', c)"
    and "bb_ok message" and "bb_bytes message = chain_bytes c" and "presentation_ok peer"
  shows "\<exists>peer'. IsoPresentation_parseConnect peer message = Some (peer', True) \<and>
           sel_bytes (callingPresentationSelector peer') = sel_bytes (localPSelector params) \<and>
           sel_bytes (calledPresentationSelector peer') = sel_bytes (remotePSelector params) \<and>
           acseContextId peer' = 1 \<and> mmsContextId peer' = 3 \<and> nextContextId peer' = 1 \<and>
           bb_bytes (nextPayload peer') = chain_bytes payload"
proof -
  let ?n = "ch_length payload" and ?b = "bb_buffer message"
  define s where "s = self\<lparr>acseContextId := 1, mmsContextId := 3, callingPresentationSelector := localPSelector params,
      calledPresentationSelector := remotePSelector params\<rparr>"
  let ?N = "normal_mode_length s ?n"
  have s: "presentation_ok s" using presentation_ok_params [OF assms(1)] by (simp add: s_def)
  then have sz: "sel_size (callingPresentationSelector s) \<le> 16" "sel_size (calledPresentationSelector s) \<le> 16"
    by (simp_all add: presentation_ok_def selector_ok_def)
  have n: "?n = length (chain_bytes payload)" using length_chain_bytes [OF assms(2)] by simp
  have N: "?N = length (normal_parameters s ?n) + length (chain_bytes payload)" "?N \<le> ?n + 91"
    using length_normal_parameters [OF s assms(4)] n pdv_sizes(4) [OF assms(4)] sz by (simp_all add: normal_mode_length_def)
  have sizes: "length (ber_length k) \<le> 4" for k by (simp add: ber_length_def)
  have "length (connect_header s ?n) \<le> length (ch_buffer wb)"
    using N n sizes [of ?N] sizes [of "5 + ?N + (1 + BerEncoder_determineLengthSize ?N)"] assms(5)
    unfolding connect_header_def Let_def by simp
  then have bytes: "bb_bytes message = connect_header s ?n @ chain_bytes payload"
    using createConnectPdu_eq [OF s assms(2), of wb] assms(6,8)
    by (auto simp: IsoPresentation_createConnectPdu_def s_def)
  have "?N \<le> 65200" using N(2) assms(4) by simp
  then obtain p1 p3 where f: "rd ?b 0 = Some 0x31"
    "BerDecoder_decodeLength ?b 1 (bb_size message) = Some (Ret (p1, 5 + ?N + (1 + BerEncoder_determineLengthSize ?N)))"
    "has ?b p1 [0xa0, 3, 0x80, 1, 1]" "has ?b (p1 + 5) (0xa2 # ber_length ?N)"
    "p1 + 5 + 1 + length (ber_length ?N) = p3" "has ?b p3 (normal_parameters s ?n)" "p3 + ?N = bb_size message"
    "take (length (chain_bytes payload)) (drop (p3 + length (normal_parameters s ?n)) ?b) = chain_bytes payload"
    "1 \<le> bb_size message" "p1 + 5 \<le> bb_size message"
    using cp_frame [OF assms(7) N(1) _ _ refl] bytes by (auto simp: connect_header_def Let_def)
  have fit: "p3 + ?N \<le> length ?b" using f(7) assms(7) by (simp add: bb_ok_def)
  obtain peer' where p': "parseNormalModeParameters peer ?b ?N p3 = Some (peer', Ret (bb_size message))"
    "sel_bytes (callingPresentationSelector peer') = sel_bytes (localPSelector params)"
    "sel_bytes (calledPresentationSelector peer') = sel_bytes (remotePSelector params)"
    "acseContextId peer' = 1" "mmsContextId peer' = 3" "nextContextId peer' = 1" "bb_bytes (nextPayload peer') = chain_bytes payload"
    using normal_parameters_parsed [OF s assms(9,3,4) f(6) fit] f(7,8) n by (auto simp: s_def)
  have "tlv_loop connect_element ?b (bb_size message) (p1 + 5) (peer, False) = Some ((peer', True), Ret (bb_size message))"
    using p'(1) f(5,7) \<open>?N \<le> 65200\<close>
    by (subst tlv_loop_element [OF f(4)]) (simp_all add: connect_element_def tlv_loop_end)
  with connect_mode_selector [OF f(3,10), of peer False] have "IsoPresentation_parseConnect peer message = Some (peer', True)"
    using f(1,2,9) by (simp add: IsoPresentation_parseConnect_def)
  with p' show ?thesis by blast
qed

theorem presentation_connect_roundtrip_witness:
  "\<exists>params self' c peer'. IsoConnectionParameters_create True = Ret params \<and>
     IsoPresentation_createConnectPdu presentation_zero params (BufferChain 0 0 128 (replicate 128 0) None)
       (BufferChain 2 2 2 [0x60, 0] None) = Some (self', c) \<and>
     IsoPresentation_parseConnect presentation_zero
       \<lparr>bb_buffer = chain_bytes c, bb_maxSize = length (chain_bytes c), bb_size = length (chain_bytes c)\<rparr> = Some (peer', True) \<and>
     bb_bytes (nextPayload peer') = [0x60, 0]"
proof -
  obtain params where p: "IsoConnectionParameters_create True = Ret params"
    by (simp add: IsoConnectionParameters_create_def)
  note pok = params_ok_create [OF p]
  let ?wb = "BufferChain 0 0 128 (replicate 128 0) None" and ?d = "BufferChain 2 2 2 [0x60, 0] None"
  have d: "chain_ok ?d" "0 < ch_length ?d" "ch_length ?d \<le> 65000" by simp_all
  obtain self' c where c: "IsoPresentation_createConnectPdu presentation_zero params ?wb ?d = Some (self', c)"
  proof -
    let ?s = "presentation_zero\<lparr>acseContextId := 1, mmsContextId := 3, callingPresentationSelector := localPSelector params,
      calledPresentationSelector := remotePSelector params\<rparr>"
    have sizes: "length (ber_length k) \<le> 4" for k by (simp add: ber_length_def)
    have ok: "presentation_ok ?s" using presentation_ok_params [OF pok] by simp
    have sel: "sel_size (localPSelector params) \<le> 16" "sel_size (remotePSelector params) \<le> 16"
      using pok by (simp_all add: params_ok_def selector_ok_def)
    have "length (normal_parameters ?s 2) \<le> 100"
      using length_normal_parameters [OF ok, of 2] pdv_sizes(4) [of 2] sel by (simp add: normal_mode_length_def)
    then have "length (connect_header ?s 2) \<le> 128"
      using sizes [of "normal_mode_length ?s 2"]
        sizes [of "5 + normal_mode_length ?s 2 + (BerEncoder_determineLengthSize (normal_mode_length ?s 2) + 1)"]
      unfolding connect_header_def Let_def by simp
    then show thesis
      using createConnectPdu_eq [OF ok d(1), of ?wb] that by (auto simp: IsoPresentation_createConnectPdu_def)
  qed
  let ?m = "\<lparr>bb_buffer = chain_bytes c, bb_maxSize = length (chain_bytes c), bb_size = length (chain_bytes c)\<rparr>"
  have "bb_ok ?m" "bb_bytes ?m = chain_bytes c" by (simp_all add: bb_ok_def bb_bytes_def)
  from presentation_connect_roundtrip [OF pok d _ c this presentation_zero_ok] p c show ?thesis by auto
qed

text \<open>C31: A presentation connect response (CPA) is parsed by the initiator: it finds exactly the
  ACSE payload, addressed to the responder's ACSE context, and keeps its own context
  identifiers.\<close>

theorem presentation_accept_roundtrip:
  assumes "chain_ok payload" and "0 < ch_length payload" and "ch_length payload \<le> 65000"
    and "60 \<le> length (ch_buffer wb)" and "IsoPresentation_createCpaMessage self wb payload = Some c"
    and "bb_ok message" and "bb_bytes message = chain_bytes c" and "presentation_ok peer"
  shows "\<exists>peer'. IsoPresentation_parseAcceptMessage peer message = Some (peer', True) \<and>
           acseContextId peer' = acseContextId peer \<and> mmsContextId peer' = mmsContextId peer \<and>
           nextContextId peer' = acseContextId self \<and> bb_bytes (nextPayload peer') = chain_bytes payload"
proof -
  let ?n = "ch_length payload" and ?b = "bb_buffer message" and ?c = "acseContextId self"
  let ?N = "cpa_length ?n"
  have n: "?n = length (chain_bytes payload)" using length_chain_bytes [OF assms(1)] by simp
  have N: "?N = length (cpa_parameters ?c ?n) + length (chain_bytes payload)" "?N \<le> ?n + 44"
    using length_cpa_parameters [OF assms(3), of ?c] n pdv_sizes(4) [OF assms(3)] by (simp_all add: cpa_length_def)
  have sizes: "length (ber_length k) \<le> 4" for k by (simp add: ber_length_def)
  have "length (cpa_header ?c ?n) \<le> length (ch_buffer wb)"
    using N n sizes [of ?N] sizes [of "5 + ?N + (BerEncoder_determineLengthSize ?N + 1)"] assms(4)
    unfolding cpa_header_def Let_def by simp
  then have bytes: "bb_bytes message = cpa_header ?c ?n @ chain_bytes payload"
    using presentation_cpa.create_header [OF assms(1), of self wb] assms(5,7) by auto
  have small: "?N \<le> 65200" using N(2) assms(3) by simp
  obtain p1 p3 where f: "rd ?b 0 = Some 0x31"
    "BerDecoder_decodeLength ?b 1 (bb_size message) = Some (Ret (p1, 5 + ?N + (1 + BerEncoder_determineLengthSize ?N)))"
    "has ?b p1 [0xa0, 3, 0x80, 1, 1]" "has ?b (p1 + 5) (0xa2 # ber_length ?N)"
    "p1 + 5 + 1 + length (ber_length ?N) = p3" "has ?b p3 (cpa_parameters ?c ?n)" "p3 + ?N = bb_size message"
    "take (length (chain_bytes payload)) (drop (p3 + length (cpa_parameters ?c ?n)) ?b) = chain_bytes payload"
    "1 \<le> bb_size message" "p1 + 5 \<le> bb_size message"
    using cp_frame [OF assms(6) N(1) small _ refl] bytes by (auto simp: cpa_header_def Let_def)
  have fit: "p3 + ?N \<le> length ?b" using f(7) assms(6) by (simp add: bb_ok_def)
  obtain peer' where p': "parseNormalModeParameters peer ?b ?N p3 = Some (peer', Ret (bb_size message))"
    "acseContextId peer' = acseContextId peer" "mmsContextId peer' = mmsContextId peer" "nextContextId peer' = ?c"
    "bb_bytes (nextPayload peer') = chain_bytes payload"
    using cpa_parameters_parsed [OF assms(8,2,3) f(6) fit] f(7,8) n by auto
  have "tlv_loop acceptMessage_element ?b (bb_size message) (p1 + 5) peer = Some (peer', Ret (bb_size message))"
    using p'(1) f(5,7) small by (subst tlv_loop_element [OF f(4)]) (simp_all add: acceptMessage_element_def tlv_loop_end)
  moreover have "tlv_loop acceptMessage_element ?b (bb_size message) p1 peer =
      tlv_loop acceptMessage_element ?b (bb_size message) (p1 + 5) peer"
    using f(3,10) by (subst tlv_loop_small [where tag = "0xa0" and n = 3]) (simp_all add: acceptMessage_element_def nat_plus)
  ultimately have "IsoPresentation_parseAcceptMessage peer message = Some (peer', True)"
    using f(1,2,9) by (simp add: IsoPresentation_parseAcceptMessage_def)
  with p' show ?thesis by blast
qed

theorem presentation_accept_roundtrip_witness:
  "\<exists>c peer'. IsoPresentation_createCpaMessage (presentation_zero\<lparr>acseContextId := 1\<rparr>) (BufferChain 0 0 64 (replicate 64 0) None)
       (BufferChain 2 2 2 [0x61, 0] None) = Some c \<and>
     IsoPresentation_parseAcceptMessage presentation_zero
       \<lparr>bb_buffer = chain_bytes c, bb_maxSize = length (chain_bytes c), bb_size = length (chain_bytes c)\<rparr> = Some (peer', True) \<and>
     nextContextId peer' = 1 \<and> bb_bytes (nextPayload peer') = [0x61, 0]"
proof -
  let ?wb = "BufferChain 0 0 64 (replicate 64 0) None" and ?d = "BufferChain 2 2 2 [0x61, 0] None"
    and ?s = "presentation_zero\<lparr>acseContextId := 1\<rparr>"
  have d: "chain_ok ?d" "0 < ch_length ?d" "ch_length ?d \<le> 65000" by simp_all
  have sizes: "length (ber_length k) \<le> 4" for k by (simp add: ber_length_def)
  have "length (cpa_parameters 1 2) \<le> 44"
    using length_cpa_parameters [of 2 1] pdv_sizes(4) [of 2] by (simp add: cpa_length_def)
  then have "length (cpa_header 1 2) \<le> 64"
    using sizes [of "cpa_length 2"] sizes [of "5 + cpa_length 2 + (BerEncoder_determineLengthSize (cpa_length 2) + 1)"]
    unfolding cpa_header_def Let_def by simp
  then obtain c where c: "IsoPresentation_createCpaMessage ?s ?wb ?d = Some c"
    using presentation_cpa.create_header [OF d(1), of ?s ?wb] by auto
  let ?m = "\<lparr>bb_buffer = chain_bytes c, bb_maxSize = length (chain_bytes c), bb_size = length (chain_bytes c)\<rparr>"
  have "bb_ok ?m" "bb_bytes ?m = chain_bytes c" by (simp_all add: bb_ok_def bb_bytes_def)
  from presentation_accept_roundtrip [OF d _ c this presentation_zero_ok] c show ?thesis by auto
qed

end
