(* ===== verification/Acse.thy ===== *)
theory Acse
  imports Tlv_Loop Connection_Parameters
begin

unbundle bit_operations_syntax

section \<open>The association control service\<close>

text \<open>
  Model of \<open>src/mms/iso_acse/acse.c\<close> in the build without TLS. The element loops are instances
  of \<open>tlv_loop\<close>; a pointer into the message (\<open>userDataBuffer\<close>, \<open>authMechanism\<close>, \<open>authValue\<close>) is
  the rest of the message from there on, \<open>None\<close> is \<open>NULL\<close>. The authenticator is a callback of the
  application: an argument of the model, a function from the authentication parameter and the
  application reference to its verdict, the security token (an opaque pointer) and the
  application reference it leaves behind. The union in the authentication parameter is
  represented by its password variant; the certificate variant has the same layout.
  The theorems show that the parser is memory safe and terminates, that what the creators write
  is parsed back, and that the authenticator's verdict on the transmitted password decides.
\<close>

subsection \<open>State\<close>

datatype AcseConnectionState = idle | requestIndicated | connected

datatype AcseIndication =
  ACSE_ERROR | ACSE_ASSOCIATE | ACSE_ASSOCIATE_FAILED | ACSE_OK | ACSE_ABORT | ACSE_RELEASE_REQUEST | ACSE_RELEASE_RESPONSE

record IsoApplicationReference =
  apTitle :: ItuObjectIdentifier
  aeQualifier :: int

type_synonym AcseAuthenticator =
  "AcseAuthenticationParameter \<Rightarrow> IsoApplicationReference \<Rightarrow> bool \<times> nat option \<times> IsoApplicationReference"

record AcseConnection =
  acse_state :: AcseConnectionState
  nextReference :: "64 word"
  userDataBuffer :: "byte list option"
  userDataBufferSize :: nat
  authenticator :: "AcseAuthenticator option"
  applicationReference :: IsoApplicationReference
  securityToken :: "nat option"

definition appContextNameMms :: "byte list" where
  "appContextNameMms = [0x28, 0xca, 0x22, 0x02, 0x03]"

definition auth_mech_password_oid :: "byte list" where
  "auth_mech_password_oid = [0x52, 0x03, 0x01]"

definition requirements_authentication :: "byte list" where
  "requirements_authentication = [0x80]"

text \<open>The fields \<open>authentication\<close> and \<open>securityToken\<close> are not touched by the initialisation.\<close>

definition AcseConnection_init :: "AcseConnection \<Rightarrow> AcseAuthenticator option \<Rightarrow> AcseConnection" where
  "AcseConnection_init self a =
     self\<lparr>acse_state := idle, nextReference := 0, userDataBuffer := None, userDataBufferSize := 0, authenticator := a,
          applicationReference := \<lparr>apTitle = \<lparr>arc = replicate 10 0, arcCount = 0\<rparr>, aeQualifier = 0\<rparr>\<rparr>"

subsection \<open>Authentication\<close>

definition checkAuthMechanismName :: "byte list option \<Rightarrow> nat \<Rightarrow> AcseAuthenticationMechanism option" where
  "checkAuthMechanismName authMechanism authMechLen =
     (case authMechanism of
        None \<Rightarrow> Some ACSE_AUTH_NONE
      | Some m \<Rightarrow>
          if authMechLen = 3 then do {
            bs \<leftarrow> rd_block m 0 3;
            Some (if auth_mech_password_oid = bs then ACSE_AUTH_PASSWORD else ACSE_AUTH_NONE) }
          else Some ACSE_AUTH_NONE)"

text \<open>For other mechanisms the value of the parameter is not initialised by the code; the model
  has no value there.\<close>

definition authenticateClient ::
  "AcseConnection \<Rightarrow> AcseAuthenticator \<Rightarrow> AcseAuthenticationMechanism \<Rightarrow> byte list option \<Rightarrow> nat \<Rightarrow> AcseConnection \<times> bool" where
  "authenticateClient self auth mech authValue authValueLen =
     (let authParameter =
        (if mech = ACSE_AUTH_PASSWORD then \<lparr>mechanism = mech, octetString = authValue, passwordLength = authValueLen\<rparr>
         else if mech = ACSE_AUTH_TLS then \<lparr>mechanism = mech, octetString = authValue, passwordLength = authValueLen\<rparr>
         else \<lparr>mechanism = mech, octetString = None, passwordLength = 0\<rparr>)
      in case auth authParameter (applicationReference self) of
           (verdict, token, appReference) \<Rightarrow>
             (self\<lparr>securityToken := token, applicationReference := appReference\<rparr>, verdict))"

definition checkAuthentication ::
  "AcseConnection \<Rightarrow> byte list option \<Rightarrow> nat \<Rightarrow> byte list option \<Rightarrow> nat \<Rightarrow> (AcseConnection \<times> bool) option" where
  "checkAuthentication self authMechanism authMechLen authValue authValueLen =
     (let self = self\<lparr>securityToken := None\<rparr> in
      case authenticator self of
        Some auth \<Rightarrow> do {
          mech \<leftarrow> checkAuthMechanismName authMechanism authMechLen;
          Some (authenticateClient self auth mech authValue authValueLen) }
      | None \<Rightarrow> Some (self, True))"

subsection \<open>Parsing\<close>

text \<open>The local flags of \<open>parseUserInformation\<close> are \<open>hasindirectReference\<close> and \<open>isDataValid\<close>.\<close>

definition userInformation_element :: "(AcseConnection \<times> bool \<times> bool) handler" where
  "userInformation_element buffer maxBufPos tag len bufPos st =
     (case st of (self, hasindirectReference, isDataValid) \<Rightarrow>
       if maxBufPos < bufPos + len then Some (st, Fail)
       else if len = 0 then Some (st, Ret bufPos)
       else if tag = 0x02 then do {
         v \<leftarrow> BerDecoder_decodeUint32 buffer len bufPos;
         Some ((self\<lparr>nextReference := ucast v\<rparr>, True, isDataValid), Ret (bufPos + len)) }
       else if tag = 0xa0 then
         Some ((self\<lparr>userDataBufferSize := len, userDataBuffer := Some (drop bufPos buffer)\<rparr>, hasindirectReference, True),
               Ret (bufPos + len))
       else Some (st, Ret (bufPos + len)))"

definition parseUserInformation ::
  "AcseConnection \<Rightarrow> byte list \<Rightarrow> nat \<Rightarrow> nat \<Rightarrow> ((AcseConnection \<times> bool) \<times> nat ret) option" where
  "parseUserInformation self buffer bufPos maxBufPos = do {
     ((self, hasindirectReference, isDataValid), r) \<leftarrow>
       tlv_loop userInformation_element buffer maxBufPos bufPos (self, False, False);
     (case r of
        Fail \<Rightarrow> Some ((self, False), Fail)
      | Ret bufPos \<Rightarrow> Some ((self, hasindirectReference \<and> isDataValid), Ret bufPos)) }"

text \<open>The \<open>case 0xbe\<close> of the two PDU parsers.\<close>

definition userInformation_case ::
  "AcseConnection \<Rightarrow> bool \<Rightarrow> byte list \<Rightarrow> nat \<Rightarrow> nat \<Rightarrow> nat \<Rightarrow> ((AcseConnection \<times> bool) \<times> nat ret) option" where
  "userInformation_case self userInfoValid buffer maxBufPos len bufPos = do {
     b \<leftarrow> rd buffer bufPos;
     if b \<noteq> 0x28 then Some ((self, userInfoValid), Ret (bufPos + len))
     else do {
       r \<leftarrow> BerDecoder_decodeLength buffer (Suc bufPos) maxBufPos;
       (case r of
          Fail \<Rightarrow> Some ((self, userInfoValid), Fail)
        | Ret (bufPos, len) \<Rightarrow> parseUserInformation self buffer bufPos (bufPos + len)) } }"

definition aare_element :: "(AcseConnection \<times> bool \<times> 32 word) handler" where
  "aare_element buffer maxBufPos tag len bufPos st =
     (case st of (self, userInfoValid, result) \<Rightarrow>
       if len = 0 then Some (st, Ret bufPos)
       else if maxBufPos < bufPos + len then Some (st, Fail)
       else if tag = 0xa1 then Some (st, Ret (bufPos + len))
       else if tag = 0xa2 then do {
         r \<leftarrow> BerDecoder_decodeLength buffer (Suc bufPos) maxBufPos;
         (case r of
            Fail \<Rightarrow> Some (st, Fail)
          | Ret (bufPos, len) \<Rightarrow> do {
              v \<leftarrow> BerDecoder_decodeUint32 buffer len bufPos;
              Some ((self, userInfoValid, v), Ret (bufPos + len)) }) }
       else if tag = 0xa3 then Some (st, Ret (bufPos + len))
       else if tag = 0xbe then do {
         ((self, userInfoValid), r) \<leftarrow> userInformation_case self userInfoValid buffer maxBufPos len bufPos;
         Some ((self, userInfoValid, result), r) }
       else if tag = 0x00 then Some (st, Ret bufPos)
       else Some (st, Ret (bufPos + len)))"

definition parseAarePdu :: "AcseConnection \<Rightarrow> byte list \<Rightarrow> nat \<Rightarrow> nat \<Rightarrow> (AcseConnection \<times> AcseIndication) option" where
  "parseAarePdu self buffer bufPos maxBufPos = do {
     ((self, userInfoValid, result), r) \<leftarrow> tlv_loop aare_element buffer maxBufPos bufPos (self, False, 99);
     (case r of
        Fail \<Rightarrow> Some (self, ACSE_ERROR)
      | Ret _ \<Rightarrow>
          if \<not> userInfoValid then Some (self, ACSE_ERROR)
          else if result \<noteq> 0 then Some (self, ACSE_ASSOCIATE_FAILED)
          else Some (self, ACSE_ASSOCIATE)) }"

text \<open>The local variables of \<open>parseAarqPdu\<close>.\<close>

record aarq_locals =
  authValue :: "byte list option"
  authValueLen :: nat
  authMechanism :: "byte list option"
  authMechLen :: nat
  userInfoValid :: bool

definition aarq_element :: "(AcseConnection \<times> aarq_locals) handler" where
  "aarq_element buffer maxBufPos tag len bufPos st =
     (case st of (self, v) \<Rightarrow>
       if len = 0 then Some (st, Ret bufPos)
       else if maxBufPos < bufPos + len then Some (st, Fail)
       else if tag = 0xa1 then Some (st, Ret (bufPos + len))
       else if tag = 0xa2 then Some (st, Ret (bufPos + len))
       else if tag = 0xa3 then Some (st, Ret (bufPos + len))
       else if tag = 0xa6 then do {
         form2 \<leftarrow> (if 2 \<le> len then do { b \<leftarrow> rd buffer bufPos; Some (b = 0x06) } else Some False);
         if form2 then do {
           n \<leftarrow> rd buffer (bufPos + 1);
           if unat n = len - 2 then do {
             oid \<leftarrow> BerDecoder_decodeOID buffer (bufPos + 2) (unat n);
             Some ((self\<lparr>applicationReference := (applicationReference self)\<lparr>apTitle := oid\<rparr>\<rparr>, v), Ret (bufPos + len)) }
           else Some (st, Ret (bufPos + len)) }
         else Some (st, Ret (bufPos + len)) }
       else if tag = 0xa7 then do {
         form2 \<leftarrow> (if 2 \<le> len then do { b \<leftarrow> rd buffer bufPos; Some (b = 0x02) } else Some False);
         if form2 then do {
           n \<leftarrow> rd buffer (bufPos + 1);
           if unat n = len - 2 then do {
             q \<leftarrow> BerDecoder_decodeInt32 buffer (unat n) (bufPos + 2);
             Some ((self\<lparr>applicationReference := (applicationReference self)\<lparr>aeQualifier := sint q\<rparr>\<rparr>, v), Ret (bufPos + len)) }
           else Some (st, Ret (bufPos + len)) }
         else Some (st, Ret (bufPos + len)) }
       else if tag = 0x8a then Some (st, Ret (bufPos + len))
       else if tag = 0x8b then
         Some ((self, v\<lparr>authMechLen := len, authMechanism := Some (drop bufPos buffer)\<rparr>), Ret (bufPos + len))
       else if tag = 0xac then do {
         r \<leftarrow> BerDecoder_decodeLength buffer (Suc bufPos) maxBufPos;
         (case r of
            Fail \<Rightarrow> Some (st, Fail)
          | Ret (bufPos, len) \<Rightarrow>
              Some ((self, v\<lparr>authValueLen := len, authValue := Some (drop bufPos buffer)\<rparr>), Ret (bufPos + len))) }
       else if tag = 0xbe then do {
         ((self, valid), r) \<leftarrow> userInformation_case self (userInfoValid v) buffer maxBufPos len bufPos;
         Some ((self, v\<lparr>userInfoValid := valid\<rparr>), r) }
       else if tag = 0x00 then Some (st, Ret bufPos)
       else Some (st, Ret (bufPos + len)))"

definition parseAarqPdu :: "AcseConnection \<Rightarrow> byte list \<Rightarrow> nat \<Rightarrow> nat \<Rightarrow> (AcseConnection \<times> AcseIndication) option" where
  "parseAarqPdu self buffer bufPos maxBufPos = do {
     ((self, v), r) \<leftarrow> tlv_loop aarq_element buffer maxBufPos bufPos
        (self, \<lparr>authValue = None, authValueLen = 0, authMechanism = None, authMechLen = 0, userInfoValid = False\<rparr>);
     (case r of
        Fail \<Rightarrow> Some (self, ACSE_ASSOCIATE_FAILED)
      | Ret _ \<Rightarrow> do {
          (self, ok) \<leftarrow> checkAuthentication self (authMechanism v) (authMechLen v) (authValue v) (authValueLen v);
          if \<not> ok then Some (self, ACSE_ASSOCIATE_FAILED)
          else if \<not> userInfoValid v then Some (self, ACSE_ASSOCIATE_FAILED)
          else Some (self, ACSE_ASSOCIATE) }) }"

definition AcseConnection_parseMessage ::
  "AcseConnection \<Rightarrow> ByteBuffer option \<Rightarrow> (AcseConnection \<times> AcseIndication) option" where
  "AcseConnection_parseMessage self message =
     (case message of
        None \<Rightarrow> Some (self, ACSE_ERROR)
      | Some message \<Rightarrow>
          if bb_size message < 1 then Some (self, ACSE_ERROR)
          else do {
            let buffer = bb_buffer message;
            messageType \<leftarrow> rd buffer 0;
            r \<leftarrow> BerDecoder_decodeLength buffer 1 (bb_size message);
            (case r of
               Fail \<Rightarrow> Some (self, ACSE_ERROR)
             | Ret (bufPos, len) \<Rightarrow>
                 if messageType = 0x60 then parseAarqPdu self buffer bufPos (bufPos + len)
                 else if messageType = 0x61 then parseAarePdu self buffer bufPos (bufPos + len)
                 else if messageType = 0x62 then Some (self, ACSE_RELEASE_REQUEST)
                 else if messageType = 0x63 then Some (self, ACSE_RELEASE_RESPONSE)
                 else if messageType = 0x64 then Some (self, ACSE_ABORT)
                 else Some (self, ACSE_ERROR)) })"

subsection \<open>Creating messages\<close>

text \<open>A missing payload fails the assertion at the start of the function.\<close>

definition AcseConnection_createAssociateResponseMessage ::
  "AcseConnection \<Rightarrow> byte \<Rightarrow> bufferChain \<Rightarrow> bufferChain option \<Rightarrow> bufferChain option" where
  "AcseConnection_createAssociateResponseMessage self acseResult writeBuffer payload = do {
     payload \<leftarrow> payload;
     let fixedContentLength = 9 + 5 + 5;
     let payloadLength = ch_length payload;
     nextRefLength \<leftarrow> BerEncoder_UInt32determineEncodedSize (ucast (nextReference self));
     let assocDataLength = payloadLength + 1 + BerEncoder_determineLengthSize payloadLength + nextRefLength + 2;
     let userInfoLength = assocDataLength + BerEncoder_determineLengthSize assocDataLength + 1;
     let variableContentLength = userInfoLength + BerEncoder_determineLengthSize userInfoLength + 1 + 2;
     let contentLength = fixedContentLength + variableContentLength;
     s \<leftarrow> BerEncoder_encodeTL 0x61 contentLength (ch_buffer writeBuffer, 0);
     s \<leftarrow> BerEncoder_encodeTL 0xa1 7 s;
     s \<leftarrow> BerEncoder_encodeTL 0x06 5 s;
     s \<leftarrow> put_from appContextNameMms 0 5 s;
     s \<leftarrow> BerEncoder_encodeTL 0xa2 3 s;
     s \<leftarrow> BerEncoder_encodeTL 0x02 1 s;
     s \<leftarrow> put acseResult s;
     s \<leftarrow> BerEncoder_encodeTL 0xa3 5 s;
     s \<leftarrow> BerEncoder_encodeTL 0xa1 3 s;
     s \<leftarrow> BerEncoder_encodeTL 0x02 1 s;
     s \<leftarrow> put 0 s;
     s \<leftarrow> BerEncoder_encodeTL 0xbe userInfoLength s;
     s \<leftarrow> BerEncoder_encodeTL 0x28 assocDataLength s;
     s \<leftarrow> BerEncoder_encodeTL 0x02 nextRefLength s;
     s \<leftarrow> BerEncoder_encodeUInt32 (ucast (nextReference self)) s;
     (buffer, bufPos) \<leftarrow> BerEncoder_encodeTL 0xa0 payloadLength s;
     Some (chain_finish writeBuffer buffer bufPos payload) }"

definition AcseConnection_createAssociateFailedMessage :: "AcseConnection \<Rightarrow> bufferChain \<Rightarrow> bufferChain option" where
  "AcseConnection_createAssociateFailedMessage self writeBuffer =
     AcseConnection_createAssociateResponseMessage self 1 writeBuffer None"

text \<open>The AP title and AE qualifier of the called and of the calling side.\<close>

definition apTitle_length :: "nat \<Rightarrow> int \<Rightarrow> (nat \<times> nat) option" where
  "apTitle_length titleLen qualifier =
     (if 0 < titleLen then do {
        qualifierLength \<leftarrow> BerEncoder_UInt32determineEncodedSize (of_int qualifier);
        Some (4 + titleLen + (4 + qualifierLength), qualifierLength) }
      else Some (0, 0))"

definition encodeApTitle :: "byte \<Rightarrow> byte \<Rightarrow> byte list \<Rightarrow> nat \<Rightarrow> int \<Rightarrow> nat \<Rightarrow> writer" where
  "encodeApTitle titleTag qualifierTag title titleLen qualifier qualifierLength s =
     (if 0 < titleLen then do {
        s \<leftarrow> BerEncoder_encodeTL titleTag (titleLen + 2) s;
        s \<leftarrow> BerEncoder_encodeTL 0x06 titleLen s;
        s \<leftarrow> put_from title 0 titleLen s;
        s \<leftarrow> BerEncoder_encodeTL qualifierTag (qualifierLength + 2) s;
        s \<leftarrow> BerEncoder_encodeTL 0x02 qualifierLength s;
        BerEncoder_encodeUInt32 (of_int qualifier) s }
      else Some s)"

text \<open>The authentication part: its contribution to the announced length, and the bytes.\<close>

definition authLength :: "AcseAuthenticationParameter option \<Rightarrow> nat" where
  "authLength authParameter =
     (case authParameter of
        None \<Rightarrow> 0
      | Some a \<Rightarrow>
          4 + 5 +
          (if mechanism a = ACSE_AUTH_PASSWORD then
             let authValueStringLength = BerEncoder_determineLengthSize (passwordLength a) in
             2 + (passwordLength a + authValueStringLength) +
             BerEncoder_determineLengthSize (passwordLength a + authValueStringLength + 1)
           else 2))"

definition encodeAuth :: "AcseAuthenticationParameter option \<Rightarrow> writer" where
  "encodeAuth authParameter s =
     (case authParameter of
        None \<Rightarrow> Some s
      | Some a \<Rightarrow> do {
          s \<leftarrow> BerEncoder_encodeTL 0x8a 2 s;
          s \<leftarrow> put 0x04 s;
          if mechanism a = ACSE_AUTH_PASSWORD then do {
            s \<leftarrow> put_from requirements_authentication 0 1 s;
            s \<leftarrow> BerEncoder_encodeTL 0x8b 3 s;
            s \<leftarrow> put_from auth_mech_password_oid 0 3 s;
            s \<leftarrow> BerEncoder_encodeTL 0xac (BerEncoder_determineLengthSize (passwordLength a) + passwordLength a + 1) s;
            s \<leftarrow> BerEncoder_encodeTL 0x80 (passwordLength a) s;
            (case octetString a of
               None \<Rightarrow> if passwordLength a = 0 then Some s else None
             | Some p \<Rightarrow> put_from p 0 (passwordLength a) s) }
          else put 0 s })"

definition AcseConnection_createAssociateRequestMessage ::
  "IsoConnectionParameters \<Rightarrow> bufferChain \<Rightarrow> bufferChain \<Rightarrow> AcseAuthenticationParameter option \<Rightarrow> bufferChain option" where
  "AcseConnection_createAssociateRequestMessage isoParameters writeBuffer payload authParameter = do {
     let payloadLength = ch_length payload;
     (calledLength, calledAEQualifierLength) \<leftarrow> apTitle_length (remoteApTitleLen isoParameters) (remoteAEQualifier isoParameters);
     (callingLength, callingAEQualifierLength) \<leftarrow> apTitle_length (localApTitleLen isoParameters) (localAEQualifier isoParameters);
     let assocDataLength = payloadLength + 1 + BerEncoder_determineLengthSize payloadLength + 1 + 2;
     let userInfoLen = assocDataLength + BerEncoder_determineLengthSize assocDataLength + 1;
     let contentLength = 9 + calledLength + callingLength + authLength authParameter +
           (userInfoLen + BerEncoder_determineLengthSize userInfoLen + 1);
     s \<leftarrow> BerEncoder_encodeTL 0x60 contentLength (ch_buffer writeBuffer, 0);
     s \<leftarrow> BerEncoder_encodeTL 0xa1 7 s;
     s \<leftarrow> BerEncoder_encodeTL 0x06 5 s;
     s \<leftarrow> put_from appContextNameMms 0 5 s;
     s \<leftarrow> encodeApTitle 0xa2 0xa3 (remoteApTitle isoParameters) (remoteApTitleLen isoParameters)
           (remoteAEQualifier isoParameters) calledAEQualifierLength s;
     s \<leftarrow> encodeApTitle 0xa6 0xa7 (localApTitle isoParameters) (localApTitleLen isoParameters)
           (localAEQualifier isoParameters) callingAEQualifierLength s;
     s \<leftarrow> encodeAuth authParameter s;
     s \<leftarrow> BerEncoder_encodeTL 0xbe userInfoLen s;
     s \<leftarrow> BerEncoder_encodeTL 0x28 assocDataLength s;
     s \<leftarrow> BerEncoder_encodeTL 0x02 1 s;
     s \<leftarrow> put 3 s;
     (buffer, bufPos) \<leftarrow> BerEncoder_encodeTL 0xa0 payloadLength s;
     Some (chain_finish writeBuffer buffer bufPos payload) }"

text \<open>The short messages set \<open>partLength\<close> and \<open>length\<close> to a constant and have no payload.\<close>

definition AcseConnection_createAbortMessage :: "bufferChain \<Rightarrow> bool \<Rightarrow> bufferChain option" where
  "AcseConnection_createAbortMessage writeBuffer isProvider = do {
     buffer \<leftarrow> wr (ch_buffer writeBuffer) 0 0x64;
     buffer \<leftarrow> wr buffer 1 3;
     buffer \<leftarrow> wr buffer 2 0x80;
     buffer \<leftarrow> wr buffer 3 1;
     buffer \<leftarrow> wr buffer 4 (if isProvider then 1 else 0);
     Some (BufferChain 5 5 (ch_partMaxLength writeBuffer) buffer None) }"

definition AcseConnection_createReleaseRequestMessage :: "bufferChain \<Rightarrow> bufferChain option" where
  "AcseConnection_createReleaseRequestMessage writeBuffer = do {
     buffer \<leftarrow> wr (ch_buffer writeBuffer) 0 0x62;
     buffer \<leftarrow> wr buffer 1 3;
     buffer \<leftarrow> wr buffer 2 0x80;
     buffer \<leftarrow> wr buffer 3 1;
     buffer \<leftarrow> wr buffer 4 0;
     Some (BufferChain 5 5 (ch_partMaxLength writeBuffer) buffer None) }"

definition AcseConnection_createReleaseResponseMessage :: "bufferChain \<Rightarrow> bufferChain option" where
  "AcseConnection_createReleaseResponseMessage writeBuffer = do {
     buffer \<leftarrow> wr (ch_buffer writeBuffer) 0 0x63;
     buffer \<leftarrow> wr buffer 1 0;
     Some (BufferChain 2 2 (ch_partMaxLength writeBuffer) buffer None) }"

subsection \<open>The parser is safe\<close>

text \<open>The user data lies inside the first \<open>endPos\<close> bytes of the buffer and is not empty.\<close>

definition user_data_in :: "byte list \<Rightarrow> nat \<Rightarrow> AcseConnection \<Rightarrow> bool" where
  "user_data_in buffer endPos self \<longleftrightarrow>
     (\<exists>off. userDataBuffer self = Some (drop off buffer) \<and> off + userDataBufferSize self \<le> endPos \<and> 0 < userDataBufferSize self)"

lemma user_data_in_mono: "user_data_in buffer n self \<Longrightarrow> n \<le> m \<Longrightarrow> user_data_in buffer m self"
  unfolding user_data_in_def by (meson le_trans)

lemma user_data_in_cong:
  "userDataBuffer self = userDataBuffer self' \<Longrightarrow> userDataBufferSize self = userDataBufferSize self' \<Longrightarrow>
   user_data_in buffer n self = user_data_in buffer n self'"
  by (simp add: user_data_in_def)

text \<open>What the element loops keep: the authenticator \<open>a\<close>, and user data that are the old ones
  \<open>old\<close> or lie in the range, and do lie in the range once they are reported valid.\<close>

definition acse_inv ::
  "AcseAuthenticator option \<Rightarrow> byte list option \<times> nat \<Rightarrow> byte list \<Rightarrow> nat \<Rightarrow> AcseConnection \<Rightarrow> bool \<Rightarrow> bool" where
  "acse_inv a old buffer endPos self valid \<longleftrightarrow>
     authenticator self = a \<and>
     ((userDataBuffer self, userDataBufferSize self) = old \<or> user_data_in buffer endPos self) \<and>
     (valid \<longrightarrow> user_data_in buffer endPos self)"

lemma acse_inv_simps [simp]:
  "acse_inv a old buffer n (self\<lparr>nextReference := r\<rparr>) v = acse_inv a old buffer n self v"
  "acse_inv a old buffer n (self\<lparr>applicationReference := q\<rparr>) v = acse_inv a old buffer n self v"
  by (simp_all add: acse_inv_def user_data_in_def)

lemma acse_inv_trans:
  assumes "acse_inv a old buffer endPos self v"
    and "acse_inv (authenticator self) (userDataBuffer self, userDataBufferSize self) buffer n self' w" and "n \<le> endPos"
  shows "acse_inv a old buffer endPos self' w"
  using assms user_data_in_mono [of buffer n self' endPos] user_data_in_cong [of self' self buffer endPos]
  unfolding acse_inv_def by auto

interpretation userInformation: tlv_handler userInformation_element
  "\<lambda>buffer endPos (self, r, d). acse_inv a old buffer endPos self d" for a old
proof
  fix endPos buffer and st :: "AcseConnection \<times> bool \<times> bool" and bufPos len and tag :: byte
  assume *: "endPos \<le> length buffer" "case st of (self, r, d) \<Rightarrow> acse_inv a old buffer endPos self d" "bufPos + len \<le> endPos"
  then obtain v where v: "BerDecoder_decodeUint32 buffer len bufPos = Some v"
    using decodeUint32_safe [of bufPos len buffer] by auto
  have "0 < len \<Longrightarrow> acse_inv (authenticator self) old buffer endPos
      (self\<lparr>userDataBufferSize := len, userDataBuffer := Some (drop bufPos buffer)\<rparr>) b" for self b
    using *(3) by (auto simp: acse_inv_def user_data_in_def)
  moreover obtain self r d where st: "st = (self, r, d)" by (cases st)
  moreover from this *(2) have "authenticator self = a" by (simp add: acse_inv_def)
  ultimately show "\<exists>s' r. userInformation_element buffer endPos tag len bufPos st = Some (s', r) \<and>
      (case s' of (self, r, d) \<Rightarrow> acse_inv a old buffer endPos self d) \<and> (\<forall>p. r = Ret p \<longrightarrow> bufPos \<le> p \<and> p \<le> endPos)"
    using * v by (auto simp: userInformation_element_def)
qed

lemma parseUserInformation_ok:
  assumes "maxBufPos \<le> length buffer" and "bufPos \<le> maxBufPos"
  shows "\<exists>self' v r. parseUserInformation self buffer bufPos maxBufPos = Some ((self', v), r) \<and>
           acse_inv (authenticator self) (userDataBuffer self, userDataBufferSize self) buffer maxBufPos self' v \<and>
           (\<forall>p. r = Ret p \<longrightarrow> p = maxBufPos)"
proof -
  let ?old = "(userDataBuffer self, userDataBufferSize self)" and ?a = "authenticator self"
  have "case (self, False, False) of (self, r, d) \<Rightarrow> acse_inv ?a ?old buffer maxBufPos self d" by (simp add: acse_inv_def)
  from userInformation.loop_safe [OF assms(1) this assms(2)]
  obtain self' ref d r where lp: "tlv_loop userInformation_element buffer maxBufPos bufPos (self, False, False) = Some ((self', ref, d), r)"
    "acse_inv ?a ?old buffer maxBufPos self' d" "\<forall>p. r = Ret p \<longrightarrow> p = maxBufPos" by auto
  then show ?thesis by (cases r) (auto simp: parseUserInformation_def acse_inv_def)
qed

lemma userInformation_case_ok:
  assumes "maxBufPos \<le> length buffer" and "bufPos + len \<le> maxBufPos" and "0 < len"
    and "acse_inv a old buffer maxBufPos self v"
  shows "\<exists>self' v' r. userInformation_case self v buffer maxBufPos len bufPos = Some ((self', v'), r) \<and>
           acse_inv a old buffer maxBufPos self' v' \<and> (\<forall>p. r = Ret p \<longrightarrow> bufPos \<le> p \<and> p \<le> maxBufPos)"
proof (cases "buffer ! bufPos = 0x28")
  case False
  with assms show ?thesis by (simp add: userInformation_case_def)
next
  case True
  with assms have rd: "rd buffer bufPos = Some 0x28" by simp
  from decodeLength_ok [OF assms(1), of "Suc bufPos"] show ?thesis
  proof (cases rule: length_okE)
    case 1
    with rd assms(4) show ?thesis by (simp add: userInformation_case_def)
  next
    case (2 p l)
    with assms(1) parseUserInformation_ok [of "p + l" buffer p self]
    obtain self' v' r where u: "parseUserInformation self buffer p (p + l) = Some ((self', v'), r)"
      "acse_inv (authenticator self) (userDataBuffer self, userDataBufferSize self) buffer (p + l) self' v'"
      "\<forall>q. r = Ret q \<longrightarrow> q = p + l" by auto
    from acse_inv_trans [OF assms(4) u(2) 2(3)] u(1,3) 2 rd show ?thesis
      by (auto simp: userInformation_case_def)
  qed
qed

lemma userInformation_case_step:
  assumes "maxBufPos \<le> length buffer" and "bufPos + len \<le> maxBufPos" and "0 < len"
    and "acse_inv a old buffer maxBufPos self v"
    and "\<And>self v. acse_inv a old buffer maxBufPos self v \<Longrightarrow> P (g self v)"
  shows "step_ok P bufPos maxBufPos
           (userInformation_case self v buffer maxBufPos len bufPos \<bind> (\<lambda>((self, v), r). Some (g self v, r)))"
  using userInformation_case_ok [OF assms(1-4)] assms(5) by (fastforce simp: step_ok_def)

interpretation aare: tlv_handler aare_element
  "\<lambda>buffer endPos (self, v, res). acse_inv a old buffer endPos self v" for a old
proof
  fix endPos buffer and st :: "AcseConnection \<times> bool \<times> 32 word" and bufPos len and tag :: byte
  let ?P = "\<lambda>(self, v, res). acse_inv a old buffer endPos self v"
  assume *: "endPos \<le> length buffer" "?P st" "bufPos + len \<le> endPos"
  obtain self v res where st: "st = (self, v, res)" by (cases st)
  with *(2) have inv: "acse_inv a old buffer endPos self v" by simp
  have "step_ok ?P bufPos endPos (aare_element buffer endPos tag len bufPos st)"
    unfolding aare_element_def st prod.case
    by (intro step_intros userInformation_case_step [OF *(1,3) _ inv]) (use * inv in auto)
  then show "\<exists>s' r. aare_element buffer endPos tag len bufPos st = Some (s', r) \<and> ?P s' \<and>
      (\<forall>p. r = Ret p \<longrightarrow> bufPos \<le> p \<and> p \<le> endPos)"
    by (simp add: step_ok_def)
qed

lemma decodeOID_total: "p + n \<le> length buffer \<Longrightarrow> \<exists>oid. BerDecoder_decodeOID buffer p n = Some oid"
proof (cases "n = 0")
  case True
  assume "p + n \<le> length buffer"
  with True decodeOID_loop_safe [of p buffer "replicate 10 0" 0 p] show ?thesis
    by (auto simp: BerDecoder_decodeOID_def Let_def)
next
  case False
  assume le: "p + n \<le> length buffer"
  let ?arcs = "(replicate 10 0)[0 := ucast (buffer ! p div 40), Suc 0 := ucast (buffer ! p mod 40)]"
  from le obtain oid where "decodeOID_loop buffer (Suc p) (p + n) ?arcs 2 = Some oid"
    using decodeOID_loop_safe [of "p + n" buffer ?arcs 2 "Suc p"] by auto
  with False le show ?thesis by (simp add: BerDecoder_decodeOID_def Let_def)
qed

lemma decodeInt32_total: "p + n \<le> length buffer \<Longrightarrow> \<exists>v. BerDecoder_decodeInt32 buffer n p = Some v"
  using decodeInt32_loop_has [OF has_take, of p n buffer]
  by (auto simp: BerDecoder_decodeInt32_def min_absorb2 Let_def)

lemma step_test:
  assumes "n \<le> len \<Longrightarrow> 0 < n \<Longrightarrow> i < length buffer" and "0 < n"
    and "\<And>t. (t \<Longrightarrow> n \<le> len) \<Longrightarrow> step_ok P bufPos endPos (f t)"
  shows "step_ok P bufPos endPos ((if n \<le> len then do { b \<leftarrow> rd buffer i; Some (b = c) } else Some False) \<bind> f)"
  using assms by simp

text \<open>A pointer into the message together with a length is good for that many bytes.\<close>

definition ptr_ok :: "byte list option \<Rightarrow> nat \<Rightarrow> bool" where
  "ptr_ok p n \<longleftrightarrow> (\<forall>bs. p = Some bs \<longrightarrow> n \<le> length bs)"

definition aarq_inv ::
  "AcseAuthenticator option \<Rightarrow> byte list option \<times> nat \<Rightarrow> byte list \<Rightarrow> nat \<Rightarrow> AcseConnection \<times> aarq_locals \<Rightarrow> bool" where
  "aarq_inv a old buffer endPos = (\<lambda>(self, v).
     acse_inv a old buffer endPos self (userInfoValid v) \<and>
     ptr_ok (authMechanism v) (authMechLen v) \<and> ptr_ok (authValue v) (authValueLen v))"

lemma aarq_inv_pair: "aarq_inv a old buffer endPos (self, v) \<longleftrightarrow>
    acse_inv a old buffer endPos self (userInfoValid v) \<and>
    ptr_ok (authMechanism v) (authMechLen v) \<and> ptr_ok (authValue v) (authValueLen v)"
  by (simp add: aarq_inv_def)

interpretation aarq: tlv_handler aarq_element "aarq_inv a old" for a old
proof
  fix endPos buffer and st :: "AcseConnection \<times> aarq_locals" and bufPos len and tag :: byte
  let ?P = "aarq_inv a old buffer endPos"
  assume *: "endPos \<le> length buffer" "?P st" "bufPos + len \<le> endPos"
  obtain self v where st: "st = (self, v)" by (cases st)
  with *(2) have inv: "acse_inv a old buffer endPos self (userInfoValid v)" by (simp add: aarq_inv_pair)
  have "step_ok ?P bufPos endPos (aarq_element buffer endPos tag len bufPos st)"
    unfolding aarq_element_def st prod.case
    by (intro step_intros step_test userInformation_case_step [OF *(1,3) _ inv]
          step_bind [OF decodeOID_total] step_bind [OF decodeInt32_total])
       (use * st in \<open>auto simp: aarq_inv_pair ptr_ok_def\<close>)
  then show "\<exists>s' r. aarq_element buffer endPos tag len bufPos st = Some (s', r) \<and> ?P s' \<and>
      (\<forall>p. r = Ret p \<longrightarrow> bufPos \<le> p \<and> p \<le> endPos)"
    by (simp add: step_ok_def)
qed

lemma checkAuthMechanismName_total: "ptr_ok m n \<Longrightarrow> \<exists>k. checkAuthMechanismName m n = Some k"
  by (cases m) (auto simp: checkAuthMechanismName_def ptr_ok_def rd_block_eq)

lemma checkAuthentication_ok:
  assumes "ptr_ok m n" and "acse_inv a old buffer endPos self v"
  shows "\<exists>self' ok. checkAuthentication self m n x k = Some (self', ok) \<and> acse_inv a old buffer endPos self' v"
  using checkAuthMechanismName_total [OF assms(1)] assms(2)
  by (auto simp: checkAuthentication_def authenticateClient_def acse_inv_def user_data_in_def Let_def
      split: option.splits prod.splits)

definition pdu_ok :: "AcseAuthenticator option \<Rightarrow> byte list option \<times> nat \<Rightarrow> byte list \<Rightarrow> nat \<Rightarrow> (AcseConnection \<times> AcseIndication) option \<Rightarrow> bool" where
  "pdu_ok a old buffer endPos x \<longleftrightarrow> (\<exists>self ind. x = Some (self, ind) \<and> acse_inv a old buffer endPos self (ind = ACSE_ASSOCIATE))"

lemma acse_inv_weaken: "acse_inv a old buffer n self v \<Longrightarrow> n \<le> m \<Longrightarrow> (w \<Longrightarrow> v) \<Longrightarrow> acse_inv a old buffer m self w"
  using user_data_in_mono by (auto simp: acse_inv_def)

lemma parseAarePdu_ok:
  assumes "maxBufPos \<le> length buffer" and "bufPos \<le> maxBufPos" and "acse_inv a old buffer maxBufPos self False"
  shows "pdu_ok a old buffer maxBufPos (parseAarePdu self buffer bufPos maxBufPos)"
proof -
  have "case (self, False, 99 :: 32 word) of (self, v, res) \<Rightarrow> acse_inv a old buffer maxBufPos self v" using assms(3) by simp
  from aare.loop_safe [OF assms(1) this assms(2)] obtain self' v res r where
    "tlv_loop aare_element buffer maxBufPos bufPos (self, False, 99) = Some ((self', v, res), r)"
    "acse_inv a old buffer maxBufPos self' v" by auto
  then show ?thesis
    by (cases r) (auto simp: parseAarePdu_def pdu_ok_def intro: acse_inv_weaken)
qed

lemma parseAarqPdu_ok:
  assumes "maxBufPos \<le> length buffer" and "bufPos \<le> maxBufPos" and "acse_inv a old buffer maxBufPos self False"
  shows "pdu_ok a old buffer maxBufPos (parseAarqPdu self buffer bufPos maxBufPos)"
proof -
  let ?v = "\<lparr>authValue = None, authValueLen = 0, authMechanism = None, authMechLen = 0, userInfoValid = False\<rparr>"
  have "aarq_inv a old buffer maxBufPos (self, ?v)" using assms(3) by (simp add: aarq_inv_pair ptr_ok_def)
  from aarq.loop_safe [OF assms(1) this assms(2)] obtain self' v r where
    lp: "tlv_loop aarq_element buffer maxBufPos bufPos (self, ?v) = Some ((self', v), r)"
    and inv: "acse_inv a old buffer maxBufPos self' (userInfoValid v)" and m: "ptr_ok (authMechanism v) (authMechLen v)"
    by (auto simp: aarq_inv_pair)
  from checkAuthentication_ok [OF m inv, of "authValue v" "authValueLen v"] obtain self2 ok where
    "checkAuthentication self' (authMechanism v) (authMechLen v) (authValue v) (authValueLen v) = Some (self2, ok)"
    "acse_inv a old buffer maxBufPos self2 (userInfoValid v)" by auto
  with lp inv show ?thesis
    by (cases r) (auto simp: parseAarqPdu_def pdu_ok_def intro: acse_inv_weaken)
qed

lemma parseMessage_ok:
  assumes m: "bb_size message \<le> length (bb_buffer message)"
  shows "pdu_ok (authenticator self) (userDataBuffer self, userDataBufferSize self) (bb_buffer message) (bb_size message)
           (AcseConnection_parseMessage self (Some message))"
proof -
  let ?a = "authenticator self" and ?old = "(userDataBuffer self, userDataBufferSize self)"
  have inv: "acse_inv ?a ?old buffer n self False" for buffer n by (simp add: acse_inv_def)
  have none: "pdu_ok ?a ?old buffer n (Some (self, ind))" if "ind \<noteq> ACSE_ASSOCIATE" for buffer n ind
    using that inv by (simp add: pdu_ok_def)
  show ?thesis
  proof (cases "bb_size message < 1")
    case True
    then show ?thesis by (simp add: AcseConnection_parseMessage_def none)
  next
    case False
    with m have rd: "rd (bb_buffer message) 0 = Some (bb_buffer message ! 0)" by (intro rd_Some) linarith
    from decodeLength_ok [OF m, of 1] show ?thesis
    proof (cases rule: length_okE)
      case 1
      with False rd show ?thesis by (simp add: AcseConnection_parseMessage_def none)
    next
      case (2 p l)
      with m have le: "p + l \<le> length (bb_buffer message)" by simp
      have "pdu_ok ?a ?old (bb_buffer message) (p + l) (parseAarqPdu self (bb_buffer message) p (p + l))"
        "pdu_ok ?a ?old (bb_buffer message) (p + l) (parseAarePdu self (bb_buffer message) p (p + l))"
        by (intro parseAarqPdu_ok parseAarePdu_ok le inv le_add1)+
      then have "pdu_ok ?a ?old (bb_buffer message) (bb_size message) (parseAarqPdu self (bb_buffer message) p (p + l))"
        "pdu_ok ?a ?old (bb_buffer message) (bb_size message) (parseAarePdu self (bb_buffer message) p (p + l))"
        using 2(3) acse_inv_weaken unfolding pdu_ok_def by blast+
      with False rd 2(1) show ?thesis by (simp add: AcseConnection_parseMessage_def none Let_def)
    qed
  qed
qed

subsection \<open>What the creators write\<close>

text \<open>The user information element that carries the payload: \<open>ref\<close> are the contents octets of the
  indirect reference, \<open>n\<close> is the length of the payload.\<close>

definition assoc_length :: "nat \<Rightarrow> nat \<Rightarrow> nat" where
  "assoc_length k n = n + 1 + BerEncoder_determineLengthSize n + k + 2"

definition user_info_length :: "nat \<Rightarrow> nat \<Rightarrow> nat" where
  "user_info_length k n = assoc_length k n + BerEncoder_determineLengthSize (assoc_length k n) + 1"

definition assoc_data :: "byte list \<Rightarrow> nat \<Rightarrow> byte list" where
  "assoc_data ref n = 0x28 # ber_length (assoc_length (length ref) n) @ 0x02 # ber_length (length ref) @ ref @ 0xa0 # ber_length n"

definition user_info :: "byte list \<Rightarrow> nat \<Rightarrow> byte list" where
  "user_info ref n = 0xbe # ber_length (user_info_length (length ref) n) @ assoc_data ref n"

definition context_name :: "byte list" where
  "context_name = [0xa1, 7, 0x06, 5, 0x28, 0xca, 0x22, 0x02, 0x03]"

definition aare_header :: "byte list \<Rightarrow> byte \<Rightarrow> nat \<Rightarrow> byte list" where
  "aare_header ref result n =
     0x61 # ber_length (21 + (user_info_length (length ref) n + BerEncoder_determineLengthSize (user_info_length (length ref) n) + 1)) @
     context_name @ [0xa2, 3, 0x02, 1, result] @ [0xa3, 5, 0xa1, 3, 0x02, 1, 0] @ user_info ref n"

lemma user_info_sizes:
  assumes "n \<le> 65000" and "length ref \<le> 5"
  shows "length (assoc_data ref n) + n = user_info_length (length ref) n"
    and "length (user_info ref n) + n =
           user_info_length (length ref) n + BerEncoder_determineLengthSize (user_info_length (length ref) n) + 1"
    and "user_info_length (length ref) n \<le> n + 17" and "assoc_length (length ref) n \<le> n + 12"
proof -
  have sz: "BerEncoder_determineLengthSize k \<le> 4" for k by (simp add: BerEncoder_determineLengthSize_def)
  show a: "assoc_length (length ref) n \<le> n + 12" and u: "user_info_length (length ref) n \<le> n + 17"
    using sz [of n] sz [of "assoc_length (length ref) n"] assms(2) by (simp_all add: user_info_length_def assoc_length_def)
  have ne: "n \<noteq> 65535" "assoc_length (length ref) n \<noteq> 65535" "user_info_length (length ref) n \<noteq> 65535"
    using assms(1) a u by auto
  show d: "length (assoc_data ref n) + n = user_info_length (length ref) n"
    using ne assms(2) by (simp add: assoc_data_def length_ber_length user_info_length_def assoc_length_def ber_length_small)
  show "length (user_info ref n) + n =
      user_info_length (length ref) n + BerEncoder_determineLengthSize (user_info_length (length ref) n) + 1"
    using ne d by (simp add: user_info_def length_ber_length)
qed

lemma writes_context_name: "writes (put_from appContextNameMms 0 5) appContextNameMms"
  by (rule writes_take) (simp_all add: appContextNameMms_def)

interpretation acse_response: layer_in_place "\<lambda>wb payload. AcseConnection_createAssociateResponseMessage self result wb (Some payload)"
  "aare_header (ber_uint32 (ucast (nextReference self))) result" for self result
proof
  fix payload wb
  let ?n = "ch_length payload" and ?ref = "ber_uint32 (ucast (nextReference self))"
  let ?A = "assoc_length (length ?ref) ?n" and ?U = "user_info_length (length ?ref) ?n"
  assume *: "chain_ok payload" "length (aare_header ?ref result ?n) \<le> length (ch_buffer wb)"
  let ?w = "\<lambda>s. do {
     s \<leftarrow> BerEncoder_encodeTL 0x61 (9 + 5 + 5 + (?U + BerEncoder_determineLengthSize ?U + 1 + 2)) s;
     s \<leftarrow> BerEncoder_encodeTL 0xa1 7 s; s \<leftarrow> BerEncoder_encodeTL 0x06 5 s; s \<leftarrow> put_from appContextNameMms 0 5 s;
     s \<leftarrow> BerEncoder_encodeTL 0xa2 3 s; s \<leftarrow> BerEncoder_encodeTL 0x02 1 s; s \<leftarrow> put result s;
     s \<leftarrow> BerEncoder_encodeTL 0xa3 5 s; s \<leftarrow> BerEncoder_encodeTL 0xa1 3 s; s \<leftarrow> BerEncoder_encodeTL 0x02 1 s; s \<leftarrow> put 0 s;
     s \<leftarrow> BerEncoder_encodeTL 0xbe ?U s; s \<leftarrow> BerEncoder_encodeTL 0x28 ?A s;
     s \<leftarrow> BerEncoder_encodeTL 0x02 (length ?ref) s; s \<leftarrow> BerEncoder_encodeUInt32 (ucast (nextReference self)) s;
     BerEncoder_encodeTL 0xa0 ?n s }"
  have w: "writes ?w (aare_header ?ref result ?n)"
    by (rule writes_cong, (rule writer_intros writes_context_name)+)
       (simp add: aare_header_def user_info_def assoc_data_def context_name_def appContextNameMms_def ber_length_small)
  from chain_finish_writes [OF w *]
  show "\<exists>c. AcseConnection_createAssociateResponseMessage self result wb (Some payload) = Some c \<and> headed c (aare_header ?ref result (ch_length payload)) payload \<and> length (ch_buffer c) = length (ch_buffer wb)"
    by (auto simp: AcseConnection_createAssociateResponseMessage_def Let_def bind_eq_Some_conv UInt32determineEncodedSize_eq
        user_info_length_def assoc_length_def split: prod.splits)
qed

subsection \<open>What the parser makes of it\<close>

text \<open>The connection after valid user information with reference \<open>ref\<close> in front of \<open>n\<close> bytes at
  position \<open>q\<close>.\<close>

definition with_user_data :: "byte list \<Rightarrow> nat \<Rightarrow> nat \<Rightarrow> byte list \<Rightarrow> AcseConnection \<Rightarrow> AcseConnection" where
  "with_user_data ref n q buffer self =
     self\<lparr>nextReference := ucast (of_int (uval (take 4 ref)) :: 32 word), userDataBufferSize := n,
          userDataBuffer := Some (drop q buffer)\<rparr>"

lemma user_info_parsed:
  assumes has: "has buffer p (assoc_data ref n)" and n: "0 < n" "n \<le> 65000" and ref: "0 < length ref" "length ref \<le> 5"
    and E: "E = p + user_info_length (length ref) n"
  shows "userInformation_case self v buffer E (user_info_length (length ref) n) p =
           Some ((with_user_data ref n (E - n) buffer self, True), Ret E)"
proof -
  let ?A = "assoc_length (length ref) n"
  define q where "q = p + 1 + length (ber_length ?A)"
  define r where "r = q + 2 + length ref"
  note sz = user_info_sizes [OF n(2) ref(2)]
  have k: "ber_length (length ref) = [of_nat (length ref)]" using ref(2) by (simp add: ber_length_small)
  have h: "rd buffer p = Some 0x28" "has buffer (Suc p) (ber_length ?A)" "has buffer q [0x02, of_nat (length ref)]"
    "has buffer (q + 2) ref" "has buffer r (0xa0 # ber_length n)"
    using has by (simp_all add: assoc_data_def k q_def r_def add.commute add.left_commute)
  have A: "q + ?A = E" "r + 1 + length (ber_length n) + n = E"
    using sz(1,4) n(2) by (simp_all add: E q_def r_def assoc_data_def k user_info_length_def length_ber_length)
  have dec: "BerDecoder_decodeLength buffer (Suc p) E = Some (Ret (q, ?A))"
    using decodeLength_has [OF h(2), of E] A(1) sz(4) n(2) by (simp add: q_def)
  let ?s1 = "self\<lparr>nextReference := ucast (of_int (uval (take 4 ref)) :: 32 word)\<rparr>"
  let ?L = "tlv_loop userInformation_element buffer E"
  have "?L q (self, False, False) = ?L r (?s1, True, False)"
  proof (subst tlv_loop_small [OF h(3)])
    show "length ref < 128" "q + 2 + length ref \<le> E" using ref(2) A(2) by (simp_all add: r_def)
    then show "userInformation_element buffer E 0x02 (length ref) (q + 2) (self, False, False) \<bind>
        (\<lambda>(s, ra). case ra of Fail \<Rightarrow> Some (s, Fail) | Ret bufPos \<Rightarrow> ?L bufPos s) = ?L r (?s1, True, False)"
      using decodeUint32_has [OF h(4)] ref(1) by (simp add: userInformation_element_def r_def)
  qed
  also have "\<dots> = Some ((?s1\<lparr>userDataBufferSize := n, userDataBuffer := Some (drop (E - n) buffer)\<rparr>, True, True), Ret E)"
  proof (subst tlv_loop_element [OF h(5)])
    show "n < 2 ^ 24" "r + 1 + length (ber_length n) + n \<le> E" using n(2) A(2) by simp_all
    have "r + 1 + length (ber_length n) = E - n" "n \<le> E" using A(2) by simp_all
    then show "userInformation_element buffer E 0xa0 n (r + 1 + length (ber_length n)) (?s1, True, False) \<bind>
        (\<lambda>(s, ra). case ra of Fail \<Rightarrow> Some (s, Fail) | Ret bufPos \<Rightarrow> ?L bufPos s) =
        Some ((?s1\<lparr>userDataBufferSize := n, userDataBuffer := Some (drop (E - n) buffer)\<rparr>, True, True), Ret E)"
      using n(1) by (simp add: userInformation_element_def tlv_loop_end)
  qed
  finally have "parseUserInformation self buffer q E = Some ((with_user_data ref n (E - n) buffer self, True), Ret E)"
    by (simp add: parseUserInformation_def with_user_data_def)
  with h(1) dec A(1) show ?thesis by (simp add: userInformation_case_def)
qed

text \<open>The frame of a message: tag, length, then a body in front of the payload.\<close>

lemma acse_frame:
  assumes ok: "bb_ok m" and m: "bb_bytes m = tag # ber_length C @ body @ dat" and C: "C = length body + length dat" "C < 2 ^ 24"
  obtains p where "\<not> bb_size m < 1" "rd (bb_buffer m) 0 = Some tag"
    "BerDecoder_decodeLength (bb_buffer m) 1 (bb_size m) = Some (Ret (p, C))" "p + C = bb_size m"
    "has (bb_buffer m) p body" "take (length dat) (drop (p + length body) (bb_buffer m)) = dat" "p + C \<le> length (bb_buffer m)"
proof -
  define p where "p = 1 + length (ber_length C)"
  have has: "has (bb_buffer m) 0 (tag # ber_length C @ body @ dat)" using bb_has [OF ok] by (simp only: m)
  then have h: "rd (bb_buffer m) 0 = Some tag" "has (bb_buffer m) 1 (ber_length C)" "has (bb_buffer m) p body"
    "has (bb_buffer m) (p + length body) dat" by (simp_all add: p_def)
  have size: "p + C = bb_size m" using length_bb_bytes [OF ok] C(1) by (simp add: m p_def)
  then have "BerDecoder_decodeLength (bb_buffer m) 1 (bb_size m) = Some (Ret (p, C))"
    using decodeLength_has [OF h(2), of "bb_size m"] C(2) by (simp add: p_def)
  moreover have "\<not> bb_size m < 1" "p + C \<le> length (bb_buffer m)" using size ok by (simp_all add: p_def bb_ok_def)
  ultimately show thesis using that [of p] h size by (simp add: has_def)
qed

lemma context_name_skipped:
  assumes "has buffer p context_name" and "p + 9 \<le> E"
  shows "tlv_loop aare_element buffer E p (self, v, res) = tlv_loop aare_element buffer E (p + 9) (self, v, res)"
    and "tlv_loop aarq_element buffer E p (self, w) = tlv_loop aarq_element buffer E (p + 9) (self, w)"
  using assms
  by (intro tlv_loop_goto_small [where tag = "0xa1" and n = 7];
      simp add: aare_element_def aarq_element_def context_name_def)+

lemma aare_parsed:
  assumes ok: "bb_ok m" and m: "bb_bytes m = aare_header ref result n @ dat" and dat: "n = length dat" "0 < n" "n \<le> 65000"
    and ref: "0 < length ref" "length ref \<le> 5"
  shows "AcseConnection_parseMessage peer (Some m) =
           Some (with_user_data ref n (bb_size m - n) (bb_buffer m) peer, if result = 0 then ACSE_ASSOCIATE else ACSE_ASSOCIATE_FAILED)"
proof -
  let ?U = "user_info_length (length ref) n" and ?b = "bb_buffer m"
  let ?body = "context_name @ [0xa2, 3, 0x02, 1, result] @ [0xa3, 5, 0xa1, 3, 0x02, 1, 0] @ user_info ref n"
  let ?C = "21 + (?U + BerEncoder_determineLengthSize ?U + 1)"
  note sz = user_info_sizes [OF dat(3) ref(2)]
  have C: "?C = length ?body + length dat" "?C < 2 ^ 24"
    using sz(2,3) dat by (simp_all add: context_name_def BerEncoder_determineLengthSize_def)
  have "bb_bytes m = 0x61 # ber_length ?C @ ?body @ dat" using m by (simp add: aare_header_def)
  from acse_frame [OF ok this C] obtain p where f: "\<not> bb_size m < 1" "rd ?b 0 = Some 0x61"
    "BerDecoder_decodeLength ?b 1 (bb_size m) = Some (Ret (p, ?C))" "p + ?C = bb_size m" "has ?b p ?body"
    by blast
  define E where "E = bb_size m"
  define q where "q = p + 22 + length (ber_length ?U)"
  have h: "has ?b p context_name" "has ?b (p + 9) [0xa2, 3]" "has ?b (p + 12) (ber_length 1)" "has ?b (p + 13) [result]"
    "has ?b (p + 14) [0xa3, 5]" "has ?b (p + 21) (0xbe # ber_length ?U)" "has ?b q (assoc_data ref n)"
    using f(5) has_drop [OF f(5), of 9] has_drop [OF f(5), of 12] has_drop [OF f(5), of 13] has_drop [OF f(5), of 14]
      has_drop [OF f(5), of 21] by (simp_all add: context_name_def ber_length_small user_info_def q_def add.commute)
  have Eq: "E = q + ?U" "p + 22 \<le> E"
    using f(4) sz(3) dat(3) by (simp_all add: E_def q_def length_ber_length)
  let ?L = "tlv_loop aare_element ?b E" and ?r = "of_int (uint result) :: 32 word"
  have "?L p (peer, False, 99) = ?L (p + 9) (peer, False, 99)"
    using context_name_skipped(1) [OF h(1)] Eq(2) by simp
  also have "\<dots> = ?L (p + 14) (peer, False, ?r)"
  proof -
    have "BerDecoder_decodeLength ?b (Suc (p + 11)) E = Some (Ret (p + 13, 1))"
      using decodeLength_has [OF h(3), of E] Eq(2) by (simp add: ber_length_small add.commute [of p])
    moreover have "BerDecoder_decodeUint32 ?b 1 (p + 13) = Some ?r"
      using decodeUint32_has [OF h(4)] by simp
    ultimately show ?thesis
      using h(2) Eq(2) by (subst tlv_loop_small [where tag = "0xa2" and n = 3]) (simp_all add: aare_element_def add.commute [of p])
  qed
  also have "\<dots> = ?L (p + 21) (peer, False, ?r)"
    using h(5) Eq(2) by (subst tlv_loop_small [where tag = "0xa3" and n = 5]) (simp_all add: aare_element_def add.commute [of p])
  also have "\<dots> = Some ((with_user_data ref n (E - n) ?b peer, True, ?r), Ret E)"
    using user_info_parsed [OF h(7) dat(2,3) ref Eq(1), of peer False] sz(3) dat(3) Eq
    by (subst tlv_loop_element [OF h(6)]) (simp_all add: aare_element_def tlv_loop_end q_def user_info_length_def add.commute [of p])
  finally have "parseAarePdu peer ?b p E = Some (with_user_data ref n (E - n) ?b peer,
      if ?r \<noteq> 0 then ACSE_ASSOCIATE_FAILED else ACSE_ASSOCIATE)"
    by (simp add: parseAarePdu_def)
  moreover have "ucast ?r = result" by (rule bit_word_eqI) (simp add: bit_simps)
  then have "?r = 0 \<longleftrightarrow> result = 0" by auto
  ultimately show ?thesis
    using f(1-4) by (simp add: AcseConnection_parseMessage_def E_def Let_def del: rd_eq_Some)
qed

subsection \<open>The association request\<close>

definition ap_bytes :: "byte \<Rightarrow> byte \<Rightarrow> byte list \<Rightarrow> int \<Rightarrow> byte list" where
  "ap_bytes titleTag qualifierTag title q =
     (if title = [] then []
      else let ref = ber_uint32 (of_int q) in
        [titleTag, of_nat (length title + 2), 0x06, of_nat (length title)] @ title @
        [qualifierTag, of_nat (length ref + 2), 0x02, of_nat (length ref)] @ ref)"

definition password :: "AcseAuthenticationParameter \<Rightarrow> byte list" where
  "password a = take (passwordLength a) (case octetString a of None \<Rightarrow> [] | Some p \<Rightarrow> p)"

definition auth_bytes :: "AcseAuthenticationParameter option \<Rightarrow> byte list" where
  "auth_bytes authParameter =
     (case authParameter of
        None \<Rightarrow> []
      | Some a \<Rightarrow>
          [0x8a, 2, 0x04] @
          (if mechanism a = ACSE_AUTH_PASSWORD then
             [0x80] @ [0x8b, 3] @ auth_mech_password_oid @
             0xac # ber_length (BerEncoder_determineLengthSize (passwordLength a) + passwordLength a + 1) @
             0x80 # ber_length (passwordLength a) @ password a
           else [0]))"

definition auth_ok :: "AcseAuthenticationParameter option \<Rightarrow> bool" where
  "auth_ok authParameter \<longleftrightarrow>
     (\<forall>a. authParameter = Some a \<and> mechanism a = ACSE_AUTH_PASSWORD \<longrightarrow>
        passwordLength a \<le> 65000 \<and> (\<exists>p. octetString a = Some p \<and> passwordLength a \<le> length p))"

definition request_body :: "IsoConnectionParameters \<Rightarrow> AcseAuthenticationParameter option \<Rightarrow> nat \<Rightarrow> byte list" where
  "request_body p a n =
     context_name @ ap_bytes 0xa2 0xa3 (take (remoteApTitleLen p) (remoteApTitle p)) (remoteAEQualifier p) @
     ap_bytes 0xa6 0xa7 (take (localApTitleLen p) (localApTitle p)) (localAEQualifier p) @ auth_bytes a @ user_info [3] n"

text \<open>The announced length is too large by 7 for a mechanism other than the password.\<close>

definition length_excess :: "AcseAuthenticationParameter option \<Rightarrow> nat" where
  "length_excess authParameter =
     (case authParameter of None \<Rightarrow> 0 | Some a \<Rightarrow> if mechanism a = ACSE_AUTH_PASSWORD then 0 else 7)"

definition aarq_header :: "IsoConnectionParameters \<Rightarrow> AcseAuthenticationParameter option \<Rightarrow> nat \<Rightarrow> byte list" where
  "aarq_header p a n = 0x60 # ber_length (length (request_body p a n) + length_excess a + n) @ request_body p a n"

lemma writes_encodeApTitle:
  assumes "titleLen \<le> length title" and "titleLen \<le> 10" and "k = (if 0 < titleLen then length (ber_uint32 (of_int q)) else 0)"
  shows "writes (encodeApTitle tt qt title titleLen q k) (ap_bytes tt qt (take titleLen title) q)"
proof (cases "titleLen = 0")
  case True
  then have "encodeApTitle tt qt title titleLen q k = Some" by (intro ext) (simp add: encodeApTitle_def)
  with True show ?thesis by (simp add: ap_bytes_def writes_Some)
next
  case False
  have t: "writes (put_from title 0 titleLen) (take titleLen title)" using assms(1) by (intro writes_take) simp_all
  have k: "length (ber_uint32 (of_int q)) \<le> 5" using length_ber_uint32 by blast
  have "encodeApTitle tt qt title titleLen q k = (\<lambda>s. do {
        s \<leftarrow> BerEncoder_encodeTL tt (titleLen + 2) s; s \<leftarrow> BerEncoder_encodeTL 0x06 titleLen s;
        s \<leftarrow> put_from title 0 titleLen s; s \<leftarrow> BerEncoder_encodeTL qt (k + 2) s;
        s \<leftarrow> BerEncoder_encodeTL 0x02 k s; BerEncoder_encodeUInt32 (of_int q) s })"
    using False by (intro ext) (simp add: encodeApTitle_def)
  moreover have "k < 126" "titleLen < 126" "titleLen \<noteq> 0" "title \<noteq> []" "k = length (ber_uint32 (of_int q))"
    "min (length title) titleLen = titleLen" using False assms k by auto
  ultimately show ?thesis
    by (simp only:) (rule writes_cong, (rule writer_intros t)+,
       simp add: ap_bytes_def Let_def ber_length_small)
qed

lemma apTitle_length_eq:
  assumes "titleLen \<le> length title" and "titleLen \<le> 10"
  shows "apTitle_length titleLen q =
           Some (length (ap_bytes tt qt (take titleLen title) q), if 0 < titleLen then length (ber_uint32 (of_int q)) else 0)"
  using assms by (auto simp: apTitle_length_def UInt32determineEncodedSize_eq ap_bytes_def Let_def)

lemma writes_encodeAuth:
  assumes "auth_ok a"
  shows "writes (encodeAuth a) (auth_bytes a)"
proof (cases a)
  case None
  then have "encodeAuth a = Some" by (intro ext) (simp add: encodeAuth_def)
  with None show ?thesis by (simp add: auth_bytes_def writes_Some)
next
  case (Some b)
  show ?thesis
  proof (cases "mechanism b = ACSE_AUTH_PASSWORD")
    case True
    let ?k = "passwordLength b"
    from True Some assms obtain p where p: "octetString b = Some p" "?k \<le> length p" by (auto simp: auth_ok_def)
    have pf: "writes (put_from requirements_authentication 0 1) [0x80]"
      "writes (put_from auth_mech_password_oid 0 3) auth_mech_password_oid"
      "writes (put_from p 0 ?k) (password b)"
      using p by (intro writes_take; simp add: requirements_authentication_def auth_mech_password_oid_def password_def)+
    have "encodeAuth a = (\<lambda>s. do { s \<leftarrow> BerEncoder_encodeTL 0x8a 2 s; s \<leftarrow> put 0x04 s;
            s \<leftarrow> put_from requirements_authentication 0 1 s; s \<leftarrow> BerEncoder_encodeTL 0x8b 3 s;
            s \<leftarrow> put_from auth_mech_password_oid 0 3 s;
            s \<leftarrow> BerEncoder_encodeTL 0xac (BerEncoder_determineLengthSize ?k + ?k + 1) s;
            s \<leftarrow> BerEncoder_encodeTL 0x80 ?k s; put_from p 0 ?k s })"
      using True p by (intro ext) (simp add: encodeAuth_def Some)
    then show ?thesis
      by (simp only:) (rule writes_cong, (rule writer_intros pf)+, simp add: auth_bytes_def Some True ber_length_small)
  next
    case False
    have "encodeAuth a = (\<lambda>s. do { s \<leftarrow> BerEncoder_encodeTL 0x8a 2 s; s \<leftarrow> put 0x04 s; put 0 s })"
      using False by (intro ext) (simp add: encodeAuth_def Some)
    then show ?thesis
      by (simp only:) (rule writes_cong, (rule writer_intros)+, simp add: auth_bytes_def Some False ber_length_small)
  qed
qed

lemma length_password: "auth_ok (Some a) \<Longrightarrow> mechanism a = ACSE_AUTH_PASSWORD \<Longrightarrow> length (password a) = passwordLength a"
  by (auto simp: auth_ok_def password_def)

lemma authLength_eq:
  assumes "auth_ok a"
  shows "authLength a = length (auth_bytes a) + length_excess a"
proof (cases a)
  case (Some b)
  let ?k = "passwordLength b"
  show ?thesis
  proof (cases "mechanism b = ACSE_AUTH_PASSWORD")
    case True
    with assms have "?k \<le> 65000" by (simp add: auth_ok_def Some)
    then have "?k \<noteq> 65535" "BerEncoder_determineLengthSize ?k + ?k + 1 \<noteq> 65535"
      by (auto simp: BerEncoder_determineLengthSize_def)
    with True length_password [of b] assms show ?thesis
      by (simp add: Some authLength_def auth_bytes_def length_excess_def Let_def length_ber_length auth_mech_password_oid_def add.commute)
  qed (simp add: Some authLength_def auth_bytes_def length_excess_def)
qed (simp add: authLength_def auth_bytes_def length_excess_def)

lemma createAssociateRequest_eq:
  assumes "params_ok p" and "auth_ok a" and "chain_ok payload" and "ch_length payload \<le> 65000"
    and "length (aarq_header p a (ch_length payload)) \<le> length (ch_buffer wb)"
  shows "\<exists>c. AcseConnection_createAssociateRequestMessage p wb payload a = Some c \<and> headed c (aarq_header p a (ch_length payload)) payload \<and>
           length (ch_buffer c) = length (ch_buffer wb)"
proof -
  let ?n = "ch_length payload"
  let ?A = "assoc_length 1 ?n" and ?U = "user_info_length 1 ?n"
  let ?kr = "if 0 < remoteApTitleLen p then length (ber_uint32 (of_int (remoteAEQualifier p))) else 0"
  let ?kl = "if 0 < localApTitleLen p then length (ber_uint32 (of_int (localAEQualifier p))) else 0"
  let ?r = "take (remoteApTitleLen p) (remoteApTitle p)" and ?l = "take (localApTitleLen p) (localApTitle p)"
  let ?C = "9 + length (ap_bytes 0xa2 0xa3 ?r (remoteAEQualifier p)) + length (ap_bytes 0xa6 0xa7 ?l (localAEQualifier p)) +
     authLength a + (?U + BerEncoder_determineLengthSize ?U + 1)"
  have t: "remoteApTitleLen p \<le> length (remoteApTitle p)" "remoteApTitleLen p \<le> 10"
    "localApTitleLen p \<le> length (localApTitle p)" "localApTitleLen p \<le> 10" using assms(1) by (simp_all add: params_ok_def)
  note w1 = writes_encodeApTitle [OF t(1,2) refl] writes_encodeApTitle [OF t(3,4) refl] writes_encodeAuth [OF assms(2)]
  have lens: "?n + 1 + BerEncoder_determineLengthSize ?n + 1 + 2 = ?A" "?A + BerEncoder_determineLengthSize ?A + 1 = ?U"
    by (simp_all add: user_info_length_def assoc_length_def)
  have C: "?C = length (request_body p a ?n) + length_excess a + ?n"
    using user_info_sizes(2) [OF assms(4), of "[3]"] authLength_eq [OF assms(2)] by (simp add: request_body_def context_name_def)
  let ?w = "\<lambda>s. do {
     s \<leftarrow> BerEncoder_encodeTL 0x60 (length (request_body p a ?n) + length_excess a + ?n) s;
     s \<leftarrow> BerEncoder_encodeTL 0xa1 7 s; s \<leftarrow> BerEncoder_encodeTL 0x06 5 s; s \<leftarrow> put_from appContextNameMms 0 5 s;
     s \<leftarrow> encodeApTitle 0xa2 0xa3 (remoteApTitle p) (remoteApTitleLen p) (remoteAEQualifier p) ?kr s;
     s \<leftarrow> encodeApTitle 0xa6 0xa7 (localApTitle p) (localApTitleLen p) (localAEQualifier p) ?kl s;
     s \<leftarrow> encodeAuth a s; s \<leftarrow> BerEncoder_encodeTL 0xbe ?U s; s \<leftarrow> BerEncoder_encodeTL 0x28 ?A s;
     s \<leftarrow> BerEncoder_encodeTL 0x02 1 s; s \<leftarrow> put 3 s; BerEncoder_encodeTL 0xa0 ?n s }"
  have w: "writes ?w (aarq_header p a ?n)"
    by (rule writes_cong, (rule writer_intros writes_context_name w1)+)
       (simp add: aarq_header_def request_body_def user_info_def assoc_data_def context_name_def appContextNameMms_def ber_length_small)
  obtain buf where "?w (ch_buffer wb, 0) = Some (buf, length (aarq_header p a ?n))"
    and "headed (chain_finish wb buf (length (aarq_header p a ?n)) payload) (aarq_header p a ?n) payload"
    "length (ch_buffer (chain_finish wb buf (length (aarq_header p a ?n)) payload)) = length (ch_buffer wb)"
    using chain_finish_writes [OF w assms(3,5)] by blast
  moreover have "AcseConnection_createAssociateRequestMessage p wb payload a =
      do { (buffer, bufPos) \<leftarrow> ?w (ch_buffer wb, 0); Some (chain_finish wb buffer bufPos payload) }"
    unfolding AcseConnection_createAssociateRequestMessage_def Let_def
      apTitle_length_eq [OF t(1,2), where tt = "0xa2" and qt = "0xa3"] apTitle_length_eq [OF t(3,4), where tt = "0xa6" and qt = "0xa7"]
    by (simp only: lens C Option.bind.simps Option.bind_assoc prod.case)
  ultimately show ?thesis by auto
qed

text \<open>The decoders depend only on the octets they decode.\<close>

lemma decodeOID_loop_has:
  "has buffer p bs \<Longrightarrow> i \<le> length bs \<Longrightarrow>
   decodeOID_loop buffer (p + i) (p + length bs) arcs c = decodeOID_loop bs i (length bs) arcs c"
proof (induction "length bs - i" arbitrary: i arcs c rule: less_induct)
  case less
  show ?case
  proof (cases "i < length bs")
    case True
    with less.prems(1) have "rd buffer (p + i) = Some (bs ! i)" by (rule has_rd)
    moreover have "decodeOID_loop buffer (Suc (p + i)) (p + length bs) arcs' c' = decodeOID_loop bs (Suc i) (length bs) arcs' c'" for arcs' c'
      using less.hyps [of "Suc i" arcs' c'] less.prems(1) True by simp
    ultimately show ?thesis
      using True by (simp add: decodeOID_loop.simps [of buffer "p + i"] decodeOID_loop.simps [of bs i] Let_def del: rd_eq_Some)
  qed (use less.prems(2) in \<open>simp add: decodeOID_loop.simps\<close>)
qed

lemma decodeOID_has:
  assumes "has buffer p bs"
  shows "BerDecoder_decodeOID buffer p (length bs) = BerDecoder_decodeOID bs 0 (length bs)"
proof (cases "bs = []")
  case True
  with decodeOID_loop_has [OF assms, of 0] show ?thesis by (simp add: BerDecoder_decodeOID_def)
next
  case False
  with has_rd [OF assms, of 0] have "rd buffer p = rd bs 0" by simp
  moreover have "decodeOID_loop buffer (Suc p) (p + length bs) arcs c = decodeOID_loop bs 1 (length bs) arcs c" for arcs c
    using decodeOID_loop_has [OF assms, of 1] False by (simp add: Suc_le_eq)
  ultimately show ?thesis using False by (simp add: BerDecoder_decodeOID_def Let_def del: rd_eq_Some)
qed

text \<open>A qualifier is written as an unsigned and read as a signed number.\<close>

lemma decodeInt32_ber_uint32:
  assumes "has buffer p (ber_uint32 v)"
  shows "BerDecoder_decodeInt32 buffer (length (ber_uint32 v)) p = Some (if uint v < 2 ^ 31 then v else 0)"
proof (cases "uint v < 2 ^ 31")
  case True
  then have "length (ber_uint32 v) \<le> 4" by (simp add: length_ber_uint32_iff)
  moreover obtain b bs where bb: "ber_uint32 v = b # bs" using length_ber_uint32 [of v] by (cases "ber_uint32 v") auto
  moreover from this have "sval (b # bs) = uint v" using sval_ber_uint32 [of v] by simp
  moreover from this have "\<not> bit b 7" using sval_neg_iff [of b bs] by auto
  ultimately show ?thesis using decodeInt32_has [of buffer p b bs] assms True by simp
next
  case False
  then have "\<not> length (ber_uint32 v) \<le> 4" using length_ber_uint32_iff [of v] by simp
  with False show ?thesis by (simp add: BerDecoder_decodeInt32_def)
qed

definition received_qualifier :: "int \<Rightarrow> int" where
  "received_qualifier q = (if 0 \<le> q \<and> q < 2 ^ 31 then q else 0)"

lemma received_qualifier_eq:
  assumes "- (2 ^ 31) \<le> q" and "q < 2 ^ 31"
  shows "sint (if uint (of_int q :: 32 word) < 2 ^ 31 then of_int q else 0 :: 32 word) = received_qualifier q"
proof -
  have u: "uint (of_int q :: 32 word) = q mod 2 ^ 32" by (simp add: uint_word_of_int)
  show ?thesis
  proof (cases "0 \<le> q")
    case True
    with assms have "uint (of_int q :: 32 word) = q" unfolding u by simp
    moreover from True assms have "sint (of_int q :: 32 word) = q" by (simp add: sint_sbintrunc' signed_take_bit_int_eq_self)
    ultimately show ?thesis using True assms by (simp add: received_qualifier_def)
  next
    case False
    with assms have "q mod 2 ^ 32 = q + 2 ^ 32" using mod_pos_pos_trivial [of "q + 2 ^ 32" "2 ^ 32"] by simp
    with False assms show ?thesis unfolding u by (simp add: received_qualifier_def)
  qed
qed

lemma called_title_skipped:
  assumes "has buffer p (ap_bytes 0xa2 0xa3 t q)" and "length t \<le> 10" and "p + length (ap_bytes 0xa2 0xa3 t q) \<le> E"
  shows "tlv_loop aarq_element buffer E p s = tlv_loop aarq_element buffer E (p + length (ap_bytes 0xa2 0xa3 t q)) s"
proof (cases "t = []")
  case False
  let ?k = "length (ber_uint32 (of_int q))" and ?n = "length t"
  have k: "?k \<le> 5" using length_ber_uint32 by blast
  have len: "length (ap_bytes 0xa2 0xa3 t q) = 8 + ?n + ?k" using False by (simp add: ap_bytes_def Let_def)
  have h: "has buffer p [0xa2, of_nat (?n + 2)]" "has buffer (p + 4 + ?n) [0xa3, of_nat (?k + 2)]"
    using assms(1) False by (simp_all add: ap_bytes_def Let_def nat_plus)
  have "tlv_loop aarq_element buffer E p s = tlv_loop aarq_element buffer E (p + 4 + ?n) s"
    using assms(2,3) len by (intro tlv_loop_goto_small [OF h(1)]) (simp_all add: aarq_element_def split: prod.split)
  also have "\<dots> = tlv_loop aarq_element buffer E (p + (8 + ?n + ?k)) s"
    using assms(3) k len by (intro tlv_loop_goto_small [OF h(2)]) (simp_all add: aarq_element_def split: prod.split)
  finally show ?thesis by (simp only: len)
qed (simp add: ap_bytes_def)

lemma calling_title_parsed:
  assumes "has buffer p (ap_bytes 0xa6 0xa7 t q)" and t: "length t \<le> 10" "t \<noteq> []"
    and fit: "p + length (ap_bytes 0xa6 0xa7 t q) \<le> E" and oid: "BerDecoder_decodeOID t 0 (length t) = Some oid"
    and q: "- (2 ^ 31) \<le> q" "q < 2 ^ 31"
  shows "tlv_loop aarq_element buffer E p (self, v) =
           tlv_loop aarq_element buffer E (p + length (ap_bytes 0xa6 0xa7 t q))
             (self\<lparr>applicationReference := \<lparr>apTitle = oid, aeQualifier = received_qualifier q\<rparr>\<rparr>, v)"
proof -
  let ?k = "length (ber_uint32 (of_int q))" and ?n = "length t" and ?r = "p + 4 + length t"
  have k: "?k \<le> 5" using length_ber_uint32 by blast
  have len: "length (ap_bytes 0xa6 0xa7 t q) = 8 + ?n + ?k" using t(2) by (simp add: ap_bytes_def Let_def)
  have h: "has buffer p [0xa6, of_nat (?n + 2)]" "has buffer (p + 2) [0x06, of_nat ?n]" "has buffer (p + 4) t"
    "has buffer ?r [0xa7, of_nat (?k + 2)]" "has buffer (?r + 2) [0x02, of_nat ?k]" "has buffer (?r + 4) (ber_uint32 (of_int q))"
    using assms(1) t(2) by (simp_all add: ap_bytes_def Let_def nat_plus)
  have d: "BerDecoder_decodeOID buffer (p + 4) ?n = Some oid" using decodeOID_has [OF h(3)] oid by simp
  let ?s1 = "self\<lparr>applicationReference := (applicationReference self)\<lparr>apTitle := oid\<rparr>\<rparr>"
  let ?s2 = "?s1\<lparr>applicationReference := (applicationReference ?s1)\<lparr>aeQualifier := received_qualifier q\<rparr>\<rparr>"
  have "tlv_loop aarq_element buffer E p (self, v) = tlv_loop aarq_element buffer E ?r (?s1, v)"
    using t fit len d h(2)
    by (intro tlv_loop_goto_small [OF h(1)]) (simp_all add: aarq_element_def unat_byte_of_nat nat_plus)
  also have "\<dots> = tlv_loop aarq_element buffer E (p + (8 + ?n + ?k)) (?s2, v)"
    using fit k len h(5) decodeInt32_ber_uint32 [OF h(6)] received_qualifier_eq [OF q]
    by (intro tlv_loop_goto_small [OF h(4)]) (simp_all add: aarq_element_def unat_byte_of_nat nat_plus)
  also have "?s2 = self\<lparr>applicationReference := \<lparr>apTitle = oid, aeQualifier = received_qualifier q\<rparr>\<rparr>"
    by (cases "applicationReference self") simp
  finally show ?thesis by (simp only: len)
qed

lemma password_parsed:
  assumes "has buffer p (auth_bytes (Some a))" and a: "auth_ok (Some a)" "mechanism a = ACSE_AUTH_PASSWORD"
    and fit: "p + length (auth_bytes (Some a)) \<le> E"
  shows "\<exists>q. tlv_loop aarq_element buffer E p (self, v) =
           tlv_loop aarq_element buffer E (p + length (auth_bytes (Some a)))
             (self, v\<lparr>authMechLen := 3, authMechanism := Some (drop (p + 6) buffer),
                      authValueLen := passwordLength a, authValue := Some (drop q buffer)\<rparr>) \<and>
           has buffer (p + 6) auth_mech_password_oid \<and> has buffer q (password a)"
proof -
  let ?k = "passwordLength a"
  let ?K = "BerEncoder_determineLengthSize ?k + ?k + 1"
  have k: "?k \<le> 65000" using a by (simp add: auth_ok_def)
  then have K: "length (ber_length ?k) = BerEncoder_determineLengthSize ?k" "?K < 2 ^ 24"
    by (simp_all add: length_ber_length BerEncoder_determineLengthSize_def)
  define q where "q = p + 10 + length (ber_length ?K)"
  define r where "r = q + 1 + length (ber_length ?k)"
  have len: "p + length (auth_bytes (Some a)) = q + ?K - 1 + 1"
    using a(2) length_password [OF a] K(1) by (simp add: auth_bytes_def q_def auth_mech_password_oid_def)
  then have E: "q + ?K \<le> E" "r + ?k \<le> E" "r + ?k = q + ?K" "p + 10 \<le> q" using fit K(1) by (simp_all add: r_def q_def)
  have h: "has buffer p [0x8a, 2]" "has buffer (p + 4) [0x8b, 3]" "has buffer (p + 6) auth_mech_password_oid"
    "has buffer (p + 9) (0xac # ber_length ?K)" "has buffer (Suc q) (ber_length ?k)" "has buffer r (password a)"
    using assms(1) a(2) has_drop [OF assms(1), of 4] has_drop [OF assms(1), of 6] has_drop [OF assms(1), of 9]
    by (simp_all add: auth_bytes_def q_def r_def auth_mech_password_oid_def add.commute)
  let ?L = "tlv_loop aarq_element buffer E"
  let ?v1 = "v\<lparr>authMechLen := 3, authMechanism := Some (drop (p + 6) buffer)\<rparr>"
  let ?v2 = "?v1\<lparr>authValueLen := ?k, authValue := Some (drop r buffer)\<rparr>"
  have dec: "BerDecoder_decodeLength buffer (Suc q) E = Some (Ret (r, ?k))"
    using decodeLength_has [OF h(5), of E] E k by (simp add: r_def)
  have "?L p (self, v) = ?L (p + 4) (self, v)"
    using h(1) E by (intro tlv_loop_goto_small [where tag = "0x8a" and n = 2]) (simp_all add: aarq_element_def)
  also have "\<dots> = ?L (p + 9) (self, ?v1)"
    using h(2) E by (intro tlv_loop_goto_small [where tag = "0x8b" and n = 3]) (simp_all add: aarq_element_def add.commute [of p])
  also have "\<dots> = ?L (q + ?K) (self, ?v2)"
  proof (rule tlv_loop_goto [OF h(4) K(2)])
    have q: "p + 9 + 1 + length (ber_length ?K) = q" by (simp add: q_def)
    show "p + 9 + 1 + length (ber_length ?K) + ?K \<le> E" using E(1) unfolding q .
    show "aarq_element buffer E 0xac ?K (p + 9 + 1 + length (ber_length ?K)) (self, ?v1) = Some ((self, ?v2), Ret (q + ?K))"
      unfolding q using dec E by (simp add: aarq_element_def)
  qed
  finally show ?thesis using h(3,6) len by (intro exI [of _ r]) simp
qed

text \<open>What the authenticator is called with: the password points into the message.\<close>

definition received_auth :: "AcseAuthenticationParameter option \<Rightarrow> byte list \<Rightarrow> AcseAuthenticationParameter" where
  "received_auth a rest =
     (case a of
        None \<Rightarrow> \<lparr>mechanism = ACSE_AUTH_NONE, octetString = None, passwordLength = 0\<rparr>
      | Some a \<Rightarrow> \<lparr>mechanism = ACSE_AUTH_PASSWORD, octetString = Some (password a @ rest), passwordLength = passwordLength a\<rparr>)"

text \<open>The outcome of an association request at the acceptor \<open>self\<close>, after its user data and the
  calling application reference are known.\<close>

definition request_outcome :: "AcseConnection \<Rightarrow> AcseAuthenticationParameter \<Rightarrow> AcseConnection \<times> AcseIndication" where
  "request_outcome self auth =
     (case authenticator self of
        None \<Rightarrow> (self\<lparr>securityToken := None\<rparr>, ACSE_ASSOCIATE)
      | Some f \<Rightarrow> (case f auth (applicationReference self) of
          (verdict, token, ref) \<Rightarrow>
            (self\<lparr>securityToken := token, applicationReference := ref\<rparr>,
             if verdict then ACSE_ASSOCIATE else ACSE_ASSOCIATE_FAILED)))"

lemma has_prefix: "has buffer q bs \<Longrightarrow> drop q buffer = bs @ drop (q + length bs) buffer"
  unfolding has_def by (metis append_take_drop_id drop_drop add.commute)

lemma checkAuthentication_password:
  assumes "has buffer p auth_mech_password_oid" and "has buffer q (password a)" and "length (password a) = passwordLength a"
  shows "checkAuthentication self (Some (drop p buffer)) 3 (Some (drop q buffer)) (passwordLength a) =
           Some (map_prod id (\<lambda>i. i = ACSE_ASSOCIATE)
             (request_outcome self (received_auth (Some a) (drop (q + length (password a)) buffer))))"
proof -
  have "rd_block (drop p buffer) 0 3 = Some auth_mech_password_oid"
    using has_length [OF assms(1)] has_prefix [OF assms(1)] by (simp add: rd_block_eq auth_mech_password_oid_def)
  then have "checkAuthMechanismName (Some (drop p buffer)) 3 = Some ACSE_AUTH_PASSWORD"
    by (simp add: checkAuthMechanismName_def)
  then show ?thesis
    using has_prefix [OF assms(2)]
    by (simp add: checkAuthentication_def authenticateClient_def request_outcome_def received_auth_def Let_def
          split: option.split prod.split)
qed

lemma checkAuthentication_none:
  "checkAuthentication self None n None k =
     Some (map_prod id (\<lambda>i. i = ACSE_ASSOCIATE) (request_outcome self (received_auth None rest)))"
  by (simp add: checkAuthentication_def checkAuthMechanismName_def authenticateClient_def request_outcome_def received_auth_def Let_def
      split: option.split prod.split)

lemma part_lengths:
  shows "length t \<le> 10 \<Longrightarrow> length (ap_bytes tt qt t q) \<le> 23" and "auth_ok a \<Longrightarrow> length (auth_bytes a) \<le> 65020"
proof -
  have "length (ber_uint32 (of_int q)) \<le> 5" using length_ber_uint32 by blast
  then show "length t \<le> 10 \<Longrightarrow> length (ap_bytes tt qt t q) \<le> 23" by (simp add: ap_bytes_def Let_def)
next
  have sz: "length (ber_length k) \<le> 4" for k by (simp add: ber_length_def)
  show "length (auth_bytes a) \<le> 65020" if "auth_ok a"
  proof (cases a)
    case (Some b)
    with that have "mechanism b = ACSE_AUTH_PASSWORD \<longrightarrow> length (password b) = passwordLength b \<and> passwordLength b \<le> 65000"
      using length_password [of b] by (simp add: auth_ok_def)
    then show ?thesis
      using sz [of "passwordLength b"] sz [of "BerEncoder_determineLengthSize (passwordLength b) + passwordLength b + 1"]
      by (auto simp add: Some auth_bytes_def auth_mech_password_oid_def)
  qed (simp add: auth_bytes_def)
qed

lemma local_title_oid:
  assumes "params_ok p"
  obtains oid where "BerDecoder_decodeOID (localApTitle p) 0 (localApTitleLen p) = Some oid"
    and "BerDecoder_decodeOID (take (localApTitleLen p) (localApTitle p)) 0 (localApTitleLen p) = Some oid"
proof -
  let ?t = "take (localApTitleLen p) (localApTitle p)"
  have l: "localApTitleLen p \<le> length (localApTitle p)" using assms by (simp add: params_ok_def)
  then have "has (localApTitle p) 0 ?t" "length ?t = localApTitleLen p" by (simp_all add: has_def)
  with decodeOID_has [of "localApTitle p" 0 ?t] decodeOID_total [of 0 "localApTitleLen p" "localApTitle p"] l that
  show thesis by auto
qed

text \<open>The application reference the acceptor knows after the calling AP title was parsed.\<close>

definition received_reference :: "IsoConnectionParameters \<Rightarrow> IsoApplicationReference \<Rightarrow> IsoApplicationReference \<Rightarrow> bool" where
  "received_reference p old ref \<longleftrightarrow>
     (if localApTitleLen p = 0 then ref = old
      else BerDecoder_decodeOID (localApTitle p) 0 (localApTitleLen p) = Some (apTitle ref) \<and>
           aeQualifier ref = received_qualifier (localAEQualifier p))"

lemma calling_part_parsed:
  assumes "params_ok p" and "- (2 ^ 31) \<le> localAEQualifier p" and "localAEQualifier p < 2 ^ 31"
    and "has buffer pos (ap_bytes 0xa6 0xa7 (take (localApTitleLen p) (localApTitle p)) (localAEQualifier p))"
    and "pos + length (ap_bytes 0xa6 0xa7 (take (localApTitleLen p) (localApTitle p)) (localAEQualifier p)) \<le> E"
  shows "\<exists>ref. received_reference p (applicationReference self) ref \<and>
      tlv_loop aarq_element buffer E pos (self, v) =
      tlv_loop aarq_element buffer E
        (pos + length (ap_bytes 0xa6 0xa7 (take (localApTitleLen p) (localApTitle p)) (localAEQualifier p)))
        (self\<lparr>applicationReference := ref\<rparr>, v)"
proof (cases "localApTitleLen p = 0")
  case True
  then show ?thesis by (intro exI [of _ "applicationReference self"]) (simp add: received_reference_def ap_bytes_def)
next
  case False
  let ?t = "take (localApTitleLen p) (localApTitle p)"
  have t: "length ?t = localApTitleLen p" "length ?t \<le> 10" "?t \<noteq> []" using assms(1) False by (auto simp: params_ok_def)
  obtain oid where o: "BerDecoder_decodeOID (localApTitle p) 0 (localApTitleLen p) = Some oid"
    "BerDecoder_decodeOID ?t 0 (length ?t) = Some oid" using local_title_oid [OF assms(1)] t(1) by metis
  show ?thesis
    using calling_title_parsed [OF assms(4) t(2,3) assms(5) o(2) assms(2,3), of self v] False o(1)
    by (intro exI [of _ "\<lparr>apTitle = oid, aeQualifier = received_qualifier (localAEQualifier p)\<rparr>"]) (simp add: received_reference_def)
qed

text \<open>The locals after the authentication part.\<close>

lemma auth_part_parsed:
  assumes "has buffer pos (auth_bytes a)" and "auth_ok a" and "length_excess a = 0" and "pos + length (auth_bytes a) \<le> E"
    and v: "v = \<lparr>authValue = None, authValueLen = 0, authMechanism = None, authMechLen = 0, userInfoValid = False\<rparr>"
  shows "\<exists>v' rest. tlv_loop aarq_element buffer E pos (self, v) =
           tlv_loop aarq_element buffer E (pos + length (auth_bytes a)) (self, v') \<and>
           (\<forall>self. checkAuthentication self (authMechanism v') (authMechLen v') (authValue v') (authValueLen v') =
              Some (map_prod id (\<lambda>i. i = ACSE_ASSOCIATE) (request_outcome self (received_auth a rest))))"
proof (cases a)
  case None
  then show ?thesis
    using checkAuthentication_none by (intro exI [of _ v]) (simp add: auth_bytes_def v)
next
  case (Some b)
  with assms have m: "mechanism b = ACSE_AUTH_PASSWORD" "auth_ok (Some b)" by (auto simp: length_excess_def split: if_splits)
  obtain q where q: "tlv_loop aarq_element buffer E pos (self, v) =
           tlv_loop aarq_element buffer E (pos + length (auth_bytes (Some b)))
             (self, v\<lparr>authMechLen := 3, authMechanism := Some (drop (pos + 6) buffer),
                      authValueLen := passwordLength b, authValue := Some (drop q buffer)\<rparr>)"
    "has buffer (pos + 6) auth_mech_password_oid" "has buffer q (password b)"
    using password_parsed [OF _ m(2,1)] assms(1,4) unfolding Some by blast
  let ?rest = "drop (q + length (password b)) buffer"
  have "checkAuthentication self (Some (drop (pos + 6) buffer)) 3 (Some (drop q buffer)) (passwordLength b) =
      Some (map_prod id (\<lambda>i. i = ACSE_ASSOCIATE) (request_outcome self (received_auth (Some b) ?rest)))" for self
    by (rule checkAuthentication_password [OF q(2,3) length_password [OF m(2,1)]])
  with q(1) show ?thesis unfolding Some
    by (intro exI [of _ "v\<lparr>authMechLen := 3, authMechanism := Some (drop (pos + 6) buffer),
                      authValueLen := passwordLength b, authValue := Some (drop q buffer)\<rparr>"] exI [of _ ?rest]) simp
qed

lemma aarq_body_parsed:
  assumes body: "has b pos (request_body p a n)" and n: "0 < n" "n \<le> 65000" and E: "E = pos + length (request_body p a n) + n"
    and p: "params_ok p" "- (2 ^ 31) \<le> localAEQualifier p" "localAEQualifier p < 2 ^ 31"
    and a: "auth_ok a" "length_excess a = 0"
  shows "\<exists>ref rest. received_reference p (applicationReference peer) ref \<and>
           parseAarqPdu peer b pos E =
             Some (request_outcome (with_user_data [3] n (E - n) b (peer\<lparr>applicationReference := ref\<rparr>)) (received_auth a rest))"
proof -
  let ?U = "user_info_length 1 n"
  let ?r = "ap_bytes 0xa2 0xa3 (take (remoteApTitleLen p) (remoteApTitle p)) (remoteAEQualifier p)"
  let ?l = "ap_bytes 0xa6 0xa7 (take (localApTitleLen p) (localApTitle p)) (localAEQualifier p)"
  have t: "length (take (remoteApTitleLen p) (remoteApTitle p)) \<le> 10" using p(1) by (auto simp: params_ok_def)
  note sz = user_info_sizes [OF n(2), of "[3]", simplified]
  define p1 where "p1 = pos + 9"
  define p2 where "p2 = p1 + length ?r"
  define p3 where "p3 = p2 + length ?l"
  define p4 where "p4 = p3 + length (auth_bytes a)"
  define q where "q = p4 + 1 + length (ber_length ?U)"
  have lc: "length context_name = 9" by (simp add: context_name_def)
  have h: "has b pos context_name" "has b p1 ?r" "has b p2 ?l" "has b p3 (auth_bytes a)" "has b p4 (0xbe # ber_length ?U)"
    "has b q (assoc_data [3] n)"
    using body by (simp_all add: request_body_def user_info_def p1_def p2_def p3_def p4_def q_def lc)
  have Eq: "E = q + ?U" using E sz(2,3) n(2)
    by (simp add: q_def p4_def p3_def p2_def p1_def request_body_def lc length_ber_length)
  then have le: "p4 \<le> E" "p3 \<le> p4" "p2 \<le> p3" "p1 \<le> p2" by (simp_all add: q_def p4_def p3_def p2_def)
  let ?L = "tlv_loop aarq_element b E"
  let ?v = "\<lparr>authValue = None, authValueLen = 0, authMechanism = None, authMechLen = 0, userInfoValid = False\<rparr>"
  have L2: "?L pos (peer, ?v) = ?L p2 (peer, ?v)"
    using context_name_skipped(2) [OF h(1), of E peer ?v] called_title_skipped [OF h(2) t, of E "(peer, ?v)"] le
    by (simp add: p1_def p2_def)
  obtain ref where ref: "received_reference p (applicationReference peer) ref"
    "?L p2 (peer, ?v) = ?L p3 (peer\<lparr>applicationReference := ref\<rparr>, ?v)"
    using calling_part_parsed [OF p h(3), of E peer ?v] le by (auto simp: p3_def)
  let ?s = "peer\<lparr>applicationReference := ref\<rparr>"
  obtain v' rest where v': "?L p3 (?s, ?v) = ?L p4 (?s, v')"
    "\<And>self. checkAuthentication self (authMechanism v') (authMechLen v') (authValue v') (authValueLen v') =
        Some (map_prod id (\<lambda>i. i = ACSE_ASSOCIATE) (request_outcome self (received_auth a rest)))"
    using auth_part_parsed [OF h(4) a, of E ?v ?s] le by (auto simp: p4_def)
  let ?w = "with_user_data [3] n (E - n) b ?s"
  have e: "p4 + 1 + length (ber_length ?U) = q" "0 < ?U" by (simp_all add: q_def user_info_length_def)
  have "?L p4 (?s, v') = ?L E (?w, v'\<lparr>userInfoValid := True\<rparr>)"
    using user_info_parsed [OF h(6) n, of E ?s "userInfoValid v'"] Eq sz(3) n(2) e(2)
    by (intro tlv_loop_goto [OF h(5)]) (unfold e(1), simp_all add: aarq_element_def)
  with L2 ref(2) v'(1) have "?L pos (peer, ?v) = Some ((?w, v'\<lparr>userInfoValid := True\<rparr>), Ret E)" by (simp add: tlv_loop_end)
  then have "parseAarqPdu peer b pos E = Some (request_outcome ?w (received_auth a rest))"
    using v'(2) [of ?w] by (simp add: parseAarqPdu_def) (auto simp: request_outcome_def split: option.splits prod.splits)
  with ref(1) show ?thesis by blast
qed

lemma length_request_body:
  assumes "params_ok p" and "auth_ok a" and "n \<le> 65000"
  shows "length (request_body p a n) \<le> 65097" and "length (aarq_header p a n) \<le> 65102"
proof -
  have t: "length (take (remoteApTitleLen p) (remoteApTitle p)) \<le> 10" "length (take (localApTitleLen p) (localApTitle p)) \<le> 10"
    using assms(1) by (auto simp: params_ok_def)
  have sz: "length (ber_length k) \<le> 4" for k by (simp add: ber_length_def)
  show le: "length (request_body p a n) \<le> 65097"
    using part_lengths(1) [OF t(1), of "0xa2" "0xa3" "remoteAEQualifier p"] part_lengths(1) [OF t(2), of "0xa6" "0xa7" "localAEQualifier p"]
      part_lengths(2) [OF assms(2)] user_info_sizes(2,3) [OF assms(3), of "[3]"] sz [of "user_info_length 1 n"] sz [of n]
      sz [of "assoc_length 1 n"]
    by (simp add: request_body_def context_name_def user_info_def assoc_data_def ber_length_small)
  then show "length (aarq_header p a n) \<le> 65102"
    using sz [of "length (request_body p a n) + length_excess a + n"] by (simp add: aarq_header_def)
qed

lemma aarq_parsed:
  assumes ok: "bb_ok m" and m: "bb_bytes m = aarq_header p a n @ dat" and dat: "n = length dat" "0 < n" "n \<le> 65000"
    and p: "params_ok p" "- (2 ^ 31) \<le> localAEQualifier p" "localAEQualifier p < 2 ^ 31"
    and a: "auth_ok a" "length_excess a = 0"
  shows "\<exists>ref rest. received_reference p (applicationReference peer) ref \<and>
           AcseConnection_parseMessage peer (Some m) =
             Some (request_outcome (with_user_data [3] n (bb_size m - n) (bb_buffer m) (peer\<lparr>applicationReference := ref\<rparr>))
               (received_auth a rest))"
proof -
  let ?b = "bb_buffer m" and ?body = "request_body p a n"
  have "length ?body + length dat < 2 ^ 24" using length_request_body(1) [OF p(1) a(1) dat(3)] dat by simp
  moreover have "bb_bytes m = 0x60 # ber_length (length ?body + length dat) @ ?body @ dat"
    using m a(2) dat(1) by (simp add: aarq_header_def)
  ultimately obtain pos where f: "\<not> bb_size m < 1" "rd ?b 0 = Some 0x60"
    "BerDecoder_decodeLength ?b 1 (bb_size m) = Some (Ret (pos, length ?body + length dat))"
    "pos + (length ?body + length dat) = bb_size m" "has ?b pos ?body"
    using acse_frame [OF ok _ refl] by blast
  have "bb_size m = pos + length ?body + n" using f(4) dat(1) by simp
  from aarq_body_parsed [OF f(5) dat(2,3) this p a, of peer] show ?thesis
    using f(1-4) by (simp add: AcseConnection_parseMessage_def Let_def del: rd_eq_Some)
qed

definition user_data_bytes :: "AcseConnection \<Rightarrow> byte list" where
  "user_data_bytes self = (case userDataBuffer self of None \<Rightarrow> [] | Some b \<Rightarrow> take (userDataBufferSize self) b)"

lemma user_data_suffix:
  assumes "bb_ok m" and "bb_bytes m = hdr @ dat"
  shows "user_data_bytes (with_user_data ref (length dat) (bb_size m - length dat) (bb_buffer m) self) = dat"
  using suffix_bytes [OF assms] by (simp add: user_data_bytes_def with_user_data_def bb_bytes_def ByteBuffer_wrap_def)

lemma request_outcome_frame [simp]:
  "user_data_bytes (fst (request_outcome self x)) = user_data_bytes self"
  "nextReference (fst (request_outcome self x)) = nextReference self"
  by (simp_all add: request_outcome_def user_data_bytes_def split: option.split prod.split)

subsection \<open>Properties\<close>

text \<open>C22: The parser for ACSE messages is memory safe and terminates on every message. It keeps
  the authenticator; the user data is left as it was or points into the message, and it does so,
  and is not empty, whenever an association is indicated.\<close>

theorem acse_parse_safe:
  assumes "bb_ok message"
  shows "\<exists>self' ind. AcseConnection_parseMessage self (Some message) = Some (self', ind) \<and>
           authenticator self' = authenticator self \<and>
           ((userDataBuffer self', userDataBufferSize self') = (userDataBuffer self, userDataBufferSize self) \<or>
            user_data_in (bb_buffer message) (bb_size message) self') \<and>
           (ind = ACSE_ASSOCIATE \<longrightarrow> user_data_in (bb_buffer message) (bb_size message) self')"
proof -
  have "bb_size message \<le> length (bb_buffer message)" using assms by (simp add: bb_ok_def)
  from parseMessage_ok [OF this, of self] show ?thesis unfolding pdu_ok_def acse_inv_def by blast
qed

definition acse_zero :: AcseConnection where
  "acse_zero = AcseConnection_init \<lparr>acse_state = idle, nextReference = 0, userDataBuffer = None, userDataBufferSize = 0,
     authenticator = None, applicationReference = \<lparr>apTitle = \<lparr>arc = [], arcCount = 0\<rparr>, aeQualifier = 0\<rparr>, securityToken = None\<rparr> None"

theorem acse_parse_safe_witness:
  "\<exists>self' ind. AcseConnection_parseMessage acse_zero (Some \<lparr>bb_buffer = [0x60, 2, 0xbe, 0x84], bb_maxSize = 4, bb_size = 4\<rparr>) =
     Some (self', ind) \<and> authenticator self' = authenticator acse_zero"
  using acse_parse_safe [of "\<lparr>bb_buffer = [0x60, 2, 0xbe, 0x84], bb_maxSize = 4, bb_size = 4\<rparr>" acse_zero]
  by (auto simp: bb_ok_def)

text \<open>C24: An association response is parsed by the initiator: the association is accepted exactly
  when the responder's result code is 0, the user data is exactly the responder's payload, and a
  reference below \<open>2 ^ 31\<close> arrives unchanged.\<close>

theorem acse_response_roundtrip:
  assumes "chain_ok payload" and "0 < ch_length payload" and "ch_length payload \<le> 65000"
    and "60 \<le> length (ch_buffer wb)" and "AcseConnection_createAssociateResponseMessage self result wb (Some payload) = Some c"
    and "bb_ok message" and "bb_bytes message = chain_bytes c"
  shows "\<exists>peer'. AcseConnection_parseMessage peer (Some message) =
             Some (peer', if result = 0 then ACSE_ASSOCIATE else ACSE_ASSOCIATE_FAILED) \<and>
           user_data_bytes peer' = chain_bytes payload \<and>
           (uint (nextReference self) < 2 ^ 31 \<longrightarrow> nextReference peer' = nextReference self)"
proof -
  let ?n = "ch_length payload" and ?ref = "ber_uint32 (ucast (nextReference self))"
  have n: "?n = length (chain_bytes payload)" using length_chain_bytes [OF assms(1)] by simp
  have ref: "0 < length ?ref" "length ?ref \<le> 5" using length_ber_uint32 by blast+
  have sz: "length (ber_length k) \<le> 4" for k by (simp add: ber_length_def)
  have "length (aare_header ?ref result ?n) \<le> 60"
    using sz [of ?n] sz [of "assoc_length (length ?ref) ?n"] sz [of "user_info_length (length ?ref) ?n"] ref
      sz [of "21 + (user_info_length (length ?ref) ?n + BerEncoder_determineLengthSize (user_info_length (length ?ref) ?n) + 1)"]
    by (simp add: aare_header_def context_name_def user_info_def assoc_data_def ber_length_small)
  then have bytes: "bb_bytes message = aare_header ?ref result ?n @ chain_bytes payload"
    using acse_response.create_header [OF assms(1), of self result wb] assms(4,5,7) by auto
  have "ucast (of_int (uval (take 4 ?ref)) :: 32 word) = nextReference self" if "uint (nextReference self) < 2 ^ 31"
  proof -
    have "uint (ucast (nextReference self) :: 32 word) = uint (nextReference self)"
      using that by (simp add: unsigned_ucast_eq take_bit_int_eq_self)
    with that have "uint (ucast (of_int (uval (take 4 ?ref)) :: 32 word) :: 64 word) = uint (nextReference self)"
      unfolding uval_take_4_ber_uint32 by (simp add: unsigned_ucast_eq take_bit_int_eq_self uint_word_of_int unsigned_take_bit_eq)
    then show ?thesis by (rule word_uint_eqI)
  qed
  with aare_parsed [OF assms(6) bytes n assms(2,3) ref, of peer] user_data_suffix [OF assms(6) bytes, of ?ref peer] n
  show ?thesis by (simp add: with_user_data_def)
qed

text \<open>The message that holds exactly the bytes of a chain, used in the examples.\<close>

definition message_of :: "bufferChain \<Rightarrow> ByteBuffer" where
  "message_of c = \<lparr>bb_buffer = chain_bytes c, bb_maxSize = length (chain_bytes c), bb_size = length (chain_bytes c)\<rparr>"

lemma message_of [simp]: "bb_ok (message_of c)" "bb_bytes (message_of c) = chain_bytes c"
  by (simp_all add: message_of_def bb_ok_def bb_bytes_def)

theorem acse_response_roundtrip_witness:
  "\<exists>c peer'. AcseConnection_createAssociateResponseMessage (acse_zero\<lparr>nextReference := 3\<rparr>) 0
       (BufferChain 0 0 64 (replicate 64 0) None) (Some (BufferChain 2 2 2 [0xa8, 0] None)) = Some c \<and>
     AcseConnection_parseMessage acse_zero (Some (message_of c)) = Some (peer', ACSE_ASSOCIATE) \<and>
     user_data_bytes peer' = [0xa8, 0] \<and> nextReference peer' = 3"
proof -
  let ?wb = "BufferChain 0 0 64 (replicate 64 0) None" and ?d = "BufferChain 2 2 2 [0xa8, 0] None"
    and ?s = "acse_zero\<lparr>nextReference := 3\<rparr>"
  have "AcseConnection_createAssociateResponseMessage ?s 0 ?wb (Some ?d) \<noteq> None" by code_simp
  then obtain c where c: "AcseConnection_createAssociateResponseMessage ?s 0 ?wb (Some ?d) = Some c" by blast
  have "chain_ok ?d" "0 < ch_length ?d" "ch_length ?d \<le> 65000" "60 \<le> length (ch_buffer ?wb)" by simp_all
  from acse_response_roundtrip [OF this c message_of, of acse_zero] c show ?thesis by simp
qed

text \<open>C23: An association request without authentication or with a password is parsed by the
  acceptor: the user data is exactly the initiator's payload, the reference is 3, the
  application reference carries the initiator's AP title and AE qualifier (0 for a negative one),
  and if an authenticator is installed it is called with exactly the transmitted password and
  its verdict alone decides whether the association is indicated or refused.\<close>

theorem acse_request_roundtrip:
  assumes "params_ok p" and "- (2 ^ 31) \<le> localAEQualifier p" and "localAEQualifier p < 2 ^ 31"
    and "auth_ok auth" and "auth = None \<or> mechanism (the auth) = ACSE_AUTH_PASSWORD"
    and "chain_ok payload" and "0 < ch_length payload" and "ch_length payload \<le> 65000"
    and "length (aarq_header p auth (ch_length payload)) \<le> length (ch_buffer wb)"
    and "AcseConnection_createAssociateRequestMessage p wb payload auth = Some c"
    and "bb_ok message" and "bb_bytes message = chain_bytes c"
  shows "\<exists>peer' ind ref rest. AcseConnection_parseMessage peer (Some message) = Some (peer', ind) \<and>
           user_data_bytes peer' = chain_bytes payload \<and> nextReference peer' = 3 \<and>
           received_reference p (applicationReference peer) ref \<and>
           (case authenticator peer of
              None \<Rightarrow> ind = ACSE_ASSOCIATE \<and> applicationReference peer' = ref
            | Some f \<Rightarrow> f (received_auth auth rest) ref =
                (ind = ACSE_ASSOCIATE, securityToken peer', applicationReference peer') \<and>
                (ind = ACSE_ASSOCIATE \<or> ind = ACSE_ASSOCIATE_FAILED))"
proof -
  let ?n = "ch_length payload"
  have n: "?n = length (chain_bytes payload)" using length_chain_bytes [OF assms(6)] by simp
  have bytes: "bb_bytes message = aarq_header p auth ?n @ chain_bytes payload"
    using createAssociateRequest_eq [OF assms(1,4,6,8,9)] assms(10,12) by auto
  have "length_excess auth = 0" using assms(5) by (auto simp: length_excess_def split: option.split)
  then obtain ref rest where r: "received_reference p (applicationReference peer) ref"
    "AcseConnection_parseMessage peer (Some message) =
       Some (request_outcome (with_user_data [3] ?n (bb_size message - ?n) (bb_buffer message) (peer\<lparr>applicationReference := ref\<rparr>))
         (received_auth auth rest))"
    using aarq_parsed [OF assms(11) bytes n assms(7,8,1-4)] by blast
  let ?w = "with_user_data [3] ?n (bb_size message - ?n) (bb_buffer message) (peer\<lparr>applicationReference := ref\<rparr>)"
  obtain peer' ind where o: "request_outcome ?w (received_auth auth rest) = (peer', ind)" by fastforce
  then have "user_data_bytes peer' = chain_bytes payload" "nextReference peer' = 3"
    using request_outcome_frame [of ?w "received_auth auth rest"] user_data_suffix [OF assms(11) bytes, of "[3]"] n
    by (simp_all add: with_user_data_def)
  with o r show ?thesis
    by (intro exI [of _ peer'] exI [of _ ind] exI [of _ ref] exI [of _ rest])
       (auto simp: request_outcome_def with_user_data_def split: option.splits prod.splits if_splits)
qed

definition password_example :: AcseAuthenticationParameter where
  "password_example = \<lparr>mechanism = ACSE_AUTH_PASSWORD, octetString = Some [0x70, 0x77], passwordLength = 2\<rparr>"

definition authenticator_example :: AcseAuthenticator where
  "authenticator_example = (\<lambda>a ref. (mechanism a = ACSE_AUTH_PASSWORD \<and> password a = [0x70, 0x77], Some 1, ref))"

definition params_zero :: IsoConnectionParameters where
  "params_zero = (case IsoConnectionParameters_create True of Ret p \<Rightarrow> p)"

theorem acse_request_roundtrip_witness:
  "\<exists>c peer' ind. AcseConnection_createAssociateRequestMessage params_zero (BufferChain 0 0 128 (replicate 128 0) None)
       (BufferChain 2 2 2 [0xa8, 0] None) (Some password_example) = Some c \<and>
     AcseConnection_parseMessage (acse_zero\<lparr>authenticator := Some authenticator_example\<rparr>) (Some (message_of c)) = Some (peer', ind) \<and>
     ind = ACSE_ASSOCIATE \<and> user_data_bytes peer' = [0xa8, 0] \<and> nextReference peer' = 3"
proof -
  let ?wb = "BufferChain 0 0 128 (replicate 128 0) None" and ?d = "BufferChain 2 2 2 [0xa8, 0] None"
    and ?a = "Some password_example" and ?s = "acse_zero\<lparr>authenticator := Some authenticator_example\<rparr>"
  have "AcseConnection_createAssociateRequestMessage params_zero ?wb ?d ?a \<noteq> None" by code_simp
  then obtain c where c: "AcseConnection_createAssociateRequestMessage params_zero ?wb ?d ?a = Some c" by blast
  have p: "params_ok params_zero" "localAEQualifier params_zero = 0"
    using params_ok_create [of True] by (simp_all add: params_zero_def IsoConnectionParameters_create_def params_ok_def selector_ok_def)
  have a: "auth_ok ?a" "?a = None \<or> mechanism (the ?a) = ACSE_AUTH_PASSWORD"
    by (simp_all add: auth_ok_def password_example_def)
  have len: "length (aarq_header params_zero ?a (ch_length ?d)) \<le> length (ch_buffer ?wb)" by code_simp
  have d: "chain_ok ?d" "0 < ch_length ?d" "ch_length ?d \<le> 65000" by simp_all
  from acse_request_roundtrip [OF p(1) _ _ a d len c message_of, of ?s] p(2) c show ?thesis
    by (auto simp: received_auth_def authenticator_example_def password_def password_example_def)
qed

text \<open>C25: An association request whose authentication parameter names a mechanism other than the
  password is malformed: the length its outermost element announces is exactly 7 more than the
  bytes that follow it, and the acceptor rejects every such request with its connection unchanged.\<close>

theorem acse_request_none_rejected:
  assumes "params_ok p" and "auth_ok (Some auth)" and "mechanism auth \<noteq> ACSE_AUTH_PASSWORD"
    and "chain_ok payload" and "ch_length payload \<le> 65000"
    and "length (aarq_header p (Some auth) (ch_length payload)) \<le> length (ch_buffer wb)"
    and "AcseConnection_createAssociateRequestMessage p wb payload (Some auth) = Some c"
    and "bb_ok message" and "bb_bytes message = chain_bytes c"
  shows "\<exists>contents. bb_bytes message = 0x60 # ber_length (length contents + 7) @ contents \<and> length contents + 7 < 2 ^ 24 \<and>
    AcseConnection_parseMessage peer (Some message) = Some (peer, ACSE_ERROR)"
proof -
  let ?n = "ch_length payload" and ?b = "bb_buffer message" and ?body = "request_body p (Some auth) (ch_length payload)"
  let ?C = "length ?body + 7 + ?n"
  have n: "?n = length (chain_bytes payload)" using length_chain_bytes [OF assms(4)] by simp
  have bytes: "bb_bytes message = 0x60 # ber_length ?C @ ?body @ chain_bytes payload"
    using createAssociateRequest_eq [OF assms(1,2,4,5,6)] assms(3,7,9) by (auto simp: aarq_header_def length_excess_def)
  have C: "?C = length (?body @ chain_bytes payload) + 7" using n by simp
  have "has ?b 0 (0x60 # ber_length ?C @ ?body @ chain_bytes payload)" using bb_has [OF assms(8)] by (simp only: bytes)
  then have h: "rd ?b 0 = Some 0x60" "has ?b 1 (ber_length ?C)" by simp_all
  have "bb_size message = 1 + length (ber_length ?C) + length ?body + ?n"
    using length_bb_bytes [OF assms(8)] n by (simp add: bytes)
  then have "\<not> bb_size message < 1" "bb_size message < 1 + length (ber_length ?C) + ?C" by simp_all
  moreover have lt: "?C < 2 ^ 24" using length_request_body(1) [OF assms(1,2,5)] assms(5) by simp
  ultimately have "AcseConnection_parseMessage peer (Some message) = Some (peer, ACSE_ERROR)"
    using decodeLength_too_long [OF h(2), of "bb_size message"] h(1) assms(8)
    by (simp add: AcseConnection_parseMessage_def Let_def bb_ok_def del: rd_eq_Some)
  with bytes lt show ?thesis unfolding C by blast
qed


theorem acse_request_none_rejected_witness:
  "\<exists>c. AcseConnection_createAssociateRequestMessage params_zero (BufferChain 0 0 128 (replicate 128 0) None)
       (BufferChain 2 2 2 [0xa8, 0] None) (Some (password_example\<lparr>mechanism := ACSE_AUTH_NONE\<rparr>)) = Some c \<and>
     AcseConnection_parseMessage acse_zero (Some (message_of c)) = Some (acse_zero, ACSE_ERROR)"
proof -
  let ?wb = "BufferChain 0 0 128 (replicate 128 0) None" and ?d = "BufferChain 2 2 2 [0xa8, 0] None"
    and ?a = "password_example\<lparr>mechanism := ACSE_AUTH_NONE\<rparr>"
  have "AcseConnection_createAssociateRequestMessage params_zero ?wb ?d (Some ?a) \<noteq> None" by code_simp
  then obtain c where c: "AcseConnection_createAssociateRequestMessage params_zero ?wb ?d (Some ?a) = Some c" by blast
  have p: "params_ok params_zero"
    by (simp add: params_zero_def IsoConnectionParameters_create_def params_ok_def selector_ok_def)
  have a: "auth_ok (Some ?a)" "mechanism ?a \<noteq> ACSE_AUTH_PASSWORD" by (simp_all add: auth_ok_def password_example_def)
  have len: "length (aarq_header params_zero (Some ?a) (ch_length ?d)) \<le> length (ch_buffer ?wb)" by code_simp
  have d: "chain_ok ?d" "ch_length ?d \<le> 65000" by simp_all
  from acse_request_none_rejected [OF p a d len c message_of] c show ?thesis by blast
qed

text \<open>Abort, release request and release response messages written into a buffer with room
  for them are recognised as such by the peer and change nothing in its connection.\<close>

theorem acse_release_abort:
  assumes "5 \<le> length (ch_buffer wb)"
  shows "(\<exists>c. AcseConnection_createAbortMessage wb isProvider = Some c \<and> chain_ok c \<and>
            (\<forall>m. bb_ok m \<and> bb_bytes m = chain_bytes c \<longrightarrow> AcseConnection_parseMessage peer (Some m) = Some (peer, ACSE_ABORT))) \<and>
         (\<exists>c. AcseConnection_createReleaseRequestMessage wb = Some c \<and> chain_ok c \<and>
            (\<forall>m. bb_ok m \<and> bb_bytes m = chain_bytes c \<longrightarrow> AcseConnection_parseMessage peer (Some m) = Some (peer, ACSE_RELEASE_REQUEST))) \<and>
         (\<exists>c. AcseConnection_createReleaseResponseMessage wb = Some c \<and> chain_ok c \<and>
            (\<forall>m. bb_ok m \<and> bb_bytes m = chain_bytes c \<longrightarrow> AcseConnection_parseMessage peer (Some m) = Some (peer, ACSE_RELEASE_RESPONSE)))"
proof -
  have frame: "AcseConnection_parseMessage peer (Some m) = Some (peer, ind)"
    if "bb_ok m" "bb_bytes m = tag # of_nat (length body) # body" "length body < 128"
      "(tag, ind) \<in> {(0x62, ACSE_RELEASE_REQUEST), (0x63, ACSE_RELEASE_RESPONSE), (0x64, ACSE_ABORT)}" for m tag body ind
  proof -
    have "bb_bytes m = tag # ber_length (length body) @ body @ []" using that(2,3) by (simp add: ber_length_small)
    from acse_frame [OF that(1) this] that(3) obtain p where "\<not> bb_size m < 1" "rd (bb_buffer m) 0 = Some tag"
      "BerDecoder_decodeLength (bb_buffer m) 1 (bb_size m) = Some (Ret (p, length body))" by auto
    with that(4) show ?thesis by (auto simp: AcseConnection_parseMessage_def Let_def simp del: rd_eq_Some)
  qed
  from assms have "Suc (Suc (Suc (Suc (Suc 0)))) \<le> length (ch_buffer wb)" by simp
  then obtain x0 x1 x2 x3 x4 bs where b: "ch_buffer wb = x0 # x1 # x2 # x3 # x4 # bs"
    by (auto simp only: Suc_le_length_iff)
  let ?p = "if isProvider then 1 else 0 :: byte" and ?m = "ch_partMaxLength wb"
  have c: "AcseConnection_createAbortMessage wb isProvider = Some (BufferChain 5 5 ?m (0x64 # 3 # 0x80 # 1 # ?p # bs) None)"
    "AcseConnection_createReleaseRequestMessage wb = Some (BufferChain 5 5 ?m (0x62 # 3 # 0x80 # 1 # 0 # bs) None)"
    "AcseConnection_createReleaseResponseMessage wb = Some (BufferChain 2 2 ?m (0x63 # 0 # x2 # x3 # x4 # bs) None)"
    by (simp_all add: AcseConnection_createAbortMessage_def AcseConnection_createReleaseRequestMessage_def
        AcseConnection_createReleaseResponseMessage_def b)
  show ?thesis
    unfolding c option.inject
    using frame [where body = "[0x80, 1, ?p]" and tag = "0x64" and ind = ACSE_ABORT]
      frame [where body = "[0x80, 1, 0]" and tag = "0x62" and ind = ACSE_RELEASE_REQUEST]
      frame [where body = "[]" and tag = "0x63" and ind = ACSE_RELEASE_RESPONSE]
    by simp
qed

theorem acse_release_abort_witness:
  "\<exists>c. AcseConnection_createAbortMessage (BufferChain 0 0 8 (replicate 8 0) None) True = Some c \<and>
     AcseConnection_parseMessage acse_zero (Some (message_of c)) = Some (acse_zero, ACSE_ABORT)"
  using acse_release_abort [of "BufferChain 0 0 8 (replicate 8 0) None" True acse_zero] message_of by auto

end
