(* ===== verification/Iso_Connection.thy ===== *)
theory Iso_Connection
  imports Cotp_Invariant Iso_Session Iso_Presentation Acse
begin

section \<open>The server side of an association\<close>

text \<open>
  Model of \<open>src/mms/iso_server/iso_connection.c\<close>: one connection of the MMS server. It owns a
  transport connection, a session, a presentation and an ACSE object, drives them with what the
  network delivers, and calls the application's message handler. The receive buffer of the C
  struct is the payload buffer of the transport connection, which points to it.

  The application is a parameter: the handler is a function of its own state, the request and
  the response buffer. The response buffer wraps the send buffer, so that after the call the send
  buffer holds what the handler wrote; the protocol layers write their headers behind it, one
  after the other, in the same array (\<open>part_at\<close>, \<open>store_part\<close>). The connection's semaphore is its
  count; waiting for it while the count is 0 never returns in this single-threaded view, and is
  \<open>None\<close> like an access outside an array.
\<close>

subsection \<open>State\<close>

datatype IsoConState = ISO_CON_STATE_RUNNING | ISO_CON_STATE_STOPPED | ISO_CON_STATE_TERMINATED

type_synonym 'h MessageReceivedHandler = "'h \<Rightarrow> ByteBuffer \<Rightarrow> ByteBuffer \<Rightarrow> 'h \<times> ByteBuffer"

record 'h IsoConnection =
  con_sendBuffer :: "byte list"
  msgRcvdHandler :: "'h MessageReceivedHandler option"
  tickHandler :: "('h \<Rightarrow> 'h) option"
  handlerParameter :: 'h
  con_state :: IsoConState
  con_session :: IsoSession
  con_presentation :: IsoPresentation
  con_cotp :: CotpConnection
  con_acse :: AcseConnection
  clientAddress :: "string option"
  localAddress :: "string option"
  conMutex :: nat

definition RECEIVE_BUF_SIZE :: nat where "RECEIVE_BUF_SIZE = 65000 + 100"
definition SEND_BUF_SIZE :: nat where "SEND_BUF_SIZE = 65000 + 100"

subsection \<open>Operations\<close>

definition IsoConnection_lock :: "'h IsoConnection \<Rightarrow> 'h IsoConnection option" where
  "IsoConnection_lock self = (if conMutex self = 0 then None else Some (self\<lparr>conMutex := conMutex self - 1\<rparr>))"

definition IsoConnection_unlock :: "'h IsoConnection \<Rightarrow> 'h IsoConnection" where
  "IsoConnection_unlock self = self\<lparr>conMutex := Suc (conMutex self)\<rparr>"

definition IsoConnection_stop :: "'h IsoConnection \<Rightarrow> 'h IsoConnection" where
  "IsoConnection_stop self = self\<lparr>con_state := ISO_CON_STATE_STOPPED\<rparr>"

definition IsoConnection_callTickHandler :: "'h IsoConnection \<Rightarrow> 'h IsoConnection option" where
  "IsoConnection_callTickHandler self = do {
     cotp \<leftarrow> CotpConnection_flushBuffer (con_cotp self);
     let self = self\<lparr>con_cotp := cotp\<rparr>;
     Some (case tickHandler self of None \<Rightarrow> self | Some f \<Rightarrow> self\<lparr>handlerParameter := f (handlerParameter self)\<rparr>) }"

text \<open>The call of the application with an empty response buffer wrapped around the send buffer.\<close>

definition call_handler :: "'h IsoConnection \<Rightarrow> ByteBuffer \<Rightarrow> 'h IsoConnection \<times> nat" where
  "call_handler self mmsRequest =
     (let mmsResponseBuffer = ByteBuffer_wrap (con_sendBuffer self) 0 0 SEND_BUF_SIZE
      in case msgRcvdHandler self of
           None \<Rightarrow> (self, 0)
         | Some f \<Rightarrow>
             (case f (handlerParameter self) mmsRequest mmsResponseBuffer of
                (h, response) \<Rightarrow> (self\<lparr>handlerParameter := h, con_sendBuffer := bb_buffer response\<rparr>, bb_size response)))"

text \<open>A chain element whose buffer is \<open>sendBuffer + off\<close>, and the send buffer after the layer wrote
  its header there.\<close>

definition part_at :: "byte list \<Rightarrow> nat \<Rightarrow> bufferChain" where
  "part_at sb off = BufferChain 0 0 (SEND_BUF_SIZE - off) (drop off sb) None"

definition store_part :: "byte list \<Rightarrow> nat \<Rightarrow> bufferChain \<Rightarrow> byte list" where
  "store_part sb off part = take off sb @ ch_buffer part"

definition send_part :: "'h IsoConnection \<Rightarrow> byte list \<Rightarrow> bufferChain \<Rightarrow> ('h IsoConnection \<times> CotpIndication) option" where
  "send_part self sb part = do {
     (cotp, r) \<leftarrow> CotpConnection_sendDataMessage (con_cotp self) part;
     Some (self\<lparr>con_sendBuffer := sb, con_cotp := cotp\<rparr>, r) }"

definition associate_response :: "'h IsoConnection \<Rightarrow> nat \<Rightarrow> ('h IsoConnection \<times> CotpIndication) option" where
  "associate_response self responseSize = do {
     let sb = con_sendBuffer self;
     let mmsPart = BufferChain_init responseSize responseSize None sb;
     acsePart \<leftarrow> AcseConnection_createAssociateResponseMessage (con_acse self) 0 (part_at sb (ch_length mmsPart)) (Some mmsPart);
     let sb = store_part sb (ch_length mmsPart) acsePart;
     presentationPart \<leftarrow> IsoPresentation_createCpaMessage (con_presentation self) (part_at sb (ch_length acsePart)) acsePart;
     let sb = store_part sb (ch_length acsePart) presentationPart;
     sessionPart \<leftarrow> IsoSession_createAcceptSpdu (con_session self) (part_at sb (ch_length presentationPart)) presentationPart;
     let sb = store_part sb (ch_length presentationPart) sessionPart;
     send_part self sb sessionPart }"

definition handle_connect :: "'h IsoConnection \<Rightarrow> 'h IsoConnection option" where
  "handle_connect self = do {
     (presentation, ok) \<leftarrow> IsoPresentation_parseConnect (con_presentation self) (IsoSession_getUserData (con_session self));
     let self = self\<lparr>con_presentation := presentation\<rparr>;
     if ok then do {
       (acse, aIndication) \<leftarrow> AcseConnection_parseMessage (con_acse self) (Some (nextPayload presentation));
       let self = self\<lparr>con_acse := acse\<rparr>;
       if aIndication = ACSE_ASSOCIATE then do {
         self \<leftarrow> IsoConnection_lock self;
         dat \<leftarrow> userDataBuffer acse;
         let mmsRequest = ByteBuffer_wrap dat 0 (userDataBufferSize acse) (userDataBufferSize acse);
         let (self, responseSize) = call_handler self mmsRequest;
         (self, r) \<leftarrow> (if responseSize > 0 then associate_response self responseSize else Some (self, COTP_OK));
         Some (IsoConnection_unlock self) }
       else Some (IsoConnection_stop self) }
     else Some (IsoConnection_stop self) }"

definition data_response :: "'h IsoConnection \<Rightarrow> nat \<Rightarrow> ('h IsoConnection \<times> CotpIndication) option" where
  "data_response self responseSize = do {
     let sb = con_sendBuffer self;
     let mmsPart = BufferChain_init responseSize responseSize None sb;
     presentationPart \<leftarrow> IsoPresentation_createUserData (con_presentation self) (part_at sb (ch_length mmsPart)) mmsPart;
     let sb = store_part sb (ch_length mmsPart) presentationPart;
     sessionPart \<leftarrow> IsoSession_createDataSpdu (con_session self) (part_at sb (ch_length presentationPart)) presentationPart;
     send_part self sb sessionPart }"

definition handle_data :: "'h IsoConnection \<Rightarrow> 'h IsoConnection option" where
  "handle_data self = do {
     (presentation, ok) \<leftarrow> IsoPresentation_parseUserData (con_presentation self) (IsoSession_getUserData (con_session self));
     let self = self\<lparr>con_presentation := presentation\<rparr>;
     if \<not> ok then Some (IsoConnection_stop self)
     else if nextContextId presentation = mmsContextId presentation then do {
       self \<leftarrow> IsoConnection_lock self;
       let (self, responseSize) = call_handler self (nextPayload presentation);
       (self, r) \<leftarrow> (if responseSize > 0 then data_response self responseSize else Some (self, COTP_OK));
       Some (IsoConnection_unlock self) }
     else Some self }"

definition release_response :: "'h IsoConnection \<Rightarrow> ('h IsoConnection \<times> CotpIndication) option" where
  "release_response self = do {
     let sb = con_sendBuffer self;
     acsePart \<leftarrow> AcseConnection_createReleaseResponseMessage (part_at sb 0);
     let sb = store_part sb 0 acsePart;
     presentationPart \<leftarrow> IsoPresentation_createUserDataACSE (con_presentation self) (part_at sb (ch_length acsePart)) acsePart;
     let sb = store_part sb (ch_length acsePart) presentationPart;
     sessionPart \<leftarrow> IsoSession_createDisconnectSpdu (con_session self) (part_at sb (ch_length presentationPart)) presentationPart;
     let sb = store_part sb (ch_length presentationPart) sessionPart;
     send_part self sb sessionPart }"

definition handle_finish :: "'h IsoConnection \<Rightarrow> 'h IsoConnection option" where
  "handle_finish self = do {
     (presentation, ok) \<leftarrow> IsoPresentation_parseUserData (con_presentation self) (IsoSession_getUserData (con_session self));
     let self = self\<lparr>con_presentation := presentation\<rparr>;
     if ok then do {
       self \<leftarrow> IsoConnection_lock self;
       (self, r) \<leftarrow> release_response self;
       Some (IsoConnection_stop (IsoConnection_unlock self)) }
     else Some (IsoConnection_stop self) }"

definition handle_payload :: "'h IsoConnection \<Rightarrow> 'h IsoConnection option" where
  "handle_payload self = do {
     (session, sIndication) \<leftarrow> IsoSession_parseMessage (con_session self) (cotp_payload (con_cotp self));
     let self = self\<lparr>con_session := session\<rparr>;
     self \<leftarrow> (case sIndication of
         SESSION_CONNECT \<Rightarrow> handle_connect self
       | SESSION_DATA \<Rightarrow> handle_data self
       | SESSION_FINISH \<Rightarrow> handle_finish self
       | SESSION_ABORT \<Rightarrow> Some (IsoConnection_stop self)
       | SESSION_ERROR \<Rightarrow> Some (IsoConnection_stop self)
       | _ \<Rightarrow> Some (IsoConnection_stop self));
     Some (self\<lparr>con_cotp := CotpConnection_resetPayload (con_cotp self)\<rparr>) }"

definition handle_packet :: "bool \<Rightarrow> 'h IsoConnection \<Rightarrow> 'h IsoConnection option" where
  "handle_packet mem self = do {
     (cotp, cotpIndication) \<leftarrow> CotpConnection_parseIncomingMessage (con_cotp self);
     let self = self\<lparr>con_cotp := cotp\<rparr>;
     case cotpIndication of
       COTP_MORE_FRAGMENTS_FOLLOW \<Rightarrow> Some self
     | COTP_CONNECT_INDICATION \<Rightarrow> do {
         self \<leftarrow> IsoConnection_lock self;
         (cotp, r) \<leftarrow> CotpConnection_sendConnectionResponseMessage mem (con_cotp self);
         Some (IsoConnection_unlock (self\<lparr>con_cotp := cotp\<rparr>)) }
     | COTP_DATA_INDICATION \<Rightarrow> handle_payload self
     | COTP_ERROR \<Rightarrow> Some (IsoConnection_stop self)
     | _ \<Rightarrow> Some (IsoConnection_stop self) }"

text \<open>\<open>mem\<close> says whether an allocation would succeed; the write buffer exists, so that none is made.\<close>

definition receive_packet :: "'h IsoConnection \<Rightarrow> bool \<Rightarrow> ('h IsoConnection \<times> bool) option" where
  "receive_packet self isSingleThread = do {
     (self, ready) \<leftarrow>
       (if isSingleThread then Some (self, True)
        else do {
          self \<leftarrow> IsoConnection_callTickHandler self;
          let (s, n) = Handleset_waitReady (cotp_socket (con_cotp self));
          Some (self\<lparr>con_cotp := (con_cotp self)\<lparr>cotp_socket := s\<rparr>\<rparr>, \<not> n < 1) });
     if \<not> ready then Some (self, False)
     else do {
       (cotp, tpktState) \<leftarrow> CotpConnection_readToTpktBuffer (con_cotp self);
       let self = self\<lparr>con_cotp := cotp\<rparr>;
       let self = (if tpktState = TPKT_ERROR then IsoConnection_stop self else self);
       Some (self, tpktState = TPKT_PACKET_COMPLETE) } }"

definition IsoConnection_handleTcpConnection :: "bool \<Rightarrow> 'h IsoConnection \<Rightarrow> bool \<Rightarrow> 'h IsoConnection option" where
  "IsoConnection_handleTcpConnection mem self isSingleThread = do {
     (self, complete) \<leftarrow> receive_packet self isSingleThread;
     if complete then handle_packet mem self else Some self }"

text \<open>The thread of a connection: one unit of fuel is one pass of its loop.\<close>

fun handleTcpConnection :: "nat \<Rightarrow> bool \<Rightarrow> 'h IsoConnection \<Rightarrow> 'h IsoConnection option" where
  "handleTcpConnection 0 mem self = Some self"
| "handleTcpConnection (Suc fuel) mem self =
     (if con_state self = ISO_CON_STATE_RUNNING then do {
        self \<leftarrow> IsoConnection_handleTcpConnection mem self False;
        handleTcpConnection fuel mem self }
      else Some (self\<lparr>con_state := ISO_CON_STATE_TERMINATED\<rparr>))"

definition IsoConnection_create ::
  "TSelector \<Rightarrow> CotpConnection \<Rightarrow> AcseConnection \<Rightarrow> Socket \<Rightarrow> AcseAuthenticator option \<Rightarrow> string option \<Rightarrow> string option \<Rightarrow> 'h \<Rightarrow> 'h IsoConnection" where
  "IsoConnection_create tsel cotp0 acse0 socket auth peer own h =
     \<lparr>con_sendBuffer = replicate SEND_BUF_SIZE 0,
      msgRcvdHandler = None, tickHandler = None, handlerParameter = h, con_state = ISO_CON_STATE_RUNNING,
      con_session = IsoSession_init,
      con_presentation = presentation_zero,
      con_cotp = CotpConnection_init tsel cotp0 socket
        (ByteBuffer_wrap (replicate RECEIVE_BUF_SIZE 0) 0 0 RECEIVE_BUF_SIZE)
        (ByteBuffer_wrap (replicate (COTP_MAX_TPDU_SIZE + 4) 0) 0 0 (COTP_MAX_TPDU_SIZE + 4))
        (Some (ByteBuffer_wrap (replicate (COTP_MAX_TPDU_SIZE + 4) 0) 0 0 (COTP_MAX_TPDU_SIZE + 4)))
        (Some (replicate (65000 + 1000) 0)) (65000 + 1000),
      con_acse = AcseConnection_init acse0 auth,
      clientAddress = peer, localAddress = own, conMutex = 1\<rparr>"

definition IsoConnection_sendMessage :: "'h IsoConnection \<Rightarrow> ByteBuffer \<Rightarrow> ('h IsoConnection \<times> bool) option" where
  "IsoConnection_sendMessage self message =
     (if con_state self = ISO_CON_STATE_STOPPED then Some (self, False)
      else do {
        let payload = BufferChain (bb_size message) (bb_size message) (bb_size message) (bb_buffer message) None;
        presentationBuffer \<leftarrow> IsoPresentation_createUserData (con_presentation self) (part_at (con_sendBuffer self) 0) payload;
        let sb = store_part (con_sendBuffer self) 0 presentationBuffer;
        sessionBuffer \<leftarrow> IsoSession_createDataSpdu (con_session self) (part_at sb (ch_partLength presentationBuffer)) presentationBuffer;
        (self, indication) \<leftarrow> send_part self sb sessionBuffer;
        Some (self, indication = COTP_OK) })"

definition IsoConnection_installListener ::
  "'h IsoConnection \<Rightarrow> 'h MessageReceivedHandler option \<Rightarrow> ('h \<Rightarrow> 'h) option \<Rightarrow> 'h \<Rightarrow> 'h IsoConnection" where
  "IsoConnection_installListener self handler tick param = self\<lparr>msgRcvdHandler := handler, tickHandler := tick, handlerParameter := param\<rparr>"

definition IsoConnection_isRunning :: "'h IsoConnection \<Rightarrow> bool" where
  "IsoConnection_isRunning self = (con_state self = ISO_CON_STATE_RUNNING)"

text \<open>Closing sets the state to stopped, waits for the thread of the connection or, without threads,
  finalises and frees the protocol layers, and sets the state to terminated. The model gives the
  state in which the function returns: the thread has then ended, and memory that is freed is not
  represented, so nothing is said of uses of a closed connection. Closing is therefore not a step
  of the runs below.\<close>

definition IsoConnection_close :: "'h IsoConnection \<Rightarrow> 'h IsoConnection" where
  "IsoConnection_close self =
     (if con_state self \<noteq> ISO_CON_STATE_TERMINATED then self\<lparr>con_state := ISO_CON_STATE_TERMINATED\<rparr> else self)"

definition IsoConnection_getSecurityToken :: "'h IsoConnection \<Rightarrow> nat option" where
  "IsoConnection_getSecurityToken self = securityToken (con_acse self)"

subsection \<open>Layers in the send buffer\<close>

lemma length_ber_length_le: "length (ber_length n) \<le> 4"
  by (simp add: ber_length_def)

lemma user_data_header_bound: "length (user_data_header c n) \<le> 18"
  using length_ber_length_le [of "fullyEncodedDataLength n"] length_ber_length_le [of "encodedDataSetLength n"] length_ber_length_le [of n]
  by (simp add: user_data_header_def pdv_header_def)

lemma cpa_header_bound: "length (cpa_header c n) \<le> 59"
  using user_data_header_bound [of c n] length_ber_length_le [of "cpa_length n"]
    length_ber_length_le [of "5 + cpa_length n + (BerEncoder_determineLengthSize (cpa_length n) + 1)"]
  by (simp add: cpa_header_def cpa_parameters_def Let_def)

lemma aare_header_bound:
  assumes "length ref \<le> 5"
  shows "length (aare_header ref result n) \<le> 48"
  using assms length_ber_length_le [of n] length_ber_length_le [of "assoc_length (length ref) n"] length_ber_length_le [of "user_info_length (length ref) n"]
    length_ber_length_le [of "21 + (user_info_length (length ref) n + BerEncoder_determineLengthSize (user_info_length (length ref) n) + 1)"]
  by (simp add: aare_header_def context_name_def user_info_def assoc_data_def ber_length_small)

lemma ch_buffer_part_at [simp]: "ch_buffer (part_at sb off) = drop off sb"
  by (simp add: part_at_def)

lemma parts_ok_headed: "headed c hdr payload \<Longrightarrow> parts_ok payload \<Longrightarrow> 0 < ch_partLength payload \<Longrightarrow> parts_ok c"
  by (cases c) auto

lemma length_headed: "headed c hdr payload \<Longrightarrow> chain_ok payload \<Longrightarrow> ch_length c = length hdr + ch_length payload"
  using length_chain_bytes [of c] length_chain_bytes [of payload] by simp

text \<open>A layer that writes in place can be put behind the first \<open>off\<close> bytes of the send buffer, as
  long as its header fits; the send buffer keeps its size.\<close>

context layer_in_place
begin

lemma create_at:
  assumes "chain_ok payload" and "parts_ok payload" and "0 < ch_partLength payload"
    and "length sb = SEND_BUF_SIZE" and "off + length (header (ch_length payload)) \<le> SEND_BUF_SIZE"
  obtains c where "create (part_at sb off) payload = Some c" and "headed c (header (ch_length payload)) payload" and "parts_ok c"
    and "ch_length c = length (header (ch_length payload)) + ch_length payload" and "length (store_part sb off c) = SEND_BUF_SIZE"
proof -
  have "length (header (ch_length payload)) \<le> length (ch_buffer (part_at sb off))" using assms(4,5) by simp
  from create_in_place [OF assms(1) this] obtain c where c: "create (part_at sb off) payload = Some c"
    "headed c (header (ch_length payload)) payload" "length (ch_buffer c) = length (ch_buffer (part_at sb off))" by blast
  have "length (store_part sb off c) = SEND_BUF_SIZE" using c(3) assms(4,5) by (simp add: store_part_def)
  with that [OF c(1,2)] parts_ok_headed [OF c(2) assms(2,3)] length_headed [OF c(2) assms(1)] show thesis by blast
qed

end

context layers
begin

lemma create_both_at:
  assumes "chain_ok payload" and "parts_ok payload" and "0 < ch_partLength payload" and "0 < length (header1 (ch_length payload))"
    and "length sb = SEND_BUF_SIZE" and "off + length (header1 (ch_length payload)) \<le> SEND_BUF_SIZE"
    and "\<And>c1. ch_length c1 = length (header1 (ch_length payload)) + ch_length payload \<Longrightarrow>
      length (ch_buffer c1) = SEND_BUF_SIZE - off \<Longrightarrow> length (header2 (ch_length c1)) \<le> length (ch_buffer (wb2 c1))"
  obtains c1 c where "create1 (part_at sb off) payload = Some c1" and "ch_partLength c1 = length (header1 (ch_length payload))"
    and "create2 (wb2 c1) c1 = Some c" and "chain_ok c" and "parts_ok c" and "length (store_part sb off c1) = SEND_BUF_SIZE"
    and "chain_bytes c = header2 (length (header1 (ch_length payload)) + ch_length payload) @ header1 (ch_length payload) @ chain_bytes payload"
proof -
  have r: "length (header1 (ch_length payload)) \<le> length (ch_buffer (part_at sb off))" using assms(5,6) by simp
  obtain c1 c where c: "create1 (part_at sb off) payload = Some c1" "headed c1 (header1 (ch_length payload)) payload"
    "length (ch_buffer c1) = length (ch_buffer (part_at sb off))" "create2 (wb2 c1) c1 = Some c"
    "headed c (header2 (length (header1 (ch_length payload)) + ch_length payload)) c1"
    "chain_bytes c = header2 (length (header1 (ch_length payload)) + ch_length payload) @ header1 (ch_length payload) @ chain_bytes payload"
    using create_both [OF assms(1) r, of wb2] assms(5,7) by auto
  have "parts_ok c" using parts_ok_headed [OF c(5) parts_ok_headed [OF c(2) assms(2,3)]] c(2) assms(4) by simp
  moreover have "length (store_part sb off c1) = SEND_BUF_SIZE" using c(3) assms(5,6) by (simp add: store_part_def)
  ultimately show thesis using that c by blast
qed

end

interpretation data_stack: layers "IsoPresentation_createUserData p" "user_data_header (mmsContextId p)"
  "IsoSession_createDataSpdu s" "\<lambda>n. dataSpdu" for p s
  by unfold_locales

lemma accept_at:
  assumes "session_ok session" and "chain_ok payload" and "parts_ok payload" and "0 < ch_partLength payload"
    and "length sb = SEND_BUF_SIZE" and "off + 34 \<le> SEND_BUF_SIZE"
  obtains c where "IsoSession_createAcceptSpdu session (part_at sb off) payload = Some c"
    and "headed c (with_length 14 (accept_body session (ch_length payload)) (ch_length payload)) payload" and "parts_ok c"
    and "length (store_part sb off c) = SEND_BUF_SIZE"
proof -
  have "sel_size (calledSessionSelector session) \<le> 16" using assms(1) by (simp add: session_ok_def selector_ok_def)
  then have "length (accept_body session (ch_length payload)) + 2 \<le> length (ch_buffer (part_at sb off))"
    using length_bodies(2) [OF assms(1), of "ch_length payload"] assms(5,6) by simp
  then obtain c where c: "IsoSession_createAcceptSpdu session (part_at sb off) payload = Some c"
    "headed c (with_length 14 (accept_body session (ch_length payload)) (ch_length payload)) payload"
    "length (ch_buffer c) = length (ch_buffer (part_at sb off))"
    using createAcceptSpdu_eq [OF assms(1,2), of "part_at sb off"] by auto
  have "length (store_part sb off c) = SEND_BUF_SIZE" using c(3) assms(5,6) by (simp add: store_part_def)
  with that [OF c(1,2)] parts_ok_headed [OF c(2) assms(3,4)] show thesis by blast
qed

subsection \<open>The responses\<close>

text \<open>What the three responses put on the wire, and that building them stays inside the send
  buffer. \<open>responds\<close> relates the connection before and after.\<close>

definition responds :: "'h IsoConnection \<Rightarrow> byte list \<Rightarrow> 'h IsoConnection \<Rightarrow> CotpIndication \<Rightarrow> bool" where
  "responds self msg self' r \<longleftrightarrow>
     (\<exists>sb cotp. self' = self\<lparr>con_sendBuffer := sb, con_cotp := cotp\<rparr> \<and> length sb = SEND_BUF_SIZE \<and> sends (con_cotp self) msg cotp r)"

lemma send_part_ok:
  assumes "cotp_ok (con_cotp self)" and "chain_ok c" and "parts_ok c" and "length sb = SEND_BUF_SIZE"
  shows "\<exists>self' r. send_part self sb c = Some (self', r) \<and> responds self (chain_bytes c) self' r"
proof -
  obtain cotp r where "CotpConnection_sendDataMessage (con_cotp self) c = Some (cotp, r)" "sends (con_cotp self) (chain_bytes c) cotp r"
    using sendDataMessage_ok [OF assms(1-3)] by blast
  with assms(4) show ?thesis by (auto simp: send_part_def responds_def)
qed

definition associate_message :: "'h IsoConnection \<Rightarrow> byte list \<Rightarrow> byte list" where
  "associate_message self response =
     (let aare = aare_header (ber_uint32 (ucast (nextReference (con_acse self)))) 0 (length response) @ response;
          cpa = cpa_header (acseContextId (con_presentation self)) (length aare) @ aare
      in with_length 14 (accept_body (con_session self) (length cpa)) (length cpa) @ cpa)"

lemma mms_part_ok:
  assumes "0 < n" and "n \<le> length sb"
  shows "chain_ok (BufferChain_init n n None sb)" and "parts_ok (BufferChain_init n n None sb)"
    and "0 < ch_partLength (BufferChain_init n n None sb)" and "chain_bytes (BufferChain_init n n None sb) = take n sb"
    and "ch_length (BufferChain_init n n None sb) = n"
  using assms by (simp_all add: BufferChain_init_def)

lemma associate_response_ok:
  assumes "cotp_ok (con_cotp self)" and "session_ok (con_session self)" and "length (con_sendBuffer self) = SEND_BUF_SIZE"
    and "0 < n" and "n \<le> 64950"
  shows "\<exists>self' r. associate_response self n = Some (self', r) \<and>
    responds self (associate_message self (take n (con_sendBuffer self))) self' r"
proof -
  let ?sb = "con_sendBuffer self" and ?ref = "ber_uint32 (ucast (nextReference (con_acse self)))"
  let ?mms = "BufferChain_init n n None ?sb"
  have n: "n \<le> length ?sb" "length (take n ?sb) = n" using assms(3,5) by (simp_all add: SEND_BUF_SIZE_def)
  note mms = mms_part_ok [OF assms(4) n(1)]
  have h1: "length (aare_header ?ref 0 n) \<le> 48" using length_ber_uint32 by (blast intro: aare_header_bound)
  then obtain c1 where c1: "AcseConnection_createAssociateResponseMessage (con_acse self) 0 (part_at ?sb n) (Some ?mms) = Some c1"
    "headed c1 (aare_header ?ref 0 n) ?mms" "parts_ok c1" "ch_length c1 = length (aare_header ?ref 0 n) + n"
    "length (store_part ?sb n c1) = SEND_BUF_SIZE"
    using acse_response.create_at [OF mms(1-3) assms(3), of n "con_acse self" 0] mms(5) assms(5) by (auto simp: SEND_BUF_SIZE_def)
  let ?sb1 = "store_part ?sb n c1" and ?ctx = "acseContextId (con_presentation self)" and ?k1 = "ch_length c1"
  have l1: "?k1 \<le> 64998" "?k1 = length (chain_bytes c1)" using c1(2,4) h1 assms(5) length_chain_bytes [of c1] by simp_all
  have p1: "0 < ch_partLength c1" using c1(2) by (simp add: aare_header_def)
  obtain c2 where c2: "IsoPresentation_createCpaMessage (con_presentation self) (part_at ?sb1 ?k1) c1 = Some c2"
    "headed c2 (cpa_header ?ctx ?k1) c1" "parts_ok c2" "ch_length c2 = length (cpa_header ?ctx ?k1) + ?k1"
    "length (store_part ?sb1 ?k1 c2) = SEND_BUF_SIZE"
    using presentation_cpa.create_at [OF _ c1(3) p1 c1(5), of ?k1 "con_presentation self"] c1(2) l1(1) cpa_header_bound [of ?ctx ?k1]
    by (auto simp: SEND_BUF_SIZE_def)
  let ?sb2 = "store_part ?sb1 ?k1 c2" and ?k2 = "ch_length c2"
  have l2: "?k2 \<le> 65057" "?k2 = length (chain_bytes c2)"
    using c2(2,4) cpa_header_bound [of ?ctx ?k1] l1(1) length_chain_bytes [of c2] by simp_all
  have p2: "0 < ch_partLength c2" using c2(2) by (simp add: cpa_header_def Let_def)
  obtain c3 where c3: "IsoSession_createAcceptSpdu (con_session self) (part_at ?sb2 ?k2) c2 = Some c3"
    "headed c3 (with_length 14 (accept_body (con_session self) ?k2) ?k2) c2" "parts_ok c3" "length (store_part ?sb2 ?k2 c3) = SEND_BUF_SIZE"
    using accept_at [OF assms(2) _ c2(3) p2 c2(5), of ?k2] c2(2) l2(1) by (auto simp: SEND_BUF_SIZE_def)
  have "chain_bytes c3 = associate_message self (take n ?sb)"
    using c3(2) c2(2) c1(2) l1(2) l2(2) mms(4) n(2) by (simp add: associate_message_def Let_def)
  then show ?thesis
    using send_part_ok [OF assms(1) _ c3(3,4)] c1(1) c2(1) c3(1,2) mms(5)
    by (simp add: associate_response_def Let_def)
qed

definition data_message :: "'h IsoConnection \<Rightarrow> byte list \<Rightarrow> byte list" where
  "data_message self payload = dataSpdu @ user_data_header (mmsContextId (con_presentation self)) (length payload) @ payload"

lemma data_response_ok:
  assumes "cotp_ok (con_cotp self)" and "length (con_sendBuffer self) = SEND_BUF_SIZE" and "0 < n" and "n \<le> 65000"
  shows "\<exists>self' r. data_response self n = Some (self', r) \<and> responds self (data_message self (take n (con_sendBuffer self))) self' r"
proof -
  let ?sb = "con_sendBuffer self" and ?ctx = "mmsContextId (con_presentation self)"
  let ?mms = "BufferChain_init n n None ?sb"
  have n: "n \<le> length ?sb" "length (take n ?sb) = n" using assms(2,4) by (simp_all add: SEND_BUF_SIZE_def)
  note mms = mms_part_ok [OF assms(3) n(1)]
  obtain c1 c where c: "IsoPresentation_createUserData (con_presentation self) (part_at ?sb n) ?mms = Some c1"
    "IsoSession_createDataSpdu (con_session self) (part_at (store_part ?sb n c1) (ch_length c1)) c1 = Some c" "chain_ok c" "parts_ok c"
    "length (store_part ?sb n c1) = SEND_BUF_SIZE" "chain_bytes c = dataSpdu @ user_data_header ?ctx n @ take n ?sb"
  proof (rule data_stack.create_both_at [OF mms(1-3) _ assms(2), of "con_presentation self" n
        "\<lambda>c. part_at (store_part ?sb n c) (ch_length c)" "con_session self"])
    show "length dataSpdu \<le> length (ch_buffer (part_at (store_part ?sb n c) (ch_length c)))"
      if "ch_length c = length (user_data_header ?ctx (ch_length ?mms)) + ch_length ?mms" "length (ch_buffer c) = SEND_BUF_SIZE - n" for c
      using that assms(2,4) mms(5) user_data_header_bound [of ?ctx n] by (simp add: store_part_def dataSpdu_def SEND_BUF_SIZE_def)
  qed (use mms(4,5) assms(4) user_data_header_bound [of ?ctx n] in \<open>auto simp: SEND_BUF_SIZE_def user_data_header_def\<close>)
  then show ?thesis
    using send_part_ok [OF assms(1) c(3-5)] mms(5) n(2) by (simp add: data_response_def data_message_def Let_def)
qed

definition release_message :: "'h IsoConnection \<Rightarrow> byte list" where
  "release_message self =
     (let pdv = user_data_header (acseContextId (con_presentation self)) 2 @ [0x63, 0]
      in with_length 10 [193, of_nat (length pdv)] (length pdv) @ pdv)"

lemma release_response_ok:
  assumes "cotp_ok (con_cotp self)" and "length (con_sendBuffer self) = SEND_BUF_SIZE"
  shows "\<exists>self' r. release_response self = Some (self', r) \<and> responds self (release_message self) self' r"
proof -
  let ?sb = "con_sendBuffer self" and ?ctx = "acseContextId (con_presentation self)"
  define c0 where "c0 = BufferChain 2 2 (SEND_BUF_SIZE - 0) (?sb[0 := 0x63, 1 := 0]) None"
  have len: "0 < length ?sb" "1 < length ?sb" "2 \<le> length ?sb" using assms(2) by (simp_all add: SEND_BUF_SIZE_def)
  then have c0: "AcseConnection_createReleaseResponseMessage (part_at ?sb 0) = Some c0" "chain_ok c0" "parts_ok c0"
    "0 < ch_partLength c0" "ch_length c0 = 2" "chain_bytes c0 = [0x63, 0]" "length (store_part ?sb 0 c0) = SEND_BUF_SIZE"
    using assms(2) by (cases ?sb; cases "tl ?sb"; simp add: c0_def AcseConnection_createReleaseResponseMessage_def wr_def part_at_def store_part_def)+
  let ?sb0 = "store_part ?sb 0 c0"
  obtain c1 where c1: "IsoPresentation_createUserDataACSE (con_presentation self) (part_at ?sb0 2) c0 = Some c1"
    "headed c1 (user_data_header ?ctx 2) c0" "parts_ok c1" "ch_length c1 = length (user_data_header ?ctx 2) + 2"
    "length (store_part ?sb0 2 c1) = SEND_BUF_SIZE"
    using presentation_acse.create_at [OF c0(2-4,7), of 2 "con_presentation self"] c0(5) user_data_header_bound [of ?ctx 2]
    by (auto simp: SEND_BUF_SIZE_def)
  let ?sb1 = "store_part ?sb0 2 c1" and ?k = "ch_length c1"
  have p1: "0 < ch_partLength c1" using c1(2) by (simp add: user_data_header_def)
  have l1: "?k \<le> 20" "?k = length (chain_bytes c1)"
    using c1(2,4) user_data_header_bound [of ?ctx 2] length_chain_bytes [of c1] by simp_all
  obtain c2 where c2: "IsoSession_createDisconnectSpdu (con_session self) (part_at ?sb1 ?k) c1 = Some c2"
    "headed c2 (with_length 10 [193, of_nat ?k] ?k) c1" "parts_ok c2" "length (store_part ?sb1 ?k c2) = SEND_BUF_SIZE"
    using session_disconnect.create_at [OF _ c1(3) p1 c1(5), of ?k "con_session self"] c1(2) l1(1)
    by (auto simp: SEND_BUF_SIZE_def with_length_def)
  have "chain_bytes c2 = release_message self"
    using c2(2) c1(2) l1(2) c0(6) by (simp add: release_message_def Let_def)
  then show ?thesis
    using send_part_ok [OF assms(1) _ c2(3,4)] c0(1,5) c1(1) c2(1,2) by (simp add: release_response_def Let_def)
qed

subsection \<open>The invariant of a connection\<close>

text \<open>What the connection relies on: the handler writes into the response buffer it is given, and
  no response is larger than the largest MMS message, \<open>CONFIG_MMS_MAXIMUM_PDU_SIZE\<close>. The send buffer
  has 100 bytes more than that, which is enough for the headers of the data phase.\<close>

definition handler_ok :: "'h MessageReceivedHandler \<Rightarrow> bool" where
  "handler_ok f \<longleftrightarrow> (\<forall>h request response. length (bb_buffer (snd (f h request response))) = length (bb_buffer response) \<and>
     bb_size (snd (f h request response)) \<le> 65000)"

text \<open>It is not enough for an association response, whose three headers need up to 141 bytes.
  \<open>associate_answer\<close> is the size of the response the handler gives if the payload is an association
  request, and \<open>oversized\<close> says that the packet just read completes an association request whose
  response leaves less room than that.\<close>

definition associate_answer :: "'h IsoConnection \<Rightarrow> nat option" where
  "associate_answer self = do {
     (session, sIndication) \<leftarrow> IsoSession_parseMessage (con_session self) (cotp_payload (con_cotp self));
     (presentation, ok) \<leftarrow> IsoPresentation_parseConnect (con_presentation self) (IsoSession_getUserData session);
     (acse, aIndication) \<leftarrow> AcseConnection_parseMessage (con_acse self) (Some (nextPayload presentation));
     dat \<leftarrow> userDataBuffer acse;
     if sIndication = SESSION_CONNECT \<and> ok \<and> aIndication = ACSE_ASSOCIATE
     then Some (snd (call_handler self (ByteBuffer_wrap dat 0 (userDataBufferSize acse) (userDataBufferSize acse))))
     else None }"

definition oversized :: "'h IsoConnection \<Rightarrow> bool" where
  "oversized self =
     (case CotpConnection_parseIncomingMessage (con_cotp self) of
        Some (cotp, COTP_DATA_INDICATION) \<Rightarrow>
          (case associate_answer (self\<lparr>con_cotp := cotp\<rparr>) of Some n \<Rightarrow> 64950 < n | None \<Rightarrow> False)
      | _ \<Rightarrow> False)"

text \<open>\<open>upper_ok\<close> is the part above the transport.\<close>

definition upper_ok :: "'h IsoConnection \<Rightarrow> bool" where
  "upper_ok self \<longleftrightarrow> session_ok (con_session self) \<and> presentation_ok (con_presentation self) \<and>
     length (con_sendBuffer self) = SEND_BUF_SIZE \<and> (\<forall>f. msgRcvdHandler self = Some f \<longrightarrow> handler_ok f)"

definition con_inv :: "'h IsoConnection \<Rightarrow> bool" where
  "con_inv self \<longleftrightarrow> upper_ok self \<and> cotp_ok (con_cotp self) \<and> payload_memory (con_cotp self) = (RECEIVE_BUF_SIZE, RECEIVE_BUF_SIZE)"

definition con_ok :: "'h IsoConnection \<Rightarrow> bool" where
  "con_ok self \<longleftrightarrow> con_inv self \<and> conMutex self = 1"

lemma upper_ok_simps [simp]:
  "upper_ok (self\<lparr>con_cotp := c\<rparr>) = upper_ok self"
  "upper_ok (self\<lparr>con_acse := a\<rparr>) = upper_ok self"
  "upper_ok (self\<lparr>con_state := st\<rparr>) = upper_ok self"
  "upper_ok (self\<lparr>conMutex := m\<rparr>) = upper_ok self"
  "upper_ok (self\<lparr>handlerParameter := h\<rparr>) = upper_ok self"
  by (simp_all add: upper_ok_def)

lemma con_inv_simps [simp]:
  "con_inv (self\<lparr>con_acse := a\<rparr>) = con_inv self"
  "con_inv (self\<lparr>con_state := st\<rparr>) = con_inv self"
  "con_inv (self\<lparr>conMutex := m\<rparr>) = con_inv self"
  "con_inv (self\<lparr>handlerParameter := h\<rparr>) = con_inv self"
  "con_inv (IsoConnection_stop self) = con_inv self"
  "con_inv (IsoConnection_unlock self) = con_inv self"
  by (simp_all add: con_inv_def IsoConnection_stop_def IsoConnection_unlock_def)

lemma con_mutex_simps [simp]:
  "conMutex (IsoConnection_stop self) = conMutex self"
  "conMutex (IsoConnection_unlock self) = Suc (conMutex self)"
  by (simp_all add: IsoConnection_stop_def IsoConnection_unlock_def)

lemma con_inv_presentation: "con_inv self \<Longrightarrow> presentation_ok p \<Longrightarrow> con_inv (self\<lparr>con_presentation := p\<rparr>)"
  by (simp add: con_inv_def upper_ok_def)

lemma con_inv_session: "con_inv self \<Longrightarrow> session_ok s \<Longrightarrow> con_inv (self\<lparr>con_session := s\<rparr>)"
  by (simp add: con_inv_def upper_ok_def)

lemma con_inv_cotp: "con_inv self \<Longrightarrow> cotp_ok c \<Longrightarrow> payload_memory c = payload_memory (con_cotp self) \<Longrightarrow> con_inv (self\<lparr>con_cotp := c\<rparr>)"
  by (simp add: con_inv_def)

lemma responds_inv:
  assumes "responds self msg self' r" and "con_inv self"
  shows "con_inv self'" and "conMutex self' = conMutex self"
  using assms tx_frame_ok [of "con_cotp self"] by (auto simp: responds_def sends_def con_inv_def upper_ok_def)

lemma call_handler_inv:
  assumes "con_inv self" and "call_handler self request = (self', n)"
  shows "con_inv self'" and "conMutex self' = conMutex self" and "n \<le> 65000"
proof -
  let ?resp = "ByteBuffer_wrap (con_sendBuffer self) 0 0 SEND_BUF_SIZE"
  have "con_inv self' \<and> conMutex self' = conMutex self \<and> n \<le> 65000"
  proof (cases "msgRcvdHandler self")
    case None
    then show ?thesis using assms by (simp add: call_handler_def)
  next
    case (Some f)
    then have "handler_ok f" using assms(1) by (simp add: con_inv_def upper_ok_def)
    then have "length (bb_buffer (snd (f (handlerParameter self) request ?resp))) = length (con_sendBuffer self)"
      "bb_size (snd (f (handlerParameter self) request ?resp)) \<le> 65000"
      by (simp_all add: handler_ok_def ByteBuffer_wrap_def)
    then show ?thesis using assms Some by (auto simp: call_handler_def con_inv_def upper_ok_def split: prod.splits)
  qed
  then show "con_inv self'" and "conMutex self' = conMutex self" and "n \<le> 65000" by auto
qed

lemma call_handler_size:
  assumes "msgRcvdHandler s = msgRcvdHandler self" and "handlerParameter s = handlerParameter self" and "con_sendBuffer s = con_sendBuffer self"
  shows "snd (call_handler s request) = snd (call_handler self request)"
  using assms by (simp add: call_handler_def Let_def split: option.split prod.split)

text \<open>The application is called under the lock, and the response, if there is one, is sent.\<close>

lemma locked_call:
  assumes "con_ok self"
    and "snd (call_handler self request) \<le> limit"
    and "\<And>s n. con_inv s \<Longrightarrow> 0 < n \<Longrightarrow> n \<le> limit \<Longrightarrow> \<exists>s' r. respond s n = Some (s', r) \<and> con_inv s' \<and> conMutex s' = conMutex s"
  shows "\<exists>self'. (do {
      self \<leftarrow> IsoConnection_lock self;
      let (self, n) = call_handler self request;
      (self, r) \<leftarrow> (if n > 0 then respond self n else Some (self, COTP_OK));
      Some (IsoConnection_unlock self) }) = Some self' \<and> con_ok self'"
proof -
  have l: "IsoConnection_lock self = Some (self\<lparr>conMutex := 0\<rparr>)" using assms(1) by (simp add: con_ok_def IsoConnection_lock_def)
  obtain s n where c: "call_handler (self\<lparr>conMutex := 0\<rparr>) request = (s, n)" by fastforce
  have i: "con_inv (self\<lparr>conMutex := 0\<rparr>)" using assms(1) by (simp add: con_ok_def)
  note s = call_handler_inv [OF i c]
  have "snd (call_handler (self\<lparr>conMutex := 0\<rparr>) request) = snd (call_handler self request)" by (rule call_handler_size) simp_all
  then have "n \<le> limit" using c assms(2) by simp
  then show ?thesis using assms(3) [OF s(1), of n] l c s by (cases "n > 0") (auto simp: con_ok_def)
qed

lemma con_inv_parts:
  assumes "con_inv self"
  shows "cotp_ok (con_cotp self)" and "session_ok (con_session self)" and "presentation_ok (con_presentation self)"
    and "length (con_sendBuffer self) = SEND_BUF_SIZE" and "payload_memory (con_cotp self) = (RECEIVE_BUF_SIZE, RECEIVE_BUF_SIZE)"
  using assms by (simp_all add: con_inv_def upper_ok_def)

lemma response_steps:
  assumes "con_inv self"
  shows "0 < n \<Longrightarrow> n \<le> 64950 \<Longrightarrow> \<exists>self' r. associate_response self n = Some (self', r) \<and> con_inv self' \<and> conMutex self' = conMutex self"
    and "0 < n \<Longrightarrow> n \<le> 65000 \<Longrightarrow> \<exists>self' r. data_response self n = Some (self', r) \<and> con_inv self' \<and> conMutex self' = conMutex self"
    and "\<exists>self' r. release_response self = Some (self', r) \<and> con_inv self' \<and> conMutex self' = conMutex self"
proof -
  note i = con_inv_parts [OF assms]
  have r: "\<exists>self' r. x = Some (self', r) \<and> con_inv self' \<and> conMutex self' = conMutex self"
    if "\<exists>self' r. x = Some (self', r) \<and> responds self msg self' r" for x msg
    using that responds_inv [OF _ assms] by blast
  show "0 < n \<Longrightarrow> n \<le> 64950 \<Longrightarrow> \<exists>self' r. associate_response self n = Some (self', r) \<and> con_inv self' \<and> conMutex self' = conMutex self"
    by (rule r [OF associate_response_ok]) (use i in auto)
  show "0 < n \<Longrightarrow> n \<le> 65000 \<Longrightarrow> \<exists>self' r. data_response self n = Some (self', r) \<and> con_inv self' \<and> conMutex self' = conMutex self"
    by (rule r [OF data_response_ok]) (use i in auto)
  show "\<exists>self' r. release_response self = Some (self', r) \<and> con_inv self' \<and> conMutex self' = conMutex self"
    by (rule r [OF release_response_ok]) (use i in auto)
qed

lemma handle_connect_ok:
  assumes "con_ok self" and "bb_size (userData (con_session self)) \<le> length (bb_buffer (userData (con_session self)))"
    and "\<And>p acse dat. IsoPresentation_parseConnect (con_presentation self) (userData (con_session self)) = Some (p, True) \<Longrightarrow>
      AcseConnection_parseMessage (con_acse self) (Some (nextPayload p)) = Some (acse, ACSE_ASSOCIATE) \<Longrightarrow> userDataBuffer acse = Some dat \<Longrightarrow>
      snd (call_handler self (ByteBuffer_wrap dat 0 (userDataBufferSize acse) (userDataBufferSize acse))) \<le> 64950"
  shows "\<exists>self'. handle_connect self = Some self' \<and> con_ok self'"
proof -
  let ?m = "userData (con_session self)"
  have i: "con_inv self" "conMutex self = 1" "presentation_ok (con_presentation self)"
    using assms(1) by (simp_all add: con_ok_def con_inv_def upper_ok_def)
  obtain p ok where p: "IsoPresentation_parseConnect (con_presentation self) ?m = Some (p, ok)" "presentation_ok p"
    "ok \<longrightarrow> payload_in (bb_buffer ?m) (bb_size ?m) p"
    using connect_parsers_ok [OF assms(2) i(3)] by blast
  let ?s = "self\<lparr>con_presentation := p\<rparr>"
  have s: "con_ok ?s" using con_inv_presentation [OF i(1) p(2)] i(2) by (simp add: con_ok_def)
  show ?thesis
  proof (cases ok)
    case False
    then show ?thesis using p(1) s by (simp add: handle_connect_def IsoSession_getUserData_def con_ok_def)
  next
    case True
    then have "bb_size (nextPayload p) \<le> length (bb_buffer (nextPayload p))" using p(3) assms(2) by (auto simp: payload_in_def)
    from parseMessage_ok [OF this, of "con_acse self"] obtain a ind where
      a: "AcseConnection_parseMessage (con_acse self) (Some (nextPayload p)) = Some (a, ind)"
        "ind = ACSE_ASSOCIATE \<longrightarrow> user_data_in (bb_buffer (nextPayload p)) (bb_size (nextPayload p)) a"
      by (auto simp: pdu_ok_def acse_inv_def)
    have s': "con_ok (?s\<lparr>con_acse := a\<rparr>)" using s by (simp add: con_ok_def)
    show ?thesis
    proof (cases "ind = ACSE_ASSOCIATE")
      case False
      then show ?thesis using p(1) a(1) True s' by (simp add: handle_connect_def IsoSession_getUserData_def con_ok_def)
    next
      case assoc: True
      then obtain dat where dat: "userDataBuffer a = Some dat" using a(2) by (auto simp: user_data_in_def)
      let ?req = "ByteBuffer_wrap dat 0 (userDataBufferSize a) (userDataBufferSize a)"
      have "snd (call_handler (?s\<lparr>con_acse := a\<rparr>) ?req) = snd (call_handler self ?req)" by (rule call_handler_size) simp_all
      then have n: "snd (call_handler (?s\<lparr>con_acse := a\<rparr>) ?req) \<le> 64950" using assms(3) [OF _ _ dat] p(1) a(1) True assoc by simp
      show ?thesis
        using locked_call [OF s' n response_steps(1)] dat p(1) a(1) True assoc
        by (simp add: handle_connect_def IsoSession_getUserData_def Let_def)
    qed
  qed
qed

lemma parseUserData_con:
  assumes "con_ok self" and "bb_size (userData (con_session self)) < length (bb_buffer (userData (con_session self)))"
  obtains p ok where "IsoPresentation_parseUserData (con_presentation self) (userData (con_session self)) = Some (p, ok)"
    "con_ok (self\<lparr>con_presentation := p\<rparr>)"
proof -
  obtain p ok where p: "IsoPresentation_parseUserData (con_presentation self) (userData (con_session self)) = Some (p, ok)"
    "callingPresentationSelector p = callingPresentationSelector (con_presentation self)"
    "calledPresentationSelector p = calledPresentationSelector (con_presentation self)"
    using user_data_parser_ok [OF assms(2)] by blast
  then have "con_ok (self\<lparr>con_presentation := p\<rparr>)"
    using assms(1) by (simp add: con_ok_def con_inv_def upper_ok_def presentation_ok_def)
  with that [OF p(1)] show thesis by blast
qed

lemma handle_data_ok:
  assumes "con_ok self" and "bb_size (userData (con_session self)) < length (bb_buffer (userData (con_session self)))"
  shows "\<exists>self'. handle_data self = Some self' \<and> con_ok self'"
proof -
  obtain p ok where p: "IsoPresentation_parseUserData (con_presentation self) (userData (con_session self)) = Some (p, ok)"
    "con_ok (self\<lparr>con_presentation := p\<rparr>)" using assms by (rule parseUserData_con)
  have "con_inv (self\<lparr>con_presentation := p\<rparr>)" using p(2) by (simp add: con_ok_def)
  then have "snd (call_handler (self\<lparr>con_presentation := p\<rparr>) (nextPayload p)) \<le> 65000"
    using call_handler_inv(3) [of "self\<lparr>con_presentation := p\<rparr>" "nextPayload p"] by (metis prod.collapse)
  from locked_call [OF p(2) this response_steps(2)] show ?thesis
    using p by (cases ok) (simp_all add: handle_data_def IsoSession_getUserData_def Let_def con_ok_def)
qed

lemma handle_finish_ok:
  assumes "con_ok self" and "bb_size (userData (con_session self)) < length (bb_buffer (userData (con_session self)))"
  shows "\<exists>self'. handle_finish self = Some self' \<and> con_ok self'"
proof -
  obtain p ok where p: "IsoPresentation_parseUserData (con_presentation self) (userData (con_session self)) = Some (p, ok)"
    "con_ok (self\<lparr>con_presentation := p\<rparr>)" using assms by (rule parseUserData_con)
  show ?thesis
  proof (cases ok)
    case False
    then show ?thesis using p by (simp add: handle_finish_def IsoSession_getUserData_def con_ok_def)
  next
    case True
    have "IsoConnection_lock (self\<lparr>con_presentation := p\<rparr>) = Some (self\<lparr>con_presentation := p, conMutex := 0\<rparr>)"
      using p(2) by (simp add: con_ok_def IsoConnection_lock_def)
    then show ?thesis
      using response_steps(3) [of "self\<lparr>con_presentation := p, conMutex := 0\<rparr>"] p True
      by (auto simp: handle_finish_def IsoSession_getUserData_def con_ok_def)
  qed
qed

text \<open>A complete message is handled whatever it contains, unless it fills the receive buffer to the
  last byte: then the presentation parser may read one byte behind it.\<close>

lemma handle_payload_ok:
  assumes "con_ok self" and "bb_size (cotp_payload (con_cotp self)) < RECEIVE_BUF_SIZE"
    and "\<And>n. associate_answer self = Some n \<Longrightarrow> n \<le> 64950"
  shows "\<exists>self'. handle_payload self = Some self' \<and> con_ok self'"
proof -
  let ?m = "cotp_payload (con_cotp self)"
  have i: "con_inv self" "session_ok (con_session self)" "bb_ok ?m" "length (bb_buffer ?m) = RECEIVE_BUF_SIZE"
    using assms(1) by (simp_all add: con_ok_def con_inv_def upper_ok_def cotp_ok_def cotp_mem_def payload_memory_def)
  obtain s ind where s: "IsoSession_parseMessage (con_session self) ?m = Some (s, ind)" "session_ok s"
    "ind \<in> {SESSION_CONNECT, SESSION_DATA, SESSION_FINISH, SESSION_DISCONNECT} \<longrightarrow> rest_of ?m (userData s)"
    using session_parse_ok [OF i(3,2)] by blast
  let ?s = "self\<lparr>con_session := s\<rparr>"
  have ok: "con_ok ?s" using con_inv_session [OF i(1) s(2)] assms(1) by (simp add: con_ok_def)
  have lt: "bb_size (userData s) < length (bb_buffer (userData s))" if "rest_of ?m (userData s)"
    using that i(4) assms(2) by (auto simp: rest_of_def ByteBuffer_wrap_def)
  have small: "snd (call_handler ?s (ByteBuffer_wrap dat 0 (userDataBufferSize acse) (userDataBufferSize acse))) \<le> 64950"
    if "ind = SESSION_CONNECT" "IsoPresentation_parseConnect (con_presentation ?s) (userData (con_session ?s)) = Some (p, True)"
      "AcseConnection_parseMessage (con_acse ?s) (Some (nextPayload p)) = Some (acse, ACSE_ASSOCIATE)" "userDataBuffer acse = Some dat" for p acse dat
  proof -
    let ?req = "ByteBuffer_wrap dat 0 (userDataBufferSize acse) (userDataBufferSize acse)"
    have "associate_answer self = Some (snd (call_handler self ?req))"
      using s(1) that by (simp add: associate_answer_def IsoSession_getUserData_def)
    moreover have "snd (call_handler ?s ?req) = snd (call_handler self ?req)" by (rule call_handler_size) simp_all
    ultimately show ?thesis using assms(3) by simp
  qed
  have connect: "\<exists>self'. handle_connect ?s = Some self' \<and> con_ok self'" if "ind = SESSION_CONNECT"
    by (rule handle_connect_ok [OF ok _ small [OF that]]) (use that s(3) lt in auto)
  have "\<exists>self'. (case ind of SESSION_CONNECT \<Rightarrow> handle_connect ?s | SESSION_DATA \<Rightarrow> handle_data ?s | SESSION_FINISH \<Rightarrow> handle_finish ?s
      | SESSION_ABORT \<Rightarrow> Some (IsoConnection_stop ?s) | SESSION_ERROR \<Rightarrow> Some (IsoConnection_stop ?s) | _ \<Rightarrow> Some (IsoConnection_stop ?s)) =
      Some self' \<and> con_ok self'"
    using s(3) lt connect handle_data_ok [OF ok] handle_finish_ok [OF ok] ok
    by (cases ind) (auto simp: con_ok_def)
  then obtain t where t: "handle_payload self = Some (t\<lparr>con_cotp := CotpConnection_resetPayload (con_cotp t)\<rparr>)" "con_ok t"
    using s(1) by (auto simp: handle_payload_def)
  then have "con_ok (t\<lparr>con_cotp := CotpConnection_resetPayload (con_cotp t)\<rparr>)"
    using con_inv_cotp [of t] resetPayload_ok by (simp add: con_ok_def con_inv_def)
  with t(1) show ?thesis by blast
qed

lemma handle_packet_ok:
  assumes "upper_ok self" and "conMutex self = 1" and "payload_memory (con_cotp self) = (RECEIVE_BUF_SIZE, RECEIVE_BUF_SIZE)"
    and "cotp_mem (con_cotp self)" and "packet_complete (con_cotp self)" and "socketExtensionBufferFill (con_cotp self) = 0"
    and "bb_size (cotp_payload (con_cotp self)) + (packetSize (con_cotp self) - 7) \<noteq> RECEIVE_BUF_SIZE" and "\<not> oversized self"
  shows "\<exists>self'. handle_packet mem self = Some self' \<and> con_ok self'"
proof -
  obtain c ind where c: "CotpConnection_parseIncomingMessage (con_cotp self) = Some (c, ind)" "cotp_ok c"
    "payload_memory c = payload_memory (con_cotp self)" "socketExtensionBufferFill c = 0"
    "if ind = COTP_DATA_INDICATION \<or> ind = COTP_MORE_FRAGMENTS_FOLLOW
     then bb_bytes (cotp_payload c) = bb_bytes (cotp_payload (con_cotp self)) @ drop 7 (bb_bytes (readBuffer (con_cotp self)))
     else cotp_payload c = cotp_payload (con_cotp self)"
    "ind = COTP_CONNECT_INDICATION \<longrightarrow> 0 \<le> remoteRef c" "ind \<noteq> COTP_OK" "ind \<noteq> COTP_DISCONNECT_INDICATION"
    using parseIncoming_ok [OF assms(4,5)] assms(6) by auto
  let ?s = "self\<lparr>con_cotp := c\<rparr>"
  have s: "con_ok ?s" using assms(1-3) c(2,3) by (simp add: con_ok_def con_inv_def)
  consider (data) "ind = COTP_DATA_INDICATION" | (connect) "ind = COTP_CONNECT_INDICATION" | (more) "ind = COTP_MORE_FRAGMENTS_FOLLOW"
    | (error) "ind = COTP_ERROR" using c(7,8) by (cases ind) auto
  then show ?thesis
  proof cases
    case data
    have b: "bb_ok (cotp_payload c)" "bb_ok (cotp_payload (con_cotp self))" "bb_ok (readBuffer (con_cotp self))"
      "bb_size (readBuffer (con_cotp self)) = packetSize (con_cotp self)" "bb_maxSize (cotp_payload c) = RECEIVE_BUF_SIZE"
      using c(2,3) assms(3-5) by (auto simp: cotp_ok_def cotp_mem_def packet_complete_def partial_packet_def bb_ok_def payload_memory_def)
    then have "bb_size (cotp_payload c) = bb_size (cotp_payload (con_cotp self)) + (packetSize (con_cotp self) - 7)"
      using c(5) data by (metis length_append length_bb_bytes length_drop)
    then have "bb_size (cotp_payload c) < RECEIVE_BUF_SIZE" using assms(7) b(1,5) by (simp add: bb_ok_def)
    moreover have "n \<le> 64950" if "associate_answer ?s = Some n" for n using assms(8) c(1) data that by (simp add: oversized_def)
    ultimately show ?thesis using handle_payload_ok [OF s] c(1) data by (simp add: handle_packet_def)
  next
    case connect
    then obtain c' r where r: "CotpConnection_sendConnectionResponseMessage mem c = Some (c', r)" "tx_frame c c'"
      using sendConnectionResponse_ok [OF c(2) _ c(4), of mem] c(6) by blast
    have "con_ok (IsoConnection_unlock (?s\<lparr>conMutex := 0, con_cotp := c'\<rparr>))"
      using s tx_frame_ok [OF c(2) r(2)] by (simp add: con_ok_def con_inv_def IsoConnection_unlock_def)
    then show ?thesis using c(1) connect r(1) s by (simp add: handle_packet_def IsoConnection_lock_def con_ok_def)
  qed (use c(1) s in \<open>simp_all add: handle_packet_def con_ok_def\<close>)
qed

lemma cotp_ok_socket [simp]: "cotp_ok (c\<lparr>cotp_socket := s\<rparr>) = cotp_ok c" "payload_memory (c\<lparr>cotp_socket := s\<rparr>) = payload_memory c"
  using part_congs [of "c\<lparr>cotp_socket := s\<rparr>" c] by (simp_all add: cotp_ok_def cotp_mem_def payload_memory_def)

lemma callTickHandler_ok:
  assumes "con_ok self"
  shows "\<exists>self'. IsoConnection_callTickHandler self = Some self' \<and> con_ok self'"
proof -
  obtain c where c: "CotpConnection_flushBuffer (con_cotp self) = Some c" "tx_frame (con_cotp self) c"
    using flush_ok assms by (auto simp: con_ok_def con_inv_def)
  then have "con_ok (self\<lparr>con_cotp := c\<rparr>)" using tx_frame_ok [OF _ c(2)] assms by (simp add: con_ok_def con_inv_def)
  then show ?thesis using c(1) by (auto simp: IsoConnection_callTickHandler_def con_ok_def Let_def split: option.splits)
qed

lemma receive_packet_ok:
  assumes "con_ok self"
  shows "\<exists>self1 complete. receive_packet self isSingleThread = Some (self1, complete) \<and>
    (if complete then upper_ok self1 \<and> conMutex self1 = 1 \<and> payload_memory (con_cotp self1) = (RECEIVE_BUF_SIZE, RECEIVE_BUF_SIZE) \<and>
       cotp_mem (con_cotp self1) \<and> packet_complete (con_cotp self1) \<and> socketExtensionBufferFill (con_cotp self1) = 0
     else con_ok self1)"
proof -
  have "\<exists>s ready. (if isSingleThread then Some (self, True)
      else do {
        self \<leftarrow> IsoConnection_callTickHandler self;
        let (s, n) = Handleset_waitReady (cotp_socket (con_cotp self));
        Some (self\<lparr>con_cotp := (con_cotp self)\<lparr>cotp_socket := s\<rparr>\<rparr>, \<not> n < 1) }) = Some (s, ready) \<and> con_ok s"
    using callTickHandler_ok [OF assms] assms by (auto simp: con_ok_def con_inv_def split: prod.splits)
  then obtain s ready where s: "(if isSingleThread then Some (self, True)
      else do {
        self \<leftarrow> IsoConnection_callTickHandler self;
        let (s, n) = Handleset_waitReady (cotp_socket (con_cotp self));
        Some (self\<lparr>con_cotp := (con_cotp self)\<lparr>cotp_socket := s\<rparr>\<rparr>, \<not> n < 1) }) = Some (s, ready)" "con_ok s" by blast
  then have c: "cotp_ok (con_cotp s)" by (simp add: con_ok_def con_inv_def)
  obtain c' st where r: "CotpConnection_readToTpktBuffer (con_cotp s) = Some (c', st)" "cotp_mem c'"
    "payload_memory c' = payload_memory (con_cotp s)"
    "if st = TPKT_PACKET_COMPLETE then packet_complete c' \<and> socketExtensionBufferFill c' = 0 else cotp_ok c'"
    using readToTpktBuffer_ok [OF c] by blast
  show ?thesis
    unfolding receive_packet_def s(1)
    using s(2) r by (cases ready; cases st) (auto simp: con_ok_def con_inv_def IsoConnection_stop_def)
qed

lemma con_create_ok:
  assumes "length (sel_value tsel) = 4"
  shows "con_ok (IsoConnection_create tsel cotp0 acse0 sock auth peer own h)"
proof -
  have "cotp_ok (con_cotp (IsoConnection_create tsel cotp0 acse0 sock auth peer own h))"
    unfolding IsoConnection_create_def IsoConnection.simps
    by (rule init_ok) (use assms in \<open>simp_all add: ByteBuffer_wrap_def COTP_MAX_TPDU_SIZE_def RECEIVE_BUF_SIZE_def\<close>)
  then show ?thesis
    by (simp add: con_ok_def con_inv_def upper_ok_def IsoConnection_create_def session_ok_init presentation_zero_ok payload_memory_def
        CotpConnection_init_def CotpConnection_resetPayload_def CotpConnection_setTpduSize_def ByteBuffer_wrap_def Let_def)
qed

lemma sendMessage_ok:
  assumes "con_ok self" and "bb_ok message" and "bb_size message \<le> 65000" and "0 < bb_size message"
  shows "\<exists>self' ok. IsoConnection_sendMessage self message = Some (self', ok) \<and> con_ok self' \<and>
    (ok \<longrightarrow> con_state self \<noteq> ISO_CON_STATE_STOPPED \<and> sends (con_cotp self) (data_message self (bb_bytes message)) (con_cotp self') COTP_OK)"
proof (cases "con_state self = ISO_CON_STATE_STOPPED")
  case True
  then show ?thesis using assms(1) by (auto simp: IsoConnection_sendMessage_def)
next
  case False
  let ?n = "bb_size message" and ?sb = "con_sendBuffer self" and ?ctx = "mmsContextId (con_presentation self)"
  let ?p = "BufferChain ?n ?n ?n (bb_buffer message) None"
  have i: "con_inv self" "cotp_ok (con_cotp self)" "length ?sb = SEND_BUF_SIZE" using assms(1) by (simp_all add: con_ok_def con_inv_def upper_ok_def)
  have p: "chain_ok ?p" "parts_ok ?p" "0 < ch_partLength ?p" "chain_bytes ?p = bb_bytes message" "length (bb_bytes message) = ?n"
    using assms(2,4) length_bb_bytes [OF assms(2)] by (simp_all add: bb_ok_def bb_bytes_def)
  obtain c1 where c1: "IsoPresentation_createUserData (con_presentation self) (part_at ?sb 0) ?p = Some c1"
    "headed c1 (user_data_header ?ctx ?n) ?p" "parts_ok c1" "length (store_part ?sb 0 c1) = SEND_BUF_SIZE"
    using presentation_data.create_at [OF p(1-3) i(3), of 0 "con_presentation self"] user_data_header_bound [of ?ctx ?n]
    by (auto simp: SEND_BUF_SIZE_def)
  have p1: "0 < ch_partLength c1" using c1(2) by (simp add: user_data_header_def)
  let ?c = "chain_finish (part_at (store_part ?sb 0 c1) (ch_partLength c1)) dataSpdu 4 c1"
  have c: "headed ?c dataSpdu c1" using c1(2) by (simp add: chain_finish_def dataSpdu_def)
  have b: "chain_bytes ?c = data_message self (bb_bytes message)" using c c1(2) p(4,5) by (simp add: data_message_def)
  obtain self' r where s: "send_part self (store_part ?sb 0 c1) ?c = Some (self', r)" "responds self (data_message self (bb_bytes message)) self' r"
    using send_part_ok [OF i(2) _ parts_ok_headed [OF c c1(3) p1] c1(4)] c b by auto
  have "con_ok self'" using responds_inv [OF s(2) i(1)] assms(1) by (simp add: con_ok_def)
  then show ?thesis
    using s False c1(1) by (auto simp: IsoConnection_sendMessage_def IsoSession_createDataSpdu_def Let_def responds_def)
qed

subsection \<open>Every reachable connection\<close>

text \<open>The connections the server and the application can bring about: a connection is created on a
  socket with any behaviour, a listener is installed, and then the connection is served, ticked and
  used for sending in any order.\<close>

inductive con_reachable :: "'h IsoConnection \<Rightarrow> bool" where
  created: "length (sel_value tsel) = 4 \<Longrightarrow> con_reachable (IsoConnection_create tsel cotp0 acse0 sock auth peer own h)"
| listening: "con_reachable self \<Longrightarrow> (\<And>f. handler = Some f \<Longrightarrow> handler_ok f) \<Longrightarrow>
    con_reachable (IsoConnection_installListener self handler tick param)"
| served: "con_reachable self \<Longrightarrow> con_state self = ISO_CON_STATE_RUNNING \<Longrightarrow>
    receive_packet self isSingleThread = Some (self1, complete) \<Longrightarrow>
    \<not> (complete \<and> (bb_size (cotp_payload (con_cotp self1)) + (packetSize (con_cotp self1) - 7) = RECEIVE_BUF_SIZE \<or> oversized self1)) \<Longrightarrow>
    IsoConnection_handleTcpConnection mem self isSingleThread = Some self' \<Longrightarrow> con_reachable self'"
| ticked: "con_reachable self \<Longrightarrow> IsoConnection_callTickHandler self = Some self' \<Longrightarrow> con_reachable self'"
| sent: "con_reachable self \<Longrightarrow> bb_ok message \<Longrightarrow> 0 < bb_size message \<Longrightarrow> bb_size message \<le> 65000 \<Longrightarrow>
    IsoConnection_sendMessage self message = Some (self', ok) \<Longrightarrow> con_reachable self'"

lemma handleTcpConnection_ok:
  assumes "con_ok self"
  shows "\<exists>self1 complete. receive_packet self isSingleThread = Some (self1, complete) \<and>
    (\<not> (complete \<and> (bb_size (cotp_payload (con_cotp self1)) + (packetSize (con_cotp self1) - 7) = RECEIVE_BUF_SIZE \<or> oversized self1)) \<longrightarrow>
     (\<exists>self'. IsoConnection_handleTcpConnection mem self isSingleThread = Some self' \<and> con_ok self'))"
proof -
  obtain self1 complete where r: "receive_packet self isSingleThread = Some (self1, complete)"
    "if complete then upper_ok self1 \<and> conMutex self1 = 1 \<and> payload_memory (con_cotp self1) = (RECEIVE_BUF_SIZE, RECEIVE_BUF_SIZE) \<and>
       cotp_mem (con_cotp self1) \<and> packet_complete (con_cotp self1) \<and> socketExtensionBufferFill (con_cotp self1) = 0
     else con_ok self1" using receive_packet_ok [OF assms] by blast
  then show ?thesis
    using handle_packet_ok [of self1 mem] by (cases complete) (auto simp: IsoConnection_handleTcpConnection_def)
qed

lemma con_reachable_ok: "con_reachable self \<Longrightarrow> con_ok self"
proof (induction rule: con_reachable.induct)
  case (created tsel cotp0 acse0 sock auth peer own h)
  then show ?case by (rule con_create_ok)
next
  case (listening self handler tick param)
  then show ?case by (simp add: IsoConnection_installListener_def con_ok_def con_inv_def upper_ok_def)
next
  case (served self isSingleThread self1 complete mem self')
  then show ?case using handleTcpConnection_ok [of self isSingleThread mem] by auto
next
  case (ticked self self')
  then show ?case using callTickHandler_ok [of self] by simp
next
  case (sent self message self' ok)
  then show ?case using sendMessage_ok [of self message] by auto
qed

lemma payload_update [simp]:
  "outgoing (c\<lparr>cotp_payload := b\<rparr>) = outgoing c" "tx_alive (c\<lparr>cotp_payload := b\<rparr>) = tx_alive c"
  "CotpConnection_getTpduSize (c\<lparr>cotp_payload := b\<rparr>) = CotpConnection_getTpduSize c"
  by (cases "socketExtensionBuffer c"; simp add: outgoing_def tx_alive_def CotpConnection_getTpduSize_def)+

lemma data_spdu_payload:
  assumes "bb_ok m" and "bb_bytes m = dataSpdu @ dat"
  obtains u where "IsoSession_parseMessage session m = Some (session\<lparr>userData := u\<rparr>, SESSION_DATA)" "bb_ok u" "bb_bytes u = dat"
proof -
  have sz: "bb_size m = 4 + length dat" using length_bb_bytes [OF assms(1)] assms(2) by (simp add: dataSpdu_def)
  let ?u = "ByteBuffer_wrap (bb_buffer m) 4 (length dat) (bb_maxSize m - 4)"
  have "4 + length dat \<le> bb_maxSize m" "bb_maxSize m \<le> length (bb_buffer m)" using assms(1) sz by (simp_all add: bb_ok_def)
  then have "bb_ok ?u" unfolding bb_ok_def ByteBuffer_wrap_def by simp linarith
  moreover have "bb_bytes ?u = dat" using suffix_bytes [OF assms, of "bb_maxSize m - 4"] sz by simp
  ultimately show thesis using that parse_data_spdu [OF assms] by blast
qed

text \<open>The handler is called with the connection locked; what it returns becomes the contents of the
  send buffer.\<close>

lemma handler_called:
  assumes "con_ok self" and "msgRcvdHandler self = Some f"
  obtains h response where "f (handlerParameter self) request (ByteBuffer_wrap (con_sendBuffer self) 0 0 SEND_BUF_SIZE) = (h, response)"
    "IsoConnection_lock self = Some (self\<lparr>conMutex := 0\<rparr>)"
    "call_handler (self\<lparr>conMutex := 0\<rparr>) request = (self\<lparr>conMutex := 0, handlerParameter := h, con_sendBuffer := bb_buffer response\<rparr>, bb_size response)"
    "con_inv (self\<lparr>conMutex := 0, handlerParameter := h, con_sendBuffer := bb_buffer response\<rparr>)"
    "length (bb_buffer response) = SEND_BUF_SIZE" "bb_size response \<le> 65000"
proof -
  let ?w = "ByteBuffer_wrap (con_sendBuffer self) 0 0 SEND_BUF_SIZE"
  obtain h response where f: "f (handlerParameter self) request ?w = (h, response)" by fastforce
  have i: "con_inv self" "conMutex self = 1" "handler_ok f" "length (con_sendBuffer self) = SEND_BUF_SIZE"
    using assms by (simp_all add: con_ok_def con_inv_def upper_ok_def)
  have "length (bb_buffer (snd (f (handlerParameter self) request ?w))) = length (bb_buffer ?w)"
    "bb_size (snd (f (handlerParameter self) request ?w)) \<le> 65000" using i(3) unfolding handler_ok_def by blast+
  then have resp: "length (bb_buffer response) = SEND_BUF_SIZE" "bb_size response \<le> 65000"
    using i(4) f by (simp_all add: ByteBuffer_wrap_def)
  have l: "IsoConnection_lock self = Some (self\<lparr>conMutex := 0\<rparr>)" using i(2) by (simp add: IsoConnection_lock_def)
  have c: "call_handler (self\<lparr>conMutex := 0\<rparr>) request =
      (self\<lparr>conMutex := 0, handlerParameter := h, con_sendBuffer := bb_buffer response\<rparr>, bb_size response)"
    using assms(2) f by (simp add: call_handler_def Let_def)
  have "con_inv (self\<lparr>conMutex := 0\<rparr>)" using i(1) by simp
  from call_handler_inv(1) [OF this c] show thesis using that f l c resp by blast
qed

lemma unlock_reset_ok:
  assumes "con_inv t" and "conMutex t = 0"
  shows "con_ok ((IsoConnection_unlock t)\<lparr>con_cotp := CotpConnection_resetPayload (con_cotp t)\<rparr>)"
  using assms resetPayload_ok by (simp add: con_ok_def con_inv_def IsoConnection_unlock_def)

text \<open>A data message in the payload buffer reaches the handler unchanged, and its response goes back
  as a data message.\<close>

lemma data_message_handled:
  assumes "con_ok self" and "msgRcvdHandler self = Some f" and "length p \<le> 65000"
    and "bb_bytes (cotp_payload (con_cotp self)) = data_message self p"
  obtains self' request h response where "handle_payload self = Some self'" "con_ok self'" "bb_bytes request = p"
    "f (handlerParameter self) request (ByteBuffer_wrap (con_sendBuffer self) 0 0 SEND_BUF_SIZE) = (h, response)"
    "handlerParameter self' = h" "con_state self' = con_state self"
    "if bb_size response = 0 then con_cotp self' = CotpConnection_resetPayload (con_cotp self)
     else \<exists>cotp r. sends (con_cotp self) (data_message self (bb_bytes response)) cotp r \<and> con_cotp self' = CotpConnection_resetPayload cotp"
proof -
  have m: "bb_ok (cotp_payload (con_cotp self))" using assms(1) by (simp add: con_ok_def con_inv_def cotp_ok_def cotp_mem_def)
  obtain u where u: "IsoSession_parseMessage (con_session self) (cotp_payload (con_cotp self)) =
      Some ((con_session self)\<lparr>userData := u\<rparr>, SESSION_DATA)" "bb_ok u"
      "bb_bytes u = user_data_header (mmsContextId (con_presentation self)) (length p) @ p"
    using data_spdu_payload [OF m assms(4) [unfolded data_message_def], of "con_session self"] by blast
  define req where "req = ByteBuffer_wrap (bb_buffer u) (bb_size u - length p) (length p) (length p)"
  have req: "bb_bytes req = p" unfolding req_def by (rule suffix_bytes [OF u(2,3)])
  define s where "s = self\<lparr>con_session := (con_session self)\<lparr>userData := u\<rparr>,
     con_presentation := (con_presentation self)\<lparr>nextContextId := mmsContextId (con_presentation self), nextPayload := req\<rparr>\<rparr>"
  have s: "con_ok s" "msgRcvdHandler s = Some f" "handlerParameter s = handlerParameter self" "con_sendBuffer s = con_sendBuffer self"
    "con_cotp s = con_cotp self" "con_state s = con_state self" "mmsContextId (con_presentation s) = mmsContextId (con_presentation self)"
    using assms(1,2) by (simp_all add: s_def con_ok_def con_inv_def upper_ok_def presentation_ok_def)
  obtain h response where f: "f (handlerParameter self) req (ByteBuffer_wrap (con_sendBuffer self) 0 0 SEND_BUF_SIZE) = (h, response)"
    and l: "IsoConnection_lock s = Some (s\<lparr>conMutex := 0\<rparr>)" and c: "call_handler (s\<lparr>conMutex := 0\<rparr>) req =
      (s\<lparr>conMutex := 0, handlerParameter := h, con_sendBuffer := bb_buffer response\<rparr>, bb_size response)"
    and t: "con_inv (s\<lparr>conMutex := 0, handlerParameter := h, con_sendBuffer := bb_buffer response\<rparr>)"
      "length (bb_buffer response) = SEND_BUF_SIZE" "bb_size response \<le> 65000"
    using handler_called [OF s(1,2), of req] unfolding s(3,4) by blast
  define t where "t = s\<lparr>conMutex := 0, handlerParameter := h, con_sendBuffer := bb_buffer response\<rparr>"
  note t = t [folded t_def] and c = c [folded t_def]
  have eq: "handle_payload self = (do { (self, r) \<leftarrow> (if bb_size response > 0 then data_response t (bb_size response) else Some (t, COTP_OK));
      Some ((IsoConnection_unlock self)\<lparr>con_cotp := CotpConnection_resetPayload (con_cotp self)\<rparr>) })"
    using u(1) user_data_parsed [OF u(2,3) refl assms(3), of "con_presentation self"] l c
    by (simp add: handle_payload_def handle_data_def IsoSession_getUserData_def s_def req_def IsoConnection_unlock_def split_def)
  have d: "data_message t q = data_message self q" for q by (simp add: data_message_def t_def s(7))
  have sb: "con_sendBuffer t = bb_buffer response" "con_cotp t = con_cotp self" "conMutex t = 0" "handlerParameter t = h" "con_state t = con_state self"
    by (simp_all add: t_def s(5,6))
  show thesis
  proof (cases "bb_size response = 0")
    case True
    then show ?thesis
      using that [OF _ unlock_reset_ok [OF t(1) sb(3)] req f] eq sb by (simp add: IsoConnection_unlock_def)
  next
    case False
    obtain t' r where t': "data_response t (bb_size response) = Some (t', r)" "responds t (data_message self (bb_bytes response)) t' r"
      using data_response_ok [OF con_inv_parts(1,4) [OF t(1)], of "bb_size response"] t(3) False sb(1) by (auto simp: d bb_bytes_def)
    note i = responds_inv [OF t'(2) t(1), unfolded sb(3)]
    have "handlerParameter t' = h" "con_state t' = con_state self" "sends (con_cotp self) (data_message self (bb_bytes response)) (con_cotp t') r"
      using t'(2) sb by (auto simp: responds_def)
    then show ?thesis
      using that [OF _ unlock_reset_ok [OF i] req f] eq False t'(1) by (auto simp: IsoConnection_unlock_def)
  qed
qed

subsection \<open>Properties\<close>

text \<open>C1: Every connection of the server, however it is used and whatever its peer sends, satisfies
  the invariant: its buffers have their sizes, its protocol objects are well formed and its
  semaphore is free between calls. Serving it therefore never blocks on its own semaphore and
  never accesses memory outside its buffers. The application is any handler that keeps to the
  response buffer and to the largest MMS message of 65000 bytes. Two packets are excepted, and runs are
  followed up to the first of them: one that completes a message of exactly the size of the receive
  buffer, behind which the presentation parser may read, and one that completes an association
  request which the handler answers with more than 64950 bytes, since the headers of the association
  response may then not fit behind the answer in the send buffer. The code excludes neither.\<close>

theorem server_invariant:
  assumes "con_reachable self"
  shows "con_ok self \<and> conMutex self = 1 \<and>
    (\<exists>self1 complete. receive_packet self isSingleThread = Some (self1, complete) \<and>
      (\<not> (complete \<and> (bb_size (cotp_payload (con_cotp self1)) + (packetSize (con_cotp self1) - 7) = RECEIVE_BUF_SIZE \<or> oversized self1)) \<longrightarrow>
       (\<exists>self'. IsoConnection_handleTcpConnection mem self isSingleThread = Some self' \<and> con_ok self')))"
  using con_reachable_ok [OF assms] handleTcpConnection_ok [OF con_reachable_ok [OF assms]] by (simp add: con_ok_def)

definition tsel_example :: TSelector where
  "tsel_example = \<lparr>sel_size = 0, sel_value = [0, 0, 0, 0]\<rparr>"

definition server_example :: "recv_result list \<Rightarrow> nat IsoConnection" where
  "server_example es = IsoConnection_create tsel_example (cotp_example (socket_example [])) acse_zero (socket_example es) None None None 0"

theorem server_invariant_witness:
  "con_ok (server_example [Recv_data [3, 0]]) \<and> conMutex (server_example [Recv_data [3, 0]]) = 1"
proof -
  have "con_reachable (server_example [Recv_data [3, 0]])"
    unfolding server_example_def by (rule con_reachable.created) (simp add: tsel_example_def)
  from server_invariant [OF this] show ?thesis by blast
qed

text \<open>C4: In the data phase the application gets exactly what the client sent: a data message with
  payload \<open>p\<close> leads to one call of the handler with a request whose contents are \<open>p\<close>, under the
  lock; the connection goes on with an empty receive buffer. A response of no bytes sends nothing. A
  non-empty response is sent back as one data message: its data TPDUs are appended, completely and
  in order, to the bytes handed to TCP or queued for it. The only exceptions are a socket that is
  closed or whose \<open>send\<close> fails, and an extension buffer without room for them; then a prefix of
  them is appended.\<close>

theorem server_data_exchange:
  assumes "con_ok self" and "msgRcvdHandler self = Some f" and "length p \<le> 65000"
    and "bb_bytes (cotp_payload (con_cotp self)) = data_message self p"
  shows "\<exists>self' request h response. handle_payload self = Some self' \<and> con_ok self' \<and> bb_bytes request = p \<and>
    f (handlerParameter self) request (ByteBuffer_wrap (con_sendBuffer self) 0 0 SEND_BUF_SIZE) = (h, response) \<and>
    handlerParameter self' = h \<and> con_state self' = con_state self \<and> bb_size (cotp_payload (con_cotp self')) = 0 \<and>
    (if bb_size response = 0 then con_cotp self' = CotpConnection_resetPayload (con_cotp self)
     else let answer = data_message self (bb_bytes response);
              stream = dt_stream (CotpConnection_getTpduSize (con_cotp self) - 3) answer
          in outgoing (con_cotp self') = outgoing (con_cotp self) @ stream \<or>
             \<not> tx_room (con_cotp self) (length answer) \<and> (\<exists>m. outgoing (con_cotp self') = outgoing (con_cotp self) @ take m stream))"
proof -
  obtain self' request h response where r: "handle_payload self = Some self'" "con_ok self'" "bb_bytes request = p"
    "f (handlerParameter self) request (ByteBuffer_wrap (con_sendBuffer self) 0 0 SEND_BUF_SIZE) = (h, response)"
    "handlerParameter self' = h" "con_state self' = con_state self"
    and c: "if bb_size response = 0 then con_cotp self' = CotpConnection_resetPayload (con_cotp self)
     else \<exists>cotp r. sends (con_cotp self) (data_message self (bb_bytes response)) cotp r \<and> con_cotp self' = CotpConnection_resetPayload cotp"
    by (rule data_message_handled [OF assms])
  have "outgoing (CotpConnection_resetPayload cotp) = outgoing cotp" for cotp
    by (simp add: CotpConnection_resetPayload_def)
  moreover have "bb_size (cotp_payload (con_cotp self')) = 0"
    using c by (auto simp: CotpConnection_resetPayload_def split: if_splits)
  ultimately show ?thesis
    using r c by (intro exI [of _ self'] exI [of _ request] exI [of _ h] exI [of _ response]) (auto simp: sends_def Let_def split: if_splits)
qed

text \<open>An application that counts its requests and answers each with one byte.\<close>

definition answering_handler :: "nat MessageReceivedHandler" where
  "answering_handler n request response = (Suc n, response\<lparr>bb_buffer := (bb_buffer response)[0 := 0xa1], bb_size := 1\<rparr>)"

lemma answering_handler_ok: "handler_ok answering_handler"
  by (simp add: handler_ok_def answering_handler_def)

lemma server_example_transport:
  "CotpConnection_getTpduSize (con_cotp (server_example es)) = 8192" "outgoing (con_cotp (server_example es)) = []"
  "tx_alive (con_cotp (server_example es))" "socketExtensionBufferFill (con_cotp (server_example es)) = 0"
  "socketExtensionBufferSize (con_cotp (server_example es)) = 66000"
  using setTpduSize_power [of 13] 
  by (simp_all add: server_example_def IsoConnection_create_def CotpConnection_init_def CotpConnection_resetPayload_def COTP_MAX_TPDU_SIZE_def
      CotpConnection_getTpduSize_def outgoing_def tx_alive_def socket_example_def Let_def)

theorem server_data_exchange_witness:
  "\<exists>self self'. msgRcvdHandler self = Some answering_handler \<and> bb_bytes (cotp_payload (con_cotp self)) = data_message self [0xa0, 0] \<and>
     handle_payload self = Some self' \<and> handlerParameter self' = 1 \<and>
     outgoing (con_cotp self') = dt_stream 8189 (data_message self [0xa1])"
proof -
  let ?c = "IsoConnection_installListener (server_example []) (Some answering_handler) None 0"
  let ?msg = "data_message ?c [0xa0, 0]"
  let ?p = "\<lparr>bb_buffer = patch (replicate RECEIVE_BUF_SIZE 0) 0 ?msg, bb_maxSize = RECEIVE_BUF_SIZE, bb_size = length ?msg\<rparr>"
  let ?self = "?c\<lparr>con_cotp := (con_cotp ?c)\<lparr>cotp_payload := ?p\<rparr>\<rparr>"
  have "con_ok (server_example [])" unfolding server_example_def by (rule con_create_ok) (simp add: tsel_example_def)
  then have c: "con_ok ?c" using answering_handler_ok by (simp add: IsoConnection_installListener_def con_ok_def con_inv_def upper_ok_def)
  have len: "length ?msg \<le> 24" using user_data_header_bound [of _ 2] by (simp add: data_message_def dataSpdu_def numeral_2_eq_2)
  then have "length (bb_buffer ?p) = RECEIVE_BUF_SIZE" by (simp add: length_patch RECEIVE_BUF_SIZE_def)
  then have ok: "con_ok ?self"
    using c len part_congs [of "(con_cotp ?c)\<lparr>cotp_payload := ?p\<rparr>" "con_cotp ?c"]
    by (simp add: con_ok_def con_inv_def cotp_ok_def cotp_mem_def bb_ok_def payload_memory_def RECEIVE_BUF_SIZE_def)
  have b: "bb_bytes (cotp_payload (con_cotp ?self)) = data_message ?self [0xa0, 0]"
    using take_patch_0 [of ?msg "replicate RECEIVE_BUF_SIZE 0"] len by (simp add: bb_bytes_def RECEIVE_BUF_SIZE_def data_message_def)
  have h: "msgRcvdHandler ?self = Some answering_handler" "handlerParameter ?self = 0" by (simp_all add: IsoConnection_installListener_def)
  let ?w = "ByteBuffer_wrap (con_sendBuffer ?self) 0 0 SEND_BUF_SIZE"
  have hd: "take (Suc 0) (xs[0 := a]) = [a]" if "xs \<noteq> []" for xs and a :: byte using that by (cases xs) simp_all
  have resp: "bb_size (snd (answering_handler 0 x ?w)) = 1" "bb_bytes (snd (answering_handler 0 x ?w)) = [0xa1]" for x
    by (simp_all add: hd answering_handler_def ByteBuffer_wrap_def bb_bytes_def IsoConnection_installListener_def server_example_def IsoConnection_create_def
        SEND_BUF_SIZE_def)
  have t: "CotpConnection_getTpduSize (con_cotp ?self) - 3 = 8189" "outgoing (con_cotp ?self) = []" "tx_alive (con_cotp ?self)"
    "socketExtensionBufferFill (con_cotp ?self) = 0" "socketExtensionBufferSize (con_cotp ?self) = 66000"
    by (simp_all add: server_example_transport IsoConnection_installListener_def)
  have "length (data_message ?self [0xa1]) \<le> 23" using user_data_header_bound [of _ 1] by (simp add: data_message_def dataSpdu_def)
  then have room: "tx_room (con_cotp ?self) (length (data_message ?self [0xa1]))" using t by (simp add: tx_room_def frag_count_def)
  obtain self' request n response where r: "handle_payload ?self = Some self'" "handlerParameter self' = n"
    "answering_handler 0 request (ByteBuffer_wrap (con_sendBuffer ?self) 0 0 SEND_BUF_SIZE) = (n, response)"
    "if bb_size response = 0 then con_cotp self' = CotpConnection_resetPayload (con_cotp ?self)
     else let answer = data_message ?self (bb_bytes response); stream = dt_stream (CotpConnection_getTpduSize (con_cotp ?self) - 3) answer
          in outgoing (con_cotp self') = outgoing (con_cotp ?self) @ stream \<or>
             \<not> tx_room (con_cotp ?self) (length answer) \<and> (\<exists>m. outgoing (con_cotp self') = outgoing (con_cotp ?self) @ take m stream)"
    using server_data_exchange [OF ok h(1) _ b] unfolding h(2) by auto
  have "n = 1" using r(3) by (simp add: answering_handler_def)
  moreover have "bb_size response = 1" "bb_bytes response = [0xa1]" using resp [of request] unfolding r(3) by simp_all
  then have "outgoing (con_cotp self') = dt_stream 8189 (data_message ?self [0xa1])"
    using r(4) room unfolding t(1,2) by (simp add: Let_def)
  ultimately show ?thesis using r(1,2) b h(1) by blast
qed

end
