(* ===== verification/Iso_Client.thy ===== *)
theory Iso_Client
  imports Iso_Connection
begin

section \<open>The client side of an association\<close>

text \<open>
  Model of \<open>src/mms/iso_client/iso_client_connection.c\<close>. The connection is a state machine that
  \<open>IsoClientConnection_handleConnection\<close> advances by one step per call: TCP connect, COTP connect,
  association, data transfer, closing. The three byte buffers the C struct shares with its
  transport connection (receive buffer, COTP read and write buffer) are the ones of \<open>cl_cotp\<close>.
  What a step asks of its environment is a record \<open>ClientEnv\<close>: the two readings of the clock,
  the state of the asynchronous connect and the success of an allocation. The callback of the
  upper layer is a function of its own state; \<open>cl_log\<close> is a history of the indications it got.
  The transmit buffer semaphore is its count, which \<open>None\<close> results from waiting for it at 0; the
  two semaphores that are taken and given back within one call are left out.
\<close>

subsection \<open>State\<close>

datatype ClientState = STATE_IDLE | STATE_CONNECTED | STATE_ERROR | STATE_CONNECTING

datatype eIsoClientInternalState =
  INT_STATE_IDLE | INT_STATE_TCP_CONNECTING | INT_STATE_WAIT_FOR_COTP_CONNECT_RESP | INT_STATE_WAIT_FOR_ACSE_RESP
| INT_STATE_WAIT_FOR_DATA_MSG | INT_STATE_CLOSING_CONNECTION | INT_STATE_CLOSE_ON_ERROR | INT_STATE_ERROR

datatype IsoIndication =
  ISO_IND_ASSOCIATION_SUCCESS | ISO_IND_ASSOCIATION_FAILED | ISO_IND_CLOSED | ISO_IND_DATA | ISO_IND_TICK

datatype SocketState = SOCKET_STATE_CONNECTING | SOCKET_STATE_FAILED | SOCKET_STATE_CONNECTED

type_synonym 'c IsoIndicationCallback = "IsoIndication \<Rightarrow> 'c \<Rightarrow> ByteBuffer option \<Rightarrow> 'c \<times> bool"

record 'c IsoClientConnection =
  cl_parameters :: IsoConnectionParameters
  cl_callback :: "'c IsoIndicationCallback"
  callbackParameter :: 'c
  cl_intState :: eIsoClientInternalState
  cl_state :: ClientState
  readTimeoutInMs :: "32 word"
  nextReadTimeout :: "64 word"
  cl_socket :: "Socket option"
  cl_cotp :: CotpConnection
  cl_presentation :: IsoPresentation
  cl_session :: IsoSession
  cl_acse :: AcseConnection
  cl_sendBuffer :: "byte list"
  transmitSize :: nat
  receivePayloadBuffer :: ByteBuffer
  transmitBufferMutex :: nat
  cl_log :: "IsoIndication list"

record ClientEnv =
  env_time :: "64 word"
  env_timeAfter :: "64 word"
  env_connect :: SocketState
  env_mem :: bool
  env_tsel :: TSelector

abbreviation ISO_CLIENT_BUFFER_SIZE :: nat where "ISO_CLIENT_BUFFER_SIZE \<equiv> SEND_BUF_SIZE"

subsection \<open>Operations\<close>

text \<open>\<open>malloc\<close> leaves the buffers uninitialised; their contents are parameters.\<close>

definition IsoClientConnection_create ::
  "CotpConnection \<Rightarrow> IsoSession \<Rightarrow> AcseConnection \<Rightarrow> byte list \<Rightarrow> byte list \<Rightarrow> byte list \<Rightarrow> byte list \<Rightarrow>
   IsoConnectionParameters \<Rightarrow> 'c IsoIndicationCallback \<Rightarrow> 'c \<Rightarrow> 'c IsoClientConnection" where
  "IsoClientConnection_create cotp0 session0 acse0 sendBuf receiveBuf cotpReadBuf cotpWriteBuf parameters callback param =
     \<lparr>cl_parameters = parameters, cl_callback = callback, callbackParameter = param, cl_intState = INT_STATE_IDLE,
      cl_state = STATE_IDLE, readTimeoutInMs = 0, nextReadTimeout = 0, cl_socket = None,
      cl_cotp = cotp0\<lparr>cotp_payload := ByteBuffer_wrap receiveBuf 0 0 ISO_CLIENT_BUFFER_SIZE,
        readBuffer := ByteBuffer_wrap cotpReadBuf 0 0 (COTP_MAX_TPDU_SIZE + 4),
        writeBuffer := Some (ByteBuffer_wrap cotpWriteBuf 0 0 (COTP_MAX_TPDU_SIZE + 4)), socketExtensionBuffer := None\<rparr>,
      cl_presentation = presentation_zero, cl_session = session0, cl_acse = acse0, cl_sendBuffer = sendBuf, transmitSize = 0,
      receivePayloadBuffer = \<lparr>bb_buffer = [], bb_maxSize = 0, bb_size = 0\<rparr>, transmitBufferMutex = 1, cl_log = []\<rparr>"

definition IsoClientConnection_allocateTransmitBuffer :: "'c IsoClientConnection \<Rightarrow> 'c IsoClientConnection option" where
  "IsoClientConnection_allocateTransmitBuffer self =
     (if transmitBufferMutex self = 0 then None
      else Some (self\<lparr>transmitBufferMutex := transmitBufferMutex self - 1, transmitSize := 0\<rparr>))"

definition IsoClientConnection_releaseTransmitBuffer :: "'c IsoClientConnection \<Rightarrow> 'c IsoClientConnection" where
  "IsoClientConnection_releaseTransmitBuffer self = self\<lparr>transmitBufferMutex := Suc (transmitBufferMutex self)\<rparr>"

definition indicate :: "IsoIndication \<Rightarrow> ByteBuffer option \<Rightarrow> 'c IsoClientConnection \<Rightarrow> 'c IsoClientConnection \<times> bool" where
  "indicate ind payload self =
     (case cl_callback self ind (callbackParameter self) payload of
        (p, verdict) \<Rightarrow> (self\<lparr>callbackParameter := p, cl_log := cl_log self @ [ind]\<rparr>, verdict))"

text \<open>The extension buffer of an earlier connection is used again.\<close>

definition extension_buffer :: "ClientEnv \<Rightarrow> CotpConnection \<Rightarrow> byte list option" where
  "extension_buffer env cotp =
     (case socketExtensionBuffer cotp of
        Some b \<Rightarrow> Some b
      | None \<Rightarrow> if env_mem env then Some (replicate (65000 + 1000) 0) else None)"

definition sendConnectionRequestMessage :: "ClientEnv \<Rightarrow> 'c IsoClientConnection \<Rightarrow> ('c IsoClientConnection \<times> bool) option" where
  "sendConnectionRequestMessage env self =
     (let cotp = cl_cotp self
      in case extension_buffer env cotp of
           None \<Rightarrow> Some (self, False)
         | Some ext \<Rightarrow> do {
             socket \<leftarrow> cl_socket self;
             let cotp = CotpConnection_init (env_tsel env) cotp socket (cotp_payload cotp) (readBuffer cotp) (writeBuffer cotp)
                          (Some ext) (65000 + 1000);
             (cotp, cotpIndication) \<leftarrow> CotpConnection_sendConnectionRequestMessage (env_mem env) cotp (cl_parameters self);
             Some (self\<lparr>cl_cotp := cotp\<rparr>, cotpIndication = COTP_OK) })"

definition sendAcseInitiateRequest :: "'c IsoClientConnection \<Rightarrow> 'c IsoClientConnection option" where
  "sendAcseInitiateRequest self = do {
     let sb = cl_sendBuffer self;
     let acsePayload = BufferChain (transmitSize self) (transmitSize self) 0 sb None;
     let self = self\<lparr>cl_acse := AcseConnection_init (cl_acse self) None\<rparr>;
     acseBuffer \<leftarrow> AcseConnection_createAssociateRequestMessage (cl_parameters self) (part_at sb (transmitSize self)) acsePayload
                     (acseAuthParameter (cl_parameters self));
     let sb = store_part sb (transmitSize self) acseBuffer;
     (presentation, presentationBuffer) \<leftarrow>
       IsoPresentation_createConnectPdu (cl_presentation self) (cl_parameters self) (part_at sb (ch_length acseBuffer)) acseBuffer;
     let sb = store_part sb (ch_length acseBuffer) presentationBuffer;
     (session, sessionBuffer) \<leftarrow>
       IsoSession_createConnectSpdu IsoSession_init (cl_parameters self) (part_at sb (ch_length presentationBuffer)) presentationBuffer;
     let sb = store_part sb (ch_length presentationBuffer) sessionBuffer;
     (cotp, r) \<leftarrow> CotpConnection_sendDataMessage (cl_cotp self) sessionBuffer;
     Some (IsoClientConnection_releaseTransmitBuffer
       (self\<lparr>cl_presentation := presentation, cl_session := session, cl_sendBuffer := sb, cl_cotp := cotp\<rparr>)) }"

definition releaseSocket :: "'c IsoClientConnection \<Rightarrow> 'c IsoClientConnection" where
  "releaseSocket self = (if cl_socket self \<noteq> None then self\<lparr>cl_socket := None\<rparr> else self)"

text \<open>The cases of the state machine: the connection, the next state and whether the caller may
  wait.\<close>

type_synonym 'c client_result = "('c IsoClientConnection \<times> eIsoClientInternalState \<times> bool) option"

definition fail_connecting :: "'c IsoClientConnection \<Rightarrow> 'c client_result" where
  "fail_connecting self =
     Some (fst (indicate ISO_IND_ASSOCIATION_FAILED None (IsoClientConnection_releaseTransmitBuffer self)), INT_STATE_CLOSE_ON_ERROR, False)"

definition fail_associating :: "'c IsoClientConnection \<Rightarrow> 'c client_result" where
  "fail_associating self = Some (fst (indicate ISO_IND_ASSOCIATION_FAILED None self), INT_STATE_CLOSE_ON_ERROR, False)"

definition handle_tcpConnecting :: "ClientEnv \<Rightarrow> 'c IsoClientConnection \<Rightarrow> 'c client_result" where
  "handle_tcpConnecting env self =
     (if cl_socket self = None then None
      else if env_connect env = SOCKET_STATE_CONNECTED then do {
        (self, ok) \<leftarrow> sendConnectionRequestMessage env self;
        if ok then Some (self\<lparr>nextReadTimeout := env_time env + ucast (readTimeoutInMs self)\<rparr>, INT_STATE_WAIT_FOR_COTP_CONNECT_RESP, False)
        else fail_connecting self }
      else if env_connect env = SOCKET_STATE_FAILED then fail_connecting self
      else if env_time env > nextReadTimeout self then fail_connecting self
      else Some (self, INT_STATE_TCP_CONNECTING, True))"

definition handle_waitForCotp :: "ClientEnv \<Rightarrow> 'c IsoClientConnection \<Rightarrow> 'c client_result" where
  "handle_waitForCotp env self =
     (if env_time env > nextReadTimeout self then fail_connecting self
      else do {
        (cotp, packetState) \<leftarrow> CotpConnection_readToTpktBuffer (cl_cotp self);
        let self = self\<lparr>cl_cotp := cotp\<rparr>;
        if packetState = TPKT_PACKET_COMPLETE then do {
          (cotp, cotpIndication) \<leftarrow> CotpConnection_parseIncomingMessage (cl_cotp self);
          let self = self\<lparr>cl_cotp := cotp\<rparr>;
          if cotpIndication \<noteq> COTP_CONNECT_INDICATION then fail_connecting self
          else do {
            self \<leftarrow> sendAcseInitiateRequest self;
            Some (self\<lparr>nextReadTimeout := env_timeAfter env + ucast (readTimeoutInMs self)\<rparr>, INT_STATE_WAIT_FOR_ACSE_RESP, False) } }
        else if packetState = TPKT_ERROR then fail_connecting self
        else Some (self, INT_STATE_WAIT_FOR_COTP_CONNECT_RESP, True) })"

definition reset_payload :: "'c IsoClientConnection \<Rightarrow> 'c IsoClientConnection" where
  "reset_payload self = self\<lparr>cl_cotp := CotpConnection_resetPayload (cl_cotp self)\<rparr>"

definition parse_acse_response :: "'c IsoClientConnection \<Rightarrow> 'c client_result" where
  "parse_acse_response self = do {
     (session, sessionIndication) \<leftarrow> IsoSession_parseMessage (cl_session self) (cotp_payload (cl_cotp self));
     let self = self\<lparr>cl_session := session\<rparr>;
     if sessionIndication \<noteq> SESSION_CONNECT then fail_associating self
     else do {
       (presentation, ok) \<leftarrow> IsoPresentation_parseAcceptMessage (cl_presentation self) (IsoSession_getUserData session);
       let self = self\<lparr>cl_presentation := presentation\<rparr>;
       (self, nextState, waits) \<leftarrow>
         (if \<not> ok then fail_associating self
          else do {
            (acse, acseIndication) \<leftarrow> AcseConnection_parseMessage (cl_acse self) (Some (nextPayload presentation));
            let self = self\<lparr>cl_acse := acse\<rparr>;
            if acseIndication \<noteq> ACSE_ASSOCIATE then fail_associating self
            else do {
              dat \<leftarrow> userDataBuffer acse;
              let payload = ByteBuffer_wrap dat 0 (userDataBufferSize acse) (userDataBufferSize acse);
              let (self, verdict) = indicate ISO_IND_ASSOCIATION_SUCCESS (Some payload) (self\<lparr>receivePayloadBuffer := payload, cl_state := STATE_CONNECTED\<rparr>);
              Some (self, if verdict then INT_STATE_WAIT_FOR_DATA_MSG else INT_STATE_CLOSE_ON_ERROR, False) } });
       Some (reset_payload self, nextState, waits) } }"

definition handle_waitForAcse :: "ClientEnv \<Rightarrow> 'c IsoClientConnection \<Rightarrow> 'c client_result" where
  "handle_waitForAcse env self =
     (if env_time env > nextReadTimeout self then fail_associating self
      else do {
        (cotp, packetState) \<leftarrow> CotpConnection_readToTpktBuffer (cl_cotp self);
        let self = self\<lparr>cl_cotp := cotp\<rparr>;
        if packetState = TPKT_PACKET_COMPLETE then do {
          (cotp, cotpIndication) \<leftarrow> CotpConnection_parseIncomingMessage (cl_cotp self);
          let self = self\<lparr>cl_cotp := cotp\<rparr>;
          if cotpIndication \<noteq> COTP_DATA_INDICATION then fail_associating self
          else parse_acse_response self }
        else if packetState = TPKT_ERROR then fail_associating self
        else Some (self, INT_STATE_WAIT_FOR_ACSE_RESP, True) })"

definition parse_data :: "'c IsoClientConnection \<Rightarrow> 'c client_result" where
  "parse_data self = do {
     (session, sessionIndication) \<leftarrow> IsoSession_parseMessage (cl_session self) (cotp_payload (cl_cotp self));
     let self = self\<lparr>cl_session := session\<rparr>;
     if sessionIndication \<noteq> SESSION_DATA then Some (self, INT_STATE_CLOSE_ON_ERROR, False)
     else do {
       (presentation, ok) \<leftarrow> IsoPresentation_parseUserData (cl_presentation self) (IsoSession_getUserData session);
       let self = self\<lparr>cl_presentation := presentation\<rparr>;
       if \<not> ok then Some (self, INT_STATE_CLOSE_ON_ERROR, False)
       else Some (reset_payload (fst (indicate ISO_IND_DATA (Some (nextPayload presentation)) self)), INT_STATE_WAIT_FOR_DATA_MSG, False) } }"

definition handle_waitForData :: "'c IsoClientConnection \<Rightarrow> 'c client_result" where
  "handle_waitForData self = do {
     (cotp, packetState) \<leftarrow> CotpConnection_readToTpktBuffer (cl_cotp self);
     let self = self\<lparr>cl_cotp := cotp\<rparr>;
     if packetState = TPKT_ERROR then Some (self, INT_STATE_CLOSE_ON_ERROR, False)
     else if packetState = TPKT_PACKET_COMPLETE then do {
       (cotp, cotpIndication) \<leftarrow> CotpConnection_parseIncomingMessage (cl_cotp self);
       let self = self\<lparr>cl_cotp := cotp\<rparr>;
       case cotpIndication of
         COTP_MORE_FRAGMENTS_FOLLOW \<Rightarrow> Some (self, INT_STATE_WAIT_FOR_DATA_MSG, False)
       | COTP_DISCONNECT_INDICATION \<Rightarrow> Some (self, INT_STATE_CLOSING_CONNECTION, False)
       | COTP_DATA_INDICATION \<Rightarrow> parse_data self
       | _ \<Rightarrow> Some (self, INT_STATE_CLOSE_ON_ERROR, False) }
     else Some (self, INT_STATE_WAIT_FOR_DATA_MSG, True) }"

definition handle_closing :: "ClientState \<Rightarrow> eIsoClientInternalState \<Rightarrow> 'c IsoClientConnection \<Rightarrow> 'c client_result" where
  "handle_closing newState nextState self =
     Some (releaseSocket (fst (indicate ISO_IND_CLOSED None (self\<lparr>cl_state := newState\<rparr>))), nextState, False)"

definition client_case :: "ClientEnv \<Rightarrow> 'c IsoClientConnection \<Rightarrow> 'c client_result" where
  "client_case env self =
     (case cl_intState self of
        INT_STATE_IDLE \<Rightarrow> Some (self, INT_STATE_IDLE, True)
      | INT_STATE_ERROR \<Rightarrow> Some (self, INT_STATE_ERROR, True)
      | INT_STATE_TCP_CONNECTING \<Rightarrow> handle_tcpConnecting env self
      | INT_STATE_WAIT_FOR_COTP_CONNECT_RESP \<Rightarrow> handle_waitForCotp env self
      | INT_STATE_WAIT_FOR_ACSE_RESP \<Rightarrow> handle_waitForAcse env self
      | INT_STATE_WAIT_FOR_DATA_MSG \<Rightarrow> handle_waitForData self
      | INT_STATE_CLOSE_ON_ERROR \<Rightarrow> handle_closing STATE_ERROR INT_STATE_ERROR self
      | INT_STATE_CLOSING_CONNECTION \<Rightarrow> handle_closing STATE_IDLE INT_STATE_IDLE self)"

definition IsoClientConnection_handleConnection :: "ClientEnv \<Rightarrow> 'c IsoClientConnection \<Rightarrow> ('c IsoClientConnection \<times> bool) option" where
  "IsoClientConnection_handleConnection env self = do {
     (self, nextState, waits) \<leftarrow> client_case env self;
     let (self, _) = indicate ISO_IND_TICK None self;
     Some (self\<lparr>cl_intState := nextState\<rparr>, waits) }"

text \<open>\<open>sock\<close> is the result of \<open>TcpSocket_create\<close>, \<open>bound\<close> and \<open>connecting\<close> of \<open>Socket_bind\<close> and
  \<open>Socket_connectAsync\<close>.\<close>

definition IsoClientConnection_associateAsync ::
  "64 word \<Rightarrow> Socket option \<Rightarrow> bool \<Rightarrow> bool \<Rightarrow> 'c IsoClientConnection \<Rightarrow> 32 word \<Rightarrow> 32 word \<Rightarrow> 'c IsoClientConnection \<times> bool" where
  "IsoClientConnection_associateAsync now sock bound connecting self connectTimeoutInMs readTimeout =
     (let self = self\<lparr>cl_socket := sock\<rparr>
      in if sock = None then (self, False)
         else
           let self = self\<lparr>cl_state := STATE_CONNECTING, cl_intState := INT_STATE_TCP_CONNECTING, readTimeoutInMs := readTimeout,
                        nextReadTimeout := now + ucast connectTimeoutInMs\<rparr>;
               success = (if localIpAddress (cl_parameters self) \<noteq> None \<and> \<not> bound then False else connecting)
           in if \<not> success
              then (IsoClientConnection_releaseTransmitBuffer
                      (self\<lparr>cl_socket := None, cl_intState := INT_STATE_ERROR, cl_state := STATE_ERROR\<rparr>), False)
              else (self, True))"

definition IsoClientConnection_sendMessage :: "'c IsoClientConnection \<Rightarrow> ByteBuffer \<Rightarrow> 'c IsoClientConnection option" where
  "IsoClientConnection_sendMessage self payloadBuffer = do {
     self \<leftarrow>
       (if cl_state self = STATE_CONNECTED then do {
          let payload = BufferChain_init (bb_size payloadBuffer) (bb_size payloadBuffer) None (bb_buffer payloadBuffer);
          presentationBuffer \<leftarrow>
            IsoPresentation_createUserData (cl_presentation self) (part_at (cl_sendBuffer self) (ch_length payload)) payload;
          let sb = store_part (cl_sendBuffer self) (ch_length payload) presentationBuffer;
          sessionBuffer \<leftarrow> IsoSession_createDataSpdu (cl_session self) (BufferChain 0 0 0 [] None) presentationBuffer;
          (cotp, indication) \<leftarrow> CotpConnection_sendDataMessage (cl_cotp self) sessionBuffer;
          Some (self\<lparr>cl_sendBuffer := sb, cl_cotp := cotp\<rparr>) }
        else Some self);
     Some (IsoClientConnection_releaseTransmitBuffer self) }"

definition IsoClientConnection_close :: "ClientEnv \<Rightarrow> 'c IsoClientConnection \<Rightarrow> 'c IsoClientConnection option" where
  "IsoClientConnection_close env self =
     (if cl_intState self \<noteq> INT_STATE_IDLE \<and> cl_intState self \<noteq> INT_STATE_ERROR \<and> cl_intState self \<noteq> INT_STATE_CLOSE_ON_ERROR
      then do {
        (self, _) \<leftarrow> IsoClientConnection_handleConnection env (self\<lparr>cl_intState := INT_STATE_CLOSING_CONNECTION\<rparr>);
        Some (self\<lparr>cl_state := STATE_IDLE\<rparr>) }
      else Some self)"

definition sendAbortMessage :: "'c IsoClientConnection \<Rightarrow> 'c IsoClientConnection option" where
  "sendAbortMessage self = do {
     self \<leftarrow> IsoClientConnection_allocateTransmitBuffer self;
     let sb = cl_sendBuffer self;
     acseBuffer \<leftarrow> AcseConnection_createAbortMessage (part_at sb 0) False;
     let sb = store_part sb 0 acseBuffer;
     presentationBuffer \<leftarrow> IsoPresentation_createAbortUserMessage (cl_presentation self) (part_at sb (ch_length acseBuffer)) acseBuffer;
     let sb = store_part sb (ch_length acseBuffer) presentationBuffer;
     sessionBuffer \<leftarrow> IsoSession_createAbortSpdu (cl_session self) (part_at sb (ch_length presentationBuffer)) presentationBuffer;
     let sb = store_part sb (ch_length presentationBuffer) sessionBuffer;
     (cotp, r) \<leftarrow> CotpConnection_sendDataMessage (cl_cotp self) sessionBuffer;
     Some (IsoClientConnection_releaseTransmitBuffer (self\<lparr>cl_sendBuffer := sb, cl_cotp := cotp\<rparr>)) }"

definition IsoClientConnection_release :: "'c IsoClientConnection \<Rightarrow> 'c IsoClientConnection option" where
  "IsoClientConnection_release self = do {
     self \<leftarrow> IsoClientConnection_allocateTransmitBuffer self;
     let sb = cl_sendBuffer self;
     acseBuffer \<leftarrow> AcseConnection_createReleaseRequestMessage (part_at sb 0);
     let sb = store_part sb 0 acseBuffer;
     presentationBuffer \<leftarrow> IsoPresentation_createUserDataACSE (cl_presentation self) (part_at sb (ch_length acseBuffer)) acseBuffer;
     let sb = store_part sb (ch_length acseBuffer) presentationBuffer;
     sessionBuffer \<leftarrow> IsoSession_createFinishSpdu (cl_session self) (part_at sb (ch_length presentationBuffer)) presentationBuffer;
     let sb = store_part sb (ch_length presentationBuffer) sessionBuffer;
     (cotp, r) \<leftarrow> CotpConnection_sendDataMessage (cl_cotp self) sessionBuffer;
     Some (IsoClientConnection_releaseTransmitBuffer (self\<lparr>cl_sendBuffer := sb, cl_cotp := cotp\<rparr>)) }"

definition IsoClientConnection_abortAsync :: "'c IsoClientConnection \<Rightarrow> 'c IsoClientConnection option" where
  "IsoClientConnection_abortAsync self = sendAbortMessage self"

text \<open>What happens before the memory is released.\<close>

definition IsoClientConnection_destroy :: "ClientEnv \<Rightarrow> 'c IsoClientConnection \<Rightarrow> 'c IsoClientConnection option" where
  "IsoClientConnection_destroy env self = do {
     self \<leftarrow> (if cl_state self = STATE_CONNECTED then IsoClientConnection_close env self else Some self);
     Some (releaseSocket self) }"

subsection \<open>The phases of an association\<close>

text \<open>What the client promises to the layer above, independent of the protocols: an association
  attempt ends with exactly one indication of success or failure, data are indicated only while
  associated, and the end of a connection is indicated once, before the next attempt.\<close>

datatype phase = Unconnected | Associating | Associated | Closing

fun phase_of :: "eIsoClientInternalState \<Rightarrow> phase" where
  "phase_of INT_STATE_IDLE = Unconnected"
| "phase_of INT_STATE_ERROR = Unconnected"
| "phase_of INT_STATE_TCP_CONNECTING = Associating"
| "phase_of INT_STATE_WAIT_FOR_COTP_CONNECT_RESP = Associating"
| "phase_of INT_STATE_WAIT_FOR_ACSE_RESP = Associating"
| "phase_of INT_STATE_WAIT_FOR_DATA_MSG = Associated"
| "phase_of INT_STATE_CLOSING_CONNECTION = Closing"
| "phase_of INT_STATE_CLOSE_ON_ERROR = Closing"

inductive phase_step :: "phase \<Rightarrow> IsoIndication list \<Rightarrow> phase \<Rightarrow> bool" where
  waiting: "p \<noteq> Closing \<Longrightarrow> phase_step p [ISO_IND_TICK] p"
| failed: "phase_step Associating [ISO_IND_ASSOCIATION_FAILED, ISO_IND_TICK] Closing"
| associated: "phase_step Associating [ISO_IND_ASSOCIATION_SUCCESS, ISO_IND_TICK] Associated"
| refused: "phase_step Associating [ISO_IND_ASSOCIATION_SUCCESS, ISO_IND_TICK] Closing"
| data: "phase_step Associated [ISO_IND_DATA, ISO_IND_TICK] Associated"
| lost: "phase_step Associated [ISO_IND_TICK] Closing"
| closed: "phase_step Closing [ISO_IND_CLOSED, ISO_IND_TICK] Unconnected"

code_pred phase_step .

inductive_cases phase_stepE: "phase_step p inds q"

subsection \<open>The invariant\<close>

text \<open>The buffers, at all times; the transport connection, once it has been set up.\<close>

definition client_buffers :: "CotpConnection \<Rightarrow> bool" where
  "client_buffers c \<longleftrightarrow> payload_memory c = (ISO_CLIENT_BUFFER_SIZE, ISO_CLIENT_BUFFER_SIZE) \<and>
     4 < bb_maxSize (readBuffer c) \<and> bb_size (readBuffer c) \<le> bb_maxSize (readBuffer c) \<and>
     bb_maxSize (readBuffer c) \<le> length (bb_buffer (readBuffer c)) \<and> 260 \<le> length (bb_buffer (readBuffer c)) \<and>
     (\<exists>w. writeBuffer c = Some w \<and> 8196 \<le> bb_maxSize w \<and> bb_maxSize w \<le> length (bb_buffer w)) \<and>
     (\<forall>b. socketExtensionBuffer c = Some b \<longrightarrow> 66000 \<le> length b)"

definition client_live :: "CotpConnection \<Rightarrow> bool" where
  "client_live c \<longleftrightarrow> cotp_live c \<and> payload_memory c = (ISO_CLIENT_BUFFER_SIZE, ISO_CLIENT_BUFFER_SIZE) \<and> socketExtensionBufferSize c = 66000"

lemma live_buffers: "client_live c \<Longrightarrow> client_buffers c"
  by (auto simp: client_live_def client_buffers_def cotp_live_def cotp_mem_def ext_ok_def cotp_rx_ok_def partial_packet_def rx_stale_def)

text \<open>The initiate request in the transmit buffer leaves room for the headers of the association
  request, which need up to 162 bytes besides the ACSE header.\<close>

definition initiate_fits :: "'c IsoClientConnection \<Rightarrow> bool" where
  "initiate_fits self \<longleftrightarrow> 0 < transmitSize self \<and> transmitSize self \<le> 65000 \<and>
     transmitSize self + length (aarq_header (cl_parameters self) (acseAuthParameter (cl_parameters self)) (transmitSize self)) + 162
       \<le> ISO_CLIENT_BUFFER_SIZE"

definition cl_base :: "'c IsoClientConnection \<Rightarrow> bool" where
  "cl_base self \<longleftrightarrow> client_buffers (cl_cotp self) \<and> params_ok (cl_parameters self) \<and> auth_ok (acseAuthParameter (cl_parameters self)) \<and>
     length (cl_sendBuffer self) = ISO_CLIENT_BUFFER_SIZE \<and> session_ok (cl_session self) \<and> presentation_ok (cl_presentation self) \<and>
     bb_size (nextPayload (cl_presentation self)) \<le> length (bb_buffer (nextPayload (cl_presentation self)))"

text \<open>\<open>st\<close> is the internal state the connection is in or going to be in. The transmit buffer belongs to
  the connection, and its semaphore is taken, exactly until the association request is sent.\<close>

definition cl_inv :: "eIsoClientInternalState \<Rightarrow> 'c IsoClientConnection \<Rightarrow> bool" where
  "cl_inv st self \<longleftrightarrow> cl_base self \<and>
     (if st = INT_STATE_TCP_CONNECTING \<or> st = INT_STATE_WAIT_FOR_COTP_CONNECT_RESP
      then transmitBufferMutex self = 0 \<and> initiate_fits self else transmitBufferMutex self = 1) \<and>
     (phase_of st \<noteq> Unconnected \<longrightarrow> cl_socket self \<noteq> None) \<and>
     (st = INT_STATE_WAIT_FOR_COTP_CONNECT_RESP \<longrightarrow> client_live (cl_cotp self)) \<and>
     (st = INT_STATE_WAIT_FOR_ACSE_RESP \<or> st = INT_STATE_WAIT_FOR_DATA_MSG \<or> cl_state self = STATE_CONNECTED \<longrightarrow>
        client_live (cl_cotp self) \<and> cotp_rx_ok (cl_cotp self)) \<and>
     (cl_state self = STATE_CONNECTED \<longrightarrow> phase_of st = Associated \<or> phase_of st = Closing) \<and>
     (phase_of st = Associated \<longrightarrow> cl_state self = STATE_CONNECTED)"

definition cl_ok :: "'c IsoClientConnection \<Rightarrow> bool" where
  "cl_ok self \<longleftrightarrow> cl_inv (cl_intState self) self"

lemma cl_base_simps [simp]:
  "cl_base (self\<lparr>callbackParameter := p\<rparr>) = cl_base self"
  "cl_base (self\<lparr>cl_log := l\<rparr>) = cl_base self"
  "cl_base (self\<lparr>cl_intState := st\<rparr>) = cl_base self"
  "cl_base (self\<lparr>cl_state := cs\<rparr>) = cl_base self"
  "cl_base (self\<lparr>nextReadTimeout := t\<rparr>) = cl_base self"
  "cl_base (self\<lparr>readTimeoutInMs := rt\<rparr>) = cl_base self"
  "cl_base (self\<lparr>cl_socket := so\<rparr>) = cl_base self"
  "cl_base (self\<lparr>transmitBufferMutex := m\<rparr>) = cl_base self"
  "cl_base (self\<lparr>transmitSize := n\<rparr>) = cl_base self"
  "cl_base (self\<lparr>receivePayloadBuffer := b\<rparr>) = cl_base self"
  "cl_base (self\<lparr>cl_acse := a\<rparr>) = cl_base self"
  by (simp_all add: cl_base_def)

lemma initiate_fits_simps [simp]:
  "initiate_fits (self\<lparr>callbackParameter := p\<rparr>) = initiate_fits self"
  "initiate_fits (self\<lparr>cl_log := l\<rparr>) = initiate_fits self"
  "initiate_fits (self\<lparr>cl_intState := st\<rparr>) = initiate_fits self"
  "initiate_fits (self\<lparr>cl_state := cs\<rparr>) = initiate_fits self"
  "initiate_fits (self\<lparr>nextReadTimeout := t\<rparr>) = initiate_fits self"
  "initiate_fits (self\<lparr>readTimeoutInMs := rt\<rparr>) = initiate_fits self"
  "initiate_fits (self\<lparr>cl_socket := so\<rparr>) = initiate_fits self"
  "initiate_fits (self\<lparr>transmitBufferMutex := m\<rparr>) = initiate_fits self"
  "initiate_fits (self\<lparr>cl_cotp := c\<rparr>) = initiate_fits self"
  by (simp_all add: initiate_fits_def)

lemma cl_inv_ghost [simp]:
  "cl_inv st (self\<lparr>callbackParameter := p, cl_log := l\<rparr>) = cl_inv st self"
  "cl_inv st (self\<lparr>cl_intState := st'\<rparr>) = cl_inv st self"
  by (simp_all add: cl_inv_def)

lemma cl_base_cotp: "cl_base self \<Longrightarrow> client_buffers c \<Longrightarrow> cl_base (self\<lparr>cl_cotp := c\<rparr>)"
  by (simp add: cl_base_def)

lemma indicate_eq: "indicate ind b self =
    (self\<lparr>callbackParameter := fst (cl_callback self ind (callbackParameter self) b), cl_log := cl_log self @ [ind]\<rparr>,
     snd (cl_callback self ind (callbackParameter self) b))"
  by (simp add: indicate_def split: prod.splits)

subsection \<open>Steps of the state machine\<close>

definition steps_to :: "'c IsoClientConnection \<Rightarrow> 'c client_result \<Rightarrow> bool" where
  "steps_to self r \<longleftrightarrow> (\<exists>self' st w inds. r = Some (self', st, w) \<and> cl_inv st self' \<and> cl_log self' = cl_log self @ inds \<and>
     phase_step (phase_of (cl_intState self)) (inds @ [ISO_IND_TICK]) (phase_of st))"

lemma steps_toI:
  assumes "cl_inv st self'" and "cl_log self' = cl_log self @ inds"
    and "phase_step (phase_of (cl_intState self)) (inds @ [ISO_IND_TICK]) (phase_of st)"
  shows "steps_to self (Some (self', st, w))"
  using assms unfolding steps_to_def by blast

lemma fail_connecting_steps:
  assumes "cl_base t" and "cl_log t = cl_log self" and "transmitBufferMutex t = 0" and "cl_socket t \<noteq> None" and "cl_state t \<noteq> STATE_CONNECTED"
    and "phase_of (cl_intState self) = Associating"
  shows "steps_to self (fail_connecting t)"
  unfolding fail_connecting_def using assms
  by (intro steps_toI [where inds = "[ISO_IND_ASSOCIATION_FAILED]"])
     (auto simp: indicate_eq IsoClientConnection_releaseTransmitBuffer_def cl_inv_def intro: phase_step.failed)

lemma fail_associating_steps:
  assumes "cl_base t" and "cl_log t = cl_log self" and "transmitBufferMutex t = 1" and "cl_socket t \<noteq> None" and "cl_state t \<noteq> STATE_CONNECTED"
    and "phase_of (cl_intState self) = Associating"
  shows "steps_to self (fail_associating t)"
  unfolding fail_associating_def using assms
  by (intro steps_toI [where inds = "[ISO_IND_ASSOCIATION_FAILED]"])
     (auto simp: indicate_eq cl_inv_def intro: phase_step.failed)

definition env_ok :: "ClientEnv \<Rightarrow> bool" where
  "env_ok env \<longleftrightarrow> length (sel_value (env_tsel env)) = 4"

lemma request_sent:
  assumes "cl_base self" and "cl_socket self = Some sock" and "env_ok env"
  shows "\<exists>self' ok. sendConnectionRequestMessage env self = Some (self', ok) \<and>
    (\<exists>c. self' = self\<lparr>cl_cotp := c\<rparr> \<and> client_buffers c \<and> (ok \<longrightarrow> client_live c))"
proof -
  let ?c = "cl_cotp self"
  have b: "client_buffers ?c" "params_ok (cl_parameters self)" using assms(1) by (simp_all add: cl_base_def)
  then obtain w where w: "writeBuffer ?c = Some w" "8196 \<le> bb_maxSize w" "bb_maxSize w \<le> length (bb_buffer w)"
    by (auto simp: client_buffers_def)
  show ?thesis
  proof (cases "extension_buffer env ?c")
    case None
    then have "sendConnectionRequestMessage env self = Some (self\<lparr>cl_cotp := ?c\<rparr>, False)" by (simp add: sendConnectionRequestMessage_def)
    then show ?thesis using b(1) by blast
  next
    case (Some e)
    then have e: "66000 \<le> length e" using b(1) by (auto simp: extension_buffer_def client_buffers_def split: option.splits if_splits)
    let ?i = "CotpConnection_init (env_tsel env) ?c sock (cotp_payload ?c) (readBuffer ?c) (Some w) (Some e) 66000"
    have i: "cotp_live ?i"
      by (rule init_live) (use assms(3) b(1) w e in \<open>simp_all add: env_ok_def client_buffers_def payload_memory_def\<close>)
    have fi: "socketExtensionBufferFill ?i = 0" "socketExtensionBufferSize ?i = 66000" "payload_memory ?i = (ISO_CLIENT_BUFFER_SIZE, ISO_CLIENT_BUFFER_SIZE)"
      using b(1) by (simp_all add: CotpConnection_init_def CotpConnection_resetPayload_def CotpConnection_setTpduSize_def client_buffers_def
          payload_memory_def Let_def)
    obtain c r where c: "CotpConnection_sendConnectionRequestMessage (env_mem env) ?i (cl_parameters self) = Some (c, r)" "cotp_live c"
      "cotp_payload c = cotp_payload ?i" "socketExtensionBufferSize c = 66000"
      using sendConnectionRequest_ok [OF i b(2) fi(1), of "env_mem env"] fi(2) by auto
    then have "client_live c" using fi(3) by (simp add: client_live_def payload_memory_def)
    moreover have "sendConnectionRequestMessage env self = Some (self\<lparr>cl_cotp := c\<rparr>, r = COTP_OK)"
      using Some assms(2) c(1) w(1) by (simp add: sendConnectionRequestMessage_def Let_def)
    ultimately show ?thesis using live_buffers by blast
  qed
qed

lemma handle_tcpConnecting_steps:
  assumes "cl_ok self" and "cl_intState self = INT_STATE_TCP_CONNECTING" and "env_ok env"
  shows "steps_to self (handle_tcpConnecting env self)"
proof -
  have i: "cl_base self" "transmitBufferMutex self = 0" "initiate_fits self" "cl_state self \<noteq> STATE_CONNECTED"
    and "cl_socket self \<noteq> None" using assms(1,2) by (auto simp: cl_ok_def cl_inv_def)
  then obtain sock where sock: "cl_socket self = Some sock" by blast
  obtain c ok where r: "sendConnectionRequestMessage env self = Some (self\<lparr>cl_cotp := c\<rparr>, ok)" "client_buffers c" "ok \<longrightarrow> client_live c"
    using request_sent [OF i(1) sock assms(3)] by blast
  have b: "cl_base (self\<lparr>cl_cotp := c\<rparr>)" using i(1) r(2) by (rule cl_base_cotp)
  have fail: "steps_to self (fail_connecting self)" "steps_to self (fail_connecting (self\<lparr>cl_cotp := c\<rparr>))"
    by (rule fail_connecting_steps; use i sock b assms(2) in simp)+
  have wait: "steps_to self (Some (self, INT_STATE_TCP_CONNECTING, True))"
    using assms(1,2) by (intro steps_toI [where inds = "[]"]) (auto simp: cl_ok_def intro: phase_step.waiting)
  have sent: "steps_to self (Some (self\<lparr>cl_cotp := c, nextReadTimeout := t\<rparr>, INT_STATE_WAIT_FOR_COTP_CONNECT_RESP, False))" if ok for t
    using i sock b r(3) that assms(2) by (intro steps_toI [where inds = "[]"]) (auto simp: cl_inv_def intro: phase_step.waiting)
  show ?thesis using fail wait sent r(1) sock by (auto simp: handle_tcpConnecting_def)
qed

subsection \<open>The association request\<close>

definition request_presentation :: "'c IsoClientConnection \<Rightarrow> IsoPresentation" where
  "request_presentation self = (cl_presentation self)\<lparr>acseContextId := 1, mmsContextId := 3,
     callingPresentationSelector := localPSelector (cl_parameters self), calledPresentationSelector := remotePSelector (cl_parameters self)\<rparr>"

definition request_session :: "'c IsoClientConnection \<Rightarrow> IsoSession" where
  "request_session self = IsoSession_init\<lparr>calledSessionSelector := remoteSSelector (cl_parameters self),
     callingSessionSelector := localSSelector (cl_parameters self)\<rparr>"

definition connect_message :: "'c IsoClientConnection \<Rightarrow> byte list \<Rightarrow> byte list" where
  "connect_message self payload =
     (let aarq = aarq_header (cl_parameters self) (acseAuthParameter (cl_parameters self)) (length payload) @ payload;
          cp = connect_header (request_presentation self) (length aarq) @ aarq
      in with_length 13 (connect_body (request_session self) (length cp)) (length cp) @ cp)"

lemma length_context_entries: "length context_entries = 35"
  by (simp add: context_entries_def acse_entry_def mms_entry_def)

lemma connect_header_bound:
  assumes "presentation_ok p"
  shows "length (connect_header p n) \<le> 110"
proof -
  have sel: "selector_ok 16 (callingPresentationSelector p)" "selector_ok 16 (calledPresentationSelector p)"
    using assms by (simp_all add: presentation_ok_def)
  have l: "length (sel_bytes (callingPresentationSelector p)) \<le> 16" "length (sel_bytes (calledPresentationSelector p)) \<le> 16"
    using length_sel_bytes [OF sel(1)] length_sel_bytes [OF sel(2)] sel by (simp_all add: selector_ok_def)
  let ?N = "normal_mode_length p n"
  have "length (normal_parameters p n) \<le> 91"
    using l user_data_header_bound [of "acseContextId p" n] by (simp add: normal_parameters_def ber_tlv_def ber_length_small length_context_entries)
  then show ?thesis
    using length_ber_length_le [of ?N] length_ber_length_le [of "5 + ?N + (1 + BerEncoder_determineLengthSize ?N)"]
    by (simp add: connect_header_def Let_def)
qed

lemma store_part_length:
  "length sb = SEND_BUF_SIZE \<Longrightarrow> off \<le> SEND_BUF_SIZE \<Longrightarrow> length (ch_buffer c) = length (ch_buffer (part_at sb off)) \<Longrightarrow>
   length (store_part sb off c) = SEND_BUF_SIZE"
  by (simp add: store_part_def)

lemma request_ok:
  assumes "cl_base self"
  shows "presentation_ok (request_presentation self)" and "session_ok (request_session self)"
  using assms by (simp_all add: cl_base_def request_presentation_def request_session_def presentation_ok_def session_ok_def params_ok_def)

lemma initiate_sent:
  assumes "cl_base self" and "initiate_fits self" and "cotp_ok (cl_cotp self)"
  shows "\<exists>self' sb cotp r. sendAcseInitiateRequest self = Some self' \<and> length sb = ISO_CLIENT_BUFFER_SIZE \<and>
    sends (cl_cotp self) (connect_message self (take (transmitSize self) (cl_sendBuffer self))) cotp r \<and>
    self' = self\<lparr>cl_acse := AcseConnection_init (cl_acse self) None, cl_presentation := request_presentation self,
      cl_session := request_session self, cl_sendBuffer := sb, cl_cotp := cotp, transmitBufferMutex := Suc (transmitBufferMutex self)\<rparr>"
proof -
  let ?n = "transmitSize self" and ?sb = "cl_sendBuffer self" and ?P = "cl_parameters self" and ?a = "acseAuthParameter (cl_parameters self)"
  let ?d = "BufferChain ?n ?n 0 ?sb None"
  let ?h1 = "aarq_header ?P ?a ?n"
  have b: "params_ok ?P" "auth_ok ?a" "length ?sb = SEND_BUF_SIZE" using assms(1) by (simp_all add: cl_base_def)
  have f: "0 < ?n" "?n \<le> 65000" "?n + length ?h1 + 162 \<le> SEND_BUF_SIZE" using assms(2) by (simp_all add: initiate_fits_def)
  have d: "chain_ok ?d" "parts_ok ?d" "0 < ch_partLength ?d" "chain_bytes ?d = take ?n ?sb" "ch_length ?d = ?n" "length (take ?n ?sb) = ?n"
    using f b(3) by simp_all
  have r1: "length (aarq_header ?P ?a (ch_length ?d)) \<le> length (ch_buffer (part_at ?sb ?n))" using f(3) b(3) by simp
  obtain c1 where c1: "AcseConnection_createAssociateRequestMessage ?P (part_at ?sb ?n) ?d ?a = Some c1" "headed c1 ?h1 ?d"
    "length (ch_buffer c1) = length (ch_buffer (part_at ?sb ?n))"
    using createAssociateRequest_eq [OF b(1,2) d(1) _ r1] f(2) d(5) by auto
  have l1: "ch_length c1 = length ?h1 + ?n" "ch_length c1 = length (chain_bytes c1)"
    using length_headed [OF c1(2) d(1)] d(5) length_chain_bytes [of c1] c1(2) by simp_all
  have p1: "parts_ok c1" "0 < ch_partLength c1" using parts_ok_headed [OF c1(2) d(2,3)] c1(2) by (simp_all add: aarq_header_def)
  define sb1 where "sb1 = store_part ?sb ?n c1"
  have s1: "length sb1 = SEND_BUF_SIZE" unfolding sb1_def by (rule store_part_length [OF b(3) _ c1(3)]) (use f(3) in simp)
  let ?p = "request_presentation self"
  have h2: "length (connect_header ?p (ch_length c1)) \<le> 110" using request_ok(1) [OF assms(1)] by (rule connect_header_bound)
  have r2: "length (connect_header ?p (ch_length c1)) \<le> length (ch_buffer (part_at sb1 (ch_length c1)))" using h2 s1 l1(1) f(3) by simp
  obtain c2 where c2: "createConnectPdu ?p (part_at sb1 (ch_length c1)) c1 = Some c2" "headed c2 (connect_header ?p (ch_length c1)) c1"
    "length (ch_buffer c2) = length (ch_buffer (part_at sb1 (ch_length c1)))"
    using createConnectPdu_eq [OF request_ok(1) [OF assms(1)] _ r2] c1(2) by auto
  have l2: "ch_length c2 = length (connect_header ?p (ch_length c1)) + ch_length c1" "ch_length c2 = length (chain_bytes c2)"
    using length_headed [OF c2(2)] c1(2) length_chain_bytes [of c2] c2(2) by simp_all
  have p2: "parts_ok c2" "0 < ch_partLength c2" using parts_ok_headed [OF c2(2) p1] c2(2) by (simp_all add: connect_header_def Let_def)
  define sb2 where "sb2 = store_part sb1 (ch_length c1) c2"
  have s2: "length sb2 = SEND_BUF_SIZE" unfolding sb2_def by (rule store_part_length [OF s1 _ c2(3)]) (use l1(1) f(3) in simp)
  let ?s = "request_session self"
  have "length (connect_body ?s (ch_length c2)) \<le> 50"
    using length_bodies(1) [OF request_ok(2) [OF assms(1)], of "ch_length c2"] b(1) by (simp add: request_session_def params_ok_def selector_ok_def)
  then have r3: "length (connect_body ?s (ch_length c2)) + 2 \<le> length (ch_buffer (part_at sb2 (ch_length c2)))" using s2 l2(1) h2 l1(1) f(3) by simp
  obtain c3 where c3: "IsoSession_createConnectSpdu IsoSession_init ?P (part_at sb2 (ch_length c2)) c2 = Some (?s, c3)"
    "headed c3 (with_length 13 (connect_body ?s (ch_length c2)) (ch_length c2)) c2" "length (ch_buffer c3) = length (ch_buffer (part_at sb2 (ch_length c2)))"
    using createConnectSpdu_eq [OF b(1), of c2 IsoSession_init "part_at sb2 (ch_length c2)"] r3 c2(2) unfolding request_session_def by auto
  have s3: "length (store_part sb2 (ch_length c2) c3) = SEND_BUF_SIZE"
    by (rule store_part_length [OF s2 _ c3(3)]) (use l2(1) h2 l1(1) f(3) in simp)
  have msg: "chain_bytes c3 = connect_message self (take ?n ?sb)"
    using c3(2) c2(2) c1(2) l1(2) l2(2) d(4,6) by (simp add: connect_message_def Let_def)
  obtain cotp r where t: "CotpConnection_sendDataMessage (cl_cotp self) c3 = Some (cotp, r)" "sends (cl_cotp self) (chain_bytes c3) cotp r"
    using sendDataMessage_ok [OF assms(3) _ parts_ok_headed [OF c3(2) p2]] c3(2) by blast
  have "IsoPresentation_createConnectPdu (cl_presentation self) ?P (part_at sb1 (ch_length c1)) c1 = Some (?p, c2)"
    using c2(1) by (simp add: IsoPresentation_createConnectPdu_def request_presentation_def Let_def)
  then have "sendAcseInitiateRequest self = Some (self\<lparr>cl_acse := AcseConnection_init (cl_acse self) None, cl_presentation := ?p,
      cl_session := ?s, cl_sendBuffer := store_part sb2 (ch_length c2) c3, cl_cotp := cotp, transmitBufferMutex := Suc (transmitBufferMutex self)\<rparr>)"
    using c1(1) c3(1) t(1)
    by (simp add: sendAcseInitiateRequest_def sb1_def sb2_def IsoClientConnection_releaseTransmitBuffer_def Let_def)
  with s3 t(2) msg show ?thesis by auto
qed

subsection \<open>Receiving\<close>

text \<open>One read of the transport connection either completes a packet, which is then parsed, or not.\<close>

definition received_size :: "CotpConnection \<Rightarrow> nat" where
  "received_size c = bb_size (cotp_payload c) + (packetSize c - 7)"

lemma client_receive:
  assumes "client_live c"
  obtains (packet) c1 c2 ind where "CotpConnection_readToTpktBuffer c = Some (c1, TPKT_PACKET_COMPLETE)"
      "CotpConnection_parseIncomingMessage c1 = Some (c2, ind)" "client_live c2" "cotp_rx_ok c2" "socketExtensionBufferFill c2 = 0"
      "ind = COTP_DATA_INDICATION \<Longrightarrow> bb_size (cotp_payload c2) = received_size c1" "ind \<noteq> COTP_OK" "ind \<noteq> COTP_DISCONNECT_INDICATION"
    | (pending) c1 st where "CotpConnection_readToTpktBuffer c = Some (c1, st)" "st \<noteq> TPKT_PACKET_COMPLETE" "client_live c1"
      "cotp_rx_ok c \<Longrightarrow> cotp_rx_ok c1"
proof -
  have live: "cotp_live c" "payload_memory c = (ISO_CLIENT_BUFFER_SIZE, ISO_CLIENT_BUFFER_SIZE)" "socketExtensionBufferSize c = 66000"
    using assms by (simp_all add: client_live_def)
  obtain c1 st where r: "CotpConnection_readToTpktBuffer c = Some (c1, st)" "cotp_payload c1 = cotp_payload c" "socketExtensionBufferSize c1 = 66000"
    "if st = TPKT_PACKET_COMPLETE then cotp_mem c1 \<and> packet_complete c1 \<and> socketExtensionBufferFill c1 = 0 else cotp_live c1"
    using readToTpktBuffer_live [OF live(1)] live(3) by auto
  have pm: "payload_memory c1 = (ISO_CLIENT_BUFFER_SIZE, ISO_CLIENT_BUFFER_SIZE)" using live(2) r(2) by (simp add: payload_memory_def)
  show thesis
  proof (cases "st = TPKT_PACKET_COMPLETE")
    case False
    have "cotp_rx_ok c1" if "cotp_rx_ok c"
      using readToTpktBuffer_ok [of c] live(1) that r(1) False by (auto simp: cotp_ok_def cotp_live_def)
    then show thesis using pending r False pm by (auto simp: client_live_def)
  next
    case True
    then have m: "cotp_mem c1" "packet_complete c1" using r(4) by simp_all
    obtain c2 ind where p: "CotpConnection_parseIncomingMessage c1 = Some (c2, ind)" "cotp_ok c2" "payload_memory c2 = payload_memory c1"
      "socketExtensionBufferFill c2 = socketExtensionBufferFill c1" "socketExtensionBufferSize c2 = socketExtensionBufferSize c1"
      "if ind = COTP_DATA_INDICATION \<or> ind = COTP_MORE_FRAGMENTS_FOLLOW
       then bb_bytes (cotp_payload c2) = bb_bytes (cotp_payload c1) @ drop 7 (bb_bytes (readBuffer c1))
       else cotp_payload c2 = cotp_payload c1" "ind \<noteq> COTP_OK" "ind \<noteq> COTP_DISCONNECT_INDICATION"
      using parseIncoming_ok [OF m] by blast
    have b: "bb_ok (cotp_payload c2)" "bb_ok (cotp_payload c1)" "bb_ok (readBuffer c1)" "bb_size (readBuffer c1) = packetSize c1"
      using p(2) m by (auto simp: cotp_ok_def cotp_mem_def packet_complete_def partial_packet_def bb_ok_def)
    have "bb_size (cotp_payload c2) = received_size c1" if "ind = COTP_DATA_INDICATION"
      using p(6) that length_bb_bytes [OF b(1)] length_bb_bytes [OF b(2)] length_bb_bytes [OF b(3)] b(4) by (simp add: received_size_def)
    moreover have "client_live c2" "cotp_rx_ok c2" "socketExtensionBufferFill c2 = 0"
      using p(2-5) pm r(3,4) True by (simp_all add: client_live_def cotp_ok_live cotp_ok_def)
    ultimately show thesis using packet r(1) True p(1,7,8) by blast
  qed
qed

lemma handle_waitForCotp_steps:
  assumes "cl_ok self" and "cl_intState self = INT_STATE_WAIT_FOR_COTP_CONNECT_RESP"
  shows "steps_to self (handle_waitForCotp env self)"
proof -
  have i: "cl_base self" "transmitBufferMutex self = 0" "initiate_fits self" "cl_state self \<noteq> STATE_CONNECTED" "cl_socket self \<noteq> None"
    and live: "client_live (cl_cotp self)" using assms by (auto simp: cl_ok_def cl_inv_def)
  have fail: "steps_to self (fail_connecting (self\<lparr>cl_cotp := c\<rparr>))" if "client_live c" for c
    by (rule fail_connecting_steps) (use i assms(2) cl_base_cotp [OF i(1) live_buffers [OF that]] in simp_all)
  have "self\<lparr>cl_cotp := cl_cotp self\<rparr> = self" by simp
  with fail [OF live] have fail0: "steps_to self (fail_connecting self)" by simp
  show ?thesis
  proof (cases "env_time env > nextReadTimeout self")
    case True
    then show ?thesis using fail0 by (simp add: handle_waitForCotp_def Let_def)
  next
    case False
    from live show ?thesis
    proof (cases rule: client_receive)
      case (pending c1 st)
      have "steps_to self (Some (self\<lparr>cl_cotp := c1\<rparr>, INT_STATE_WAIT_FOR_COTP_CONNECT_RESP, True))"
        using i assms(2) pending(3) cl_base_cotp [OF i(1) live_buffers [OF pending(3)]]
        by (intro steps_toI [where inds = "[]"]) (auto simp: cl_inv_def intro: phase_step.waiting)
      then show ?thesis using fail [OF pending(3)] False pending(1,2) by (simp add: handle_waitForCotp_def Let_def)
    next
      case (packet c1 c2 ind)
      let ?s = "self\<lparr>cl_cotp := c2\<rparr>"
      have b: "cl_base ?s" by (rule cl_base_cotp [OF i(1) live_buffers [OF packet(3)]])
      have c2: "cotp_ok (cl_cotp ?s)" using packet(3,4) by (simp add: cotp_ok_def client_live_def cotp_live_def)
      have "initiate_fits ?s" using i(3) by simp
      from initiate_sent [OF b this c2] obtain sb cotp r where t: "length sb = ISO_CLIENT_BUFFER_SIZE" "tx_frame c2 cotp"
        "sendAcseInitiateRequest ?s = Some (?s\<lparr>cl_acse := AcseConnection_init (cl_acse ?s) None, cl_presentation := request_presentation ?s,
          cl_session := request_session ?s, cl_sendBuffer := sb, cl_cotp := cotp, transmitBufferMutex := Suc (transmitBufferMutex ?s)\<rparr>)"
        by (auto simp: sends_def)
      have l: "client_live cotp" "cotp_rx_ok cotp"
        using tx_frame_ok [OF _ t(2)] c2 t(2) packet(3) by (auto simp: client_live_def cotp_ok_live cotp_ok_def tx_frame_def send_frame_def)
      have sent: "steps_to self (Some (?s\<lparr>cl_acse := AcseConnection_init (cl_acse ?s) None, cl_presentation := request_presentation ?s,
          cl_session := request_session ?s, cl_sendBuffer := sb, cl_cotp := cotp, transmitBufferMutex := Suc (transmitBufferMutex ?s),
          nextReadTimeout := t\<rparr>, INT_STATE_WAIT_FOR_ACSE_RESP, False))" for t
        using i b t(1) l live_buffers [OF l(1)] request_ok [OF b] assms(2)
        by (intro steps_toI [where inds = "[]"]) (auto simp: cl_inv_def cl_base_def request_presentation_def intro: phase_step.waiting)
      show ?thesis
        using sent fail [OF packet(3)] False packet(1,2) t(3) by (simp add: handle_waitForCotp_def Let_def)
    qed
  qed
qed

text \<open>A received message leaves the upper layers well-formed.\<close>

lemma cl_base_upper:
  "cl_base self \<Longrightarrow> session_ok s \<Longrightarrow> cl_base (self\<lparr>cl_session := s\<rparr>)"
  "cl_base self \<Longrightarrow> presentation_ok p \<Longrightarrow> bb_size (nextPayload p) \<le> length (bb_buffer (nextPayload p)) \<Longrightarrow>
     cl_base (self\<lparr>cl_presentation := p\<rparr>)"
  by (simp_all add: cl_base_def)

lemma payload_in_size: "payload_in buffer n p \<Longrightarrow> n \<le> length buffer \<Longrightarrow> bb_size (nextPayload p) \<le> length (bb_buffer (nextPayload p))"
  by (auto simp: payload_in_def)

lemma reset_payload_live:
  assumes "client_live c" and "cotp_rx_ok c"
  shows "client_live (CotpConnection_resetPayload c)" and "cotp_rx_ok (CotpConnection_resetPayload c)"
  using assms resetPayload_ok [of c]
  by (auto simp: client_live_def cotp_live_def cotp_ok_def CotpConnection_resetPayload_def)

definition associating :: "'c IsoClientConnection \<Rightarrow> 'c IsoClientConnection \<Rightarrow> bool" where
  "associating self t \<longleftrightarrow> cl_base t \<and> cl_log t = cl_log self \<and> transmitBufferMutex t = 1 \<and> cl_socket t \<noteq> None \<and>
     cl_state t \<noteq> STATE_CONNECTED \<and> client_live (cl_cotp t) \<and> cotp_rx_ok (cl_cotp t)"

lemma parse_acse_response_steps:
  assumes "associating self t" and "phase_of (cl_intState self) = Associating"
  shows "steps_to self (parse_acse_response t)"
proof -
  let ?m = "cotp_payload (cl_cotp t)"
  have b: "cl_base t" "session_ok (cl_session t)" "presentation_ok (cl_presentation t)" "bb_ok ?m"
    "bb_size (nextPayload (cl_presentation t)) \<le> length (bb_buffer (nextPayload (cl_presentation t)))"
    using assms(1) by (simp_all add: associating_def cl_base_def client_live_def cotp_live_def cotp_mem_def)
  have fail: "steps_to self (fail_associating u)" if "associating self u" for u
    by (rule fail_associating_steps) (use that assms(2) in \<open>simp_all add: associating_def\<close>)
  have reset: "steps_to self (map_option (\<lambda>(s, st, w). (reset_payload s, st, w)) (fail_associating u))" if "associating self u" for u
    using that assms(2) reset_payload_live
    by (auto simp: fail_associating_def steps_to_def indicate_eq reset_payload_def associating_def cl_inv_def
        intro!: exI [where x = "[ISO_IND_ASSOCIATION_FAILED]"] phase_step.failed cl_base_cotp live_buffers)
  obtain s ind where s: "IsoSession_parseMessage (cl_session t) ?m = Some (s, ind)" "session_ok s"
    "ind = SESSION_CONNECT \<longrightarrow> rest_of ?m (userData s)"
    using session_parse_ok [OF b(4,2)] by auto
  have t1: "associating self (t\<lparr>cl_session := s\<rparr>)" using assms(1) cl_base_upper(1) [OF b(1) s(2)] by (simp add: associating_def)
  show ?thesis
  proof (cases "ind = SESSION_CONNECT")
    case False
    then show ?thesis using s(1) fail [OF t1] by (simp add: parse_acse_response_def Let_def)
  next
    case True
    then have u: "bb_size (userData s) \<le> length (bb_buffer (userData s))" using s(3) rest_of_ok [OF b(4), of "userData s"] by (simp add: bb_ok_def)
    from connect_parsers_ok [OF u b(3)] obtain p ok where
      p: "IsoPresentation_parseAcceptMessage (cl_presentation t) (userData s) = Some (p, ok)" "presentation_ok p"
        "nextPayload p = nextPayload (cl_presentation t) \<or> payload_in (bb_buffer (userData s)) (bb_size (userData s)) p" by blast
    have np: "bb_size (nextPayload p) \<le> length (bb_buffer (nextPayload p))" using p(3) b(5) payload_in_size [OF _ u] by auto
    have "cl_base (t\<lparr>cl_session := s, cl_presentation := p\<rparr>)"
      using cl_base_upper(2) [OF _ p(2) np, of "t\<lparr>cl_session := s\<rparr>"] t1 by (simp add: associating_def)
    then have t2: "associating self (t\<lparr>cl_session := s, cl_presentation := p\<rparr>)" using assms(1) by (simp add: associating_def)
    from parseMessage_ok [OF np, of "cl_acse t"] obtain a ai where
      a: "AcseConnection_parseMessage (cl_acse t) (Some (nextPayload p)) = Some (a, ai)"
        "ai = ACSE_ASSOCIATE \<longrightarrow> user_data_in (bb_buffer (nextPayload p)) (bb_size (nextPayload p)) a"
      by (auto simp: pdu_ok_def acse_inv_def)
    have t3: "associating self (t\<lparr>cl_session := s, cl_presentation := p, cl_acse := a\<rparr>)" using t2 by (simp add: associating_def)
    show ?thesis
    proof (cases "ok \<and> ai = ACSE_ASSOCIATE")
      case False
      then show ?thesis
        using s(1) True p(1) a(1) reset [OF t2] reset [OF t3]
        by (auto simp: parse_acse_response_def IsoSession_getUserData_def Let_def fail_associating_def)
    next
      case ok: True
      then obtain dat where dat: "userDataBuffer a = Some dat" using a(2) by (auto simp: user_data_in_def)
      let ?b = "ByteBuffer_wrap dat 0 (userDataBufferSize a) (userDataBufferSize a)"
      let ?i = "indicate ISO_IND_ASSOCIATION_SUCCESS (Some ?b)
        (t\<lparr>cl_session := s, cl_presentation := p, cl_acse := a, receivePayloadBuffer := ?b, cl_state := STATE_CONNECTED\<rparr>)"
      have "parse_acse_response t = Some (reset_payload (fst ?i), if snd ?i then INT_STATE_WAIT_FOR_DATA_MSG else INT_STATE_CLOSE_ON_ERROR, False)"
        using s(1) True p(1) a(1) ok dat by (simp add: parse_acse_response_def IsoSession_getUserData_def Let_def split_beta)
      moreover have "steps_to self (Some (reset_payload (fst ?i), if snd ?i then INT_STATE_WAIT_FOR_DATA_MSG else INT_STATE_CLOSE_ON_ERROR, False))"
        using t3 assms(2) reset_payload_live
        by (intro steps_toI [where inds = "[ISO_IND_ASSOCIATION_SUCCESS]"])
           (auto simp: indicate_eq reset_payload_def associating_def cl_inv_def cl_base_cotp live_buffers
             intro: phase_step.associated phase_step.refused)
      ultimately show ?thesis by simp
    qed
  qed
qed

lemma handle_waitForAcse_steps:
  assumes "cl_ok self" and "cl_intState self = INT_STATE_WAIT_FOR_ACSE_RESP"
  shows "steps_to self (handle_waitForAcse env self)"
proof -
  have self: "associating self self" and live: "client_live (cl_cotp self)" and ph: "phase_of (cl_intState self) = Associating"
    using assms by (auto simp: cl_ok_def cl_inv_def associating_def)
  have with_cotp: "associating self (self\<lparr>cl_cotp := c\<rparr>)" if "client_live c" "cotp_rx_ok c" for c
    using self that cl_base_cotp [of self, OF _ live_buffers [OF that(1)]] by (simp add: associating_def)
  have fail: "steps_to self (fail_associating u)" if "associating self u" for u
    by (rule fail_associating_steps) (use that ph in \<open>simp_all add: associating_def\<close>)
  show ?thesis
  proof (cases "env_time env > nextReadTimeout self")
    case True
    then show ?thesis using fail [OF self] by (simp add: handle_waitForAcse_def)
  next
    case False
    from live show ?thesis
    proof (cases rule: client_receive)
      case (pending c1 st)
      have a: "associating self (self\<lparr>cl_cotp := c1\<rparr>)" by (rule with_cotp) (use pending self in \<open>simp_all add: associating_def\<close>)
      then have "steps_to self (Some (self\<lparr>cl_cotp := c1\<rparr>, INT_STATE_WAIT_FOR_ACSE_RESP, True))"
        using assms(2) by (intro steps_toI [where inds = "[]"]) (auto simp: cl_inv_def associating_def intro: phase_step.waiting)
      then show ?thesis using fail [OF a] False pending(1,2) by (simp add: handle_waitForAcse_def Let_def)
    next
      case (packet c1 c2 ind)
      have a: "associating self (self\<lparr>cl_cotp := c2\<rparr>)" using packet(3,4) by (rule with_cotp)
      show ?thesis
        using fail [OF a] parse_acse_response_steps [OF a ph] False packet(1,2) by (simp add: handle_waitForAcse_def Let_def)
    qed
  qed
qed

text \<open>While associated: \<open>t\<close> is the connection with what has been received so far.\<close>

definition transferring :: "'c IsoClientConnection \<Rightarrow> 'c IsoClientConnection \<Rightarrow> bool" where
  "transferring self t \<longleftrightarrow> cl_base t \<and> cl_log t = cl_log self \<and> transmitBufferMutex t = 1 \<and> cl_socket t \<noteq> None \<and>
     cl_state t = STATE_CONNECTED \<and> client_live (cl_cotp t) \<and> cotp_rx_ok (cl_cotp t)"

lemma transferring_steps:
  assumes "transferring self t" and "phase_of (cl_intState self) = Associated"
  shows "steps_to self (Some (t, INT_STATE_WAIT_FOR_DATA_MSG, w))" and "steps_to self (Some (t, INT_STATE_CLOSE_ON_ERROR, w))"
  by (rule steps_toI [where inds = "[]"];
      use assms in \<open>auto simp: transferring_def cl_inv_def intro: phase_step.waiting phase_step.lost\<close>)+

lemma parse_data_steps:
  assumes "transferring self t" and "phase_of (cl_intState self) = Associated"
    and "bb_size (cotp_payload (cl_cotp t)) < ISO_CLIENT_BUFFER_SIZE"
  shows "steps_to self (parse_data t)"
proof -
  let ?m = "cotp_payload (cl_cotp t)"
  have b: "cl_base t" "session_ok (cl_session t)" "presentation_ok (cl_presentation t)" "bb_ok ?m" "length (bb_buffer ?m) = ISO_CLIENT_BUFFER_SIZE"
    "bb_size (nextPayload (cl_presentation t)) \<le> length (bb_buffer (nextPayload (cl_presentation t)))"
    using assms(1) by (simp_all add: transferring_def cl_base_def client_live_def cotp_live_def cotp_mem_def payload_memory_def)
  obtain s ind where s: "IsoSession_parseMessage (cl_session t) ?m = Some (s, ind)" "session_ok s" "ind = SESSION_DATA \<longrightarrow> rest_of ?m (userData s)"
    using session_parse_ok [OF b(4,2)] by auto
  have t1: "transferring self (t\<lparr>cl_session := s\<rparr>)" using assms(1) cl_base_upper(1) [OF b(1) s(2)] by (simp add: transferring_def)
  show ?thesis
  proof (cases "ind = SESSION_DATA")
    case False
    then show ?thesis using s(1) transferring_steps(2) [OF t1 assms(2)] by (simp add: parse_data_def Let_def)
  next
    case True
    then have u: "bb_size (userData s) < length (bb_buffer (userData s))"
      using s(3) b(5) assms(3) by (auto simp: rest_of_def ByteBuffer_wrap_def)
    from user_data_parser_ok [OF u, of "cl_presentation t"] obtain p ok where
      p: "IsoPresentation_parseUserData (cl_presentation t) (userData s) = Some (p, ok)"
        "callingPresentationSelector p = callingPresentationSelector (cl_presentation t)"
        "calledPresentationSelector p = calledPresentationSelector (cl_presentation t)"
        "if ok then payload_in (bb_buffer (userData s)) (bb_size (userData s)) p else nextPayload p = nextPayload (cl_presentation t)"
      by blast
    have np: "bb_size (nextPayload p) \<le> length (bb_buffer (nextPayload p))"
      using p(4) b(6) payload_in_size [of "bb_buffer (userData s)" "bb_size (userData s)" p] u by (auto split: if_splits)
    have po: "presentation_ok p" using p(2,3) b(3) by (simp add: presentation_ok_def)
    have t2: "transferring self (t\<lparr>cl_session := s, cl_presentation := p\<rparr>)"
      using cl_base_upper(2) [OF _ po np, of "t\<lparr>cl_session := s\<rparr>"] t1 by (simp add: transferring_def)
    let ?i = "fst (indicate ISO_IND_DATA (Some (nextPayload p)) (t\<lparr>cl_session := s, cl_presentation := p\<rparr>))"
    have "steps_to self (Some (reset_payload ?i, INT_STATE_WAIT_FOR_DATA_MSG, False))"
      using t2 assms(2) reset_payload_live
      by (intro steps_toI [where inds = "[ISO_IND_DATA]"])
         (auto simp: indicate_eq reset_payload_def transferring_def cl_inv_def cl_base_cotp live_buffers intro: phase_step.data)
    then show ?thesis
      using s(1) True p(1) transferring_steps(2) [OF t2 assms(2)] by (simp add: parse_data_def IsoSession_getUserData_def Let_def)
  qed
qed

text \<open>The message completed by a read does not fill the receive buffer to its last byte.\<close>

definition room_left :: "'c IsoClientConnection \<Rightarrow> bool" where
  "room_left self \<longleftrightarrow> (\<forall>c. CotpConnection_readToTpktBuffer (cl_cotp self) = Some (c, TPKT_PACKET_COMPLETE) \<longrightarrow>
     received_size c \<noteq> ISO_CLIENT_BUFFER_SIZE)"

lemma handle_waitForData_steps:
  assumes "cl_ok self" and "cl_intState self = INT_STATE_WAIT_FOR_DATA_MSG" and "room_left self"
  shows "steps_to self (handle_waitForData self)"
proof -
  have self: "transferring self self" and live: "client_live (cl_cotp self)" and ph: "phase_of (cl_intState self) = Associated"
    using assms by (auto simp: cl_ok_def cl_inv_def transferring_def)
  have with_cotp: "transferring self (self\<lparr>cl_cotp := c\<rparr>)" if "client_live c" "cotp_rx_ok c" for c
    using self that cl_base_cotp [of self, OF _ live_buffers [OF that(1)]] by (simp add: transferring_def)
  from live show ?thesis
  proof (cases rule: client_receive)
    case (pending c1 st)
    have a: "transferring self (self\<lparr>cl_cotp := c1\<rparr>)" by (rule with_cotp) (use pending self in \<open>simp_all add: transferring_def\<close>)
    show ?thesis using transferring_steps [OF a ph] pending(1,2) by (simp add: handle_waitForData_def Let_def)
  next
    case (packet c1 c2 ind)
    have a: "transferring self (self\<lparr>cl_cotp := c2\<rparr>)" using packet(3,4) by (rule with_cotp)
    have "bb_size (cotp_payload c2) \<le> ISO_CLIENT_BUFFER_SIZE"
      using packet(3) by (auto simp: client_live_def cotp_live_def cotp_mem_def payload_memory_def bb_ok_def)
    moreover have "received_size c1 \<noteq> ISO_CLIENT_BUFFER_SIZE" using assms(3) packet(1) by (simp add: room_left_def)
    ultimately have "bb_size (cotp_payload (cl_cotp (self\<lparr>cl_cotp := c2\<rparr>))) < ISO_CLIENT_BUFFER_SIZE" if "ind = COTP_DATA_INDICATION"
      using packet(6) [OF that] by simp
    note d = parse_data_steps [OF a ph this]
    show ?thesis using transferring_steps [OF a ph] d packet(1,2,7,8) by (cases ind) (simp_all add: handle_waitForData_def Let_def)
  qed
qed

lemma handle_closing_steps:
  assumes "cl_ok self" and "phase_of (cl_intState self) = Closing" and "phase_of st = Unconnected" and "cs \<noteq> STATE_CONNECTED"
  shows "steps_to self (handle_closing cs st self)"
proof -
  have "transmitBufferMutex self = 1" "cl_base self" using assms(1,2) by (cases "cl_intState self"; simp add: cl_ok_def cl_inv_def)+
  then show ?thesis
    unfolding handle_closing_def using assms(2-4)
    by (intro steps_toI [where inds = "[ISO_IND_CLOSED]"], cases st)
       (auto simp: indicate_eq releaseSocket_def cl_inv_def intro: phase_step.closed)
qed

lemma client_case_steps:
  assumes "cl_ok self" and "env_ok env" and "cl_intState self = INT_STATE_WAIT_FOR_DATA_MSG \<Longrightarrow> room_left self"
  shows "steps_to self (client_case env self)"
proof -
  have "steps_to self (Some (self, cl_intState self, True))" if "phase_of (cl_intState self) = Unconnected"
    using assms(1) that by (intro steps_toI [where inds = "[]"]) (auto simp: cl_ok_def intro: phase_step.waiting)
  then show ?thesis
    using handle_tcpConnecting_steps [OF assms(1) _ assms(2)] handle_waitForCotp_steps [OF assms(1)] handle_waitForAcse_steps [OF assms(1)]
      handle_waitForData_steps [OF assms(1) _ assms(3)] handle_closing_steps [OF assms(1)]
    by (cases "cl_intState self") (simp_all add: client_case_def)
qed

lemma handleConnection_steps:
  assumes "cl_ok self" and "env_ok env" and "cl_intState self = INT_STATE_WAIT_FOR_DATA_MSG \<Longrightarrow> room_left self"
  shows "\<exists>self' w inds. IsoClientConnection_handleConnection env self = Some (self', w) \<and> cl_ok self' \<and>
    cl_log self' = cl_log self @ inds \<and> phase_step (phase_of (cl_intState self)) inds (phase_of (cl_intState self'))"
proof -
  obtain t st w inds where t: "client_case env self = Some (t, st, w)" "cl_inv st t" "cl_log t = cl_log self @ inds"
    "phase_step (phase_of (cl_intState self)) (inds @ [ISO_IND_TICK]) (phase_of st)"
    using client_case_steps [OF assms] by (auto simp: steps_to_def)
  let ?t = "fst (indicate ISO_IND_TICK None t)\<lparr>cl_intState := st\<rparr>"
  have "IsoClientConnection_handleConnection env self = Some (?t, w)"
    using t(1) by (simp add: IsoClientConnection_handleConnection_def split_beta)
  moreover have "cl_ok ?t" using t(2) by (simp add: cl_ok_def indicate_eq)
  moreover have "cl_log ?t = cl_log self @ (inds @ [ISO_IND_TICK])" using t(3) by (simp add: indicate_eq)
  moreover have "cl_intState ?t = st" by simp
  ultimately show ?thesis using t(4) by metis
qed

subsection \<open>Calls of the upper layer\<close>

text \<open>The MMS client connects with \<open>dat\<close> as initiate request, and sends \<open>dat\<close>: both write it to the
  start of the allocated transmit buffer.\<close>

definition client_connect ::
  "64 word \<Rightarrow> Socket option \<Rightarrow> bool \<Rightarrow> bool \<Rightarrow> 32 word \<Rightarrow> 32 word \<Rightarrow> byte list \<Rightarrow> 'c IsoClientConnection \<Rightarrow> ('c IsoClientConnection \<times> bool) option" where
  "client_connect now sock bound connecting connectTimeout readTimeout dat self = do {
     self \<leftarrow> IsoClientConnection_allocateTransmitBuffer self;
     Some (IsoClientConnection_associateAsync now sock bound connecting
       (self\<lparr>cl_sendBuffer := patch (cl_sendBuffer self) 0 dat, transmitSize := length dat\<rparr>) connectTimeout readTimeout) }"

definition client_send :: "byte list \<Rightarrow> 'c IsoClientConnection \<Rightarrow> 'c IsoClientConnection option" where
  "client_send dat self = do {
     self \<leftarrow> IsoClientConnection_allocateTransmitBuffer self;
     let self = self\<lparr>cl_sendBuffer := patch (cl_sendBuffer self) 0 dat, transmitSize := length dat\<rparr>;
     IsoClientConnection_sendMessage self (ByteBuffer_wrap (cl_sendBuffer self) 0 (transmitSize self) ISO_CLIENT_BUFFER_SIZE) }"

definition client_data :: "'c IsoClientConnection \<Rightarrow> byte list \<Rightarrow> byte list" where
  "client_data self payload = dataSpdu @ user_data_header (mmsContextId (cl_presentation self)) (length payload) @ payload"

lemma live_tx:
  assumes "client_live c" and "cotp_rx_ok c" and "tx_frame c c'"
  shows "client_live c'" and "cotp_rx_ok c'"
proof -
  have c: "cotp_ok c" using assms(1,2) by (simp add: cotp_ok_def client_live_def cotp_live_def)
  show "client_live c'" "cotp_rx_ok c'"
    using tx_frame_ok [OF c assms(3)] c assms by (auto simp: client_live_def cotp_ok_live cotp_ok_def tx_frame_def send_frame_def)
qed

lemma sendMessage_sends:
  assumes "cl_state self = STATE_CONNECTED" and "cotp_ok (cl_cotp self)" and "length (cl_sendBuffer self) = SEND_BUF_SIZE"
    and "0 < n" and "n \<le> 65000"
  obtains sb c r where "IsoClientConnection_sendMessage self (ByteBuffer_wrap (cl_sendBuffer self) 0 n m) =
      Some (self\<lparr>cl_sendBuffer := sb, cl_cotp := c, transmitBufferMutex := Suc (transmitBufferMutex self)\<rparr>)"
    "length sb = SEND_BUF_SIZE" "sends (cl_cotp self) (client_data self (take n (cl_sendBuffer self))) c r"
proof -
  let ?sb = "cl_sendBuffer self" and ?ctx = "mmsContextId (cl_presentation self)"
  let ?p = "BufferChain_init n n None ?sb"
  have n: "n \<le> length ?sb" "length (take n ?sb) = n" using assms(3,5) by (simp_all add: SEND_BUF_SIZE_def)
  note p = mms_part_ok [OF assms(4) n(1)]
  have b: "bb_size (ByteBuffer_wrap ?sb 0 n m) = n" "bb_buffer (ByteBuffer_wrap ?sb 0 n m) = ?sb" by (simp_all add: ByteBuffer_wrap_def)
  obtain c1 where c1: "IsoPresentation_createUserData (cl_presentation self) (part_at ?sb n) ?p = Some c1"
    "headed c1 (user_data_header ?ctx n) ?p" "parts_ok c1" "length (store_part ?sb n c1) = SEND_BUF_SIZE"
    using presentation_data.create_at [OF p(1-3) assms(3), of n "cl_presentation self"] user_data_header_bound [of ?ctx n] p(5) assms(5)
    by (auto simp: SEND_BUF_SIZE_def)
  have p1: "0 < ch_partLength c1" using c1(2) by (simp add: user_data_header_def)
  let ?c = "chain_finish (BufferChain 0 0 0 [] None) dataSpdu 4 c1"
  have c: "headed ?c dataSpdu c1" using c1(2) by (simp add: chain_finish_def dataSpdu_def)
  have m: "chain_bytes ?c = client_data self (take n ?sb)" using c c1(2) p(4) n(2) by (simp add: client_data_def)
  obtain c2 r where s: "CotpConnection_sendDataMessage (cl_cotp self) ?c = Some (c2, r)" "sends (cl_cotp self) (chain_bytes ?c) c2 r"
    using sendDataMessage_ok [OF assms(2) _ parts_ok_headed [OF c c1(3) p1]] c by blast
  have "IsoClientConnection_sendMessage self (ByteBuffer_wrap ?sb 0 n m) =
      Some (self\<lparr>cl_sendBuffer := store_part ?sb n c1, cl_cotp := c2, transmitBufferMutex := Suc (transmitBufferMutex self)\<rparr>)"
    using assms(1) c1(1) s(1) p(5)
    by (simp add: IsoClientConnection_sendMessage_def b IsoSession_createDataSpdu_def IsoClientConnection_releaseTransmitBuffer_def Let_def)
  with that [OF this c1(4)] s(2) m show thesis by simp
qed

lemma client_send_ok:
  assumes "cl_ok self" and "transmitBufferMutex self = 1" and "0 < length dat" and "length dat \<le> 65000"
  shows "\<exists>self'. client_send dat self = Some self' \<and> cl_ok self' \<and> cl_log self' = cl_log self \<and> cl_intState self' = cl_intState self \<and>
    (if cl_state self = STATE_CONNECTED then \<exists>r. sends (cl_cotp self) (client_data self dat) (cl_cotp self') r else cl_cotp self' = cl_cotp self)"
proof -
  let ?t = "self\<lparr>transmitBufferMutex := 0, cl_sendBuffer := patch (cl_sendBuffer self) 0 dat, transmitSize := length dat\<rparr>"
  have b: "cl_base self" "length (cl_sendBuffer self) = ISO_CLIENT_BUFFER_SIZE" using assms(1) by (auto simp: cl_ok_def cl_inv_def cl_base_def)
  then have l: "length (cl_sendBuffer ?t) = SEND_BUF_SIZE" using assms(4) by (simp add: SEND_BUF_SIZE_def)
  have st: "cl_intState self \<noteq> INT_STATE_TCP_CONNECTING" "cl_intState self \<noteq> INT_STATE_WAIT_FOR_COTP_CONNECT_RESP"
    using assms(1,2) by (auto simp: cl_ok_def cl_inv_def)
  have eq: "client_send dat self = IsoClientConnection_sendMessage ?t (ByteBuffer_wrap (cl_sendBuffer ?t) 0 (length dat) ISO_CLIENT_BUFFER_SIZE)"
    using assms(2) by (simp add: client_send_def IsoClientConnection_allocateTransmitBuffer_def Let_def)
  show ?thesis
  proof (cases "cl_state self = STATE_CONNECTED")
    case False
    let ?u = "?t\<lparr>transmitBufferMutex := 1\<rparr>"
    have "client_send dat self = Some ?u"
      using False by (simp add: eq IsoClientConnection_sendMessage_def IsoClientConnection_releaseTransmitBuffer_def)
    moreover have "cl_ok ?u" using assms(1) st l False by (auto simp: cl_ok_def cl_inv_def cl_base_def)
    ultimately show ?thesis using False by simp
  next
    case True
    have live: "client_live (cl_cotp self)" "cotp_rx_ok (cl_cotp self)" using assms(1) True by (auto simp: cl_ok_def cl_inv_def)
    then have "cotp_ok (cl_cotp ?t)" by (simp add: cotp_ok_def client_live_def cotp_live_def)
    then obtain sb c r where s: "client_send dat self = Some (?t\<lparr>cl_sendBuffer := sb, cl_cotp := c, transmitBufferMutex := Suc 0\<rparr>)"
      "length sb = SEND_BUF_SIZE" "sends (cl_cotp self) (client_data self dat) c r"
      using True unfolding eq
      by (elim sendMessage_sends [OF _ _ l assms(3,4), rotated]) (auto simp: take_patch_0 client_data_def)
    have c: "client_live c" "cotp_rx_ok c" using live_tx [OF live] s(3) by (simp_all add: sends_def)
    have "cl_ok (?t\<lparr>cl_sendBuffer := sb, cl_cotp := c, transmitBufferMutex := Suc 0\<rparr>)"
      using assms(1) st s(2) c live_buffers [OF c(1)] by (auto simp: cl_ok_def cl_inv_def cl_base_def)
    then show ?thesis using s True by auto
  qed
qed

lemma client_connect_ok:
  assumes "cl_ok self" and "phase_of (cl_intState self) = Unconnected" and "length dat \<le> 65000"
    and "initiate_fits (self\<lparr>transmitSize := length dat\<rparr>)" and "sock \<noteq> None"
  shows "\<exists>self' ok. client_connect now sock bound connecting ct rt dat self = Some (self', ok) \<and> cl_ok self' \<and> cl_log self' = cl_log self \<and>
    phase_of (cl_intState self') = (if ok then Associating else Unconnected)"
proof -
  have m: "transmitBufferMutex self = 1" using assms(1,2) by (cases "cl_intState self") (simp_all add: cl_ok_def cl_inv_def)
  have "cl_base self" "length (cl_sendBuffer self) = ISO_CLIENT_BUFFER_SIZE" using assms(1) by (simp_all add: cl_ok_def cl_inv_def cl_base_def)
  then have b: "cl_base (self\<lparr>cl_sendBuffer := patch (cl_sendBuffer self) 0 dat\<rparr>)" using assms(3) by (simp add: cl_base_def SEND_BUF_SIZE_def)
  then show ?thesis
    using m assms(4,5)
    by (auto simp: client_connect_def IsoClientConnection_allocateTransmitBuffer_def IsoClientConnection_associateAsync_def Let_def
        IsoClientConnection_releaseTransmitBuffer_def cl_ok_def cl_inv_def cl_base_def initiate_fits_def)
qed

lemma client_close_ok:
  assumes "cl_ok self" and "transmitBufferMutex self = 1"
  shows "\<exists>self' inds. IsoClientConnection_close env self = Some self' \<and> cl_ok self' \<and> cl_log self' = cl_log self @ inds \<and>
    (if cl_intState self \<in> {INT_STATE_IDLE, INT_STATE_ERROR, INT_STATE_CLOSE_ON_ERROR} then inds = [] \<and> cl_intState self' = cl_intState self
     else inds = [ISO_IND_CLOSED, ISO_IND_TICK] \<and> cl_intState self' = INT_STATE_IDLE)"
proof (cases "cl_intState self \<in> {INT_STATE_IDLE, INT_STATE_ERROR, INT_STATE_CLOSE_ON_ERROR}")
  case True
  then show ?thesis using assms(1) by (auto simp: IsoClientConnection_close_def)
next
  case False
  then show ?thesis using assms
    by (auto simp: IsoClientConnection_close_def IsoClientConnection_handleConnection_def client_case_def handle_closing_def indicate_eq
        releaseSocket_def cl_ok_def cl_inv_def)
qed

text \<open>Closing while the TCP or COTP connection is being set up, and starting an attempt for which no
  socket could be created, lose the transmit buffer: from then on its semaphore is taken for ever.
  The connection stays unconnected, and only its clock ticks.\<close>

definition cl_lost :: "'c IsoClientConnection \<Rightarrow> bool" where
  "cl_lost self \<longleftrightarrow> cl_base self \<and> transmitBufferMutex self = 0 \<and> phase_of (cl_intState self) = Unconnected \<and> cl_state self \<noteq> STATE_CONNECTED"

lemma client_close_lost:
  assumes "cl_ok self" and "cl_intState self \<in> {INT_STATE_TCP_CONNECTING, INT_STATE_WAIT_FOR_COTP_CONNECT_RESP}"
  shows "\<exists>self'. IsoClientConnection_close env self = Some self' \<and> cl_lost self' \<and> cl_intState self' = INT_STATE_IDLE \<and>
    cl_log self' = cl_log self @ [ISO_IND_CLOSED, ISO_IND_TICK]"
proof -
  have "cl_base self" "transmitBufferMutex self = 0" using assms by (auto simp: cl_ok_def cl_inv_def)
  then show ?thesis
    using assms(2) by (auto simp: IsoClientConnection_close_def IsoClientConnection_handleConnection_def client_case_def handle_closing_def indicate_eq
        releaseSocket_def cl_lost_def)
qed

lemma client_connect_lost:
  assumes "cl_ok self" and "phase_of (cl_intState self) = Unconnected" and "length dat \<le> 65000"
  shows "\<exists>self'. client_connect now None bound connecting ct rt dat self = Some (self', False) \<and> cl_lost self' \<and>
    cl_intState self' = cl_intState self \<and> cl_log self' = cl_log self"
proof -
  have m: "transmitBufferMutex self = 1" "cl_state self \<noteq> STATE_CONNECTED"
    using assms(1,2) by (cases "cl_intState self"; auto simp: cl_ok_def cl_inv_def)+
  have "cl_base self" "length (cl_sendBuffer self) = ISO_CLIENT_BUFFER_SIZE" using assms(1) by (simp_all add: cl_ok_def cl_inv_def cl_base_def)
  then have "cl_base (self\<lparr>cl_sendBuffer := patch (cl_sendBuffer self) 0 dat\<rparr>)" using assms(3) by (simp add: cl_base_def SEND_BUF_SIZE_def)
  then show ?thesis
    using m assms(2)
    by (auto simp: client_connect_def IsoClientConnection_allocateTransmitBuffer_def IsoClientConnection_associateAsync_def cl_lost_def cl_base_def)
qed

lemma lost_calls:
  assumes "cl_lost self"
  shows "client_connect now sock bound connecting ct rt dat self = None" and "client_send dat self = None"
    and "IsoClientConnection_release self = None" and "IsoClientConnection_abortAsync self = None"
    and "IsoClientConnection_close env self = Some self"
    and "\<exists>self'. IsoClientConnection_handleConnection env self = Some (self', True) \<and> cl_lost self' \<and> cl_log self' = cl_log self @ [ISO_IND_TICK]"
proof -
  have l: "transmitBufferMutex self = 0" and st: "cl_intState self = INT_STATE_IDLE \<or> cl_intState self = INT_STATE_ERROR"
    using assms by (cases "cl_intState self"; simp add: cl_lost_def)+
  show "client_connect now sock bound connecting ct rt dat self = None" "client_send dat self = None"
    "IsoClientConnection_release self = None" "IsoClientConnection_abortAsync self = None"
    using l by (simp_all add: client_connect_def client_send_def IsoClientConnection_release_def IsoClientConnection_abortAsync_def sendAbortMessage_def
        IsoClientConnection_allocateTransmitBuffer_def)
  show "IsoClientConnection_close env self = Some self" using st by (auto simp: IsoClientConnection_close_def)
  show "\<exists>self'. IsoClientConnection_handleConnection env self = Some (self', True) \<and> cl_lost self' \<and> cl_log self' = cl_log self @ [ISO_IND_TICK]"
    using st assms by (auto simp: IsoClientConnection_handleConnection_def client_case_def indicate_eq cl_lost_def)
qed

subsection \<open>Release and abort\<close>

text \<open>Two layers that write their headers in place, one behind the other in the transmit buffer.\<close>

lemma two_layers_at:
  assumes "layer_in_place create1 header1" and "layer_in_place create2 header2"
    and "chain_ok payload" and "parts_ok payload" and "0 < ch_partLength payload" and "length sb = SEND_BUF_SIZE"
    and "0 < length (header1 (ch_length payload))" and "length (header1 (ch_length payload)) \<le> 30"
    and "\<And>n. length (header2 n) \<le> 10" and "ch_length payload \<le> 65000"
  obtains c1 c2 where "create1 (part_at sb (ch_length payload)) payload = Some c1"
    and "create2 (part_at (store_part sb (ch_length payload) c1) (ch_length c1)) c1 = Some c2" and "chain_ok c2" and "parts_ok c2"
    and "length (store_part (store_part sb (ch_length payload) c1) (ch_length c1) c2) = SEND_BUF_SIZE"
proof -
  obtain c1 where c1: "create1 (part_at sb (ch_length payload)) payload = Some c1" "headed c1 (header1 (ch_length payload)) payload" "parts_ok c1"
    "ch_length c1 = length (header1 (ch_length payload)) + ch_length payload" "length (store_part sb (ch_length payload) c1) = SEND_BUF_SIZE"
    using layer_in_place.create_at [OF assms(1) assms(3-6), of "ch_length payload"] assms(8,10) by (auto simp: SEND_BUF_SIZE_def)
  have p: "0 < ch_partLength c1" "chain_ok c1" using c1(2) assms(7) by simp_all
  have "ch_length c1 + length (header2 (ch_length c1)) \<le> SEND_BUF_SIZE"
    using c1(4) assms(8,10) assms(9) [of "ch_length c1"] by (simp add: SEND_BUF_SIZE_def)
  from layer_in_place.create_at [OF assms(2) p(2) c1(3) p(1) c1(5) this] obtain c2 where
    "create2 (part_at (store_part sb (ch_length payload) c1) (ch_length c1)) c1 = Some c2" "headed c2 (header2 (ch_length c1)) c1" "parts_ok c2"
    "length (store_part (store_part sb (ch_length payload) c1) (ch_length c1) c2) = SEND_BUF_SIZE" by blast
  with that [OF c1(1)] show thesis by simp
qed

lemma acse_part:
  assumes "length sb = SEND_BUF_SIZE"
    and "create = AcseConnection_createReleaseRequestMessage \<or> create = (\<lambda>wb. AcseConnection_createAbortMessage wb False)"
  obtains c where "create (part_at sb 0) = Some c" and "chain_ok c" and "parts_ok c" and "ch_length c = 5" and "ch_partLength c = 5"
    and "length (store_part sb 0 c) = SEND_BUF_SIZE"
proof -
  have "Suc (Suc (Suc (Suc (Suc 0)))) \<le> length sb" using assms(1) by (simp add: SEND_BUF_SIZE_def)
  then obtain x0 x1 x2 x3 x4 bs where "sb = x0 # x1 # x2 # x3 # x4 # bs" by (auto simp only: Suc_le_length_iff)
  then show thesis
    using assms that [of "BufferChain 5 5 SEND_BUF_SIZE (0x62 # 3 # 0x80 # 1 # 0 # bs) None"]
      that [of "BufferChain 5 5 SEND_BUF_SIZE (0x64 # 3 # 0x80 # 1 # 0 # bs) None"]
    by (auto simp: AcseConnection_createReleaseRequestMessage_def AcseConnection_createAbortMessage_def part_at_def store_part_def)
qed

text \<open>What both do with the finished message.\<close>

lemma control_sent:
  assumes "cl_ok self" and "cl_state self = STATE_CONNECTED" and "transmitBufferMutex self = 1"
    and "chain_ok c" and "parts_ok c" and "length sb = SEND_BUF_SIZE"
  shows "\<exists>cotp r. CotpConnection_sendDataMessage (cl_cotp self) c = Some (cotp, r) \<and>
    cl_ok (self\<lparr>transmitSize := 0, cl_sendBuffer := sb, cl_cotp := cotp\<rparr>)"
proof -
  have live: "client_live (cl_cotp self)" "cotp_rx_ok (cl_cotp self)" using assms(1,2) by (auto simp: cl_ok_def cl_inv_def)
  then have "cotp_ok (cl_cotp self)" by (simp add: cotp_ok_def client_live_def cotp_live_def)
  from sendDataMessage_ok [OF this assms(4,5)] obtain cotp r where
    s: "CotpConnection_sendDataMessage (cl_cotp self) c = Some (cotp, r)" "tx_frame (cl_cotp self) cotp" by (auto simp: sends_def)
  note l = live_tx [OF live s(2)]
  have "cl_ok (self\<lparr>transmitSize := 0, cl_sendBuffer := sb, cl_cotp := cotp\<rparr>)"
    using assms(1,3,6) l live_buffers [OF l(1)] by (auto simp: cl_ok_def cl_inv_def cl_base_def)
  with s(1) show ?thesis by blast
qed

lemma connected_mutex: "cl_ok self \<Longrightarrow> cl_state self = STATE_CONNECTED \<Longrightarrow> transmitBufferMutex self = 1"
  by (cases "cl_intState self") (simp_all add: cl_ok_def cl_inv_def)

lemma client_release_ok:
  assumes "cl_ok self" and "cl_state self = STATE_CONNECTED" and "transmitBufferMutex self = 1"
  shows "\<exists>self'. IsoClientConnection_release self = Some self' \<and> cl_ok self' \<and> cl_log self' = cl_log self \<and> cl_intState self' = cl_intState self"
proof -
  let ?sb = "cl_sendBuffer self" and ?p = "cl_presentation self" and ?s = "cl_session self"
  have l: "length ?sb = SEND_BUF_SIZE" using assms(1) by (simp add: cl_ok_def cl_inv_def cl_base_def)
  obtain c0 where c0: "AcseConnection_createReleaseRequestMessage (part_at ?sb 0) = Some c0" "chain_ok c0" "parts_ok c0" "ch_length c0 = 5"
    "ch_partLength c0 = 5" "length (store_part ?sb 0 c0) = SEND_BUF_SIZE" by (rule acse_part [OF l, of AcseConnection_createReleaseRequestMessage]) simp
  let ?sb0 = "store_part ?sb 0 c0"
  obtain c1 c2 where c: "IsoPresentation_createUserDataACSE ?p (part_at ?sb0 (ch_length c0)) c0 = Some c1"
    "IsoSession_createFinishSpdu ?s (part_at (store_part ?sb0 (ch_length c0) c1) (ch_length c1)) c1 = Some c2" "chain_ok c2" "parts_ok c2"
    "length (store_part (store_part ?sb0 (ch_length c0) c1) (ch_length c1) c2) = SEND_BUF_SIZE"
    by (rule two_layers_at [OF presentation_acse.layer_in_place_axioms session_finish.layer_in_place_axioms c0(2,3) _ c0(6), of ?p ?s])
       (use c0(4,5) user_data_header_bound [of "acseContextId ?p" 5] in \<open>auto simp: user_data_header_def with_length_def\<close>)
  from control_sent [OF assms c(3-5)] obtain cotp r where "CotpConnection_sendDataMessage (cl_cotp self) c2 = Some (cotp, r)"
    "cl_ok (self\<lparr>transmitSize := 0, cl_sendBuffer := store_part (store_part ?sb0 (ch_length c0) c1) (ch_length c1) c2, cl_cotp := cotp\<rparr>)" by blast
  with c0(1) c(1,2) assms(3) show ?thesis
    by (auto simp: IsoClientConnection_release_def IsoClientConnection_allocateTransmitBuffer_def IsoClientConnection_releaseTransmitBuffer_def Let_def
        cl_ok_def cl_inv_def cl_base_def)
qed

lemma client_abort_ok:
  assumes "cl_ok self" and "cl_state self = STATE_CONNECTED" and "transmitBufferMutex self = 1"
  shows "\<exists>self'. IsoClientConnection_abortAsync self = Some self' \<and> cl_ok self' \<and> cl_log self' = cl_log self \<and> cl_intState self' = cl_intState self"
proof -
  let ?sb = "cl_sendBuffer self" and ?p = "cl_presentation self" and ?s = "cl_session self"
  have l: "length ?sb = SEND_BUF_SIZE" using assms(1) by (simp add: cl_ok_def cl_inv_def cl_base_def)
  obtain c0 where c0: "AcseConnection_createAbortMessage (part_at ?sb 0) False = Some c0" "chain_ok c0" "parts_ok c0" "ch_length c0 = 5"
    "ch_partLength c0 = 5" "length (store_part ?sb 0 c0) = SEND_BUF_SIZE"
    by (rule acse_part [OF l, of "\<lambda>wb. AcseConnection_createAbortMessage wb False"]) simp
  let ?sb0 = "store_part ?sb 0 c0"
  have h: "length (abort_header (acseContextId ?p) 5) \<le> 30"
    using user_data_header_bound [of "acseContextId ?p" 5] length_ber_length_le [of "encodeUserData_length 5"] by (simp add: abort_header_def)
  obtain c1 c2 where c: "IsoPresentation_createAbortUserMessage ?p (part_at ?sb0 (ch_length c0)) c0 = Some c1"
    "IsoSession_createAbortSpdu ?s (part_at (store_part ?sb0 (ch_length c0) c1) (ch_length c1)) c1 = Some c2" "chain_ok c2" "parts_ok c2"
    "length (store_part (store_part ?sb0 (ch_length c0) c1) (ch_length c1) c2) = SEND_BUF_SIZE"
    by (rule two_layers_at [OF presentation_abort.layer_in_place_axioms session_abort.layer_in_place_axioms c0(2,3) _ c0(6), of ?p ?s])
       (use c0(4,5) h in \<open>auto simp: abort_header_def with_length_def\<close>)
  from control_sent [OF assms c(3-5)] obtain cotp r where "CotpConnection_sendDataMessage (cl_cotp self) c2 = Some (cotp, r)"
    "cl_ok (self\<lparr>transmitSize := 0, cl_sendBuffer := store_part (store_part ?sb0 (ch_length c0) c1) (ch_length c1) c2, cl_cotp := cotp\<rparr>)" by blast
  with c0(1) c(1,2) assms(3) show ?thesis
    by (auto simp: IsoClientConnection_abortAsync_def sendAbortMessage_def IsoClientConnection_allocateTransmitBuffer_def
        IsoClientConnection_releaseTransmitBuffer_def Let_def cl_ok_def cl_inv_def cl_base_def)
qed

subsection \<open>Runs of the client\<close>

text \<open>The indications of one association attempt, without the ticks of the clock. While it is being
  set up there are none; then there is one outcome; data are indicated only after a success; the
  attempt ends with one indication that it is closed, which may come before any outcome if the
  connection is closed while it is being set up.\<close>

definition visible :: "IsoIndication list \<Rightarrow> IsoIndication list" where
  "visible l = filter (\<lambda>i. i \<noteq> ISO_IND_TICK) l"

definition succeeded :: "IsoIndication list \<Rightarrow> bool" where
  "succeeded l \<longleftrightarrow> (\<exists>k. l = ISO_IND_ASSOCIATION_SUCCESS # replicate k ISO_IND_DATA)"

fun attempt_ok :: "phase \<Rightarrow> IsoIndication list \<Rightarrow> bool" where
  "attempt_ok Associating l \<longleftrightarrow> visible l = []"
| "attempt_ok Associated l \<longleftrightarrow> succeeded (visible l)"
| "attempt_ok Closing l \<longleftrightarrow> visible l = [ISO_IND_ASSOCIATION_FAILED] \<or> succeeded (visible l)"
| "attempt_ok Unconnected l \<longleftrightarrow> (\<exists>m. visible l = m @ [ISO_IND_CLOSED] \<and> (m = [] \<or> m = [ISO_IND_ASSOCIATION_FAILED] \<or> succeeded m))"

definition outcomes :: "IsoIndication list \<Rightarrow> nat" where
  "outcomes l = count_list l ISO_IND_ASSOCIATION_SUCCESS + count_list l ISO_IND_ASSOCIATION_FAILED"

text \<open>The history of a connection: the indications before the first attempt and those of each
  attempt, the current one last.\<close>

definition extend :: "'a list list \<Rightarrow> 'a list \<Rightarrow> 'a list list" where
  "extend ls l = butlast ls @ [last ls @ l]"

definition news :: "'c IsoClientConnection \<Rightarrow> 'c IsoClientConnection \<Rightarrow> IsoIndication list" where
  "news self self' = drop (length (cl_log self)) (cl_log self')"

text \<open>\<open>client_run lost ls self\<close>: \<open>self\<close> is the connection after any number of association attempts,
  steps, transmissions, releases, aborts and closings, with the history \<open>ls\<close>; \<open>lost\<close> says whether an
  attempt without a socket or a closing during the connection set-up has taken the transmit
  buffer for ever. As in \<open>mms_client_connection.c\<close>, release and abort are called on established
  connections only; an attempt is started when there is no connection.\<close>

inductive client_run :: "bool \<Rightarrow> IsoIndication list list \<Rightarrow> 'c IsoClientConnection \<Rightarrow> bool" where
  created: "length sendBuf = ISO_CLIENT_BUFFER_SIZE \<Longrightarrow> length receiveBuf = ISO_CLIENT_BUFFER_SIZE \<Longrightarrow>
    length cotpReadBuf = COTP_MAX_TPDU_SIZE + 4 \<Longrightarrow> length cotpWriteBuf = COTP_MAX_TPDU_SIZE + 4 \<Longrightarrow>
    params_ok parameters \<Longrightarrow> auth_ok (acseAuthParameter parameters) \<Longrightarrow>
    session_ok session0 \<Longrightarrow> client_run False [[]] (IsoClientConnection_create cotp0 session0 acse0 sendBuf receiveBuf cotpReadBuf cotpWriteBuf parameters callback param)"
| connecting: "client_run lost ls self \<Longrightarrow> phase_of (cl_intState self) = Unconnected \<Longrightarrow> length dat \<le> 65000 \<Longrightarrow>
    initiate_fits (self\<lparr>transmitSize := length dat\<rparr>) \<Longrightarrow>
    client_connect now sock bound conn ct rt dat self = Some (self', ok) \<Longrightarrow>
    client_run (lost \<or> sock = None) (if ok then ls @ [[]] else ls) self'"
| step: "client_run lost ls self \<Longrightarrow> env_ok env \<Longrightarrow> (cl_intState self = INT_STATE_WAIT_FOR_DATA_MSG \<Longrightarrow> room_left self) \<Longrightarrow>
    IsoClientConnection_handleConnection env self = Some (self', w) \<Longrightarrow> client_run lost (extend ls (news self self')) self'"
| sending: "client_run lost ls self \<Longrightarrow> 0 < length dat \<Longrightarrow> length dat \<le> 65000 \<Longrightarrow>
    client_send dat self = Some self' \<Longrightarrow> client_run lost ls self'"
| releasing: "client_run lost ls self \<Longrightarrow> cl_state self = STATE_CONNECTED \<Longrightarrow> IsoClientConnection_release self = Some self' \<Longrightarrow> client_run lost ls self'"
| aborting: "client_run lost ls self \<Longrightarrow> cl_state self = STATE_CONNECTED \<Longrightarrow> IsoClientConnection_abortAsync self = Some self' \<Longrightarrow> client_run lost ls self'"
| closing: "client_run lost ls self \<Longrightarrow> IsoClientConnection_close env self = Some self' \<Longrightarrow>
    client_run (lost \<or> cl_intState self \<in> {INT_STATE_TCP_CONNECTING, INT_STATE_WAIT_FOR_COTP_CONNECT_RESP}) (extend ls (news self self')) self'"

lemma client_created_ok:
  assumes "length sendBuf = ISO_CLIENT_BUFFER_SIZE" and "length receiveBuf = ISO_CLIENT_BUFFER_SIZE"
    and "length cotpReadBuf = COTP_MAX_TPDU_SIZE + 4" and "length cotpWriteBuf = COTP_MAX_TPDU_SIZE + 4"
    and "params_ok parameters" and "auth_ok (acseAuthParameter parameters)" and "session_ok session0"
  shows "cl_ok (IsoClientConnection_create cotp0 session0 acse0 sendBuf receiveBuf cotpReadBuf cotpWriteBuf parameters callback param)"
  using assms
  by (simp add: IsoClientConnection_create_def cl_ok_def cl_inv_def cl_base_def client_buffers_def payload_memory_def ByteBuffer_wrap_def
      presentation_ok_def presentation_zero_def selector_ok_def COTP_MAX_TPDU_SIZE_def)

text \<open>The history fits the phase the connection is in.\<close>

definition history_ok :: "IsoIndication list list \<Rightarrow> phase \<Rightarrow> bool" where
  "history_ok ls q \<longleftrightarrow> (\<exists>pre attempts. ls = pre # attempts \<and> visible pre = [] \<and>
     (if attempts = [] then q = Unconnected
      else attempt_ok q (last attempts) \<and> (\<forall>l \<in> set (butlast attempts). attempt_ok Unconnected l)))"

lemma visible_append [simp]: "visible (l @ m) = visible l @ visible m"
  by (simp add: visible_def)

lemma visible_simps [simp]: "visible [] = []" "visible (i # l) = (if i = ISO_IND_TICK then visible l else i # visible l)"
  by (simp_all add: visible_def)

lemma succeeded_more: "succeeded l \<Longrightarrow> succeeded (l @ [ISO_IND_DATA])"
proof -
  assume "succeeded l"
  then obtain k where "l = ISO_IND_ASSOCIATION_SUCCESS # replicate k ISO_IND_DATA" by (auto simp: succeeded_def)
  then have "l @ [ISO_IND_DATA] = ISO_IND_ASSOCIATION_SUCCESS # replicate (Suc k) ISO_IND_DATA" by (simp add: replicate_append_same)
  then show ?thesis unfolding succeeded_def by blast
qed

lemma succeeded_now: "succeeded [ISO_IND_ASSOCIATION_SUCCESS]"
  unfolding succeeded_def by (rule exI [of _ 0]) simp

lemma attempt_step: "phase_step p inds q \<Longrightarrow> attempt_ok p l \<Longrightarrow> attempt_ok q (l @ inds)"
proof (induction rule: phase_step.induct)
  case (waiting p)
  then show ?case by (cases p) simp_all
qed (auto simp: succeeded_now succeeded_more)

lemma attempt_closed: "attempt_ok p l \<Longrightarrow> p \<noteq> Unconnected \<Longrightarrow> attempt_ok Unconnected (l @ [ISO_IND_CLOSED, ISO_IND_TICK])"
  by (cases p) auto

lemma attempt_counts:
  assumes "attempt_ok q l"
  shows "outcomes l \<le> 1" and "count_list l ISO_IND_CLOSED = (if q = Unconnected then 1 else 0)"
proof -
  have v: "count_list (visible l) i = count_list l i" if "i \<noteq> ISO_IND_TICK" for i l using that by (induction l) auto
  have r: "count_list (replicate k ISO_IND_DATA) i = (if i = ISO_IND_DATA then k else 0)" for k i by (induction k) auto
  have "outcomes (visible l) \<le> 1 \<and> count_list (visible l) ISO_IND_CLOSED = (if q = Unconnected then 1 else 0)"
    using assms by (cases q) (auto simp: outcomes_def succeeded_def r)
  then show "outcomes l \<le> 1" and "count_list l ISO_IND_CLOSED = (if q = Unconnected then 1 else 0)"
    by (auto simp: outcomes_def v)
qed

lemma history_extend:
  assumes "history_ok ls p" and "\<And>l. attempt_ok p l \<Longrightarrow> attempt_ok q (l @ inds)" and "p = Unconnected \<Longrightarrow> visible inds = [] \<and> q = Unconnected"
  shows "history_ok (extend ls inds) q" and "concat (extend ls inds) = concat ls @ inds"
proof -
  obtain pre attempts where ls: "ls = pre # attempts" "visible pre = []"
    "if attempts = [] then p = Unconnected else attempt_ok p (last attempts) \<and> (\<forall>l \<in> set (butlast attempts). attempt_ok Unconnected l)"
    using assms(1) by (auto simp: history_ok_def)
  show "history_ok (extend ls inds) q"
    using ls assms(2,3) by (cases "attempts = []") (auto simp: history_ok_def extend_def)
  have "concat ls = concat (butlast ls) @ last ls" if "ls \<noteq> []" for ls :: "IsoIndication list list"
    using that by (cases ls rule: rev_cases) simp_all
  then show "concat (extend ls inds) = concat ls @ inds" using ls(1) by (simp add: extend_def)
qed

lemma history_start: "history_ok ls Unconnected \<Longrightarrow> history_ok (ls @ [[]]) Associating"
proof -
  assume "history_ok ls Unconnected"
  then obtain pre attempts where ls: "ls = pre # attempts" "visible pre = []"
    "attempts \<noteq> [] \<Longrightarrow> attempt_ok Unconnected (last attempts) \<and> (\<forall>l \<in> set (butlast attempts). attempt_ok Unconnected l)"
    by (auto simp: history_ok_def split: if_splits)
  have "\<forall>l \<in> set attempts. attempt_ok Unconnected l"
    using ls(3) by (cases attempts rule: rev_cases) auto
  with ls(1,2) show ?thesis by (auto simp: history_ok_def)
qed

text \<open>A step whose indications are known, from a connection that has lost its buffer or has not.\<close>

definition run_ok :: "bool \<Rightarrow> IsoIndication list list \<Rightarrow> 'c IsoClientConnection \<Rightarrow> bool" where
  "run_ok lost ls self \<longleftrightarrow> (if lost then cl_lost self else cl_ok self) \<and> concat ls = cl_log self \<and> history_ok ls (phase_of (cl_intState self))"

lemma run_ok_extend:
  assumes "run_ok lost ls self" and "if lost' then cl_lost self' else cl_ok self'" and "cl_log self' = cl_log self @ inds"
    and "\<And>l. attempt_ok (phase_of (cl_intState self)) l \<Longrightarrow> attempt_ok (phase_of (cl_intState self')) (l @ inds)"
    and "phase_of (cl_intState self) = Unconnected \<Longrightarrow> visible inds = [] \<and> phase_of (cl_intState self') = Unconnected"
  shows "run_ok lost' (extend ls (news self self')) self'"
proof -
  have n: "news self self' = inds" using assms(3) by (simp add: news_def)
  have h: "history_ok ls (phase_of (cl_intState self))" "concat ls = cl_log self" using assms(1) by (simp_all add: run_ok_def)
  show ?thesis unfolding n run_ok_def using history_extend [OF h(1) assms(4,5)] h(2) assms(2,3) by simp
qed

lemma run_ok_same:
  assumes "run_ok lost ls self" and "if lost then cl_lost self' else cl_ok self'" and "cl_log self' = cl_log self"
    and "cl_intState self' = cl_intState self"
  shows "run_ok lost ls self'"
  using assms by (simp add: run_ok_def)

lemma run_ok_step:
  assumes "run_ok lost ls self" and "env_ok env" and "cl_intState self = INT_STATE_WAIT_FOR_DATA_MSG \<Longrightarrow> room_left self"
    and "IsoClientConnection_handleConnection env self = Some (self', w)"
  shows "run_ok lost (extend ls (news self self')) self'"
proof (cases lost)
  case True
  then have l: "cl_lost self" using assms(1) by (simp add: run_ok_def)
  from lost_calls(6) [OF this, of env] assms(4) have s: "cl_lost self'" "cl_log self' = cl_log self @ [ISO_IND_TICK]" by auto
  have u: "phase_of (cl_intState self) = Unconnected" "phase_of (cl_intState self') = Unconnected" using l s(1) by (simp_all add: cl_lost_def)
  show ?thesis by (rule run_ok_extend [OF assms(1) _ s(2)]) (use True s(1) u in simp_all)
next
  case False
  then have "cl_ok self" using assms(1) by (simp add: run_ok_def)
  from handleConnection_steps [OF this assms(2,3)] assms(4) obtain inds where s: "cl_ok self'" "cl_log self' = cl_log self @ inds"
    "phase_step (phase_of (cl_intState self)) inds (phase_of (cl_intState self'))" by auto
  show ?thesis
    by (rule run_ok_extend [OF assms(1) _ s(2) attempt_step [OF s(3)]]) (use False s(1,3) in \<open>auto elim: phase_stepE\<close>)
qed

lemma run_ok_close:
  assumes "run_ok lost ls self" and "IsoClientConnection_close env self = Some self'"
  shows "run_ok (lost \<or> cl_intState self \<in> {INT_STATE_TCP_CONNECTING, INT_STATE_WAIT_FOR_COTP_CONNECT_RESP}) (extend ls (news self self')) self'"
proof -
  consider (lost) "lost" "cl_lost self" | (early) "\<not> lost" "cl_ok self" "cl_intState self \<in> {INT_STATE_TCP_CONNECTING, INT_STATE_WAIT_FOR_COTP_CONNECT_RESP}"
    | (other) "\<not> lost" "cl_ok self" "cl_intState self \<notin> {INT_STATE_TCP_CONNECTING, INT_STATE_WAIT_FOR_COTP_CONNECT_RESP}"
    using assms(1) by (auto simp: run_ok_def split: if_splits)
  then show ?thesis
  proof cases
    case lost
    then have "self' = self" using lost_calls(5) [OF lost(2)] assms(2) by simp
    then show ?thesis by (intro run_ok_extend [OF assms(1), where inds = "[]"]) (use lost in simp_all)
  next
    case early
    from client_close_lost [OF early(2,3), of env] assms(2) have s: "cl_lost self'" "cl_intState self' = INT_STATE_IDLE"
      "cl_log self' = cl_log self @ [ISO_IND_CLOSED, ISO_IND_TICK]" by auto
    have u: "phase_of (cl_intState self) \<noteq> Unconnected" using early(3) by auto
    show ?thesis by (rule run_ok_extend [OF assms(1) _ s(3)]) (use early s(1,2) u attempt_closed [OF _ u] in auto)
  next
    case other
    have m: "transmitBufferMutex self = 1" using other(2,3) by (simp add: cl_ok_def cl_inv_def)
    from client_close_ok [OF other(2) m, of env] assms(2) obtain inds where s: "cl_ok self'" "cl_log self' = cl_log self @ inds"
      "if cl_intState self \<in> {INT_STATE_IDLE, INT_STATE_ERROR, INT_STATE_CLOSE_ON_ERROR} then inds = [] \<and> cl_intState self' = cl_intState self
       else inds = [ISO_IND_CLOSED, ISO_IND_TICK] \<and> cl_intState self' = INT_STATE_IDLE" by auto
    show ?thesis
      by (rule run_ok_extend [OF assms(1) _ s(2)])
         (use other s attempt_closed [of "phase_of (cl_intState self)"] in \<open>cases "cl_intState self"; auto\<close>)+
  qed
qed

lemma run_ok_connect:
  assumes "run_ok lost ls self" and "phase_of (cl_intState self) = Unconnected" and "length dat \<le> 65000"
    and "initiate_fits (self\<lparr>transmitSize := length dat\<rparr>)" and "client_connect now sock bound conn ct rt dat self = Some (self', ok)"
  shows "run_ok (lost \<or> sock = None) (if ok then ls @ [[]] else ls) self'"
proof -
  have "\<not> lost" using assms(1,5) lost_calls(1) [of self] by (auto simp: run_ok_def)
  then have ok: "cl_ok self" using assms(1) by (simp add: run_ok_def)
  show ?thesis
  proof (cases "sock = None")
    case True
    then show ?thesis using client_connect_lost [OF ok assms(2,3), of now bound conn ct rt] assms(1,5) by (auto simp: run_ok_def)
  next
    case False
    from client_connect_ok [OF ok assms(2-4) False, of now bound conn ct rt] assms(5)
    have s: "cl_ok self'" "cl_log self' = cl_log self" "phase_of (cl_intState self') = (if ok then Associating else Unconnected)" by auto
    show ?thesis
      using assms(1,2) s False \<open>\<not> lost\<close> history_start [of ls] by (cases ok) (auto simp: run_ok_def)
  qed
qed

lemma client_run_ok: "client_run lost ls self \<Longrightarrow> run_ok lost ls self"
proof (induction rule: client_run.induct)
  case (created sendBuf receiveBuf cotpReadBuf cotpWriteBuf parameters session0 cotp0 acse0 callback param)
  then show ?case using client_created_ok
    by (auto simp: run_ok_def IsoClientConnection_create_def history_ok_def)
next
  case (connecting lost ls self dat now sock bound conn ct rt self' ok)
  then show ?case by (intro run_ok_connect)
next
  case (step lost ls self env self' w)
  then show ?case by (intro run_ok_step)
next
  case (sending lost ls self dat self')
  then have n: "\<not> lost" "cl_ok self" using lost_calls(2) [of self] by (auto simp: run_ok_def split: if_splits)
  have "transmitBufferMutex self = 1" using n(2) sending.hyps(4)
    by (auto simp: cl_ok_def cl_inv_def client_send_def IsoClientConnection_allocateTransmitBuffer_def split: if_splits)
  from client_send_ok [OF n(2) this sending.hyps(2,3)] sending.hyps(4) n(1) show ?case
    by (intro run_ok_same [OF sending.IH]) auto
next
  case (releasing lost ls self self')
  then have n: "\<not> lost" "cl_ok self" by (auto simp: run_ok_def cl_lost_def split: if_splits)
  then have "transmitBufferMutex self = 1" using connected_mutex releasing.hyps(2) by blast
  from client_release_ok [OF n(2) releasing.hyps(2) this] releasing.hyps(3) n(1) show ?case
    by (intro run_ok_same [OF releasing.IH]) auto
next
  case (aborting lost ls self self')
  then have n: "\<not> lost" "cl_ok self" by (auto simp: run_ok_def cl_lost_def split: if_splits)
  then have "transmitBufferMutex self = 1" using connected_mutex aborting.hyps(2) by blast
  from client_abort_ok [OF n(2) aborting.hyps(2) this] aborting.hyps(3) n(1) show ?case
    by (intro run_ok_same [OF aborting.IH]) auto
next
  case (closing lost ls self env self')
  then show ?case by (intro run_ok_close)
qed

subsection \<open>Properties\<close>

text \<open>C2: Every step of the client's state machine returns normally, keeps the invariant of the
  connection (buffers, transmit semaphore, socket, transport connection) and is a step of the
  abstract association protocol: whatever the peer sends, whenever timeouts expire and whatever the
  callback answers, the indications it gets are those of one transition between the phases
  unconnected, associating, associated and closing. In the data phase the message received does not
  fill the receive buffer to its last byte.\<close>

theorem client_refines_phases:
  assumes "cl_ok self" and "env_ok env" and "cl_intState self = INT_STATE_WAIT_FOR_DATA_MSG \<longrightarrow> room_left self"
  shows "\<exists>self' w inds. IsoClientConnection_handleConnection env self = Some (self', w) \<and> cl_ok self' \<and>
    cl_log self' = cl_log self @ inds \<and> phase_step (phase_of (cl_intState self)) inds (phase_of (cl_intState self'))"
  using handleConnection_steps assms by blast

definition client_example :: "nat IsoClientConnection" where
  "client_example = IsoClientConnection_create (cotp_example (socket_example [])) IsoSession_init acse_zero
     (replicate ISO_CLIENT_BUFFER_SIZE 0) (replicate ISO_CLIENT_BUFFER_SIZE 0) (replicate (COTP_MAX_TPDU_SIZE + 4) 0)
     (replicate (COTP_MAX_TPDU_SIZE + 4) 0) params_zero (\<lambda>ind n payload. (Suc n, True)) 0"

definition env_example :: "SocketState \<Rightarrow> ClientEnv" where
  "env_example st = \<lparr>env_time = 10, env_timeAfter = 11, env_connect = st, env_mem = True, env_tsel = tsel_example\<rparr>"

lemma client_example_run: "client_run False [[]] client_example"
  unfolding client_example_def
  by (rule client_run.created)
     (use params_ok_create [of True] in
       \<open>simp_all add: params_zero_def IsoConnectionParameters_create_def auth_ok_def session_ok_def IsoSession_init_def selector_ok_def\<close>)

lemma client_example_fits: "initiate_fits (client_example\<lparr>transmitSize := length [0xa8, 0 :: byte]\<rparr>)"
proof -
  have "length (aarq_header params_zero None 2) \<le> 100" by code_simp
  moreover have "acseAuthParameter params_zero = None" by (simp add: params_zero_def IsoConnectionParameters_create_def)
  ultimately show ?thesis by (simp add: initiate_fits_def client_example_def IsoClientConnection_create_def SEND_BUF_SIZE_def numeral_2_eq_2)
qed

lemma client_example_connects:
  obtains self where "client_connect 0 (Some (socket_example [])) True True 5000 5000 [0xa8, 0] client_example = Some (self, True)"
    "client_run False [[], []] self" "cl_ok self" "cl_intState self = INT_STATE_TCP_CONNECTING" "cl_log self = []"
proof -
  let ?c = "client_connect 0 (Some (socket_example [])) True True 5000 5000 [0xa8, 0] client_example"
  define self where "self = client_example\<lparr>transmitBufferMutex := 0, transmitSize := 2, cl_sendBuffer := patch (cl_sendBuffer client_example) 0 [0xa8, 0],
    cl_socket := Some (socket_example []), cl_state := STATE_CONNECTING, cl_intState := INT_STATE_TCP_CONNECTING, readTimeoutInMs := 5000,
    nextReadTimeout := 5000\<rparr>"
  have c: "?c = Some (self, True)"
    by (simp add: self_def client_connect_def IsoClientConnection_allocateTransmitBuffer_def IsoClientConnection_associateAsync_def
        client_example_def IsoClientConnection_create_def Let_def)
  have r: "client_run False [[], []] self"
    using client_run.connecting [OF client_example_run _ _ client_example_fits c]
    by (simp add: client_example_def IsoClientConnection_create_def)
  show thesis
    by (rule that [OF c r]) (use client_run_ok [OF r] in \<open>simp_all add: run_ok_def self_def client_example_def IsoClientConnection_create_def\<close>)
qed

theorem client_refines_phases_witness:
  "\<exists>self self' w inds. client_connect 0 (Some (socket_example [])) True True 5000 5000 [0xa8, 0] client_example = Some (self, True) \<and>
     IsoClientConnection_handleConnection (env_example SOCKET_STATE_FAILED) self = Some (self', w) \<and> cl_ok self' \<and>
     phase_step Associating inds (phase_of (cl_intState self'))"
proof -
  obtain self where s: "client_connect 0 (Some (socket_example [])) True True 5000 5000 [0xa8, 0] client_example = Some (self, True)"
    "cl_ok self" "cl_intState self = INT_STATE_TCP_CONNECTING" by (rule client_example_connects)
  have "env_ok (env_example SOCKET_STATE_FAILED)" by (simp add: env_ok_def env_example_def tsel_example_def)
  from client_refines_phases [OF s(2) this] s show ?thesis by auto
qed

text \<open>C3: In every run of the client, with any number of association attempts, steps, timeouts,
  transmissions, releases, aborts and closings at any time, each association attempt is given at
  most one outcome: the indications of an attempt, ticks left out, are none while it is being set
  up, then a failure, or a success followed by data, and finally exactly one closing; an attempt
  that is over has been closed, and one that is closed during its set-up gets the closing only. The
  invariant holds throughout, unless the transmit buffer was lost in an attempt without a socket or
  in a closing during the connection set-up; then the connection is unconnected for ever. Attempts
  are started while there is no connection, with an initiate request that leaves room for its
  headers, and messages received in the data phase do not fill the receive buffer to its last byte.\<close>

theorem client_indications:
  assumes "client_run lost ls self"
  shows "(if lost then cl_lost self else cl_ok self) \<and> concat ls = cl_log self \<and>
    (\<exists>pre attempts. ls = pre # attempts \<and> visible pre = [] \<and> (\<forall>l \<in> set attempts. outcomes l \<le> 1) \<and>
       (if attempts = [] then phase_of (cl_intState self) = Unconnected
        else attempt_ok (phase_of (cl_intState self)) (last attempts) \<and> (\<forall>l \<in> set (butlast attempts). attempt_ok Unconnected l)))"
proof -
  have r: "run_ok lost ls self" using client_run_ok [OF assms] .
  then obtain pre attempts where h: "ls = pre # attempts" "visible pre = []"
    "if attempts = [] then phase_of (cl_intState self) = Unconnected
     else attempt_ok (phase_of (cl_intState self)) (last attempts) \<and> (\<forall>l \<in> set (butlast attempts). attempt_ok Unconnected l)"
    by (auto simp: run_ok_def history_ok_def)
  then have "\<forall>l \<in> set attempts. \<exists>q. attempt_ok q l" by (cases attempts rule: rev_cases) (auto simp del: attempt_ok.simps)
  then have "\<forall>l \<in> set attempts. outcomes l \<le> 1" using attempt_counts(1) by blast
  with r h show ?thesis unfolding run_ok_def by blast
qed

theorem client_indications_witness:
  "\<exists>self self'. client_connect 0 (Some (socket_example [])) True True 5000 5000 [0xa8, 0] client_example = Some (self, True) \<and>
     IsoClientConnection_close (env_example SOCKET_STATE_CONNECTING) self = Some self' \<and> cl_lost self' \<and>
     cl_log self' = [ISO_IND_CLOSED, ISO_IND_TICK]"
proof -
  obtain self where s: "client_connect 0 (Some (socket_example [])) True True 5000 5000 [0xa8, 0] client_example = Some (self, True)"
    "client_run False [[], []] self" "cl_ok self" "cl_intState self = INT_STATE_TCP_CONNECTING" "cl_log self = []" by (rule client_example_connects)
  obtain self' where c: "IsoClientConnection_close (env_example SOCKET_STATE_CONNECTING) self = Some self'"
    "cl_log self' = cl_log self @ [ISO_IND_CLOSED, ISO_IND_TICK]" using client_close_lost [OF s(3)] s(4) by blast
  from client_run.closing [OF s(2) c(1)] have "client_run True [[], [ISO_IND_CLOSED, ISO_IND_TICK]] self'"
    using s(4,5) c(2) by (simp add: extend_def news_def)
  from client_indications [OF this] s(1) c(1) show ?thesis by auto
qed

text \<open>C26: Two paths lose the transmit buffer. A connection that is closed while its TCP or COTP
  connection is being set up returns to the idle state without giving the buffer back, and so does
  an association attempt for which no socket could be created: the next call that allocates the
  buffer waits for ever.\<close>

theorem client_transmit_buffer_lost:
  "(cl_ok self \<and> cl_intState self \<in> {INT_STATE_TCP_CONNECTING, INT_STATE_WAIT_FOR_COTP_CONNECT_RESP} \<longrightarrow>
      (\<exists>self'. IsoClientConnection_close env self = Some self' \<and> cl_intState self' = INT_STATE_IDLE \<and>
         IsoClientConnection_allocateTransmitBuffer self' = None)) \<and>
   (cl_ok self \<and> phase_of (cl_intState self) = Unconnected \<longrightarrow>
      (\<exists>self'. client_connect now None bound conn ct rt dat self = Some (self', False) \<and> cl_intState self' = cl_intState self \<and>
         IsoClientConnection_allocateTransmitBuffer self' = None))"
  by (cases "cl_intState self")
     (auto simp: IsoClientConnection_close_def IsoClientConnection_handleConnection_def client_case_def handle_closing_def indicate_eq
        releaseSocket_def cl_ok_def cl_inv_def IsoClientConnection_allocateTransmitBuffer_def client_connect_def
        IsoClientConnection_associateAsync_def)

theorem client_transmit_buffer_lost_witness:
  "(\<exists>self self'. client_connect 0 (Some (socket_example [])) True True 5000 5000 [0xa8, 0] client_example = Some (self, True) \<and>
      IsoClientConnection_close (env_example SOCKET_STATE_CONNECTING) self = Some self' \<and>
      IsoClientConnection_allocateTransmitBuffer self' = None) \<and>
   (\<exists>again. client_connect 0 None True True 5000 5000 [0xa8, 0] client_example = Some (again, False) \<and>
      IsoClientConnection_allocateTransmitBuffer again = None)"
proof -
  obtain self where s: "client_connect 0 (Some (socket_example [])) True True 5000 5000 [0xa8, 0] client_example = Some (self, True)"
    "cl_ok self" "cl_intState self = INT_STATE_TCP_CONNECTING" by (rule client_example_connects)
  have i: "cl_ok client_example" "phase_of (cl_intState client_example) = Unconnected"
    using client_run_ok [OF client_example_run] by (simp_all add: run_ok_def client_example_def IsoClientConnection_create_def)
  show ?thesis
    using client_transmit_buffer_lost [of self "env_example SOCKET_STATE_CONNECTING"] s
      client_transmit_buffer_lost [of client_example _ 0 True True 5000 5000 "[0xa8, 0]"] i by auto
qed

text \<open>A transport connection that is set up again on a read buffer that still holds the start of a
  packet rejects whatever the peer sends first.\<close>

lemma reinit_stale:
  assumes "4 \<le> bb_size r" and "4 < bb_maxSize r"
  shows "\<exists>c. CotpConnection_readToTpktBuffer (CotpConnection_init tsel self sock p r w e n) = Some (c, TPKT_ERROR)"
  using assms by (simp add: CotpConnection_init_def CotpConnection_readToTpktBuffer_def Let_def tpkt_exit_def read_tpkt_body_def)

end
