(* ===== verification/Mms_Value.thy ===== *)
theory Mms_Value
  imports Ber_Integer
begin

section \<open>MMS values\<close>

text \<open>
  Model of \<open>src/mms/iso_mms/common/mms_value.c\<close>. The C struct is a type tag and a union; here the tag
  is the constructor. Using an operation on a value of another type reads the wrong member of the
  union, which is \<open>None\<close>, unless the code checks the tag. The components of arrays and structures are
  pointers that may be \<open>NULL\<close>, so they are options.

  A string buffer is given by the characters before its terminating zero; it has room for \<open>size + 1\<close>
  bytes. The four bytes of a floating point buffer behind a 32 bit float are never read and are zero
  here. The flag \<open>deleteValue\<close> and the functions that release memory or place a copy in a given
  block are left out, as are the conversions between \<open>float\<close> and \<open>double\<close> and the printing functions.
  The parameter \<open>mem\<close> says whether allocations succeed; a constructor that returns \<open>NULL\<close> is \<open>Fail\<close>.
\<close>

subsection \<open>The type\<close>

datatype MmsValue =
  MMS_ARRAY "MmsValue option list"
| MMS_STRUCTURE "MmsValue option list"
| MMS_BOOLEAN bool
| MMS_BIT_STRING nat "byte list"
| MMS_INTEGER Asn1PrimitiveValue
| MMS_UNSIGNED Asn1PrimitiveValue
| MMS_FLOAT byte byte "byte list"
| MMS_OCTET_STRING nat int "byte list"
| MMS_VISIBLE_STRING "byte list option" int
| MMS_STRING "byte list option" int
| MMS_BINARY_TIME nat "byte list"
| MMS_UTC_TIME "byte list"
| MMS_DATA_ACCESS_ERROR "32 word"

text \<open>Assignments to \<open>uint16_t\<close> and \<open>int16_t\<close> members.\<close>

definition uint16 :: "int \<Rightarrow> nat" where
  "uint16 n = nat (n mod 65536)"

definition int16 :: "int \<Rightarrow> int" where
  "int16 n = (n + 32768) mod 65536 - 32768"

subsection \<open>Bit strings\<close>

definition bitStringByteSize :: "nat \<Rightarrow> nat" where
  "bitStringByteSize bitSize = bitSize div 8 + (if bitSize mod 8 > 0 then 1 else 0)"

definition MmsValue_newBitString :: "bool \<Rightarrow> int \<Rightarrow> MmsValue ret" where
  "MmsValue_newBitString mem bitSize =
     (if mem then Ret (MMS_BIT_STRING (nat \<bar>bitSize\<bar>) (replicate (bitStringByteSize (nat \<bar>bitSize\<bar>)) 0)) else Fail)"

definition getBitStringByteSize :: "nat \<Rightarrow> nat" where
  "getBitStringByteSize bitSize = (if bitSize mod 8 \<noteq> 0 then bitSize div 8 + 1 else bitSize div 8)"

fun fill :: "byte \<Rightarrow> nat \<Rightarrow> nat \<Rightarrow> byte list \<Rightarrow> byte list option" where
  "fill v i 0 buf = Some buf"
| "fill v i (Suc n) buf = do { buf \<leftarrow> wr buf i v; fill v (Suc i) n buf }"

definition MmsValue_deleteAllBitStringBits :: "MmsValue \<Rightarrow> MmsValue option" where
  "MmsValue_deleteAllBitStringBits self =
     (case self of
        MMS_BIT_STRING bitSize buf \<Rightarrow> do { buf \<leftarrow> fill 0 0 (getBitStringByteSize bitSize) buf; Some (MMS_BIT_STRING bitSize buf) }
      | _ \<Rightarrow> None)"

text \<open>The byte before the buffer is accessed for a bit string without bits.\<close>

definition clear_padding :: "nat \<Rightarrow> nat \<Rightarrow> byte list \<Rightarrow> byte list option" where
  "clear_padding bitSize byteSize buf =
     (if byteSize = 0 then None
      else do {
        b \<leftarrow> rd buf (byteSize - 1);
        wr buf (byteSize - 1) (b AND NOT (padding_mask 0 (byteSize * 8 - bitSize) 0)) })"

definition MmsValue_setAllBitStringBits :: "MmsValue \<Rightarrow> MmsValue option" where
  "MmsValue_setAllBitStringBits self =
     (case self of
        MMS_BIT_STRING bitSize buf \<Rightarrow> do {
          let byteSize = getBitStringByteSize bitSize;
          buf \<leftarrow> fill 0xff 0 byteSize buf;
          buf \<leftarrow> clear_padding bitSize byteSize buf;
          Some (MMS_BIT_STRING bitSize buf) }
      | _ \<Rightarrow> None)"

definition MmsValue_getBitStringSize :: "MmsValue \<Rightarrow> nat option" where
  "MmsValue_getBitStringSize self = (case self of MMS_BIT_STRING bitSize buf \<Rightarrow> Some bitSize | _ \<Rightarrow> None)"

definition MmsValue_getBitStringByteSize :: "MmsValue \<Rightarrow> nat option" where
  "MmsValue_getBitStringByteSize self = (case self of MMS_BIT_STRING bitSize buf \<Rightarrow> Some (bitStringByteSize bitSize) | _ \<Rightarrow> None)"

fun count_ones :: "nat \<Rightarrow> byte \<Rightarrow> nat" where
  "count_ones 0 currentByte = 0"
| "count_ones (Suc k) currentByte =
     (if currentByte = 0 then 0
      else (if currentByte AND 1 = 1 then 1 else 0) + count_ones k (drop_bit 1 currentByte))"

fun setBits_loop :: "nat \<Rightarrow> nat \<Rightarrow> nat \<Rightarrow> byte list \<Rightarrow> nat \<Rightarrow> (byte list \<times> nat) option" where
  "setBits_loop bitSize i 0 buf setBitsCount = Some (buf, setBitsCount)"
| "setBits_loop bitSize i (Suc n) buf setBitsCount = do {
     buf \<leftarrow> (if n = 0 then clear_padding bitSize (Suc i) buf else Some buf);
     currentByte \<leftarrow> rd buf i;
     setBits_loop bitSize (Suc i) n buf (setBitsCount + count_ones 8 currentByte) }"

text \<open>Clears the padding bits of the value it counts.\<close>

definition MmsValue_getNumberOfSetBits :: "MmsValue \<Rightarrow> (MmsValue \<times> nat) option" where
  "MmsValue_getNumberOfSetBits self =
     (case self of
        MMS_BIT_STRING bitSize buf \<Rightarrow> do {
          (buf, setBitsCount) \<leftarrow> setBits_loop bitSize 0 (getBitStringByteSize bitSize) buf 0;
          Some (MMS_BIT_STRING bitSize buf, setBitsCount) }
      | _ \<Rightarrow> None)"

definition MmsValue_setBitStringBit :: "MmsValue \<Rightarrow> nat \<Rightarrow> bool \<Rightarrow> MmsValue option" where
  "MmsValue_setBitStringBit self bitPos val =
     (case self of
        MMS_BIT_STRING bitSize buf \<Rightarrow>
          if bitPos < bitSize then do {
            let bytePos = bitPos div 8;
            let bitMask = push_bit (7 - bitPos mod 8) 1;
            b \<leftarrow> rd buf bytePos;
            buf \<leftarrow> wr buf bytePos (if val then b OR bitMask else b AND NOT bitMask);
            Some (MMS_BIT_STRING bitSize buf) }
          else Some self
      | _ \<Rightarrow> None)"

definition MmsValue_getBitStringBit :: "MmsValue \<Rightarrow> nat \<Rightarrow> bool option" where
  "MmsValue_getBitStringBit self bitPos =
     (case self of
        MMS_BIT_STRING bitSize buf \<Rightarrow>
          if bitPos < bitSize then do {
            b \<leftarrow> rd buf (bitPos div 8);
            Some (b AND push_bit (7 - bitPos mod 8) 1 \<noteq> 0) }
          else Some False
      | _ \<Rightarrow> None)"

text \<open>The shift \<open>1 << i\<close> is undefined from 32 on. The shift by 31 moves the bit of an \<open>int\<close> into its sign,
  which the C standard leaves undefined too; the model takes the value that the compilers of the
  target give it, the bit pattern that the addition to the \<open>uint32_t\<close> then uses.\<close>

definition shifted_one :: "nat \<Rightarrow> 32 word option" where
  "shifted_one i = (if i < 32 then Some (push_bit i 1) else None)"

fun bits_value :: "MmsValue \<Rightarrow> (nat \<times> nat) list \<Rightarrow> 32 word \<Rightarrow> 32 word option" where
  "bits_value self [] val = Some val"
| "bits_value self ((bitPos, i) # rest) val = do {
     b \<leftarrow> MmsValue_getBitStringBit self bitPos;
     if b then do { s \<leftarrow> shifted_one i; bits_value self rest (val + s) }
     else bits_value self rest val }"

definition MmsValue_getBitStringAsInteger :: "MmsValue \<Rightarrow> 32 word option" where
  "MmsValue_getBitStringAsInteger self = do {
     bitSize \<leftarrow> MmsValue_getBitStringSize self;
     bits_value self (map (\<lambda>bitPos. (bitPos, bitPos)) [0..<bitSize]) 0 }"

definition MmsValue_getBitStringAsIntegerBigEndian :: "MmsValue \<Rightarrow> 32 word option" where
  "MmsValue_getBitStringAsIntegerBigEndian self = do {
     bitSize \<leftarrow> MmsValue_getBitStringSize self;
     bits_value self (map (\<lambda>i. (bitSize - 1 - i, i)) [0..<bitSize]) 0 }"

fun store_bits :: "nat list \<Rightarrow> MmsValue \<Rightarrow> 32 word \<Rightarrow> MmsValue option" where
  "store_bits [] self intValue = Some self"
| "store_bits (bitPos # rest) self intValue = do {
     self \<leftarrow> MmsValue_setBitStringBit self bitPos (intValue AND 1 = 1);
     store_bits rest self (drop_bit 1 intValue) }"

definition MmsValue_setBitStringFromInteger :: "MmsValue \<Rightarrow> 32 word \<Rightarrow> MmsValue option" where
  "MmsValue_setBitStringFromInteger self intValue = do {
     bitSize \<leftarrow> MmsValue_getBitStringSize self;
     store_bits [0..<bitSize] self intValue }"

definition MmsValue_setBitStringFromIntegerBigEndian :: "MmsValue \<Rightarrow> 32 word \<Rightarrow> MmsValue option" where
  "MmsValue_setBitStringFromIntegerBigEndian self intValue = do {
     bitSize \<leftarrow> MmsValue_getBitStringSize self;
     store_bits (rev [0..<bitSize]) self intValue }"

subsection \<open>Integers, booleans and floats\<close>

text \<open>A constructor allocates the value and then its integer.\<close>

definition with_integer :: "bool \<Rightarrow> (Asn1PrimitiveValue \<Rightarrow> MmsValue) \<Rightarrow> Asn1PrimitiveValue ret option \<Rightarrow> MmsValue ret option" where
  "with_integer mem C r =
     (if mem then do { r \<leftarrow> r; Some (case r of Fail \<Rightarrow> Fail | Ret i \<Rightarrow> Ret (C i)) } else Some Fail)"

definition MmsValue_newIntegerFromInt8 :: "bool \<Rightarrow> byte \<Rightarrow> MmsValue ret option" where
  "MmsValue_newIntegerFromInt8 mem integer = with_integer mem MMS_INTEGER (BerInteger_createFromInt32 mem mem (scast integer))"

definition MmsValue_newIntegerFromInt16 :: "bool \<Rightarrow> 16 word \<Rightarrow> MmsValue ret option" where
  "MmsValue_newIntegerFromInt16 mem integer = with_integer mem MMS_INTEGER (BerInteger_createFromInt32 mem mem (scast integer))"

definition MmsValue_newIntegerFromInt32 :: "bool \<Rightarrow> 32 word \<Rightarrow> MmsValue ret option" where
  "MmsValue_newIntegerFromInt32 mem integer = with_integer mem MMS_INTEGER (BerInteger_createFromInt32 mem mem integer)"

definition MmsValue_newUnsignedFromUint32 :: "bool \<Rightarrow> 32 word \<Rightarrow> MmsValue ret option" where
  "MmsValue_newUnsignedFromUint32 mem integer = with_integer mem MMS_UNSIGNED (BerInteger_createFromUint32 mem mem integer)"

definition MmsValue_newIntegerFromInt64 :: "bool \<Rightarrow> 64 word \<Rightarrow> MmsValue ret option" where
  "MmsValue_newIntegerFromInt64 mem integer = with_integer mem MMS_INTEGER (BerInteger_createFromInt64 mem mem integer)"

definition MmsValue_newInteger :: "bool \<Rightarrow> int \<Rightarrow> MmsValue ret option" where
  "MmsValue_newInteger mem bits =
     with_integer mem MMS_INTEGER (if bits \<le> 32 then BerInteger_createInt32 mem mem else BerInteger_createInt64 mem mem)"

definition MmsValue_newUnsigned :: "bool \<Rightarrow> int \<Rightarrow> MmsValue ret option" where
  "MmsValue_newUnsigned mem bits =
     with_integer mem MMS_UNSIGNED (if bits \<le> 32 then BerInteger_createInt32 mem mem else BerInteger_createInt64 mem mem)"

text \<open>The setters check the type and the room, and ignore the value otherwise.\<close>

definition set_integer ::
  "nat \<Rightarrow> (Asn1PrimitiveValue \<Rightarrow> (Asn1PrimitiveValue \<times> bool) option) \<Rightarrow> MmsValue \<Rightarrow> MmsValue option" where
  "set_integer room setter self =
     (case self of
        MMS_INTEGER i \<Rightarrow>
          if Asn1PrimitiveValue_getMaxSize i \<ge> room then do { (i, _) \<leftarrow> setter i; Some (MMS_INTEGER i) } else Some self
      | _ \<Rightarrow> Some self)"

definition set_unsigned ::
  "nat \<Rightarrow> (Asn1PrimitiveValue \<Rightarrow> (Asn1PrimitiveValue \<times> bool) option) \<Rightarrow> MmsValue \<Rightarrow> MmsValue option" where
  "set_unsigned room setter self =
     (case self of
        MMS_UNSIGNED i \<Rightarrow>
          if Asn1PrimitiveValue_getMaxSize i \<ge> room then do { (i, _) \<leftarrow> setter i; Some (MMS_UNSIGNED i) } else Some self
      | _ \<Rightarrow> Some self)"

definition MmsValue_setInt8 :: "MmsValue \<Rightarrow> byte \<Rightarrow> MmsValue option" where
  "MmsValue_setInt8 self integer = set_integer 1 (\<lambda>i. BerInteger_setInt32 i (scast integer)) self"

definition MmsValue_setInt16 :: "MmsValue \<Rightarrow> 16 word \<Rightarrow> MmsValue option" where
  "MmsValue_setInt16 self integer = set_integer 2 (\<lambda>i. BerInteger_setInt32 i (scast integer)) self"

definition MmsValue_setInt32 :: "MmsValue \<Rightarrow> 32 word \<Rightarrow> MmsValue option" where
  "MmsValue_setInt32 self integer = set_integer 4 (\<lambda>i. BerInteger_setInt32 i integer) self"

definition MmsValue_setInt64 :: "MmsValue \<Rightarrow> 64 word \<Rightarrow> MmsValue option" where
  "MmsValue_setInt64 self integer = set_integer 8 (\<lambda>i. BerInteger_setInt64 i integer) self"

definition MmsValue_setUint32 :: "MmsValue \<Rightarrow> 32 word \<Rightarrow> MmsValue option" where
  "MmsValue_setUint32 self integer = set_unsigned 4 (\<lambda>i. BerInteger_setUint32 i integer) self"

definition MmsValue_setUint16 :: "MmsValue \<Rightarrow> 16 word \<Rightarrow> MmsValue option" where
  "MmsValue_setUint16 self integer = set_unsigned 2 (\<lambda>i. BerInteger_setUint16 i integer) self"

definition MmsValue_setUint8 :: "MmsValue \<Rightarrow> byte \<Rightarrow> MmsValue option" where
  "MmsValue_setUint8 self integer = set_unsigned 1 (\<lambda>i. BerInteger_setUint8 i integer) self"

definition to_integer :: "(Asn1PrimitiveValue \<Rightarrow> 'a::len word option) \<Rightarrow> MmsValue \<Rightarrow> 'a word option" where
  "to_integer get self = (case self of MMS_INTEGER i \<Rightarrow> get i | MMS_UNSIGNED i \<Rightarrow> get i | _ \<Rightarrow> Some 0)"

definition MmsValue_toInt32 :: "MmsValue \<Rightarrow> 32 word option" where
  "MmsValue_toInt32 = to_integer BerInteger_toInt32"

definition MmsValue_toUint32 :: "MmsValue \<Rightarrow> 32 word option" where
  "MmsValue_toUint32 = to_integer BerInteger_toUint32"

definition MmsValue_toInt64 :: "MmsValue \<Rightarrow> 64 word option" where
  "MmsValue_toInt64 = to_integer BerInteger_toInt64"

definition MmsValue_newBoolean :: "bool \<Rightarrow> bool \<Rightarrow> MmsValue ret" where
  "MmsValue_newBoolean mem val = (if mem then Ret (MMS_BOOLEAN val) else Fail)"

definition MmsValue_setBoolean :: "MmsValue \<Rightarrow> bool \<Rightarrow> MmsValue option" where
  "MmsValue_setBoolean self boolValue = (case self of MMS_BOOLEAN _ \<Rightarrow> Some (MMS_BOOLEAN boolValue) | _ \<Rightarrow> None)"

definition MmsValue_getBoolean :: "MmsValue \<Rightarrow> bool option" where
  "MmsValue_getBoolean self = (case self of MMS_BOOLEAN b \<Rightarrow> Some b | _ \<Rightarrow> None)"

text \<open>A \<open>float\<close> or \<open>double\<close> is the list of its bytes in memory.\<close>

definition MmsValue_newFloat :: "bool \<Rightarrow> byte list \<Rightarrow> MmsValue ret" where
  "MmsValue_newFloat mem val = (if mem then Ret (MMS_FLOAT 8 32 (take 4 val @ replicate 4 0)) else Fail)"

definition MmsValue_newDouble :: "bool \<Rightarrow> byte list \<Rightarrow> MmsValue ret" where
  "MmsValue_newDouble mem val = (if mem then Ret (MMS_FLOAT 11 64 (take 8 val)) else Fail)"

definition MmsValue_newDataAccessError :: "bool \<Rightarrow> 32 word \<Rightarrow> MmsValue ret" where
  "MmsValue_newDataAccessError mem accessError = (if mem then Ret (MMS_DATA_ACCESS_ERROR accessError) else Fail)"

definition MmsValue_getDataAccessError :: "MmsValue \<Rightarrow> 32 word option" where
  "MmsValue_getDataAccessError self = (case self of MMS_DATA_ACCESS_ERROR e \<Rightarrow> Some e | _ \<Rightarrow> None)"

subsection \<open>Times\<close>

definition utc_bytes :: "MmsValue \<Rightarrow> byte list option" where
  "utc_bytes self = (case self of MMS_UTC_TIME t \<Rightarrow> Some t | _ \<Rightarrow> None)"

definition MmsValue_newUtcTime :: "bool \<Rightarrow> 32 word \<Rightarrow> MmsValue ret" where
  "MmsValue_newUtcTime mem timeval = (if mem then Ret (MMS_UTC_TIME (rev (le_bytes 4 timeval) @ [0, 0, 0, 0])) else Fail)"

definition MmsValue_setUtcTime :: "MmsValue \<Rightarrow> 32 word \<Rightarrow> MmsValue option" where
  "MmsValue_setUtcTime self timeval = do {
     t \<leftarrow> utc_bytes self;
     t \<leftarrow> memcpy t 0 (rev (le_bytes 4 timeval)) 0 4;
     Some (MMS_UTC_TIME t) }"

definition setUtcTimeMs :: "MmsValue \<Rightarrow> 64 word \<Rightarrow> byte \<Rightarrow> MmsValue option" where
  "setUtcTimeMs self timeval timeQuality = do {
     t \<leftarrow> utc_bytes self;
     let timeval32 = (ucast (timeval div 1000) :: 32 word);
     t \<leftarrow> memcpy t 0 (rev (le_bytes 4 timeval32)) 0 4;
     let remainder = (ucast (timeval mod 1000) :: 32 word);
     let fractionOfSecond = remainder * 16777 + (remainder * 216) div 1000;
     t \<leftarrow> wr t 4 (ucast (drop_bit 16 fractionOfSecond AND 0xff));
     t \<leftarrow> wr t 5 (ucast (drop_bit 8 fractionOfSecond AND 0xff));
     t \<leftarrow> wr t 6 (ucast (fractionOfSecond AND 0xff));
     t \<leftarrow> wr t 7 timeQuality;
     Some (MMS_UTC_TIME t) }"

definition MmsValue_setUtcTimeMs :: "MmsValue \<Rightarrow> 64 word \<Rightarrow> MmsValue option" where
  "MmsValue_setUtcTimeMs self timeval = setUtcTimeMs self timeval 0x0a"

definition MmsValue_setUtcTimeMsEx :: "MmsValue \<Rightarrow> 64 word \<Rightarrow> byte \<Rightarrow> MmsValue option" where
  "MmsValue_setUtcTimeMsEx self timeval timeQuality = setUtcTimeMs self timeval timeQuality"

definition MmsValue_newUtcTimeByMsTime :: "bool \<Rightarrow> 64 word \<Rightarrow> MmsValue ret option" where
  "MmsValue_newUtcTimeByMsTime mem timeval =
     (if mem then do { self \<leftarrow> MmsValue_setUtcTimeMs (MMS_UTC_TIME (replicate 8 0)) timeval; Some (Ret self) } else Some Fail)"

definition MmsValue_setUtcTimeQuality :: "MmsValue \<Rightarrow> byte \<Rightarrow> MmsValue option" where
  "MmsValue_setUtcTimeQuality self timeQuality = do { t \<leftarrow> utc_bytes self; t \<leftarrow> wr t 7 timeQuality; Some (MMS_UTC_TIME t) }"

definition MmsValue_getUtcTimeQuality :: "MmsValue \<Rightarrow> byte option" where
  "MmsValue_getUtcTimeQuality self = do { t \<leftarrow> utc_bytes self; rd t 7 }"

definition MmsValue_setUtcTimeByBuffer :: "MmsValue \<Rightarrow> byte list option \<Rightarrow> MmsValue option" where
  "MmsValue_setUtcTimeByBuffer self buffer =
     (case buffer of
        None \<Rightarrow> Some self
      | Some buf \<Rightarrow> do { t \<leftarrow> utc_bytes self; t \<leftarrow> memcpy t 0 buf 0 8; Some (MMS_UTC_TIME t) })"

text \<open>The four bytes of the seconds and the three of the fraction, most significant first.\<close>

definition utc_seconds :: "byte list \<Rightarrow> 32 word option" where
  "utc_seconds t = do { bs \<leftarrow> rd_block t 0 4; Some (foldl (\<lambda>v b. v * 256 + ucast b) 0 bs) }"

definition utc_fraction :: "byte list \<Rightarrow> 32 word option" where
  "utc_fraction t = do {
     b4 \<leftarrow> rd t 4; b5 \<leftarrow> rd t 5; b6 \<leftarrow> rd t 6;
     Some (push_bit 16 (ucast b4) + push_bit 8 (ucast b5) + ucast b6) }"

definition MmsValue_getUtcTimeInMs :: "MmsValue \<Rightarrow> 64 word option" where
  "MmsValue_getUtcTimeInMs self = do {
     t \<leftarrow> utc_bytes self;
     timeval32 \<leftarrow> utc_seconds t;
     fractionOfSecond \<leftarrow> utc_fraction t;
     let remainder = fractionOfSecond div 16777;
     Some (ucast timeval32 * 1000 + ucast remainder) }"

definition MmsValue_getUtcTimeInMsWithUs :: "MmsValue \<Rightarrow> (64 word \<times> 32 word) option" where
  "MmsValue_getUtcTimeInMsWithUs self = do {
     t \<leftarrow> utc_bytes self;
     timeval32 \<leftarrow> utc_seconds t;
     f \<leftarrow> utc_fraction t;
     let fractionOfSecond = (ucast f :: 64 word);
     let remainder = fractionOfSecond * 1000000 div 0x1000000;
     Some (ucast timeval32 * 1000 + remainder div 1000, ucast (remainder mod 1000)) }"

definition MmsValue_toUnixTimestamp :: "MmsValue \<Rightarrow> 32 word option" where
  "MmsValue_toUnixTimestamp self = do { t \<leftarrow> utc_bytes self; utc_seconds t }"

definition MmsValue_newBinaryTime :: "bool \<Rightarrow> bool \<Rightarrow> MmsValue ret" where
  "MmsValue_newBinaryTime mem timeOfDay =
     (if mem then Ret (MMS_BINARY_TIME (if timeOfDay then 4 else 6) (replicate 6 0)) else Fail)"

definition MmsValue_setBinaryTime :: "MmsValue \<Rightarrow> 64 word \<Rightarrow> MmsValue option" where
  "MmsValue_setBinaryTime self timestamp =
     (case self of
        MMS_BINARY_TIME n buf \<Rightarrow> do {
          let mmsTime = (if timestamp > 441763200000 then timestamp - 441763200000 else 0);
          buf \<leftarrow> (if n = 6 then memcpy buf 4 (rev (le_bytes 2 (ucast (mmsTime div 86400000) :: 16 word))) 0 2 else Some buf);
          buf \<leftarrow> memcpy buf 0 (rev (le_bytes 4 (ucast (mmsTime mod 86400000) :: 32 word))) 0 4;
          Some (MMS_BINARY_TIME n buf) }
      | _ \<Rightarrow> None)"

definition MmsValue_getBinaryTimeAsUtcMs :: "MmsValue \<Rightarrow> 64 word option" where
  "MmsValue_getBinaryTimeAsUtcMs self =
     (case self of
        MMS_BINARY_TIME n buf \<Rightarrow> do {
          timestamp \<leftarrow> (if n = 6 then do {
              b4 \<leftarrow> rd buf 4; b5 \<leftarrow> rd buf 5;
              let daysDiff = (ucast b4 * 256 + ucast b5 :: 16 word);
              Some (ucast daysDiff * 86400000 + 441763200000) }
            else Some 0);
          msSinceMidnight \<leftarrow> utc_seconds buf;
          Some (timestamp + ucast msSinceMidnight) }
      | _ \<Rightarrow> None)"

subsection \<open>Strings\<close>

definition StringUtils_copyStringMax :: "int \<Rightarrow> byte list \<Rightarrow> byte list ret" where
  "StringUtils_copyStringMax maxBufferSize str1 =
     (if maxBufferSize < 1 then Fail else Ret (take (nat (maxBufferSize - 1)) str1))"

text \<open>\<open>newStringSize\<close> is the length before it is stored in the 16 bit member. A member that became
  negative leaves the new buffer without contents; the value is then undefined.\<close>

definition setVisibleStringValue ::
  "bool \<Rightarrow> byte list option \<times> int \<Rightarrow> byte list option \<Rightarrow> (byte list option \<times> int) option" where
  "setVisibleStringValue mem self val =
     (case self of
        (None, n) \<Rightarrow> Some self
      | (Some buf, n) \<Rightarrow>
          (case val of
             None \<Rightarrow> Some (Some [], n)
           | Some str \<Rightarrow>
               let newStringSize = int (length str)
               in if newStringSize > n \<and> \<not> mem then Some (None, n)
                  else
                    let n = (if newStringSize > n then int16 newStringSize else n)
                    in case StringUtils_copyStringMax (n + 1) str of
                         Fail \<Rightarrow> None
                       | Ret cs \<Rightarrow> Some (Some cs, n)))"

definition MmsValue_newString ::
  "bool \<Rightarrow> byte list option \<Rightarrow> (byte list option \<Rightarrow> int \<Rightarrow> MmsValue) \<Rightarrow> MmsValue ret option" where
  "MmsValue_newString mem str C =
     (if \<not> mem then Some Fail
      else case str of
        None \<Rightarrow> Some (Ret (C None 0))
      | Some cs \<Rightarrow> do {
          (b, n) \<leftarrow> setVisibleStringValue mem (Some [], int16 (int (length cs))) (Some cs);
          Some (Ret (C b n)) })"

definition MmsValue_newVisibleString :: "bool \<Rightarrow> byte list option \<Rightarrow> MmsValue ret option" where
  "MmsValue_newVisibleString mem str = MmsValue_newString mem str MMS_VISIBLE_STRING"

definition MmsValue_newMmsString :: "bool \<Rightarrow> byte list option \<Rightarrow> MmsValue ret option" where
  "MmsValue_newMmsString mem str = MmsValue_newString mem str MMS_STRING"

definition MmsValue_newVisibleStringWithSize :: "bool \<Rightarrow> int \<Rightarrow> MmsValue ret" where
  "MmsValue_newVisibleStringWithSize mem n = (if mem then Ret (MMS_VISIBLE_STRING (Some []) (int16 n)) else Fail)"

definition MmsValue_newMmsStringWithSize :: "bool \<Rightarrow> int \<Rightarrow> MmsValue ret" where
  "MmsValue_newMmsStringWithSize mem n = (if mem then Ret (MMS_STRING (Some []) (int16 n)) else Fail)"

definition MmsValue_setVisibleString :: "bool \<Rightarrow> MmsValue \<Rightarrow> byte list option \<Rightarrow> MmsValue option" where
  "MmsValue_setVisibleString mem self str =
     (case self of
        MMS_VISIBLE_STRING b n \<Rightarrow> do { (b, n) \<leftarrow> setVisibleStringValue mem (b, n) str; Some (MMS_VISIBLE_STRING b n) }
      | _ \<Rightarrow> Some self)"

definition MmsValue_setMmsString :: "bool \<Rightarrow> MmsValue \<Rightarrow> byte list option \<Rightarrow> MmsValue option" where
  "MmsValue_setMmsString mem self str =
     (case self of
        MMS_STRING b n \<Rightarrow> do { (b, n) \<leftarrow> setVisibleStringValue mem (b, n) str; Some (MMS_STRING b n) }
      | _ \<Rightarrow> Some self)"

text \<open>The bytes of a message become a string: the characters up to the first zero.\<close>

definition string_from_bytes :: "byte list \<Rightarrow> nat \<Rightarrow> nat \<Rightarrow> byte list option" where
  "string_from_bytes buf pos n = do { bs \<leftarrow> rd_block buf pos n; Some (takeWhile (\<lambda>b. b \<noteq> 0) bs) }"

definition MmsValue_newVisibleStringFromByteArray :: "bool \<Rightarrow> byte list \<Rightarrow> nat \<Rightarrow> nat \<Rightarrow> MmsValue ret option" where
  "MmsValue_newVisibleStringFromByteArray mem buf pos n =
     (if mem then do { str \<leftarrow> string_from_bytes buf pos n; Some (Ret (MMS_VISIBLE_STRING (Some str) (int16 (int n)))) } else Some Fail)"

definition MmsValue_newMmsStringFromByteArray :: "bool \<Rightarrow> byte list \<Rightarrow> nat \<Rightarrow> nat \<Rightarrow> MmsValue ret option" where
  "MmsValue_newMmsStringFromByteArray mem buf pos n =
     (if mem then do { str \<leftarrow> string_from_bytes buf pos n; Some (Ret (MMS_STRING (Some str) (int16 (int n)))) } else Some Fail)"

definition MmsValue_toString :: "MmsValue \<Rightarrow> byte list option" where
  "MmsValue_toString self = (case self of MMS_VISIBLE_STRING b n \<Rightarrow> b | MMS_STRING b n \<Rightarrow> b | _ \<Rightarrow> None)"

definition MmsValue_getStringSize :: "MmsValue \<Rightarrow> int" where
  "MmsValue_getStringSize self = (case self of MMS_VISIBLE_STRING b n \<Rightarrow> n | MMS_STRING b n \<Rightarrow> n | _ \<Rightarrow> 0)"

subsection \<open>Octet strings\<close>

definition MmsValue_newOctetString :: "bool \<Rightarrow> int \<Rightarrow> int \<Rightarrow> MmsValue ret" where
  "MmsValue_newOctetString mem n maxS = (if mem then Ret (MMS_OCTET_STRING (uint16 n) maxS (replicate (nat \<bar>maxS\<bar>) 0)) else Fail)"

definition MmsValue_setOctetString :: "MmsValue \<Rightarrow> byte list \<Rightarrow> nat \<Rightarrow> MmsValue option" where
  "MmsValue_setOctetString self src n =
     (case self of
        MMS_OCTET_STRING k maxS buf \<Rightarrow>
          if int n \<le> \<bar>maxS\<bar> then do { buf \<leftarrow> memcpy buf 0 src 0 n; Some (MMS_OCTET_STRING (uint16 (int n)) maxS buf) } else Some self
      | _ \<Rightarrow> None)"

definition MmsValue_setOctetStringOctet :: "MmsValue \<Rightarrow> int \<Rightarrow> byte \<Rightarrow> MmsValue option" where
  "MmsValue_setOctetStringOctet self octetPos val =
     (case self of
        MMS_OCTET_STRING k maxS buf \<Rightarrow>
          if octetPos \<ge> 0 \<and> octetPos < \<bar>maxS\<bar> then do {
            buf \<leftarrow> wr buf (nat octetPos) val;
            Some (MMS_OCTET_STRING (if octetPos \<ge> int k then uint16 (octetPos + 1) else k) maxS buf) }
          else Some self
      | _ \<Rightarrow> None)"

definition MmsValue_getOctetStringSize :: "MmsValue \<Rightarrow> nat option" where
  "MmsValue_getOctetStringSize self = (case self of MMS_OCTET_STRING k maxS buf \<Rightarrow> Some k | _ \<Rightarrow> None)"

definition MmsValue_getOctetStringMaxSize :: "MmsValue \<Rightarrow> nat option" where
  "MmsValue_getOctetStringMaxSize self = (case self of MMS_OCTET_STRING k maxS buf \<Rightarrow> Some (uint16 \<bar>maxS\<bar>) | _ \<Rightarrow> None)"

definition MmsValue_getOctetStringOctet :: "MmsValue \<Rightarrow> int \<Rightarrow> byte option" where
  "MmsValue_getOctetStringOctet self octetPos =
     (case self of
        MMS_OCTET_STRING k maxS buf \<Rightarrow> if octetPos \<ge> 0 \<and> octetPos < int k then rd buf (nat octetPos) else Some 0
      | _ \<Rightarrow> None)"

subsection \<open>Arrays and structures\<close>

definition MmsValue_createEmptyArray :: "bool \<Rightarrow> nat \<Rightarrow> MmsValue ret" where
  "MmsValue_createEmptyArray mem n = (if mem then Ret (MMS_ARRAY (replicate n None)) else Fail)"

definition MmsValue_createEmptyStructure :: "bool \<Rightarrow> nat \<Rightarrow> MmsValue ret" where
  "MmsValue_createEmptyStructure mem n = (if mem then Ret (MMS_STRUCTURE (replicate n None)) else Fail)"

definition MmsValue_setElement :: "MmsValue \<Rightarrow> int \<Rightarrow> MmsValue option \<Rightarrow> MmsValue" where
  "MmsValue_setElement complexValue index elementValue =
     (case complexValue of
        MMS_ARRAY cs \<Rightarrow> if index < 0 \<or> index \<ge> int (length cs) then complexValue else MMS_ARRAY (cs[nat index := elementValue])
      | MMS_STRUCTURE cs \<Rightarrow> if index < 0 \<or> index \<ge> int (length cs) then complexValue else MMS_STRUCTURE (cs[nat index := elementValue])
      | _ \<Rightarrow> complexValue)"

definition MmsValue_getElement :: "MmsValue \<Rightarrow> int \<Rightarrow> MmsValue option" where
  "MmsValue_getElement complexValue index =
     (case complexValue of
        MMS_ARRAY cs \<Rightarrow> if index < 0 \<or> index \<ge> int (length cs) then None else cs ! nat index
      | MMS_STRUCTURE cs \<Rightarrow> if index < 0 \<or> index \<ge> int (length cs) then None else cs ! nat index
      | _ \<Rightarrow> None)"

definition MmsValue_getArraySize :: "MmsValue \<Rightarrow> nat option" where
  "MmsValue_getArraySize self = (case self of MMS_ARRAY cs \<Rightarrow> Some (length cs) | MMS_STRUCTURE cs \<Rightarrow> Some (length cs) | _ \<Rightarrow> None)"

subsection \<open>Comparison, update and copy\<close>

definition memcmp_eq :: "byte list \<Rightarrow> byte list \<Rightarrow> nat \<Rightarrow> bool option" where
  "memcmp_eq a b n = do { x \<leftarrow> rd_block a 0 n; y \<leftarrow> rd_block b 0 n; Some (x = y) }"

datatype MmsType =
  TYPE_ARRAY | TYPE_STRUCTURE | TYPE_BOOLEAN | TYPE_BIT_STRING | TYPE_INTEGER | TYPE_UNSIGNED | TYPE_FLOAT
| TYPE_OCTET_STRING | TYPE_VISIBLE_STRING | TYPE_STRING | TYPE_BINARY_TIME | TYPE_UTC_TIME | TYPE_DATA_ACCESS_ERROR

fun MmsValue_getType :: "MmsValue \<Rightarrow> MmsType" where
  "MmsValue_getType (MMS_ARRAY _) = TYPE_ARRAY"
| "MmsValue_getType (MMS_STRUCTURE _) = TYPE_STRUCTURE"
| "MmsValue_getType (MMS_BOOLEAN _) = TYPE_BOOLEAN"
| "MmsValue_getType (MMS_BIT_STRING _ _) = TYPE_BIT_STRING"
| "MmsValue_getType (MMS_INTEGER _) = TYPE_INTEGER"
| "MmsValue_getType (MMS_UNSIGNED _) = TYPE_UNSIGNED"
| "MmsValue_getType (MMS_FLOAT _ _ _) = TYPE_FLOAT"
| "MmsValue_getType (MMS_OCTET_STRING _ _ _) = TYPE_OCTET_STRING"
| "MmsValue_getType (MMS_VISIBLE_STRING _ _) = TYPE_VISIBLE_STRING"
| "MmsValue_getType (MMS_STRING _ _) = TYPE_STRING"
| "MmsValue_getType (MMS_BINARY_TIME _ _) = TYPE_BINARY_TIME"
| "MmsValue_getType (MMS_UTC_TIME _) = TYPE_UTC_TIME"
| "MmsValue_getType (MMS_DATA_ACCESS_ERROR _) = TYPE_DATA_ACCESS_ERROR"

text \<open>The cases of \<open>MmsValue_equals\<close> that do not recurse; values of different types are not equal.\<close>

definition equals_simple :: "MmsValue \<Rightarrow> MmsValue \<Rightarrow> bool option" where
  "equals_simple self other =
     (case self of
        MMS_BOOLEAN a \<Rightarrow> (case other of MMS_BOOLEAN b \<Rightarrow> Some (a = b) | _ \<Rightarrow> Some False)
      | MMS_FLOAT e1 f1 b1 \<Rightarrow> (case other of MMS_FLOAT e2 f2 b2 \<Rightarrow> memcmp_eq b1 b2 (unat f1 div 8) | _ \<Rightarrow> Some False)
      | MMS_INTEGER i \<Rightarrow> (case other of MMS_INTEGER j \<Rightarrow> Asn1PrimitivaValue_compare i j | _ \<Rightarrow> Some False)
      | MMS_UNSIGNED i \<Rightarrow> (case other of MMS_UNSIGNED j \<Rightarrow> Asn1PrimitivaValue_compare i j | _ \<Rightarrow> Some False)
      | MMS_UTC_TIME a \<Rightarrow> (case other of MMS_UTC_TIME b \<Rightarrow> memcmp_eq a b 8 | _ \<Rightarrow> Some False)
      | MMS_BIT_STRING n1 b1 \<Rightarrow>
          (case other of MMS_BIT_STRING n2 b2 \<Rightarrow> if n1 = n2 then memcmp_eq b1 b2 (bitStringByteSize n1) else Some False | _ \<Rightarrow> Some False)
      | MMS_BINARY_TIME n1 b1 \<Rightarrow>
          (case other of MMS_BINARY_TIME n2 b2 \<Rightarrow> if n1 = n2 then memcmp_eq b1 b2 n1 else Some False | _ \<Rightarrow> Some False)
      | MMS_OCTET_STRING n1 m1 b1 \<Rightarrow>
          (case other of MMS_OCTET_STRING n2 m2 b2 \<Rightarrow> if n1 = n2 then memcmp_eq b1 b2 n1 else Some False | _ \<Rightarrow> Some False)
      | MMS_VISIBLE_STRING b1 n1 \<Rightarrow> (case other of MMS_VISIBLE_STRING b2 n2 \<Rightarrow> Some (b1 = b2) | _ \<Rightarrow> Some False)
      | MMS_STRING b1 n1 \<Rightarrow> (case other of MMS_STRING b2 n2 \<Rightarrow> Some (b1 = b2) | _ \<Rightarrow> Some False)
      | MMS_DATA_ACCESS_ERROR a \<Rightarrow> (case other of MMS_DATA_ACCESS_ERROR b \<Rightarrow> Some (a = b) | _ \<Rightarrow> Some False)
      | _ \<Rightarrow> Some False)"

text \<open>Components are compared in order; the sizes are compared first.\<close>

fun MmsValue_equals :: "MmsValue option \<Rightarrow> MmsValue option \<Rightarrow> bool option"
  and equals_components :: "MmsValue option list \<Rightarrow> MmsValue option list \<Rightarrow> bool option" where
  "MmsValue_equals None q = Some False"
| "MmsValue_equals (Some (MMS_ARRAY xs)) q =
     (case q of Some (MMS_ARRAY ys) \<Rightarrow> if length xs = length ys then equals_components xs ys else Some False | _ \<Rightarrow> Some False)"
| "MmsValue_equals (Some (MMS_STRUCTURE xs)) q =
     (case q of Some (MMS_STRUCTURE ys) \<Rightarrow> if length xs = length ys then equals_components xs ys else Some False | _ \<Rightarrow> Some False)"
| "MmsValue_equals (Some a) q = (case q of Some b \<Rightarrow> equals_simple a b | None \<Rightarrow> Some False)"
| "equals_components [] ys = Some True"
| "equals_components (x # xs) ys =
     (case ys of
        [] \<Rightarrow> Some True
      | y # ys \<Rightarrow> do { e \<leftarrow> MmsValue_equals x y; if e then equals_components xs ys else Some False })"

fun MmsValue_equalTypes :: "MmsValue option \<Rightarrow> MmsValue option \<Rightarrow> bool"
  and equalTypes_components :: "MmsValue option list \<Rightarrow> MmsValue option list \<Rightarrow> bool" where
  "MmsValue_equalTypes None q = False"
| "MmsValue_equalTypes (Some (MMS_ARRAY xs)) q =
     (case q of Some (MMS_ARRAY ys) \<Rightarrow> length xs = length ys \<and> equalTypes_components xs ys | _ \<Rightarrow> False)"
| "MmsValue_equalTypes (Some (MMS_STRUCTURE xs)) q =
     (case q of Some (MMS_STRUCTURE ys) \<Rightarrow> length xs = length ys \<and> equalTypes_components xs ys | _ \<Rightarrow> False)"
| "MmsValue_equalTypes (Some a) q = (case q of Some b \<Rightarrow> MmsValue_getType a = MmsValue_getType b | None \<Rightarrow> False)"
| "equalTypes_components [] ys = True"
| "equalTypes_components (x # xs) ys = (case ys of [] \<Rightarrow> True | y # ys \<Rightarrow> MmsValue_equalTypes x y \<and> equalTypes_components xs ys)"

fun copy_bits :: "MmsValue \<Rightarrow> nat \<Rightarrow> nat \<Rightarrow> MmsValue \<Rightarrow> MmsValue option" where
  "copy_bits update i 0 self = Some self"
| "copy_bits update i (Suc n) self = do {
     bitSize \<leftarrow> MmsValue_getBitStringSize self;
     if i < bitSize then do {
       b \<leftarrow> MmsValue_getBitStringBit update i;
       self \<leftarrow> MmsValue_setBitStringBit self i b;
       copy_bits update (Suc i) n self }
     else Some self }"

text \<open>A failed allocation leaves the octet string without a buffer, which has no cells here.\<close>

definition update_octets :: "bool \<Rightarrow> nat \<times> int \<times> byte list \<Rightarrow> nat \<times> byte list \<Rightarrow> (MmsValue \<times> bool) option" where
  "update_octets mem self update =
     (case self of (k, maxS, buf) \<Rightarrow> case update of (n, src) \<Rightarrow>
        let grow = (maxS < 0 \<and> int n > \<bar>maxS\<bar>)
        in if grow \<and> \<not> mem then Some (MMS_OCTET_STRING k maxS [], False)
           else
             let (maxS, buf) = (if grow then (- int n, replicate n 0) else (maxS, buf))
             in if int n \<le> \<bar>maxS\<bar> then do { buf \<leftarrow> memcpy buf 0 src 0 n; Some (MMS_OCTET_STRING n maxS buf, True) }
                else Some (MMS_OCTET_STRING k maxS buf, False))"

definition update_simple :: "bool \<Rightarrow> MmsValue \<Rightarrow> MmsValue \<Rightarrow> (MmsValue \<times> bool) option" where
  "update_simple mem self update =
     (case self of
        MMS_BOOLEAN a \<Rightarrow> (case update of MMS_BOOLEAN b \<Rightarrow> Some (MMS_BOOLEAN b, True) | _ \<Rightarrow> Some (self, False))
      | MMS_FLOAT e1 f1 b1 \<Rightarrow>
          (case update of
             MMS_FLOAT e2 f2 b2 \<Rightarrow>
               if f1 = f2 then do { buf \<leftarrow> memcpy b1 0 b2 0 (unat f1 div 8); Some (MMS_FLOAT e2 f1 buf, True) } else Some (self, False)
           | _ \<Rightarrow> Some (self, False))
      | MMS_INTEGER i \<Rightarrow>
          (case update of MMS_INTEGER j \<Rightarrow> do { (i, ok) \<leftarrow> BerInteger_setFromBerInteger i j; Some (MMS_INTEGER i, ok) } | _ \<Rightarrow> Some (self, False))
      | MMS_UNSIGNED i \<Rightarrow>
          (case update of MMS_UNSIGNED j \<Rightarrow> do { (i, ok) \<leftarrow> BerInteger_setFromBerInteger i j; Some (MMS_UNSIGNED i, ok) } | _ \<Rightarrow> Some (self, False))
      | MMS_UTC_TIME a \<Rightarrow> (case update of MMS_UTC_TIME b \<Rightarrow> do { t \<leftarrow> memcpy a 0 b 0 8; Some (MMS_UTC_TIME t, True) } | _ \<Rightarrow> Some (self, False))
      | MMS_BIT_STRING n1 b1 \<Rightarrow>
          (case update of
             MMS_BIT_STRING n2 b2 \<Rightarrow>
               if n1 = n2 then do { buf \<leftarrow> memcpy b1 0 b2 0 (bitStringByteSize n1); Some (MMS_BIT_STRING n1 buf, True) }
               else do { s \<leftarrow> copy_bits update 0 n2 self; Some (s, True) }
           | _ \<Rightarrow> Some (self, False))
      | MMS_OCTET_STRING k m1 b1 \<Rightarrow>
          (case update of MMS_OCTET_STRING n m2 b2 \<Rightarrow> update_octets mem (k, m1, b1) (n, b2) | _ \<Rightarrow> Some (self, False))
      | MMS_VISIBLE_STRING b1 n1 \<Rightarrow>
          (case update of MMS_VISIBLE_STRING b2 n2 \<Rightarrow> do { s \<leftarrow> MmsValue_setVisibleString mem self b2; Some (s, True) } | _ \<Rightarrow> Some (self, False))
      | MMS_STRING b1 n1 \<Rightarrow>
          (case update of MMS_STRING b2 n2 \<Rightarrow> do { s \<leftarrow> MmsValue_setMmsString mem self b2; Some (s, True) } | _ \<Rightarrow> Some (self, False))
      | MMS_BINARY_TIME n1 b1 \<Rightarrow>
          (case update of MMS_BINARY_TIME n2 b2 \<Rightarrow> do { buf \<leftarrow> memcpy b1 0 b2 0 n2; Some (MMS_BINARY_TIME n2 buf, True) } | _ \<Rightarrow> Some (self, False))
      | _ \<Rightarrow> Some (self, False))"

text \<open>A failure in the middle of a structure keeps the components updated before.\<close>

fun MmsValue_update :: "bool \<Rightarrow> MmsValue option \<Rightarrow> MmsValue option \<Rightarrow> (MmsValue option \<times> bool) option"
  and updateStructuredComponent :: "bool \<Rightarrow> MmsValue option list \<Rightarrow> MmsValue option list \<Rightarrow> (MmsValue option list \<times> bool) option" where
  "MmsValue_update mem None q = Some (None, False)"
| "MmsValue_update mem (Some (MMS_ARRAY xs)) q =
     (case q of
        Some (MMS_ARRAY ys) \<Rightarrow> do {
          (cs, ok) \<leftarrow> (if length xs = length ys then updateStructuredComponent mem xs ys else Some (xs, False));
          Some (Some (MMS_ARRAY cs), ok) }
      | _ \<Rightarrow> Some (Some (MMS_ARRAY xs), False))"
| "MmsValue_update mem (Some (MMS_STRUCTURE xs)) q =
     (case q of
        Some (MMS_STRUCTURE ys) \<Rightarrow> do {
          (cs, ok) \<leftarrow> (if length xs = length ys then updateStructuredComponent mem xs ys else Some (xs, False));
          Some (Some (MMS_STRUCTURE cs), ok) }
      | _ \<Rightarrow> Some (Some (MMS_STRUCTURE xs), False))"
| "MmsValue_update mem (Some a) q =
     (case q of Some b \<Rightarrow> do { (c, ok) \<leftarrow> update_simple mem a b; Some (Some c, ok) } | None \<Rightarrow> Some (Some a, False))"
| "updateStructuredComponent mem [] ys = Some ([], True)"
| "updateStructuredComponent mem (x # xs) ys =
     (case ys of
        [] \<Rightarrow> Some (x # xs, True)
      | y # ys \<Rightarrow> do {
          (c, ok) \<leftarrow> MmsValue_update mem x y;
          if ok then do { (cs, ok) \<leftarrow> updateStructuredComponent mem xs ys; Some (c # cs, ok) } else Some (c # xs, False) })"

text \<open>The bytes of a copied octet string behind its size are uninitialised memory; they are zero here.
  The allocation for a string with a negative size fails.\<close>

definition clone_string :: "bool \<Rightarrow> byte list option \<Rightarrow> int \<Rightarrow> byte list option option" where
  "clone_string mem buf n =
     (if \<not> mem \<or> n < -1 then Some None
      else do {
        cs \<leftarrow> buf;
        (case StringUtils_copyStringMax (n + 1) cs of Fail \<Rightarrow> None | Ret cs \<Rightarrow> Some (Some cs)) })"

definition clone_simple :: "bool \<Rightarrow> MmsValue \<Rightarrow> MmsValue option option" where
  "clone_simple mem self =
     (if \<not> mem then Some None
      else case self of
        MMS_INTEGER i \<Rightarrow> do { r \<leftarrow> Asn1PrimitiveValue_clone mem mem i; Some (case r of Fail \<Rightarrow> None | Ret j \<Rightarrow> Some (MMS_INTEGER j)) }
      | MMS_UNSIGNED i \<Rightarrow> do { r \<leftarrow> Asn1PrimitiveValue_clone mem mem i; Some (case r of Fail \<Rightarrow> None | Ret j \<Rightarrow> Some (MMS_UNSIGNED j)) }
      | MMS_FLOAT e f b \<Rightarrow> do { buf \<leftarrow> memcpy (replicate 8 0) 0 b 0 (unat f div 8); Some (Some (MMS_FLOAT e f buf)) }
      | MMS_BIT_STRING n b \<Rightarrow> do { buf \<leftarrow> rd_block b 0 (bitStringByteSize n); Some (Some (MMS_BIT_STRING n buf)) }
      | MMS_OCTET_STRING n m b \<Rightarrow> do { buf \<leftarrow> memcpy (replicate (nat \<bar>m\<bar>) 0) 0 b 0 n; Some (Some (MMS_OCTET_STRING n m buf)) }
      | MMS_UTC_TIME t \<Rightarrow> do { t \<leftarrow> rd_block t 0 8; Some (Some (MMS_UTC_TIME t)) }
      | MMS_BINARY_TIME n b \<Rightarrow> do { buf \<leftarrow> rd_block b 0 6; Some (Some (MMS_BINARY_TIME n buf)) }
      | MMS_VISIBLE_STRING b n \<Rightarrow> do { r \<leftarrow> clone_string mem b n; Some (case r of None \<Rightarrow> None | Some cs \<Rightarrow> Some (MMS_VISIBLE_STRING (Some cs) n)) }
      | MMS_STRING b n \<Rightarrow> do { r \<leftarrow> clone_string mem b n; Some (case r of None \<Rightarrow> None | Some cs \<Rightarrow> Some (MMS_STRING (Some cs) n)) }
      | _ \<Rightarrow> Some (Some self))"

fun MmsValue_clone :: "bool \<Rightarrow> MmsValue option \<Rightarrow> MmsValue option option"
  and clone_components :: "bool \<Rightarrow> MmsValue option list \<Rightarrow> MmsValue option list option option" where
  "MmsValue_clone mem None = Some None"
| "MmsValue_clone mem (Some (MMS_ARRAY cs)) =
     (if mem then do { r \<leftarrow> clone_components mem cs; Some (map_option MMS_ARRAY r) } else Some None)"
| "MmsValue_clone mem (Some (MMS_STRUCTURE cs)) =
     (if mem then do { r \<leftarrow> clone_components mem cs; Some (map_option MMS_STRUCTURE r) } else Some None)"
| "MmsValue_clone mem (Some v) = clone_simple mem v"
| "clone_components mem [] = Some (Some [])"
| "clone_components mem (p # ps) = do {
     c \<leftarrow> MmsValue_clone mem p;
     if p \<noteq> None \<and> c = None then Some None
     else do { r \<leftarrow> clone_components mem ps; Some (map_option ((#) c) r) } }"

subsection \<open>Well-formed values\<close>

primrec mms_ok :: "MmsValue \<Rightarrow> bool" where
  "mms_ok (MMS_ARRAY cs) = list_all (\<lambda>p. p = Some True) (map (map_option mms_ok) cs)"
| "mms_ok (MMS_STRUCTURE cs) = list_all (\<lambda>p. p = Some True) (map (map_option mms_ok) cs)"
| "mms_ok (MMS_BOOLEAN b) = True"
| "mms_ok (MMS_BIT_STRING n buf) = (length buf = bitStringByteSize n)"
| "mms_ok (MMS_INTEGER i) = (primitive_ok i \<and> 0 < psize i)"
| "mms_ok (MMS_UNSIGNED i) = (primitive_ok i \<and> 0 < psize i)"
| "mms_ok (MMS_FLOAT e f buf) = ((f = 32 \<or> f = 64) \<and> length buf = 8)"
| "mms_ok (MMS_OCTET_STRING n m buf) = (n < 65536 \<and> int n \<le> \<bar>m\<bar> \<and> length buf = nat \<bar>m\<bar>)"
| "mms_ok (MMS_VISIBLE_STRING b n) = (\<exists>cs. b = Some cs \<and> 0 \<notin> set cs \<and> int (length cs) \<le> n \<and> n < 32768)"
| "mms_ok (MMS_STRING b n) = (\<exists>cs. b = Some cs \<and> 0 \<notin> set cs \<and> int (length cs) \<le> n \<and> n < 32768)"
| "mms_ok (MMS_BINARY_TIME n buf) = ((n = 4 \<or> n = 6) \<and> length buf = 6)"
| "mms_ok (MMS_UTC_TIME t) = (length t = 8)"
| "mms_ok (MMS_DATA_ACCESS_ERROR e) = True"

definition mms_ptr_ok :: "MmsValue option \<Rightarrow> bool" where
  "mms_ptr_ok p \<longleftrightarrow> (\<exists>v. p = Some v \<and> mms_ok v)"

lemma mms_ptr_ok_Some [simp]: "mms_ptr_ok (Some v) = mms_ok v" "\<not> mms_ptr_ok None"
  by (simp_all add: mms_ptr_ok_def)

lemma mms_ok_components [simp]:
  "list_all (\<lambda>p. p = Some True) (map (map_option mms_ok) cs) \<longleftrightarrow> list_all mms_ptr_ok cs"
  by (auto simp: list_all_iff mms_ptr_ok_def)

lemma bitStringByteSize_eq: "bitStringByteSize n = bitstring_bytes n" "getBitStringByteSize n = bitstring_bytes n"
  by (simp_all add: bitStringByteSize_def getBitStringByteSize_def bitstring_bytes_def)

lemma bit_in_range: "i < n \<Longrightarrow> i div 8 < bitstring_bytes n"
proof (cases "n mod 8 = 0")
  case True
  moreover assume "i < n"
  ultimately have "i < n div 8 * 8" using div_mult_mod_eq [of n 8] by simp
  then show ?thesis using True by (simp add: bitstring_bytes_def less_mult_imp_div_less)
next
  case False
  moreover assume "i < n"
  ultimately show ?thesis using div_le_mono [of i n 8] by (simp add: bitstring_bytes_def)
qed

lemma bit_position: "j div 8 = i div 8 \<Longrightarrow> 7 - j mod 8 = 7 - i mod 8 \<Longrightarrow> j = (i :: nat)"
  using div_mult_mod_eq [of i 8] div_mult_mod_eq [of j 8] mod_less_divisor [of 8 i] mod_less_divisor [of 8 j] by linarith

lemma memcmp_self: "n \<le> length a \<Longrightarrow> memcmp_eq a a n = Some True"
  by (simp add: memcmp_eq_def rd_block_eq)

lemma memcmp_total: "n \<le> length a \<Longrightarrow> n \<le> length b \<Longrightarrow> memcmp_eq a b n = Some (take n a = take n b)"
  by (simp add: memcmp_eq_def rd_block_eq)

lemma memcpy_prefix: "n \<le> length src \<Longrightarrow> n \<le> length dst \<Longrightarrow> memcpy dst 0 src 0 n = Some (take n src @ drop n dst)"
  by (simp add: memcpy_eq patch_def)

subsection \<open>Bits as a store\<close>

text \<open>What a sequence of bit positions with a reading and a writing operation promises, and what
  follows for integers that are stored in it bit by bit.\<close>

locale bit_store =
  fixes get :: "'s \<Rightarrow> nat \<Rightarrow> bool option" and set :: "'s \<Rightarrow> nat \<Rightarrow> bool \<Rightarrow> 's option" and inv :: "nat \<Rightarrow> 's \<Rightarrow> bool"
  assumes get_total: "inv n s \<Longrightarrow> \<exists>b. get s i = Some b"
    and set_total: "inv n s \<Longrightarrow> i < n \<Longrightarrow> \<exists>s'. set s i b = Some s'"
    and set_inv: "inv n s \<Longrightarrow> i < n \<Longrightarrow> set s i b = Some s' \<Longrightarrow> inv n s'"
    and get_set: "inv n s \<Longrightarrow> i < n \<Longrightarrow> j < n \<Longrightarrow> set s i b = Some s' \<Longrightarrow> get s' j = (if j = i then Some b else get s j)"
begin

fun store :: "nat list \<Rightarrow> 's \<Rightarrow> 32 word \<Rightarrow> 's option" where
  "store [] s v = Some s"
| "store (p # ps) s v = do { s \<leftarrow> set s p (v AND 1 = 1); store ps s (drop_bit 1 v) }"

fun load :: "'s \<Rightarrow> (nat \<times> nat) list \<Rightarrow> 32 word \<Rightarrow> 32 word option" where
  "load s [] v = Some v"
| "load s ((p, i) # ps) v = do {
     b \<leftarrow> get s p;
     if b then do { x \<leftarrow> shifted_one i; load s ps (v + x) } else load s ps v }"

lemma store_ok:
  assumes "inv n s" and "distinct ps" and "\<forall>p \<in> List.set ps. p < n"
  obtains s' where "store ps s v = Some s'" "inv n s'" "\<And>k. k < length ps \<Longrightarrow> get s' (ps ! k) = Some (bit v k)"
    "\<And>j. j < n \<Longrightarrow> j \<notin> List.set ps \<Longrightarrow> get s' j = get s j"
proof -
  have "\<exists>s'. store ps s v = Some s' \<and> inv n s' \<and> (\<forall>k < length ps. get s' (ps ! k) = Some (bit v k)) \<and>
      (\<forall>j < n. j \<notin> List.set ps \<longrightarrow> get s' j = get s j)"
    using assms
  proof (induction ps arbitrary: s v)
    case (Cons p ps)
    then have p: "p < n" "p \<notin> List.set ps" by auto
    obtain s1 where s1: "set s p (v AND 1 = 1) = Some s1" using set_total [OF Cons.prems(1) p(1)] by blast
    obtain s2 where s2: "store ps s1 (drop_bit 1 v) = Some s2" "inv n s2" "\<forall>k < length ps. get s2 (ps ! k) = Some (bit (drop_bit 1 v) k)"
      "\<forall>j < n. j \<notin> List.set ps \<longrightarrow> get s2 j = get s1 j"
      using Cons.IH [OF set_inv [OF Cons.prems(1) p(1) s1], of "drop_bit 1 v"] Cons.prems(2,3) by (auto simp del: One_nat_def)
    have "v AND 1 = 1 \<longleftrightarrow> bit v 0" by (simp add: bit_0 odd_iff_mod_2_eq_one and_one_eq)
    then have "get s2 p = Some (bit v 0)" using s2(4) p get_set [OF Cons.prems(1) p(1) p(1) s1] by simp
    then have "\<forall>k < length (p # ps). get s2 ((p # ps) ! k) = Some (bit v k)"
      using s2(3) by (auto simp: nth_Cons bit_drop_bit_eq split: nat.splits)
    moreover have "\<forall>j < n. j \<notin> List.set (p # ps) \<longrightarrow> get s2 j = get s j"
      using s2(4) get_set [OF Cons.prems(1) p(1) _ s1] by auto
    ultimately show ?case using s1 s2(1,2) by simp
  qed simp
  with that show thesis by blast
qed

lemma load_sum:
  assumes "inv n s" and "a \<le> m" and "m \<le> 32" and "\<And>i. a \<le> i \<Longrightarrow> i < m \<Longrightarrow> get s (f i) = Some (g i)"
  shows "load s (map (\<lambda>i. (f i, i)) [a..<m]) v = Some (v + (\<Sum>i = a..<m. push_bit i (of_bool (g i))))"
  using assms(2,4)
proof (induction "m - a" arbitrary: a v)
  case (Suc d)
  then have am: "a < m" "[a..<m] = a # [Suc a..<m]" "d = m - Suc a" "Suc a \<le> m" by (auto simp: upt_conv_Cons)
  have "load s (map (\<lambda>i. (f i, i)) [Suc a..<m]) w = Some (w + (\<Sum>i = Suc a..<m. push_bit i (of_bool (g i))))" for w
    using Suc.hyps(1) [OF am(3,4)] Suc.prems(2) by simp
  moreover have "get s (f a) = Some (g a)" using Suc.prems(2) am(1) by simp
  moreover have "(\<Sum>i = a..<m. push_bit i (of_bool (g i))) = push_bit a (of_bool (g a)) + (\<Sum>i = Suc a..<m. push_bit i (of_bool (g i) :: 32 word))"
    using am(1) by (simp add: sum.atLeast_Suc_lessThan)
  ultimately show ?case using am(1,2) assms(3) by (simp add: shifted_one_def ac_simps)
qed simp

lemma load_store:
  assumes "inv n s" and "n \<le> 32" and "\<And>i. i < n \<Longrightarrow> f i < n" and "inj_on f {..<n}"
  obtains s' where "store (map f [0..<n]) s v = Some s'" "inv n s'" "load s' (map (\<lambda>i. (f i, i)) [0..<n]) 0 = Some (take_bit n v)"
proof -
  have d: "distinct (map f [0..<n])" "\<forall>p \<in> List.set (map f [0..<n]). p < n"
    using assms(3,4) by (auto simp: distinct_map lessThan_atLeast0)
  obtain s' where s': "store (map f [0..<n]) s v = Some s'" "inv n s'"
    "\<And>k. k < length (map f [0..<n]) \<Longrightarrow> get s' (map f [0..<n] ! k) = Some (bit v k)"
    using store_ok [OF assms(1) d, of v] by metis
  have "load s' (map (\<lambda>i. (f i, i)) [0..<n]) 0 = Some (0 + (\<Sum>i = 0..<n. push_bit i (of_bool (bit v i))))"
    using s'(3) by (intro load_sum [OF s'(2) _ assms(2)]) auto
  then show thesis using that s'(1,2) by (simp add: take_bit_sum)
qed

end

definition is_bit_string :: "nat \<Rightarrow> MmsValue \<Rightarrow> bool" where
  "is_bit_string n v \<longleftrightarrow> mms_ok v \<and> (\<exists>buf. v = MMS_BIT_STRING n buf)"

lemma getBitStringBit_eq:
  assumes "length buf = bitStringByteSize n"
  shows "MmsValue_getBitStringBit (MMS_BIT_STRING n buf) j = Some (j < n \<and> bit (buf ! (j div 8)) (7 - j mod 8))"
  using assms bit_in_range [of j n]
  by (simp add: MmsValue_getBitStringBit_def bitStringByteSize_eq bit_iff_and_push_bit_not_eq_0)

lemma setBitStringBit_eq:
  assumes "length buf = bitStringByteSize n" and "i < n"
  shows "MmsValue_setBitStringBit (MMS_BIT_STRING n buf) i b =
    Some (MMS_BIT_STRING n (buf[i div 8 := (if b then set_bit else unset_bit) (7 - i mod 8) (buf ! (i div 8))]))"
  using assms bit_in_range [OF assms(2)]
  by (simp add: MmsValue_setBitStringBit_def bitStringByteSize_eq set_bit_eq_or unset_bit_eq_and_not Let_def)

interpretation mms_bits: bit_store MmsValue_getBitStringBit MmsValue_setBitStringBit is_bit_string
proof
  fix n i j b and s s' :: MmsValue
  assume s: "is_bit_string n s"
  then obtain buf where buf: "s = MMS_BIT_STRING n buf" "length buf = bitStringByteSize n" by (auto simp: is_bit_string_def)
  show "\<exists>b. MmsValue_getBitStringBit s i = Some b" using buf by (simp add: getBitStringBit_eq)
  assume i: "i < n"
  show "\<exists>s'. MmsValue_setBitStringBit s i b = Some s'" using buf i by (simp add: setBitStringBit_eq)
  assume s': "MmsValue_setBitStringBit s i b = Some s'"
  then show "is_bit_string n s'" using buf i by (auto simp: setBitStringBit_eq is_bit_string_def)
  assume j: "j < n"
  have in_buf: "i div 8 < length buf" using buf(2) bit_in_range [OF i] by (simp add: bitStringByteSize_eq)
  define x where "x = (if b then set_bit else unset_bit) (7 - i mod 8) (buf ! (i div 8))"
  have eq: "s' = MMS_BIT_STRING n (buf[i div 8 := x])" using s' setBitStringBit_eq [OF buf(2) i] unfolding buf(1) x_def by simp
  have g: "MmsValue_getBitStringBit s' j = Some (bit (buf[i div 8 := x] ! (j div 8)) (7 - j mod 8))"
    "MmsValue_getBitStringBit s j = Some (bit (buf ! (j div 8)) (7 - j mod 8))"
    using buf(2) j by (simp_all add: eq buf(1) getBitStringBit_eq)
  show "MmsValue_getBitStringBit s' j = (if j = i then Some b else MmsValue_getBitStringBit s j)"
  proof (cases "j div 8 = i div 8")
    case True
    have "bit x (7 - j mod 8) = (if j = i then b else bit (buf ! (i div 8)) (7 - j mod 8))"
      using bit_position [OF True] by (auto simp: x_def bit_set_bit_iff bit_unset_bit_iff)
    then show ?thesis using g in_buf True by simp
  next
    case False
    then have "j \<noteq> i" by blast
    then show ?thesis using g False by simp
  qed
qed

lemma store_bits_eq: "store_bits ps self v = mms_bits.store ps self v"
  by (induction ps arbitrary: self v) simp_all

lemma bits_value_eq: "bits_value self ps v = mms_bits.load self ps v"
proof (induction ps arbitrary: v)
  case (Cons p ps)
  then show ?case by (cases p) (simp cong: if_cong)
qed simp

lemma rev_positions: "rev [0..<n] = map (\<lambda>i. n - 1 - i) [0..<n]"
  by (rule nth_equalityI) (simp_all add: rev_nth)

text \<open>C19: An integer stored in a bit string of up to 32 bits, in either bit order, is read back with
  the same bit order: its low bits, as many as the bit string has.\<close>

theorem bitstring_integer_roundtrip:
  assumes "is_bit_string n self" and "n \<le> 32"
  shows "(\<exists>self'. MmsValue_setBitStringFromInteger self v = Some self' \<and> is_bit_string n self' \<and>
            MmsValue_getBitStringAsInteger self' = Some (take_bit n v)) \<and>
         (\<exists>self'. MmsValue_setBitStringFromIntegerBigEndian self v = Some self' \<and> is_bit_string n self' \<and>
            MmsValue_getBitStringAsIntegerBigEndian self' = Some (take_bit n v))"
proof -
  have size: "MmsValue_getBitStringSize s = Some n" if "is_bit_string n s" for s
    using that by (auto simp: is_bit_string_def MmsValue_getBitStringSize_def)
  obtain s1 where s1: "mms_bits.store (map id [0..<n]) self v = Some s1" "is_bit_string n s1"
    "mms_bits.load s1 (map (\<lambda>i. (id i, i)) [0..<n]) 0 = Some (take_bit n v)"
    by (rule mms_bits.load_store [OF assms, of id v]) simp_all
  have inj: "inj_on (\<lambda>i. n - 1 - i) {..<n}" by (auto simp: inj_on_def)
  obtain s2 where s2: "mms_bits.store (map (\<lambda>i. n - 1 - i) [0..<n]) self v = Some s2" "is_bit_string n s2"
    "mms_bits.load s2 (map (\<lambda>i. (n - 1 - i, i)) [0..<n]) 0 = Some (take_bit n v)"
    by (rule mms_bits.load_store [OF assms _ inj, of v]) auto
  show ?thesis
    using s1 s2 size assms(1)
    by (simp add: MmsValue_setBitStringFromInteger_def MmsValue_getBitStringAsInteger_def MmsValue_setBitStringFromIntegerBigEndian_def
        MmsValue_getBitStringAsIntegerBigEndian_def store_bits_eq bits_value_eq rev_positions)
qed

theorem bitstring_integer_roundtrip_witness:
  "\<exists>self'. MmsValue_setBitStringFromInteger (MMS_BIT_STRING 10 [0, 0]) 5 = Some self' \<and>
     MmsValue_getBitStringAsInteger self' = Some 5"
proof -
  have "is_bit_string 10 (MMS_BIT_STRING 10 [0, 0])" by (simp add: is_bit_string_def bitStringByteSize_def)
  from bitstring_integer_roundtrip [OF this, of 5] show ?thesis by (auto simp: take_bit_eq_mod)
qed

subsection \<open>Times\<close>

text \<open>Bytes, most significant first, and the words they are taken from.\<close>

lemma foldl_bytes: "foldl (\<lambda>v b. v * 256 + ucast b) a bs = a * 256 ^ length bs + (of_int (uval bs) :: 'a::len word)"
proof (induction bs arbitrary: a)
  case (Cons b bs)
  have "(ucast b :: 'a word) = of_int (uint b)" by simp
  then show ?case by (simp only: foldl_Cons Cons.IH uval.simps length_Cons) (simp add: algebra_simps)
qed simp

lemma utc_seconds_bytes: "utc_seconds (rev (le_bytes 4 w) @ rest) = Some w"
  by (simp add: utc_seconds_def rd_block_eq foldl_bytes uval_le_bytes32)

lemma fraction_bytes:
  fixes f :: "32 word"
  assumes "uint f < 2 ^ 24"
  shows "push_bit 16 (ucast (ucast (drop_bit 16 f AND 0xff) :: byte)) + push_bit 8 (ucast (ucast (drop_bit 8 f AND 0xff) :: byte)) +
    ucast (ucast (f AND 0xff) :: byte) = f"
proof -
  let ?F = "uint f"
  have m: "w AND 0xff = take_bit 8 w" for w :: "32 word" by (simp add: take_bit_eq_mask mask_eq_exp_minus_1)
  have b: "uint (ucast (ucast (take_bit 8 w) :: byte) :: 32 word) = uint w mod 256" for w :: "32 word"
  proof -
    have "uint (ucast (ucast (take_bit 8 w) :: byte) :: 32 word) = take_bit 8 (uint w)" by (simp add: unsigned_ucast_eq unsigned_take_bit_eq)
    then show ?thesis by (simp only: take_bit_eq_mod) simp
  qed
  have d: "uint (drop_bit 16 f) = ?F div 65536" "uint (drop_bit 8 f) = ?F div 256"
    by (simp_all add: unsigned_drop_bit_eq drop_bit_eq_div uint_div)
  have lt: "?F div 65536 < 256" "0 \<le> ?F div 65536" using assms by (simp_all add: pos_imp_zdiv_nonneg_iff)
  let ?a = "push_bit 16 (ucast (ucast (drop_bit 16 f AND 0xff) :: byte)) :: 32 word"
    and ?b = "push_bit 8 (ucast (ucast (drop_bit 8 f AND 0xff) :: byte)) :: 32 word" and ?c = "ucast (ucast (f AND 0xff) :: byte) :: 32 word"
  have u: "uint ?a = (?F div 65536) * 65536" "uint ?b = (?F div 256 mod 256) * 256" "uint ?c = ?F mod 256"
    using lt unfolding m unsigned_push_bit_eq b d by (simp_all add: take_bit_eq_mod push_bit_eq_mult mod_pos_pos_trivial)
  have "?F = (?F div 65536) * 65536 + (?F div 256 mod 256) * 256 + ?F mod 256"
  proof -
    have "?F div 256 * 256 + ?F mod 256 = ?F" by (rule div_mult_mod_eq)
    moreover have "?F div 65536 * 256 + ?F div 256 mod 256 = ?F div 256"
      using div_mult_mod_eq [of "?F div 256" 256] by (simp add: zdiv_zmult2_eq [symmetric])
    ultimately show ?thesis by linarith
  qed
  then have "uint ?a + uint ?b + uint ?c = ?F" using u by simp
  moreover from this have "uint ?a + uint ?b < 2 ^ 24" using assms uint_ge_0 [of ?c] by linarith
  then have "uint (?a + ?b) = uint ?a + uint ?b" by (subst uint_add_lem [symmetric]) simp
  ultimately have "uint (?a + ?b + ?c) = ?F" using uint_add_lem [of "?a + ?b" ?c] assms by simp
  then show ?thesis by (simp only: word_uint_eq_iff)
qed

text \<open>The fraction of a millisecond, \<open>r\<close>, is stored as \<open>r * 2^24 / 1000\<close>, rounded down.\<close>

lemma fraction_of_ms:
  assumes "0 \<le> r" and "r < 1000"
  shows "r * 16777 + (r * 216) div 1000 < (2 ^ 24 :: int)" and "(r * 16777 + (r * 216) div 1000) div 16777 = r"
    and "(r * 16777 + (r * 216) div 1000) * 1000000 div 16777216 \<in> {1000 * r - 1, 1000 * r}"
proof -
  let ?q = "(r * 216) div 1000" and ?f = "r * 16777 + (r * 216) div 1000"
  have q: "0 \<le> ?q" "?q < 216" "1000 * ?q \<le> r * 216" "r * 216 < 1000 * ?q + 1000" using assms by auto
  show "?f < 2 ^ 24" using q assms by simp
  show "?f div 16777 = r" using q by simp
  have "?f * 1000000 \<le> 1000 * r * 16777216" "1000 * r * 16777216 - 1000000 < ?f * 1000000" using q(3,4) by simp_all
  then show "?f * 1000000 div 16777216 \<in> {1000 * r - 1, 1000 * r}" by auto
qed

lemma uint_small_word:
  fixes r :: "'a::len word"
  assumes "uint r < 2 ^ LENGTH('b)"
  shows "uint (ucast r :: 'b::len word) = uint r"
  using assms by (simp add: unsigned_ucast_eq take_bit_int_eq_self)

lemma fraction_word:
  fixes r :: "32 word"
  assumes "uint r < 1000"
  shows "uint (r * 16777 + r * 216 div 1000) = uint r * 16777 + (uint r * 216) div 1000"
proof -
  have m: "uint (r * 16777) = uint r * 16777" "uint (r * 216) = uint r * 216"
    using assms uint_mult_lem [of r 16777] uint_mult_lem [of r 216] by simp_all
  then have d: "uint (r * 216 div 1000) = (uint r * 216) div 1000" by (simp add: uint_div)
  have "(uint r * 216) div 1000 < 216" using assms by auto
  then show ?thesis using assms m(1) d uint_add_lem [of "r * 16777" "r * 216 div 1000"] by simp
qed

text \<open>C18: A time in milliseconds stored in a UTC time value is read back exactly, with its quality and
  its seconds, as long as the seconds fit 32 bits. The function that returns milliseconds and
  microseconds yields the same instant or one microsecond less.\<close>

theorem utc_time_roundtrip:
  assumes "mms_ok (MMS_UTC_TIME b)" and "uint t < 1000 * 2 ^ 32"
  shows "\<exists>v ms us. MmsValue_setUtcTimeMsEx (MMS_UTC_TIME b) t q = Some v \<and> mms_ok v \<and>
    MmsValue_getUtcTimeInMs v = Some t \<and> MmsValue_getUtcTimeQuality v = Some q \<and>
    MmsValue_toUnixTimestamp v = Some (ucast (t div 1000)) \<and>
    MmsValue_getUtcTimeInMsWithUs v = Some (ms, us) \<and>
    uint ms * 1000 + uint us \<in> {uint t * 1000 - 1, uint t * 1000}"
proof -
  define s where "s = (ucast (t div 1000) :: 32 word)"
  define r where "r = (ucast (t mod 1000) :: 32 word)"
  define f where "f = r * 16777 + (r * 216) div 1000"
  have td: "uint (t div 1000) = uint t div 1000" "uint (t mod 1000) = uint t mod 1000" by (simp_all add: uint_div uint_mod)
  have s: "uint s = uint t div 1000" using uint_small_word [of "t div 1000", where 'b = 32] assms(2) td(1) by (simp add: s_def)
  have r: "uint r = uint t mod 1000" "uint r < 1000" using uint_small_word [of "t mod 1000", where 'b = 32] td(2) by (simp_all add: r_def)
  have f: "uint f = uint r * 16777 + (uint r * 216) div 1000" unfolding f_def by (rule fraction_word [OF r(2)])
  note fr = fraction_of_ms [OF _ r(2), folded f]
  let ?T = "rev (le_bytes 4 s) @ [ucast (drop_bit 16 f AND 0xff), ucast (drop_bit 8 f AND 0xff), ucast (f AND 0xff), q]"
  have len: "length b = 8" using assms(1) by simp
  then obtain b0 b1 b2 b3 b4 b5 b6 b7 where b: "b = [b0, b1, b2, b3, b4, b5, b6, b7]"
    by (auto simp: length_Suc_conv numeral_eq_Suc)
  have "MmsValue_setUtcTimeMsEx (MMS_UTC_TIME b) t q = Some (MMS_UTC_TIME ?T)"
    by (simp add: MmsValue_setUtcTimeMsEx_def setUtcTimeMs_def utc_bytes_def b memcpy_prefix Let_def s_def [symmetric] r_def [symmetric]
        f_def [symmetric] nth_append list_update_append)
  moreover have "utc_seconds ?T = Some s" by (rule utc_seconds_bytes)
  moreover have "utc_fraction ?T = Some f" using fraction_bytes [of f] fr(1) by (simp add: utc_fraction_def nth_append)
  moreover have ms: "uint (ucast s * 1000 + x :: 64 word) = uint s * 1000 + uint x" if "uint x < 1000" for x
  proof -
    have c: "uint (ucast s :: 64 word) = uint s" "uint s < 2 ^ 32" using uint_small_word [of s, where 'b = 64] uint_bounded [of s] by simp_all
    then have "uint (ucast s * 1000 :: 64 word) = uint s * 1000" using uint_mult_lem [of "ucast s :: 64 word" 1000] by simp
    then show ?thesis using c(2) that uint_add_lem [of "ucast s * 1000 :: 64 word" x] by simp
  qed
  moreover have "ucast s * 1000 + ucast (f div 16777) = t"
  proof -
    have "uint (f div 16777) = uint r" using fr(2) by (simp add: uint_div)
    then have "uint (ucast (f div 16777) :: 64 word) = uint r" using uint_small_word [of "f div 16777", where 'b = 64] r(2) by simp
    then have "uint (ucast s * 1000 + ucast (f div 16777) :: 64 word) = uint t" using ms r s by simp
    then show ?thesis by (simp only: word_uint_eq_iff)
  qed
  moreover define R where "R = (ucast f :: 64 word) * 1000000 div 0x1000000"
  moreover have "uint (ucast s * 1000 + R div 1000) * 1000 + uint (ucast (R mod 1000) :: 32 word) \<in> {uint t * 1000 - 1, uint t * 1000}"
  proof -
    have "uint (ucast f :: 64 word) = uint f" using uint_small_word [of f, where 'b = 64] fr(1) by simp
    then have "uint ((ucast f :: 64 word) * 1000000) = uint f * 1000000" using uint_mult_lem [of "ucast f :: 64 word" 1000000] fr(1) by simp
    then have R: "uint R \<in> {1000 * uint r - 1, 1000 * uint r}" using fr(3) by (simp add: R_def uint_div)
    then have "uint (R div 1000) < 1000" "uint (R mod 1000) < 1000" using r(2) by (auto simp: uint_div uint_mod)
    then have "uint (ucast s * 1000 + R div 1000) = uint s * 1000 + uint R div 1000" "uint (ucast (R mod 1000) :: 32 word) = uint R mod 1000"
      using ms [of "R div 1000"] uint_small_word [of "R mod 1000", where 'b = 32] by (simp_all add: uint_div uint_mod)
    moreover have "(uint s * 1000 + uint R div 1000) * 1000 + uint R mod 1000 = uint s * 1000000 + uint R"
      using div_mult_mod_eq [of "uint R" 1000] by (simp add: algebra_simps)
    moreover have "uint t = uint s * 1000 + uint r" using s r(1) by simp
    ultimately show ?thesis using R by auto
  qed
  ultimately show ?thesis
    by (simp add: MmsValue_getUtcTimeInMs_def MmsValue_getUtcTimeInMsWithUs_def MmsValue_toUnixTimestamp_def MmsValue_getUtcTimeQuality_def
        utc_bytes_def nth_append Let_def s_def [symmetric])
qed

theorem utc_time_roundtrip_witness:
  "\<exists>v. MmsValue_setUtcTimeMsEx (MMS_UTC_TIME (replicate 8 0)) 1700000000001 0x0a = Some v \<and> MmsValue_getUtcTimeInMs v = Some 1700000000001"
  using utc_time_roundtrip [of "replicate 8 0" 1700000000001 "0x0a"] by auto

text \<open>A binary time of six bytes holds every instant of the 65536 days from 1984 on exactly, and
  earlier instants as the start of 1984; a binary time of four bytes holds the milliseconds since
  midnight.\<close>

theorem binary_time_roundtrip:
  assumes "mms_ok (MMS_BINARY_TIME n b)" and "uint t < 441763200000 + 65536 * 86400000"
  shows "\<exists>v. MmsValue_setBinaryTime (MMS_BINARY_TIME n b) t = Some v \<and> mms_ok v \<and>
    MmsValue_getBinaryTimeAsUtcMs v =
      Some (if n = 6 then max t 441763200000 else (if t > 441763200000 then t - 441763200000 else 0) mod 86400000)"
proof -
  define m where "m = (if t > 441763200000 then t - 441763200000 else 0)"
  have m: "uint m = (if uint t > 441763200000 then uint t - 441763200000 else 0)"
    using uint_sub_lem [of "441763200000 :: 64 word" t] by (auto simp: m_def word_less_def)
  then have mb: "uint m < 65536 * 86400000" using assms(2) by simp
  define d where "d = (ucast (m div 86400000) :: 16 word)"
  define h where "h = (ucast (m mod 86400000) :: 32 word)"
  have d: "uint d = uint m div 86400000" using uint_small_word [of "m div 86400000", where 'b = 16] mb by (simp add: d_def uint_div)
  have h: "uint h = uint m mod 86400000" using uint_small_word [of "m mod 86400000", where 'b = 32] by (simp add: h_def uint_mod)
  have hh: "(ucast h :: 64 word) = m mod 86400000"
  proof -
    have "uint (ucast h :: 64 word) = uint h" by (rule uint_small_word) (use uint_bounded [of h] in simp)
    then show ?thesis using h by (simp add: word_uint_eq_iff uint_mod)
  qed
  have dd: "(ucast d :: 64 word) = m div 86400000"
  proof -
    have "uint (ucast d :: 64 word) = uint d" by (rule uint_small_word) (use uint_bounded [of d] in simp)
    then show ?thesis using d by (simp add: word_uint_eq_iff uint_div)
  qed
  obtain b0 b1 b2 b3 b4 b5 where b: "b = [b0, b1, b2, b3, b4, b5]" using assms(1) by (auto simp: length_Suc_conv numeral_eq_Suc)
  let ?B = "rev (le_bytes 4 h) @ (if n = 6 then rev (le_bytes 2 d) else [b4, b5])"
  have "MmsValue_setBinaryTime (MMS_BINARY_TIME n b) t = Some (MMS_BINARY_TIME n ?B)"
    by (simp add: MmsValue_setBinaryTime_def b memcpy_eq patch_def Let_def m_def [symmetric] d_def [symmetric] h_def [symmetric])
  moreover have "utc_seconds ?B = Some h" by (rule utc_seconds_bytes)
  moreover have days: "ucast (ucast (drop_bit 8 d) :: byte) * 256 + ucast (ucast d :: byte) = d"
  proof -
    have "uval (rev (le_bytes 2 d)) = uint d" using le_bytes_value(1) [of 1 d] by (simp add: numeral_2_eq_2)
    then have "foldl (\<lambda>v b. v * 256 + ucast b) 0 (rev (le_bytes 2 d)) = d" by (simp only: foldl_bytes) simp
    then show ?thesis by (simp add: le_bytes_def numeral_2_eq_2)
  qed
  moreover have "m div 86400000 * 86400000 + 441763200000 + m mod 86400000 = max t 441763200000"
    using div_mult_mod_eq [of m 86400000] by (auto simp: m_def max_def algebra_simps)
  moreover have "n = 4 \<or> n = 6" using assms(1) by simp
  ultimately show ?thesis
    by (auto simp: MmsValue_getBinaryTimeAsUtcMs_def nth_append le_bytes_def numeral_2_eq_2 hh dd Let_def m_def [symmetric])
qed

theorem binary_time_roundtrip_witness:
  "\<exists>v. MmsValue_setBinaryTime (MMS_BINARY_TIME 6 (replicate 6 0)) 1700000000001 = Some v \<and>
     MmsValue_getBinaryTimeAsUtcMs v = Some 1700000000001"
  using binary_time_roundtrip [of 6 "replicate 6 0" 1700000000001] by (auto simp: max_def)

end
