(* ===== verification/Mms_Equality.thy ===== *)
theory Mms_Equality
  imports Mms_Value
begin

section \<open>Comparison, update and copies of MMS values\<close>

text \<open>
  The abstract content of a value, independent of the sizes of its buffers, and what
  \<open>MmsValue_equals\<close>, \<open>MmsValue_update\<close> and \<open>MmsValue_clone\<close> mean in its terms.
\<close>

subsection \<open>Content\<close>

datatype mms_data =
  D_array "mms_data option list" | D_structure "mms_data option list" | D_boolean bool | D_bits nat "byte list"
| D_integer "byte list" | D_unsigned "byte list" | D_float "byte list" | D_octets "byte list"
| D_visible "byte list option" | D_string "byte list option" | D_binary_time "byte list" | D_utc "byte list" | D_error "32 word"

primrec content :: "MmsValue \<Rightarrow> mms_data" where
  "content (MMS_ARRAY cs) = D_array (map (map_option content) cs)"
| "content (MMS_STRUCTURE cs) = D_structure (map (map_option content) cs)"
| "content (MMS_BOOLEAN b) = D_boolean b"
| "content (MMS_BIT_STRING n buf) = D_bits n buf"
| "content (MMS_INTEGER i) = D_integer (stored i)"
| "content (MMS_UNSIGNED i) = D_unsigned (stored i)"
| "content (MMS_FLOAT e f buf) = D_float (take (unat f div 8) buf)"
| "content (MMS_OCTET_STRING n m buf) = D_octets (take n buf)"
| "content (MMS_VISIBLE_STRING b n) = D_visible b"
| "content (MMS_STRING b n) = D_string b"
| "content (MMS_BINARY_TIME n buf) = D_binary_time (take n buf)"
| "content (MMS_UTC_TIME t) = D_utc t"
| "content (MMS_DATA_ACCESS_ERROR e) = D_error e"

text \<open>A condition on simple values holds wherever the two values have simple values at the same
  place.\<close>

fun agree :: "(MmsValue \<Rightarrow> MmsValue \<Rightarrow> bool) \<Rightarrow> MmsValue option \<Rightarrow> MmsValue option \<Rightarrow> bool"
  and agree_components :: "(MmsValue \<Rightarrow> MmsValue \<Rightarrow> bool) \<Rightarrow> MmsValue option list \<Rightarrow> MmsValue option list \<Rightarrow> bool" where
  "agree P None q = True"
| "agree P (Some (MMS_ARRAY xs)) q = (case q of Some (MMS_ARRAY ys) \<Rightarrow> agree_components P xs ys | _ \<Rightarrow> True)"
| "agree P (Some (MMS_STRUCTURE xs)) q = (case q of Some (MMS_STRUCTURE ys) \<Rightarrow> agree_components P xs ys | _ \<Rightarrow> True)"
| "agree P (Some a) q = (case q of Some b \<Rightarrow> P a b | None \<Rightarrow> True)"
| "agree_components P [] ys = True"
| "agree_components P (x # xs) ys = (case ys of [] \<Rightarrow> True | y # ys \<Rightarrow> agree P x y \<and> agree_components P xs ys)"

definition same_float_width :: "MmsValue \<Rightarrow> MmsValue \<Rightarrow> bool" where
  "same_float_width a b = (case a of MMS_FLOAT e f c \<Rightarrow> (case b of MMS_FLOAT e' f' c' \<Rightarrow> f = f' | _ \<Rightarrow> True) | _ \<Rightarrow> True)"

definition same_bit_size :: "MmsValue \<Rightarrow> MmsValue \<Rightarrow> bool" where
  "same_bit_size a b = (case a of MMS_BIT_STRING n c \<Rightarrow> (case b of MMS_BIT_STRING n' c' \<Rightarrow> n = n' | _ \<Rightarrow> True) | _ \<Rightarrow> True)"

fun is_simple :: "MmsValue \<Rightarrow> bool" where
  "is_simple (MMS_ARRAY _) = False"
| "is_simple (MMS_STRUCTURE _) = False"
| "is_simple _ = True"

text \<open>The recursive functions on a simple value.\<close>

lemma equals_on_simple [simp]:
  "is_simple a \<Longrightarrow> MmsValue_equals (Some a) q = (case q of Some b \<Rightarrow> equals_simple a b | None \<Rightarrow> Some False)"
  by (cases a; cases q) simp_all

lemma update_on_simple [simp]:
  "is_simple a \<Longrightarrow> MmsValue_update mem (Some a) q =
     (case q of Some b \<Rightarrow> do { (c, ok) \<leftarrow> update_simple mem a b; Some (Some c, ok) } | None \<Rightarrow> Some (Some a, False))"
  by (cases a; cases q) simp_all

lemma equalTypes_on_simple [simp]:
  "is_simple a \<Longrightarrow> MmsValue_equalTypes (Some a) q = (case q of Some b \<Rightarrow> MmsValue_getType a = MmsValue_getType b | None \<Rightarrow> False)"
  by (cases a; cases q) simp_all

lemma clone_on_simple [simp]: "is_simple a \<Longrightarrow> MmsValue_clone mem (Some a) = clone_simple mem a"
  by (cases a) simp_all

lemma agree_on_simple [simp]: "is_simple a \<Longrightarrow> agree P (Some a) q = (case q of Some b \<Rightarrow> P a b | None \<Rightarrow> True)"
  by (cases a; cases q) simp_all

lemma take_eq_size: "take n a = take m b \<Longrightarrow> n \<le> length a \<Longrightarrow> m \<le> length b \<Longrightarrow> n = m"
  by (metis length_take min.absorb2)

lemma compare_stored:
  assumes "primitive_ok i" and "primitive_ok j"
  shows "Asn1PrimitivaValue_compare i j = Some (stored i = stored j)"
  using assms by (auto simp: Asn1PrimitivaValue_compare_def primitive_ok_def rd_block_eq stored_def dest: take_eq_size)

lemma equals_simple_content:
  assumes "mms_ok a" and "mms_ok b" and "is_simple a"
  shows "\<exists>r. equals_simple a b = Some r \<and> (content a = content b \<longrightarrow> r) \<and>
    (same_float_width a b \<longrightarrow> r = (content a = content b))"
proof (cases "MmsValue_getType b = MmsValue_getType a")
  case False
  then have "equals_simple a b = Some False" "content a \<noteq> content b"
    using assms(3) by (cases a; cases b; simp add: equals_simple_def)+
  then show ?thesis by (simp add: ex_bool_eq)
next
  case True
  then show ?thesis
    using assms
    by (cases a; cases b; simp)
       (auto simp: equals_simple_def memcmp_total compare_stored same_float_width_def dest: take_eq_size)
qed


text \<open>The answer that \<open>MmsValue_equals\<close> gives for two values, and for two lists of components.\<close>

definition compared :: "MmsValue \<Rightarrow> MmsValue \<Rightarrow> bool" where
  "compared a b \<longleftrightarrow> (\<exists>r. MmsValue_equals (Some a) (Some b) = Some r \<and> (content a = content b \<longrightarrow> r) \<and>
     (agree same_float_width (Some a) (Some b) \<longrightarrow> r = (content a = content b)))"

lemma compared_components:
  assumes "length xs = length ys" and "list_all mms_ptr_ok xs" and "list_all mms_ptr_ok ys"
    and "\<And>a b. Some a \<in> set xs \<Longrightarrow> mms_ok a \<Longrightarrow> mms_ok b \<Longrightarrow> compared a b"
  shows "\<exists>r. equals_components xs ys = Some r \<and> (map (map_option content) xs = map (map_option content) ys \<longrightarrow> r) \<and>
    (agree_components same_float_width xs ys \<longrightarrow> r = (map (map_option content) xs = map (map_option content) ys))"
  using assms
proof (induction xs ys rule: list_induct2)
  case (Cons x xs y ys)
  obtain a b where ab: "x = Some a" "mms_ok a" "y = Some b" "mms_ok b" using Cons.prems(1,2) by (auto simp: mms_ptr_ok_def)
  have "compared a b" using Cons.prems(3) ab by simp
  then obtain r where r: "MmsValue_equals x y = Some r" "content a = content b \<longrightarrow> r" "agree same_float_width x y \<longrightarrow> r = (content a = content b)"
    unfolding compared_def ab by blast
  obtain s where s: "equals_components xs ys = Some s" "map (map_option content) xs = map (map_option content) ys \<longrightarrow> s"
    "agree_components same_float_width xs ys \<longrightarrow> s = (map (map_option content) xs = map (map_option content) ys)"
    using Cons.IH Cons.prems by auto
  show ?case using r s by (cases r) (auto simp: ab)
qed auto

lemma compared_container:
  assumes "length xs = length ys \<Longrightarrow> \<exists>r. equals_components xs ys = Some r \<and>
      (map (map_option content) xs = map (map_option content) ys \<longrightarrow> r) \<and>
      (agree_components same_float_width xs ys \<longrightarrow> r = (map (map_option content) xs = map (map_option content) ys))"
  shows "compared (MMS_ARRAY xs) (MMS_ARRAY ys)" and "compared (MMS_STRUCTURE xs) (MMS_STRUCTURE ys)"
proof -
  have "map (map_option content) xs \<noteq> map (map_option content) ys" if "length xs \<noteq> length ys" using that map_eq_imp_length_eq by blast
  then show "compared (MMS_ARRAY xs) (MMS_ARRAY ys)" "compared (MMS_STRUCTURE xs) (MMS_STRUCTURE ys)"
    using assms by (cases "length xs = length ys"; simp add: compared_def ex_bool_eq)+
qed

lemma compared_simple: "is_simple a \<Longrightarrow> mms_ok a \<Longrightarrow> mms_ok b \<Longrightarrow> compared a b"
  by (simp add: compared_def equals_simple_content)

lemma compared_all: "mms_ok a \<Longrightarrow> mms_ok b \<Longrightarrow> compared a b"
proof (induction a arbitrary: b)
  case (MMS_ARRAY xs)
  show ?case
  proof (cases b)
    case (MMS_ARRAY ys)
    then show ?thesis
      using compared_components [of xs ys] MMS_ARRAY.IH MMS_ARRAY.prems by (auto intro: compared_container)
  qed (simp_all add: compared_def ex_bool_eq)
next
  case (MMS_STRUCTURE xs)
  show ?case
  proof (cases b)
    case (MMS_STRUCTURE ys)
    then show ?thesis
      using compared_components [of xs ys] MMS_STRUCTURE.IH MMS_STRUCTURE.prems by (auto intro: compared_container)
  qed (simp_all add: compared_def ex_bool_eq)
qed (rule compared_simple, simp, assumption, assumption)+

text \<open>C10: On well-formed values the comparison always answers. Values with the same content are equal,
  and wherever the two values hold floating point numbers in the same places these have the same
  width, only values with the same content are.\<close>

theorem value_equality:
  assumes "mms_ok a" and "mms_ok b"
  shows "\<exists>r. MmsValue_equals (Some a) (Some b) = Some r \<and> (content a = content b \<longrightarrow> r) \<and>
     (agree same_float_width (Some a) (Some b) \<longrightarrow> r = (content a = content b))"
  using compared_all [OF assms] by (simp add: compared_def)

theorem value_equality_witness:
  "MmsValue_equals (Some (MMS_STRUCTURE [Some (MMS_BOOLEAN True), Some (MMS_UTC_TIME (replicate 8 1))]))
     (Some (MMS_STRUCTURE [Some (MMS_BOOLEAN True), Some (MMS_UTC_TIME (replicate 8 2))])) = Some False"
  using value_equality [of "MMS_STRUCTURE [Some (MMS_BOOLEAN True), Some (MMS_UTC_TIME (replicate 8 1))]"
      "MMS_STRUCTURE [Some (MMS_BOOLEAN True), Some (MMS_UTC_TIME (replicate 8 2))]"]
  by (auto simp: same_float_width_def)

subsection \<open>Update\<close>

lemma copy_bits_ok:
  assumes "is_bit_string n s" and "is_bit_string m u"
  shows "\<exists>s'. copy_bits u i k s = Some s' \<and> is_bit_string n s'"
  using assms(1)
proof (induction k arbitrary: i s)
  case (Suc k)
  have n: "MmsValue_getBitStringSize s = Some n" using Suc.prems by (auto simp: is_bit_string_def MmsValue_getBitStringSize_def)
  obtain b where b: "MmsValue_getBitStringBit u i = Some b" using mms_bits.get_total [OF assms(2)] by blast
  show ?case
  proof (cases "i < n")
    case True
    obtain s1 where s1: "MmsValue_setBitStringBit s i b = Some s1" using mms_bits.set_total [OF Suc.prems True] by blast
    then show ?thesis using Suc.IH [OF mms_bits.set_inv [OF Suc.prems True s1], of "Suc i"] n b True by simp
  next
    case False
    then show ?thesis using n Suc.prems by simp
  qed
qed simp

definition updated :: "MmsValue \<Rightarrow> MmsValue \<Rightarrow> bool" where
  "updated a b \<longleftrightarrow> (\<exists>v ok. MmsValue_update True (Some a) (Some b) = Some (Some v, ok) \<and> mms_ok v \<and>
     MmsValue_equalTypes (Some a) (Some v) \<and> (ok \<and> agree same_bit_size (Some a) (Some b) \<longrightarrow> content v = content b))"


lemma setVisibleStringValue_ok:
  assumes "0 \<notin> set str" and "length str < 32768" and "n < 32768"
  shows "setVisibleStringValue True (Some cs, n) (Some str) = Some (Some str, max n (int (length str)))"
proof -
  have "int16 (int (length str)) = int (length str)" using assms(2) by (simp add: int16_def)
  then show ?thesis by (auto simp: setVisibleStringValue_def StringUtils_copyStringMax_def Let_def max_def)
qed

lemma setFromBerInteger_ok:
  assumes "primitive_ok i" and "primitive_ok j"
  obtains i' ok where "BerInteger_setFromBerInteger i j = Some (i', ok)" "primitive_ok i'" "ok \<Longrightarrow> stored i' = stored j"
    "psize i' = (if ok then psize j else psize i)"
proof (cases "psize j \<le> maxSize i")
  case True
  let ?i = "i\<lparr>psize := psize j, octets := take (psize j) (octets j) @ drop (psize j) (octets i)\<rparr>"
  have "BerInteger_setFromBerInteger i j = Some (?i, True)"
    using True assms by (simp add: BerInteger_setFromBerInteger_def primitive_ok_def memcpy_prefix)
  moreover have "primitive_ok ?i" "stored ?i = stored j" using True assms by (simp_all add: primitive_ok_def stored_def)
  ultimately show ?thesis using that by simp
next
  case False
  then show ?thesis using that [of i False] assms by (simp add: BerInteger_setFromBerInteger_def)
qed

lemma update_octets_ok:
  assumes "mms_ok (MMS_OCTET_STRING k m buf)" and "mms_ok (MMS_OCTET_STRING n m' src)"
  shows "\<exists>v ok. update_octets True (k, m, buf) (n, src) = Some (v, ok) \<and> mms_ok v \<and> MmsValue_getType v = TYPE_OCTET_STRING \<and>
    (ok \<longrightarrow> content v = D_octets (take n src))"
  using assms by (auto simp: update_octets_def Let_def memcpy_prefix)

lemma update_simple_ok:
  assumes "mms_ok a" and "mms_ok b" and "is_simple a"
  shows "\<exists>v ok. update_simple True a b = Some (v, ok) \<and> mms_ok v \<and> is_simple v \<and> MmsValue_getType v = MmsValue_getType a \<and>
    (ok \<and> same_bit_size a b \<longrightarrow> content v = content b)"
proof (cases "MmsValue_getType b = MmsValue_getType a")
  case False
  then have "update_simple True a b = Some (a, False)" using assms(3) by (cases a; cases b) (simp_all add: update_simple_def)
  then show ?thesis using assms(1,3) by (auto simp: ex_bool_eq)
next
  case True
  show ?thesis
  proof (cases a)
    case (MMS_BIT_STRING n buf)
    then obtain m src where b: "b = MMS_BIT_STRING m src" using True by (cases b) auto
    have "is_bit_string n a" "is_bit_string m b" using assms MMS_BIT_STRING b by (auto simp: is_bit_string_def)
    then obtain s where s: "copy_bits b 0 m a = Some s" "is_bit_string n s" using copy_bits_ok by blast
    show ?thesis
      using assms s by (auto simp: update_simple_def MMS_BIT_STRING b memcpy_prefix is_bit_string_def same_bit_size_def)
  next
    case (MMS_INTEGER i)
    then obtain j where b: "b = MMS_INTEGER j" using True by (cases b) auto
    obtain i' ok where "BerInteger_setFromBerInteger i j = Some (i', ok)" "primitive_ok i'" "ok \<Longrightarrow> stored i' = stored j"
      "psize i' = (if ok then psize j else psize i)" using setFromBerInteger_ok [of i j] assms MMS_INTEGER b by auto
    then show ?thesis using assms by (auto simp: update_simple_def MMS_INTEGER b)
  next
    case (MMS_UNSIGNED i)
    then obtain j where b: "b = MMS_UNSIGNED j" using True by (cases b) auto
    obtain i' ok where "BerInteger_setFromBerInteger i j = Some (i', ok)" "primitive_ok i'" "ok \<Longrightarrow> stored i' = stored j"
      "psize i' = (if ok then psize j else psize i)" using setFromBerInteger_ok [of i j] assms MMS_UNSIGNED b by auto
    then show ?thesis using assms by (auto simp: update_simple_def MMS_UNSIGNED b)
  next
    case (MMS_OCTET_STRING k m buf)
    then obtain n m' src where b: "b = MMS_OCTET_STRING n m' src" using True by (cases b) auto
    obtain v ok where v: "update_octets True (k, m, buf) (n, src) = Some (v, ok)" "mms_ok v" "MmsValue_getType v = TYPE_OCTET_STRING"
      "ok \<longrightarrow> content v = D_octets (take n src)"
      using update_octets_ok assms MMS_OCTET_STRING b by blast
    then have "is_simple v" by (cases v) auto
    then show ?thesis using v by (simp add: update_simple_def MMS_OCTET_STRING b)
  next
    case (MMS_VISIBLE_STRING c n)
    then obtain c' n' where b: "b = MMS_VISIBLE_STRING c' n'" using True by (cases b) auto
    show ?thesis using assms by (auto simp: update_simple_def MMS_VISIBLE_STRING b MmsValue_setVisibleString_def setVisibleStringValue_ok)
  next
    case (MMS_STRING c n)
    then obtain c' n' where b: "b = MMS_STRING c' n'" using True by (cases b) auto
    show ?thesis using assms by (auto simp: update_simple_def MMS_STRING b MmsValue_setMmsString_def setVisibleStringValue_ok)
  next
    case (MMS_FLOAT e f buf)
    then obtain e' f' buf' where b: "b = MMS_FLOAT e' f' buf'" using True by (cases b) auto
    show ?thesis using assms by (auto simp: update_simple_def MMS_FLOAT b memcpy_prefix)
  next
    case (MMS_BINARY_TIME n buf)
    then obtain n' buf' where b: "b = MMS_BINARY_TIME n' buf'" using True by (cases b) auto
    show ?thesis using assms by (auto simp: update_simple_def MMS_BINARY_TIME b memcpy_prefix)
  next
    case (MMS_UTC_TIME t)
    then obtain t' where b: "b = MMS_UTC_TIME t'" using True by (cases b) auto
    show ?thesis using assms by (auto simp: update_simple_def MMS_UTC_TIME b memcpy_prefix)
  next
    case (MMS_BOOLEAN x)
    then obtain x' where b: "b = MMS_BOOLEAN x'" using True by (cases b) auto
    show ?thesis using assms by (auto simp: update_simple_def MMS_BOOLEAN b)
  qed (use assms in \<open>auto simp: update_simple_def\<close>)
qed

lemma equalTypes_refl: "mms_ok a \<Longrightarrow> MmsValue_equalTypes (Some a) (Some a)"
  and equalTypes_components_refl: "list_all mms_ptr_ok xs \<Longrightarrow> equalTypes_components xs xs"
proof -
  have c: "equalTypes_components xs xs" if "list_all mms_ptr_ok xs" "\<And>a. Some a \<in> set xs \<Longrightarrow> mms_ok a \<Longrightarrow> MmsValue_equalTypes (Some a) (Some a)" for xs
    using that by (induction xs) (auto simp: mms_ptr_ok_def)
  show a: "MmsValue_equalTypes (Some a) (Some a)" if "mms_ok a" for a
    using that
  proof (induction a)
    case (MMS_ARRAY xs)
    then show ?case using c [of xs] by fastforce
  next
    case (MMS_STRUCTURE xs)
    then show ?case using c [of xs] by fastforce
  qed simp_all
  show "list_all mms_ptr_ok xs \<Longrightarrow> equalTypes_components xs xs" using c a by blast
qed

lemma updated_components:
  assumes "length xs = length ys" and "list_all mms_ptr_ok xs" and "list_all mms_ptr_ok ys"
    and "\<And>a b. Some a \<in> set xs \<Longrightarrow> mms_ok a \<Longrightarrow> mms_ok b \<Longrightarrow> updated a b"
  shows "\<exists>cs ok. updateStructuredComponent True xs ys = Some (cs, ok) \<and> length cs = length xs \<and> list_all mms_ptr_ok cs \<and>
    equalTypes_components xs cs \<and>
    (ok \<and> agree_components same_bit_size xs ys \<longrightarrow> map (map_option content) cs = map (map_option content) ys)"
  using assms
proof (induction xs ys rule: list_induct2)
  case (Cons x xs y ys)
  obtain a b where ab: "x = Some a" "mms_ok a" "y = Some b" "mms_ok b" using Cons.prems(1,2) by (auto simp: mms_ptr_ok_def)
  have "updated a b" using Cons.prems(3) ab by simp
  then obtain v ok where v: "MmsValue_update True x y = Some (Some v, ok)" "mms_ok v" "MmsValue_equalTypes x (Some v)"
    "ok \<and> agree same_bit_size x y \<longrightarrow> content v = content b"
    unfolding updated_def ab by blast
  obtain cs ok' where cs: "updateStructuredComponent True xs ys = Some (cs, ok')" "length cs = length xs" "list_all mms_ptr_ok cs"
    "equalTypes_components xs cs" "ok' \<and> agree_components same_bit_size xs ys \<longrightarrow> map (map_option content) cs = map (map_option content) ys"
    using Cons.IH Cons.prems by auto
  have "equalTypes_components xs xs" using equalTypes_components_refl Cons.prems(1) by simp
  then show ?case using v cs Cons.prems(1) ab(3) by (cases ok) auto
qed auto

lemma updated_simple: "is_simple a \<Longrightarrow> mms_ok a \<Longrightarrow> mms_ok b \<Longrightarrow> updated a b"
  using update_simple_ok [of a b] by (auto simp: updated_def)

lemma updated_all: "mms_ok a \<Longrightarrow> mms_ok b \<Longrightarrow> updated a b"
proof (induction a arbitrary: b)
  case (MMS_ARRAY xs)
  have r: "equalTypes_components xs xs" using equalTypes_components_refl MMS_ARRAY.prems by simp
  show ?case
  proof (cases b)
    case (MMS_ARRAY ys)
    then show ?thesis
      using updated_components [of xs ys] MMS_ARRAY.IH MMS_ARRAY.prems r
      by (cases "length xs = length ys") (fastforce simp: updated_def)+
  qed (use MMS_ARRAY.prems r in \<open>simp_all add: updated_def ex_bool_eq\<close>)
next
  case (MMS_STRUCTURE xs)
  have r: "equalTypes_components xs xs" using equalTypes_components_refl MMS_STRUCTURE.prems by simp
  show ?case
  proof (cases b)
    case (MMS_STRUCTURE ys)
    then show ?thesis
      using updated_components [of xs ys] MMS_STRUCTURE.IH MMS_STRUCTURE.prems r
      by (cases "length xs = length ys") (fastforce simp: updated_def)+
  qed (use MMS_STRUCTURE.prems r in \<open>simp_all add: updated_def ex_bool_eq\<close>)
qed (rule updated_simple, simp, assumption, assumption)+

text \<open>C11: On well-formed values, and with memory, an update always returns a well-formed value of the
  type it had before, whatever the new value is. When it reports success, the value has the content of
  the new one, provided the bit strings have the sizes of the new ones.\<close>

theorem value_update:
  assumes "mms_ok a" and "mms_ok b"
  shows "\<exists>v ok. MmsValue_update True (Some a) (Some b) = Some (Some v, ok) \<and> mms_ok v \<and>
     MmsValue_equalTypes (Some a) (Some v) \<and> (ok \<and> agree same_bit_size (Some a) (Some b) \<longrightarrow> content v = content b)"
  using updated_all [OF assms] by (simp add: updated_def)

theorem value_update_witness:
  "\<exists>v ok. MmsValue_update True (Some (MMS_STRUCTURE [Some (MMS_BOOLEAN True), Some (MMS_OCTET_STRING 0 (-2) [0, 0])]))
     (Some (MMS_STRUCTURE [Some (MMS_BOOLEAN False), Some (MMS_OCTET_STRING 3 3 [1, 2, 3])])) = Some (Some v, ok) \<and> mms_ok v"
  using value_update [of "MMS_STRUCTURE [Some (MMS_BOOLEAN True), Some (MMS_OCTET_STRING 0 (-2) [0, 0])]"
      "MMS_STRUCTURE [Some (MMS_BOOLEAN False), Some (MMS_OCTET_STRING 3 3 [1, 2, 3])]"] by auto

subsection \<open>Copies\<close>

lemma clone_string_ok:
  "int (length cs) \<le> n \<Longrightarrow> clone_string True (Some cs) n = Some (Some cs)"
  by (simp add: clone_string_def StringUtils_copyStringMax_def)

lemma clone_primitive_ok:
  assumes "primitive_ok i"
  shows "Asn1PrimitiveValue_clone True True i = Some (Ret i)"
  using assms by (simp add: Asn1PrimitiveValue_clone_def primitive_ok_def rd_block_eq)

definition copied :: "MmsValue \<Rightarrow> bool" where
  "copied a \<longleftrightarrow> (\<exists>v. MmsValue_clone True (Some a) = Some (Some v) \<and> mms_ok v \<and> content v = content a)"

lemma clone_simple_ok:
  assumes "mms_ok a" and "is_simple a"
  shows "\<exists>v. clone_simple True a = Some (Some v) \<and> mms_ok v \<and> content v = content a"
  using assms
  by (cases a)
     (auto simp: clone_simple_def clone_string_ok clone_primitive_ok memcpy_prefix rd_block_eq)

lemma copied_components:
  assumes "list_all mms_ptr_ok xs" and "\<And>a. Some a \<in> set xs \<Longrightarrow> mms_ok a \<Longrightarrow> copied a"
  shows "\<exists>cs. clone_components True xs = Some (Some cs) \<and> list_all mms_ptr_ok cs \<and>
    map (map_option content) cs = map (map_option content) xs"
  using assms
proof (induction xs)
  case (Cons x xs)
  then obtain a where a: "x = Some a" "mms_ok a" by (auto simp: mms_ptr_ok_def)
  have "copied a" using Cons.prems(2) a by simp
  then obtain v where "MmsValue_clone True x = Some (Some v)" "mms_ok v" "content v = content a" unfolding copied_def a by blast
  moreover obtain cs where "clone_components True xs = Some (Some cs)" "list_all mms_ptr_ok cs"
    "map (map_option content) cs = map (map_option content) xs" using Cons by auto
  ultimately show ?case using a by simp
qed simp

lemma copied_simple: "is_simple a \<Longrightarrow> mms_ok a \<Longrightarrow> copied a"
  by (simp add: copied_def clone_simple_ok)

lemma copied_all: "mms_ok a \<Longrightarrow> copied a"
proof (induction a)
  case (MMS_ARRAY xs)
  then show ?case using copied_components [of xs] by (fastforce simp: copied_def)
next
  case (MMS_STRUCTURE xs)
  then show ?case using copied_components [of xs] by (fastforce simp: copied_def)
qed (rule copied_simple, simp, assumption)+

text \<open>C17: With memory, the copy of a well-formed value is a well-formed value with the same content,
  which the comparison finds equal to the original.\<close>

theorem value_clone:
  assumes "mms_ok a"
  shows "\<exists>v. MmsValue_clone True (Some a) = Some (Some v) \<and> mms_ok v \<and> content v = content a \<and>
    MmsValue_equals (Some a) (Some v) = Some True"
proof -
  obtain v where v: "MmsValue_clone True (Some a) = Some (Some v)" "mms_ok v" "content v = content a"
    using copied_all [OF assms] by (auto simp: copied_def)
  moreover have "MmsValue_equals (Some a) (Some v) = Some True"
    using compared_all [OF assms v(2)] v(3) by (auto simp: compared_def)
  ultimately show ?thesis by blast
qed

theorem value_clone_witness:
  "\<exists>v. MmsValue_clone True (Some (MMS_ARRAY [Some (MMS_VISIBLE_STRING (Some [65]) 8)])) = Some (Some v) \<and>
     content v = D_array [Some (D_visible (Some [65]))]"
  using value_clone [of "MMS_ARRAY [Some (MMS_VISIBLE_STRING (Some [65]) 8)]"] by auto

end
