(* ===== verification/Mms_Data.thy ===== *)
theory Mms_Data
  imports Mms_Equality Tlv_Loop
begin

unbundle bit_operations_syntax

section \<open>The wire format of MMS values\<close>

text \<open>
  Model of the value functions of \<open>src/mms/iso_mms/server/mms_access_result.c\<close>: the encoding of a
  value as MMS \<open>Data\<close>, its size, an upper bound for the size, and the recursive decoder.

  The flag \<open>encode\<close> of \<open>MmsValue_encodeMmsData\<close> selects between two functions: \<open>mmsData_size\<close> is the
  branch that returns the size, \<open>MmsValue_encodeMmsData\<close> the one that writes. The decoder counts its
  recursion depth up to a limit; here it gets the levels that are left. Its result is \<open>Fail\<close> on the
  error exit and otherwise the value, which may be \<open>NULL\<close>, with the position behind it. Sizes are
  natural numbers; the sums of the code stay inside \<open>int\<close> for every PDU.
\<close>

subsection \<open>Size\<close>

definition simple_size :: "MmsValue \<Rightarrow> nat option" where
  "simple_size self =
     (case self of
        MMS_BOOLEAN b \<Rightarrow> Some 3
      | MMS_DATA_ACCESS_ERROR e \<Rightarrow> do { n \<leftarrow> BerEncoder_UInt32determineEncodedSize e; Some (2 + n) }
      | MMS_VISIBLE_STRING buf n \<Rightarrow> Some (BerEncoder_determineEncodedStringSize buf)
      | MMS_UNSIGNED i \<Rightarrow> Some (2 + psize i)
      | MMS_INTEGER i \<Rightarrow> Some (2 + psize i)
      | MMS_UTC_TIME t \<Rightarrow> Some 10
      | MMS_BIT_STRING n buf \<Rightarrow> Some (BerEncoder_determineEncodedBitStringSize n)
      | MMS_BINARY_TIME n buf \<Rightarrow> Some (2 + n)
      | MMS_OCTET_STRING n m buf \<Rightarrow> Some (1 + BerEncoder_determineLengthSize n + n)
      | MMS_FLOAT e f buf \<Rightarrow> Some ((unat f div 8 + 1) + 2)
      | MMS_STRING buf n \<Rightarrow> Some (BerEncoder_determineEncodedStringSize buf)
      | _ \<Rightarrow> Some 0)"

definition container_size :: "nat \<Rightarrow> nat" where
  "container_size elementsSize = 1 + elementsSize + BerEncoder_determineLengthSize elementsSize"

fun mmsData_size :: "MmsValue option \<Rightarrow> nat option" and components_size :: "MmsValue option list \<Rightarrow> nat option" where
  "mmsData_size None = None"
| "mmsData_size (Some (MMS_ARRAY cs)) = map_option container_size (components_size cs)"
| "mmsData_size (Some (MMS_STRUCTURE cs)) = map_option container_size (components_size cs)"
| "mmsData_size (Some v) = simple_size v"
| "components_size [] = Some 0"
| "components_size (p # ps) = do { n \<leftarrow> mmsData_size p; m \<leftarrow> components_size ps; Some (n + m) }"

subsection \<open>Encoder\<close>

definition encode_simple :: "MmsValue \<Rightarrow> writer" where
  "encode_simple self s =
     (case self of
        MMS_BOOLEAN b \<Rightarrow> BerEncoder_encodeBoolean 0x83 b s
      | MMS_DATA_ACCESS_ERROR e \<Rightarrow> do {
          n \<leftarrow> BerEncoder_UInt32determineEncodedSize e;
          s \<leftarrow> BerEncoder_encodeTL 0x80 n s;
          BerEncoder_encodeUInt32 e s }
      | MMS_VISIBLE_STRING buf n \<Rightarrow> BerEncoder_encodeStringWithTag 0x8a buf s
      | MMS_UNSIGNED i \<Rightarrow> BerEncoder_encodeAsn1PrimitiveValue 0x86 i s
      | MMS_INTEGER i \<Rightarrow> BerEncoder_encodeAsn1PrimitiveValue 0x85 i s
      | MMS_UTC_TIME t \<Rightarrow> BerEncoder_encodeOctetString 0x91 t 8 s
      | MMS_BIT_STRING n buf \<Rightarrow> BerEncoder_encodeBitString 0x84 n buf s
      | MMS_BINARY_TIME n buf \<Rightarrow> BerEncoder_encodeOctetString 0x8c buf n s
      | MMS_OCTET_STRING n m buf \<Rightarrow> BerEncoder_encodeOctetString 0x89 buf n s
      | MMS_FLOAT e f buf \<Rightarrow> do {
          s \<leftarrow> BerEncoder_encodeTL 0x87 (unat f div 8 + 1) s;
          BerEncoder_encodeFloat buf f e s }
      | MMS_STRING buf n \<Rightarrow> BerEncoder_encodeStringWithTag 0x90 buf s
      | _ \<Rightarrow> Some s)"

fun MmsValue_encodeMmsData :: "MmsValue option \<Rightarrow> writer" and encode_components :: "MmsValue option list \<Rightarrow> writer" where
  "MmsValue_encodeMmsData None s = None"
| "MmsValue_encodeMmsData (Some (MMS_ARRAY cs)) s = do {
     elementsSize \<leftarrow> components_size cs;
     s \<leftarrow> put 0xa1 s;
     s \<leftarrow> BerEncoder_encodeLength elementsSize s;
     encode_components cs s }"
| "MmsValue_encodeMmsData (Some (MMS_STRUCTURE cs)) s = do {
     componentsSize \<leftarrow> components_size cs;
     s \<leftarrow> put 0xa2 s;
     s \<leftarrow> BerEncoder_encodeLength componentsSize s;
     encode_components cs s }"
| "MmsValue_encodeMmsData (Some v) s = encode_simple v s"
| "encode_components [] s = Some s"
| "encode_components (p # ps) s = do { s \<leftarrow> MmsValue_encodeMmsData p s; encode_components ps s }"

definition max_simple_size :: "MmsValue \<Rightarrow> nat" where
  "max_simple_size self =
     (case self of
        MMS_BOOLEAN b \<Rightarrow> 3
      | MMS_DATA_ACCESS_ERROR e \<Rightarrow> 7
      | MMS_VISIBLE_STRING buf n \<Rightarrow> container_size (nat \<bar>n\<bar>)
      | MMS_UNSIGNED i \<Rightarrow> 2 + maxSize i
      | MMS_INTEGER i \<Rightarrow> 2 + maxSize i
      | MMS_UTC_TIME t \<Rightarrow> 10
      | MMS_BIT_STRING n buf \<Rightarrow> BerEncoder_determineEncodedBitStringSize n
      | MMS_BINARY_TIME n buf \<Rightarrow> 2 + n
      | MMS_OCTET_STRING n m buf \<Rightarrow> container_size (nat \<bar>m\<bar>)
      | MMS_FLOAT e f buf \<Rightarrow> (unat f div 8 + 1) + 2
      | MMS_STRING buf n \<Rightarrow> container_size (nat \<bar>n\<bar>)
      | _ \<Rightarrow> 0)"

fun MmsValue_getMaxEncodedSize :: "MmsValue option \<Rightarrow> nat option"
  and MmsValue_getMaxStructSize :: "MmsValue option list \<Rightarrow> nat option" where
  "MmsValue_getMaxEncodedSize None = None"
| "MmsValue_getMaxEncodedSize (Some (MMS_ARRAY cs)) = map_option container_size (MmsValue_getMaxStructSize cs)"
| "MmsValue_getMaxEncodedSize (Some (MMS_STRUCTURE cs)) = map_option container_size (MmsValue_getMaxStructSize cs)"
| "MmsValue_getMaxEncodedSize (Some v) = Some (max_simple_size v)"
| "MmsValue_getMaxStructSize [] = Some 0"
| "MmsValue_getMaxStructSize (p # ps) = do { n \<leftarrow> MmsValue_getMaxEncodedSize p; m \<leftarrow> MmsValue_getMaxStructSize ps; Some (n + m) }"

subsection \<open>Decoder\<close>

text \<open>The tags of the \<open>switch\<close> in \<open>getNumberOfElements\<close>; the tag \<open>0x90\<close> is missing there.\<close>

definition count_element :: "nat handler" where
  "count_element buffer endPos tag len bufPos elementIndex =
     (if tag \<in> {0x80, 0xa1, 0xa2, 0x83, 0x84, 0x85, 0x86, 0x87, 0x89, 0x8a, 0x8c, 0x91, 0x00}
      then Some (Suc elementIndex, Ret (bufPos + len))
      else Some (elementIndex, Fail))"

definition getNumberOfElements :: "byte list \<Rightarrow> nat \<Rightarrow> nat \<Rightarrow> nat ret option" where
  "getNumberOfElements buffer bufPos elementLength = do {
     (elementIndex, r) \<leftarrow> tlv_loop count_element buffer (bufPos + elementLength) bufPos 0;
     Some (case r of Fail \<Rightarrow> Fail | Ret _ \<Rightarrow> Ret elementIndex) }"

text \<open>The result of a constructor as a pointer. Where the code uses it without a check, \<open>NULL\<close> is
  undefined behaviour, the same \<open>None\<close>.\<close>

definition pointer :: "'a ret \<Rightarrow> 'a option" where
  "pointer r = (case r of Fail \<Rightarrow> None | Ret v \<Rightarrow> Some v)"

definition decode_bits :: "bool \<Rightarrow> byte list \<Rightarrow> nat \<Rightarrow> nat \<Rightarrow> MmsValue ret option" where
  "decode_bits mem buffer dataLength bufPos = do {
     padding \<leftarrow> rd buffer bufPos;
     if padding > 7 then Some Fail
     else do {
       let bitStringLength = 8 * (int dataLength - 1) - uint padding;
       value \<leftarrow> pointer (MmsValue_newBitString mem bitStringLength);
       (case value of
          MMS_BIT_STRING n buf \<Rightarrow> do {
            buf \<leftarrow> memcpy buf 0 buffer (bufPos + 1) (dataLength - 1);
            Some (Ret (MMS_BIT_STRING n buf)) }
        | _ \<Rightarrow> None) } }"

definition decode_integer ::
  "MmsValue ret option \<Rightarrow> byte list \<Rightarrow> nat \<Rightarrow> nat \<Rightarrow> MmsValue ret option" where
  "decode_integer new buffer dataLength bufPos =
     (if dataLength > 8 then Some Fail
      else do {
        r \<leftarrow> new;
        value \<leftarrow> pointer r;
        let store = (\<lambda>i. do { os \<leftarrow> memcpy (octets i) 0 buffer bufPos dataLength; Some (i\<lparr>octets := os, psize := dataLength\<rparr>) });
        (case value of
           MMS_INTEGER i \<Rightarrow> do { i \<leftarrow> store i; Some (Ret (MMS_INTEGER i)) }
         | MMS_UNSIGNED i \<Rightarrow> do { i \<leftarrow> store i; Some (Ret (MMS_UNSIGNED i)) }
         | _ \<Rightarrow> None) })"

definition decode_octets :: "bool \<Rightarrow> byte list \<Rightarrow> nat \<Rightarrow> nat \<Rightarrow> MmsValue option" where
  "decode_octets mem buffer dataLength bufPos = do {
     value \<leftarrow> pointer (MmsValue_newOctetString mem (int dataLength) (int dataLength));
     (case value of
        MMS_OCTET_STRING n m buf \<Rightarrow> do { buf \<leftarrow> memcpy buf 0 buffer bufPos dataLength; Some (MMS_OCTET_STRING n m buf) }
      | _ \<Rightarrow> None) }"

definition decode_binary_time :: "bool \<Rightarrow> byte list \<Rightarrow> nat \<Rightarrow> nat \<Rightarrow> MmsValue option option" where
  "decode_binary_time mem buffer dataLength bufPos =
     (if dataLength = 4 \<or> dataLength = 6 then do {
        value \<leftarrow> pointer (MmsValue_newBinaryTime mem (dataLength = 4));
        (case value of
           MMS_BINARY_TIME n buf \<Rightarrow> do { buf \<leftarrow> memcpy buf 0 buffer bufPos dataLength; Some (Some (MMS_BINARY_TIME n buf)) }
         | _ \<Rightarrow> None) }
      else Some None)"

definition decode_utc_time :: "bool \<Rightarrow> byte list \<Rightarrow> nat \<Rightarrow> MmsValue option" where
  "decode_utc_time mem buffer bufPos = do {
     value \<leftarrow> pointer (MmsValue_newUtcTime mem 0);
     MmsValue_setUtcTimeByBuffer value (Some (drop bufPos buffer)) }"

text \<open>The cases of the decoder without recursion. \<open>Fail\<close> is the error exit; otherwise the value (or
  \<open>NULL\<close>) and the position behind it.\<close>

type_synonym decoded = "(MmsValue option \<times> nat) ret option"

definition at_end :: "nat \<Rightarrow> MmsValue option \<Rightarrow> (MmsValue option \<times> nat) ret" where
  "at_end endPos v = Ret (v, endPos)"

definition decode_simple :: "bool \<Rightarrow> byte list \<Rightarrow> byte \<Rightarrow> nat \<Rightarrow> nat \<Rightarrow> decoded" where
  "decode_simple mem buffer tag dataLength bufPos =
     (let next = at_end (bufPos + dataLength) in
      if tag = 0x80 then do {
        e \<leftarrow> BerDecoder_decodeUint32 buffer dataLength bufPos;
        Some (next (pointer (MmsValue_newDataAccessError mem e))) }
      else if tag = 0x83 then do {
        b \<leftarrow> BerDecoder_decodeBoolean buffer dataLength bufPos;
        Some (next (pointer (MmsValue_newBoolean mem b))) }
      else if tag = 0x84 then do {
        r \<leftarrow> decode_bits mem buffer dataLength bufPos;
        Some (case r of Fail \<Rightarrow> Fail | Ret v \<Rightarrow> next (Some v)) }
      else if tag = 0x85 then do {
        r \<leftarrow> decode_integer (MmsValue_newInteger mem (int dataLength * 8)) buffer dataLength bufPos;
        Some (case r of Fail \<Rightarrow> Fail | Ret v \<Rightarrow> next (Some v)) }
      else if tag = 0x86 then do {
        r \<leftarrow> decode_integer (MmsValue_newUnsigned mem (int dataLength * 8)) buffer dataLength bufPos;
        Some (case r of Fail \<Rightarrow> Fail | Ret v \<Rightarrow> next (Some v)) }
      else if tag = 0x87 then
        (if dataLength = 9 then do {
           d \<leftarrow> BerDecoder_decodeDouble buffer bufPos;
           Some (next (pointer (MmsValue_newDouble mem d))) }
         else if dataLength = 5 then do {
           d \<leftarrow> BerDecoder_decodeFloat buffer bufPos;
           Some (next (pointer (MmsValue_newFloat mem d))) }
         else Some (next None))
      else if tag = 0x89 then do { v \<leftarrow> decode_octets mem buffer dataLength bufPos; Some (next (Some v)) }
      else if tag = 0x8a then do {
        r \<leftarrow> MmsValue_newVisibleStringFromByteArray mem buffer bufPos dataLength;
        Some (next (pointer r)) }
      else if tag = 0x8c then do { v \<leftarrow> decode_binary_time mem buffer dataLength bufPos; Some (next v) }
      else if tag = 0x90 then do {
        r \<leftarrow> MmsValue_newVisibleStringFromByteArray mem buffer bufPos dataLength;
        v \<leftarrow> pointer r;
        (case v of MMS_VISIBLE_STRING buf n \<Rightarrow> Some (next (Some (MMS_STRING buf n))) | _ \<Rightarrow> None) }
      else if tag = 0x91 then
        (if dataLength = 8 then do { v \<leftarrow> decode_utc_time mem buffer bufPos; Some (next (Some v)) } else Some Fail)
      else if tag = 0x00 then Some (at_end bufPos None)
      else Some Fail)"

text \<open>The loop over the elements of an array or a structure; \<open>dec\<close> decodes one element.\<close>

fun decode_elements ::
  "(nat \<Rightarrow> nat \<Rightarrow> decoded) \<Rightarrow> byte list \<Rightarrow> nat \<Rightarrow> nat \<Rightarrow> nat \<Rightarrow> MmsValue option \<Rightarrow> nat \<Rightarrow> decoded" where
  "decode_elements dec buffer dataEndBufPos i 0 value bufPos = Some (case value of None \<Rightarrow> Fail | Some v \<Rightarrow> Ret (Some v, bufPos))"
| "decode_elements dec buffer dataEndBufPos i (Suc n) value bufPos = do {
     r \<leftarrow> BerDecoder_decodeLength buffer (bufPos + 1) dataEndBufPos;
     (case r of
        Fail \<Rightarrow> Some Fail
      | Ret (newBufPos, elementLength) \<Rightarrow> do {
          e \<leftarrow> dec bufPos (newBufPos + elementLength);
          (case e of
             Ret (Some elementValue, _) \<Rightarrow> do {
               value \<leftarrow> value;
               decode_elements dec buffer dataEndBufPos (Suc i) n
                 (Some (MmsValue_setElement value (int i) (Some elementValue))) (newBufPos + elementLength) }
           | _ \<Rightarrow> Some Fail) }) }"

text \<open>The first argument is the number of levels left, \<open>maxDepth - depth\<close>.\<close>

fun MmsValue_decodeMmsDataRecursive :: "nat \<Rightarrow> bool \<Rightarrow> byte list \<Rightarrow> nat \<Rightarrow> nat \<Rightarrow> decoded" where
  "MmsValue_decodeMmsDataRecursive 0 mem buffer bufPos bufferLength = Some Fail"
| "MmsValue_decodeMmsDataRecursive (Suc levels) mem buffer bufPos bufferLength =
     (if bufferLength < 1 then Some Fail
      else do {
        tag \<leftarrow> rd buffer bufPos;
        r \<leftarrow> BerDecoder_decodeLength buffer (bufPos + 1) bufferLength;
        (case r of
           Fail \<Rightarrow> Some Fail
         | Ret (bufPos, dataLength) \<Rightarrow>
             if tag \<noteq> 0 \<and> tag \<noteq> 0x8a \<and> tag \<noteq> 0x90 \<and> tag \<noteq> 0x89 \<and> dataLength = 0 then Some Fail
             else if tag = 0xa1 \<or> tag = 0xa2 then do {
               elementCount \<leftarrow> getNumberOfElements buffer bufPos dataLength;
               (case elementCount of
                  Fail \<Rightarrow> Some Fail
                | Ret n \<Rightarrow>
                    decode_elements (MmsValue_decodeMmsDataRecursive levels mem buffer) buffer bufferLength 0 n
                      (pointer (if tag = 0xa1 then MmsValue_createEmptyArray mem n else MmsValue_createEmptyStructure mem n)) bufPos) }
             else decode_simple mem buffer tag dataLength bufPos) })"

definition MmsValue_decodeMmsDataMaxRecursion :: "nat \<Rightarrow> bool \<Rightarrow> byte list \<Rightarrow> nat \<Rightarrow> nat \<Rightarrow> decoded" where
  "MmsValue_decodeMmsDataMaxRecursion maxDepth mem buffer bufPos bufferLength =
     MmsValue_decodeMmsDataRecursive maxDepth mem buffer bufPos bufferLength"

definition MmsValue_decodeMmsData :: "bool \<Rightarrow> byte list \<Rightarrow> nat \<Rightarrow> nat \<Rightarrow> decoded" where
  "MmsValue_decodeMmsData mem buffer bufPos bufferLength = MmsValue_decodeMmsDataMaxRecursion 25 mem buffer bufPos bufferLength"

lemma pointer_simps [simp]: "pointer (Ret v) = Some v" "pointer Fail = None"
  by (simp_all add: pointer_def)

subsection \<open>What the encoder writes\<close>

definition simple_bytes :: "MmsValue \<Rightarrow> byte list" where
  "simple_bytes self =
     (case self of
        MMS_BOOLEAN b \<Rightarrow> ber_tlv 0x83 [if b then 1 else 0]
      | MMS_DATA_ACCESS_ERROR e \<Rightarrow> ber_tlv 0x80 (ber_uint32 e)
      | MMS_VISIBLE_STRING buf n \<Rightarrow> ber_tlv 0x8a (case buf of None \<Rightarrow> [] | Some cs \<Rightarrow> cs)
      | MMS_UNSIGNED i \<Rightarrow> ber_tlv 0x86 (stored i)
      | MMS_INTEGER i \<Rightarrow> ber_tlv 0x85 (stored i)
      | MMS_UTC_TIME t \<Rightarrow> ber_tlv 0x91 t
      | MMS_BIT_STRING n buf \<Rightarrow> ber_bitstring 0x84 n buf
      | MMS_BINARY_TIME n buf \<Rightarrow> ber_tlv 0x8c (take n buf)
      | MMS_OCTET_STRING n m buf \<Rightarrow> ber_tlv 0x89 (take n buf)
      | MMS_FLOAT e f buf \<Rightarrow> ber_tlv 0x87 (e # rev (take (unat f div 8) buf))
      | MMS_STRING buf n \<Rightarrow> ber_tlv 0x90 (case buf of None \<Rightarrow> [] | Some cs \<Rightarrow> cs)
      | _ \<Rightarrow> [])"

primrec pointed :: "byte list option \<Rightarrow> byte list" where
  "pointed None = []"
| "pointed (Some bs) = bs"

primrec data_bytes :: "MmsValue \<Rightarrow> byte list" where
  "data_bytes (MMS_ARRAY cs) = ber_tlv 0xa1 (concat (map pointed (map (map_option data_bytes) cs)))"
| "data_bytes (MMS_STRUCTURE cs) = ber_tlv 0xa2 (concat (map pointed (map (map_option data_bytes) cs)))"
| "data_bytes (MMS_BOOLEAN b) = simple_bytes (MMS_BOOLEAN b)"
| "data_bytes (MMS_BIT_STRING n buf) = simple_bytes (MMS_BIT_STRING n buf)"
| "data_bytes (MMS_INTEGER i) = simple_bytes (MMS_INTEGER i)"
| "data_bytes (MMS_UNSIGNED i) = simple_bytes (MMS_UNSIGNED i)"
| "data_bytes (MMS_FLOAT e f buf) = simple_bytes (MMS_FLOAT e f buf)"
| "data_bytes (MMS_OCTET_STRING n m buf) = simple_bytes (MMS_OCTET_STRING n m buf)"
| "data_bytes (MMS_VISIBLE_STRING b n) = simple_bytes (MMS_VISIBLE_STRING b n)"
| "data_bytes (MMS_STRING b n) = simple_bytes (MMS_STRING b n)"
| "data_bytes (MMS_BINARY_TIME n buf) = simple_bytes (MMS_BINARY_TIME n buf)"
| "data_bytes (MMS_UTC_TIME t) = simple_bytes (MMS_UTC_TIME t)"
| "data_bytes (MMS_DATA_ACCESS_ERROR e) = simple_bytes (MMS_DATA_ACCESS_ERROR e)"

definition component_bytes :: "MmsValue option list \<Rightarrow> byte list" where
  "component_bytes cs = concat (map pointed (map (map_option data_bytes) cs))"

lemma component_bytes_simps [simp]:
  "component_bytes [] = []" "component_bytes (Some v # cs) = data_bytes v @ component_bytes cs"
  by (simp_all add: component_bytes_def)

lemma data_bytes_container:
  "data_bytes (MMS_ARRAY cs) = ber_tlv 0xa1 (component_bytes cs)"
  "data_bytes (MMS_STRUCTURE cs) = ber_tlv 0xa2 (component_bytes cs)"
  by (simp_all add: component_bytes_def)

declare data_bytes.simps(1,2) [simp del]
declare data_bytes_container [simp]

lemma data_bytes_simple: "is_simple v \<Longrightarrow> data_bytes v = simple_bytes v"
  by (cases v) simp_all

lemma data_bytes_nonempty: "data_bytes v \<noteq> []"
  by (cases v) (simp_all add: simple_bytes_def ber_tlv_def ber_bitstring_def Let_def)

text \<open>Where the announced sizes are the sizes written: the lengths 65535 of contents and the four sizes
  of bit strings for which \<open>BerEncoder_determineLengthSize\<close> and
  \<open>BerEncoder_determineEncodedBitStringSize\<close> are one off.\<close>

primrec exact :: "MmsValue \<Rightarrow> bool" where
  "exact (MMS_ARRAY cs) = (list_all (\<lambda>p. p \<noteq> Some False) (map (map_option exact) cs) \<and> length (component_bytes cs) \<noteq> 65535)"
| "exact (MMS_STRUCTURE cs) = (list_all (\<lambda>p. p \<noteq> Some False) (map (map_option exact) cs) \<and> length (component_bytes cs) \<noteq> 65535)"
| "exact (MMS_BOOLEAN b) = True"
| "exact (MMS_BIT_STRING n buf) = (bitstring_bytes n \<notin> {127, 255, 65534, 65535})"
| "exact (MMS_INTEGER i) = (psize i < 128)"
| "exact (MMS_UNSIGNED i) = (psize i < 128)"
| "exact (MMS_FLOAT e f buf) = True"
| "exact (MMS_OCTET_STRING n m buf) = (n \<noteq> 65535)"
| "exact (MMS_VISIBLE_STRING b n) = True"
| "exact (MMS_STRING b n) = True"
| "exact (MMS_BINARY_TIME n buf) = True"
| "exact (MMS_UTC_TIME t) = True"
| "exact (MMS_DATA_ACCESS_ERROR e) = True"

lemma exact_components: "list_all (\<lambda>p. p \<noteq> Some False) (map (map_option exact) cs) \<longleftrightarrow> (\<forall>v. Some v \<in> set cs \<longrightarrow> exact v)"
  by (auto simp: list_all_iff)

lemma size_on_simple [simp]: "is_simple v \<Longrightarrow> mmsData_size (Some v) = simple_size v"
  by (cases v) simp_all

lemma encode_on_simple [simp]: "is_simple v \<Longrightarrow> MmsValue_encodeMmsData (Some v) s = encode_simple v s"
  by (cases v) simp_all

lemma length_ber_tlv: "length bs \<noteq> 65535 \<Longrightarrow> length (ber_tlv tag bs) = container_size (length bs)"
  by (simp add: ber_tlv_def container_size_def length_ber_length)

lemma put_from_take: "a + n \<le> m \<Longrightarrow> put_from (take m src) a n s = put_from src a n s"
proof (induction n arbitrary: a s)
  case (Suc n)
  then have "rd (take m src) a = rd src a" by (auto simp: rd_def)
  then show ?case using Suc by (simp cong: Option.bind_cong)
qed simp

lemma writes_encodeFloat_prefix:
  assumes "unat f div 8 \<le> length buf"
  shows "writes (BerEncoder_encodeFloat buf f e) (e # rev (take (unat f div 8) buf))"
proof -
  have "BerEncoder_encodeFloat buf f e = BerEncoder_encodeFloat (take (unat f div 8) buf) f e"
    by (rule ext) (simp add: BerEncoder_encodeFloat_def put_from_take)
  then show ?thesis using writes_encodeFloat [of f "take (unat f div 8) buf" e] assms by simp
qed

lemma minimal_length: "length (ber_uint32 e) < 128"
  using length_ber_uint32 [of e] by linarith

lemma length_ber_bitstring:
  assumes "length buf = bitstring_bytes n" and "bitstring_bytes n \<notin> {127, 255, 65534, 65535}"
  shows "length (ber_bitstring tag n buf) = BerEncoder_determineEncodedBitStringSize n"
proof -
  have "BerEncoder_determineLengthSize (bitstring_bytes n) = length (ber_length (bitstring_bytes n + 1))"
    using assms(2) by (auto simp: length_ber_length BerEncoder_determineLengthSize_def)
  then show ?thesis using assms(1) by (auto simp: ber_bitstring_def Let_def BerEncoder_determineEncodedBitStringSize_def)
qed

lemma octets_fit: "mms_ok (MMS_OCTET_STRING n m buf) \<Longrightarrow> n \<le> length buf"
  by auto

text \<open>What a simple value is written as, and how its size is announced.\<close>

definition written :: "MmsValue option \<Rightarrow> byte list \<Rightarrow> bool" where
  "written p bs \<longleftrightarrow> writes (MmsValue_encodeMmsData p) bs \<and> mmsData_size p = Some (length bs)"

lemma encode_simple_bytes:
  assumes "mms_ok v" and "exact v" and "is_simple v"
  shows "writes (encode_simple v) (simple_bytes v)"
proof (cases v)
  case (MMS_BOOLEAN b)
  then show ?thesis by (simp add: encode_simple_def [abs_def] simple_bytes_def ber_tlv_def ber_length_small writes_encodeBoolean)
next
  case (MMS_DATA_ACCESS_ERROR e)
  have "writes (\<lambda>s. BerEncoder_encodeTL 0x80 (length (ber_uint32 e)) s \<bind> BerEncoder_encodeUInt32 e)
      ((0x80 # ber_length (length (ber_uint32 e))) @ ber_uint32 e)"
    by (rule writes_bind [OF writes_encodeTL writes_encodeUInt32])
  then show ?thesis using MMS_DATA_ACCESS_ERROR
    by (simp add: encode_simple_def [abs_def] simple_bytes_def ber_tlv_def UInt32determineEncodedSize_eq)
next
  case (MMS_FLOAT e f buf)
  have "unat f div 8 \<le> length buf" using assms(1) MMS_FLOAT by auto
  then have "writes (\<lambda>s. BerEncoder_encodeTL 0x87 (unat f div 8 + 1) s \<bind> BerEncoder_encodeFloat buf f e)
      ((0x87 # ber_length (unat f div 8 + 1)) @ e # rev (take (unat f div 8) buf))"
    by (intro writes_bind writes_encodeTL writes_encodeFloat_prefix)
  then show ?thesis using MMS_FLOAT \<open>unat f div 8 \<le> length buf\<close>
    by (simp add: encode_simple_def [abs_def] simple_bytes_def ber_tlv_def)
next
  case (MMS_VISIBLE_STRING b n)
  then show ?thesis using assms(1) writes_encodeStringWithTag [of "0x8a" b]
    by (auto simp: encode_simple_def [abs_def] simple_bytes_def)
next
  case (MMS_STRING b n)
  then show ?thesis using assms(1) writes_encodeStringWithTag [of "0x90" b]
    by (auto simp: encode_simple_def [abs_def] simple_bytes_def)
next
  case (MMS_BIT_STRING n buf)
  then show ?thesis using assms(1) writes_encodeBitString [of n buf "0x84"]
    by (simp add: encode_simple_def [abs_def] simple_bytes_def bitStringByteSize_eq)
next
  case (MMS_OCTET_STRING n m buf)
  then show ?thesis using assms(1) octets_fit [of n m buf] writes_encodeOctetString [of n buf "0x89"]
    by (simp add: encode_simple_def [abs_def] simple_bytes_def)
next
  case (MMS_BINARY_TIME n buf)
  then show ?thesis using assms(1) writes_encodeOctetString [of n buf "0x8c"]
    by (auto simp: encode_simple_def [abs_def] simple_bytes_def)
next
  case (MMS_UTC_TIME t)
  then show ?thesis using assms(1) writes_encodeOctetString [of 8 t "0x91"]
    by (simp add: encode_simple_def [abs_def] simple_bytes_def)
qed (use assms writes_encodeAsn1PrimitiveValue in \<open>simp_all add: encode_simple_def [abs_def] simple_bytes_def\<close>)

lemma simple_size_exact:
  assumes "mms_ok v" and "exact v" and "is_simple v"
  shows "simple_size v = Some (length (simple_bytes v))"
proof (cases v)
  case (MMS_BIT_STRING n buf)
  then show ?thesis using assms by (simp add: simple_size_def simple_bytes_def length_ber_bitstring bitStringByteSize_eq)
next
  case (MMS_DATA_ACCESS_ERROR e)
  then show ?thesis using minimal_length [of e]
    by (simp add: simple_size_def simple_bytes_def UInt32determineEncodedSize_eq ber_tlv_def ber_length_small)
next
  case (MMS_INTEGER i)
  then show ?thesis using assms by (simp add: simple_size_def simple_bytes_def ber_tlv_def ber_length_small length_stored)
next
  case (MMS_UNSIGNED i)
  then show ?thesis using assms by (simp add: simple_size_def simple_bytes_def ber_tlv_def ber_length_small length_stored)
next
  case (MMS_OCTET_STRING n m buf)
  then have "length (take n buf) = n" "n \<noteq> 65535" using assms octets_fit [of n m buf] by auto
  then have "length (ber_tlv 0x89 (take n buf)) = container_size n" using length_ber_tlv [of "take n buf" "0x89"] by simp
  then show ?thesis using MMS_OCTET_STRING by (simp add: simple_bytes_def simple_size_def container_size_def)
qed (use assms in \<open>auto simp: simple_size_def simple_bytes_def length_ber_tlv container_size_def ber_tlv_def ber_length_small
  BerEncoder_determineEncodedStringSize_def length_ber_length\<close>)

lemma written_components:
  assumes "list_all mms_ptr_ok cs" and "\<And>v. Some v \<in> set cs \<Longrightarrow> written (Some v) (data_bytes v)"
  shows "writes (encode_components cs) (component_bytes cs) \<and> components_size cs = Some (length (component_bytes cs))"
  using assms
proof (induction cs)
  case Nil
  have "encode_components [] = Some" by (rule ext) simp
  then show ?case by (simp add: writes_Some)
next
  case (Cons p cs)
  then obtain v where v: "p = Some v" by (auto simp: mms_ptr_ok_def)
  have w: "writes (MmsValue_encodeMmsData p) (data_bytes v)" "mmsData_size p = Some (length (data_bytes v))"
    using Cons.prems(2) v by (simp_all add: written_def)
  have c: "writes (encode_components cs) (component_bytes cs)" "components_size cs = Some (length (component_bytes cs))"
    using Cons by auto
  have "encode_components (p # cs) = (\<lambda>s. MmsValue_encodeMmsData p s \<bind> encode_components cs)" by (rule ext) simp
  then show ?case using writes_bind [OF w(1) c(1)] w(2) c(2) v by simp
qed

lemma written_container:
  assumes "writes (encode_components cs) (component_bytes cs)" and "components_size cs = Some (length (component_bytes cs))"
    and "length (component_bytes cs) \<noteq> 65535"
  shows "written (Some (MMS_ARRAY cs)) (ber_tlv 0xa1 (component_bytes cs))"
    and "written (Some (MMS_STRUCTURE cs)) (ber_tlv 0xa2 (component_bytes cs))"
proof -
  let ?n = "length (component_bytes cs)"
  have w: "writes (\<lambda>s. put tag s \<bind> (\<lambda>s. BerEncoder_encodeLength ?n s \<bind> encode_components cs))
      ([tag] @ ber_length ?n @ component_bytes cs)" for tag
    by (intro writes_bind writes_put writes_encodeLength assms(1))
  have "MmsValue_encodeMmsData (Some (MMS_ARRAY cs)) = (\<lambda>s. put 0xa1 s \<bind> (\<lambda>s. BerEncoder_encodeLength ?n s \<bind> encode_components cs))"
    "MmsValue_encodeMmsData (Some (MMS_STRUCTURE cs)) = (\<lambda>s. put 0xa2 s \<bind> (\<lambda>s. BerEncoder_encodeLength ?n s \<bind> encode_components cs))"
    using assms(2) by (auto intro!: ext)
  then show "written (Some (MMS_ARRAY cs)) (ber_tlv 0xa1 (component_bytes cs))"
    "written (Some (MMS_STRUCTURE cs)) (ber_tlv 0xa2 (component_bytes cs))"
    using w assms(2,3) by (simp_all add: written_def length_ber_tlv) (simp_all add: ber_tlv_def)
qed

lemma written_simple: "is_simple v \<Longrightarrow> mms_ok v \<Longrightarrow> exact v \<Longrightarrow> written (Some v) (data_bytes v)"
proof -
  assume v: "is_simple v" "mms_ok v" "exact v"
  then have "MmsValue_encodeMmsData (Some v) = encode_simple v" by (intro ext) simp
  then show ?thesis using v by (simp add: written_def data_bytes_simple encode_simple_bytes simple_size_exact)
qed

lemma written_all: "mms_ok v \<Longrightarrow> exact v \<Longrightarrow> written (Some v) (data_bytes v)"
proof (induction v)
  case (MMS_ARRAY cs)
  then have "writes (encode_components cs) (component_bytes cs) \<and> components_size cs = Some (length (component_bytes cs))"
    by (intro written_components) (auto simp: exact_components list_all_iff)
  then show ?case using written_container MMS_ARRAY.prems by simp
next
  case (MMS_STRUCTURE cs)
  then have "writes (encode_components cs) (component_bytes cs) \<and> components_size cs = Some (length (component_bytes cs))"
    by (intro written_components) (auto simp: exact_components list_all_iff)
  then show ?case using written_container MMS_STRUCTURE.prems by simp
qed (rule written_simple, simp, assumption, assumption)+

text \<open>C15: The encoder writes exactly the bytes of the value, as many as the size function announced, and
  touches nothing else; it needs exactly this room. Excepted are the sizes for which the announced
  length field is one byte too short.\<close>

theorem mms_data_encoded:
  assumes "mms_ok v" and "exact v"
  shows "mmsData_size (Some v) = Some (length (data_bytes v)) \<and>
    (\<forall>buf pos. pos + length (data_bytes v) \<le> length buf \<longrightarrow>
       MmsValue_encodeMmsData (Some v) (buf, pos) = Some (patch buf pos (data_bytes v), pos + length (data_bytes v)))"
  using written_all [OF assms] by (auto simp: written_def writesD)

theorem mms_data_encoded_witness:
  "mmsData_size (Some (MMS_STRUCTURE [Some (MMS_BOOLEAN True), Some (MMS_VISIBLE_STRING (Some [65]) 8)])) = Some 8"
  using conjunct1 [OF mms_data_encoded, of "MMS_STRUCTURE [Some (MMS_BOOLEAN True), Some (MMS_VISIBLE_STRING (Some [65]) 8)]"]
  by (simp del: mmsData_size.simps add: simple_bytes_def ber_tlv_def ber_length_def)

subsection \<open>The upper bound of the size\<close>

lemma container_size_mono: "n \<le> m \<Longrightarrow> container_size n \<le> container_size m"
  by (auto simp: container_size_def BerEncoder_determineLengthSize_def)

lemma max_on_simple [simp]: "is_simple v \<Longrightarrow> MmsValue_getMaxEncodedSize (Some v) = Some (max_simple_size v)"
  by (cases v) simp_all

definition bounded :: "nat option \<Rightarrow> nat option \<Rightarrow> bool" where
  "bounded a b \<longleftrightarrow> (\<exists>n m. a = Some n \<and> b = Some m \<and> n \<le> m)"

lemma simple_size_bounded:
  assumes "mms_ok v" and "is_simple v"
  shows "bounded (simple_size v) (Some (max_simple_size v))"
proof -
  have str: "BerEncoder_determineEncodedStringSize (Some cs) \<le> container_size (nat \<bar>n\<bar>)" if "int (length cs) \<le> n" for cs n
  proof -
    have "length cs \<le> nat \<bar>n\<bar>" using that by linarith
    then show ?thesis using container_size_mono by (fastforce simp: BerEncoder_determineEncodedStringSize_def container_size_def)
  qed
  have oct: "Suc (BerEncoder_determineLengthSize n + n) \<le> container_size (nat \<bar>m\<bar>)" if "int n \<le> \<bar>m\<bar>" for n m
    using container_size_mono [of n "nat \<bar>m\<bar>"] that by (simp add: container_size_def nat_le_iff le_nat_iff)
  show ?thesis
    using assms str oct length_ber_uint32
    by (cases v) (auto simp: bounded_def simple_size_def max_simple_size_def primitive_ok_def UInt32determineEncodedSize_eq)
qed

lemma components_size_bounded:
  assumes "list_all mms_ptr_ok cs" and "\<And>v. Some v \<in> set cs \<Longrightarrow> bounded (mmsData_size (Some v)) (MmsValue_getMaxEncodedSize (Some v))"
  shows "bounded (components_size cs) (MmsValue_getMaxStructSize cs)"
  using assms
proof (induction cs)
  case (Cons p cs)
  then obtain v where v: "p = Some v" by (auto simp: mms_ptr_ok_def)
  have "bounded (mmsData_size (Some v)) (MmsValue_getMaxEncodedSize (Some v))" "bounded (components_size cs) (MmsValue_getMaxStructSize cs)"
    using Cons v by auto
  then show ?case unfolding v by (auto simp: bounded_def simp del: mmsData_size.simps MmsValue_getMaxEncodedSize.simps)
qed (simp add: bounded_def)

lemma size_bounded: "mms_ok v \<Longrightarrow> bounded (mmsData_size (Some v)) (MmsValue_getMaxEncodedSize (Some v))"
proof (induction v)
  case (MMS_ARRAY cs)
  then have "bounded (components_size cs) (MmsValue_getMaxStructSize cs)" by (intro components_size_bounded) (auto simp: list_all_iff)
  then show ?case by (auto simp: bounded_def container_size_mono)
next
  case (MMS_STRUCTURE cs)
  then have "bounded (components_size cs) (MmsValue_getMaxStructSize cs)" by (intro components_size_bounded) (auto simp: list_all_iff)
  then show ?case by (auto simp: bounded_def container_size_mono)
qed (simp_all only: size_on_simple max_on_simple is_simple.simps simple_size_bounded)

text \<open>C16: The size a well-formed value announces never exceeds \<open>MmsValue_getMaxEncodedSize\<close>, which
  depends only on the sizes of its buffers.\<close>

theorem max_encoded_size_bound:
  assumes "mms_ok v"
  shows "\<exists>n m. mmsData_size (Some v) = Some n \<and> MmsValue_getMaxEncodedSize (Some v) = Some m \<and> n \<le> m"
  using size_bounded [OF assms] by (simp add: bounded_def)

theorem max_encoded_size_bound_witness:
  "\<exists>n m. mmsData_size (Some (MMS_ARRAY [Some (MMS_VISIBLE_STRING (Some [65, 66]) 200)])) = Some n \<and>
     MmsValue_getMaxEncodedSize (Some (MMS_ARRAY [Some (MMS_VISIBLE_STRING (Some [65, 66]) 200)])) = Some m \<and> n \<le> m"
  by (rule max_encoded_size_bound) simp

subsection \<open>The decoder is safe\<close>

interpretation count_elements: tlv_handler count_element "\<lambda>buffer endPos n. True"
  by unfold_locales (auto simp: count_element_def)

lemma getNumberOfElements_safe:
  assumes "bufPos + len \<le> length buffer"
  shows "\<exists>r. getNumberOfElements buffer bufPos len = Some r"
  using count_elements.loop_safe [OF assms TrueI, of bufPos 0] by (auto simp: getNumberOfElements_def)

text \<open>The nesting depth of a value.\<close>

primrec pointed_depth :: "nat option \<Rightarrow> nat" where
  "pointed_depth None = 0"
| "pointed_depth (Some n) = n"

primrec depth :: "MmsValue \<Rightarrow> nat" where
  "depth (MMS_ARRAY cs) = Suc (foldr max (map pointed_depth (map (map_option depth) cs)) 0)"
| "depth (MMS_STRUCTURE cs) = Suc (foldr max (map pointed_depth (map (map_option depth) cs)) 0)"
| "depth (MMS_BOOLEAN b) = 1"
| "depth (MMS_BIT_STRING n buf) = 1"
| "depth (MMS_INTEGER i) = 1"
| "depth (MMS_UNSIGNED i) = 1"
| "depth (MMS_FLOAT e f buf) = 1"
| "depth (MMS_OCTET_STRING n m buf) = 1"
| "depth (MMS_VISIBLE_STRING b n) = 1"
| "depth (MMS_STRING b n) = 1"
| "depth (MMS_BINARY_TIME n buf) = 1"
| "depth (MMS_UTC_TIME t) = 1"
| "depth (MMS_DATA_ACCESS_ERROR e) = 1"

lemma depth_simple: "is_simple v \<Longrightarrow> depth v = 1"
  by (cases v) simp_all

lemma foldr_max_le: "foldr max ns 0 \<le> (k :: nat) \<longleftrightarrow> (\<forall>n \<in> set ns. n \<le> k)"
  by (induction ns) auto

lemma depth_container:
  assumes "C = MMS_ARRAY \<or> C = MMS_STRUCTURE"
  shows "depth (C cs) \<le> Suc k \<longleftrightarrow> (\<forall>v. Some v \<in> set cs \<longrightarrow> depth v \<le> k)"
proof -
  have "pointed_depth (map_option depth p) \<le> k \<longleftrightarrow> (\<forall>v. p = Some v \<longrightarrow> depth v \<le> k)" for p by (cases p) simp_all
  then show ?thesis using assms by (auto simp: foldr_max_le)
qed

text \<open>What a decoder promises: it returns, and a value it returns is not nested deeper than the limit
  and ends inside the buffer. It is well formed if the buffer is \<open>short\<close>: the sizes of strings are
  16 bit integers, so that longer ones become negative.\<close>

definition decoded_ok :: "bool \<Rightarrow> nat \<Rightarrow> nat \<Rightarrow> nat \<Rightarrow> decoded \<Rightarrow> bool" where
  "decoded_ok short k bufPos endPos x \<longleftrightarrow>
     (\<exists>r. x = Some r \<and> (\<forall>v p. r = Ret (v, p) \<longrightarrow> bufPos \<le> p \<and> p \<le> endPos \<and> (\<forall>w. v = Some w \<longrightarrow> (short \<longrightarrow> mms_ok w) \<and> depth w \<le> k)))"

lemma decoded_fail [simp]: "decoded_ok short k bufPos endPos (Some Fail)"
  by (simp add: decoded_ok_def)

lemma decoded_value:
  "bufPos \<le> p \<Longrightarrow> p \<le> endPos \<Longrightarrow> (\<And>w. v = Some w \<Longrightarrow> (short \<longrightarrow> mms_ok w) \<and> depth w \<le> k) \<Longrightarrow> decoded_ok short k bufPos endPos (Some (at_end p v))"
  by (simp add: decoded_ok_def at_end_def)

lemma decoded_weaken: "decoded_ok short k pos endPos x \<Longrightarrow> pos' \<le> pos \<Longrightarrow> endPos \<le> endPos' \<Longrightarrow> decoded_ok short k pos' endPos' x"
  by (fastforce simp: decoded_ok_def)

lemma decoded_bit_count:
  assumes "1 < len" and "q \<le> 7"
  shows "bitStringByteSize (nat \<bar>8 * (int len - 1) - int q\<bar>) = len - 1"
proof -
  have "nat \<bar>8 * (int len - 1) - int q\<bar> = 8 * (len - 2) + (8 - q)" using assms by (simp add: of_nat_diff nat_eq_iff)
  moreover have "bitStringByteSize (8 * k + (8 - q)) = k + 1" for k using assms(2) by (cases "q = 0") (auto simp: bitStringByteSize_def)
  ultimately show ?thesis using assms(1) by simp
qed

lemma decode_bits_ok:
  assumes "0 < len" and "pos + len \<le> length buffer"
  shows "\<exists>r. decode_bits True buffer len pos = Some r \<and> (\<forall>v. r = Ret v \<longrightarrow> mms_ok v \<and> depth v = 1)"
proof (cases "buffer ! pos > 7")
  case False
  define q where "q = unat (buffer ! pos)"
  have q: "uint (buffer ! pos) = int q" "q \<le> 7" using False by (simp_all add: q_def word_less_nat_alt)
  then have "len - 1 \<le> bitStringByteSize (nat \<bar>8 * (int len - 1) - int q\<bar>)"
    using decoded_bit_count [of len q] assms(1) by (cases "len = 1") auto
  then show ?thesis
    using False assms q(1) by (simp add: decode_bits_def MmsValue_newBitString_def memcpy_eq Let_def)
qed (use assms in \<open>simp add: decode_bits_def\<close>)

lemma decode_integer_ok:
  assumes "0 < len" and "pos + len \<le> length buffer"
  shows "\<exists>r. decode_integer (MmsValue_newInteger True (int len * 8)) buffer len pos = Some r \<and> (\<forall>v. r = Ret v \<longrightarrow> mms_ok v \<and> depth v = 1)"
    and "\<exists>r. decode_integer (MmsValue_newUnsigned True (int len * 8)) buffer len pos = Some r \<and> (\<forall>v. r = Ret v \<longrightarrow> mms_ok v \<and> depth v = 1)"
  using assms
  by (cases "len \<le> 4"; simp add: decode_integer_def MmsValue_newInteger_def MmsValue_newUnsigned_def with_integer_def
      BerInteger_createInt32_def BerInteger_createInt64_def Asn1PrimitiveValue_create_def memcpy_eq Let_def primitive_ok_def)+

lemma visible_string_ok:
  assumes "pos + len \<le> length buffer"
  shows "\<exists>cs. MmsValue_newVisibleStringFromByteArray True buffer pos len = Some (Ret (MMS_VISIBLE_STRING (Some cs) (int16 (int len)))) \<and>
    (length buffer < 32768 \<longrightarrow> mms_ok (MMS_VISIBLE_STRING (Some cs) (int16 (int len))) \<and> mms_ok (MMS_STRING (Some cs) (int16 (int len))))"
proof -
  let ?cs = "takeWhile (\<lambda>b. b \<noteq> 0) (take len (drop pos buffer))"
  have "length ?cs \<le> len" using length_takeWhile_le [of "\<lambda>b. b \<noteq> 0" "take len (drop pos buffer)"] by simp
  moreover have "0 \<notin> set ?cs" by (auto dest: set_takeWhileD)
  moreover have "int16 (int len) = int len" if "length buffer < 32768" using assms that by (simp add: int16_def)
  ultimately show ?thesis using assms
    by (simp add: MmsValue_newVisibleStringFromByteArray_def string_from_bytes_def rd_block_eq)
qed

text \<open>The limit is sharp: a string of 32768 or more bytes is returned with a negative size.\<close>

lemma long_visible_string:
  assumes "pos + len \<le> length buffer" and "32768 \<le> len" and "len < 65536"
  shows "\<exists>cs. MmsValue_newVisibleStringFromByteArray True buffer pos len = Some (Ret (MMS_VISIBLE_STRING (Some cs) (int len - 65536))) \<and>
    \<not> mms_ok (MMS_VISIBLE_STRING (Some cs) (int len - 65536))"
proof -
  have "(int len + 32768) mod 65536 = (int len - 32768 + 65536) mod 65536" by (simp add: add.commute)
  also have "\<dots> = (int len - 32768) mod 65536" by (rule mod_add_self2)
  also have "\<dots> = int len - 32768" using assms(2,3) by (intro mod_pos_pos_trivial) simp_all
  finally have "(int len + 32768) mod 65536 = int len - 32768" .
  then have "int16 (int len) = int len - 65536" by (simp add: int16_def)
  with visible_string_ok [OF assms(1)] assms(3) show ?thesis by auto
qed

lemma decode_fixed_ok:
  assumes "pos + len \<le> length buffer"
  shows "\<exists>v. decode_octets True buffer len pos = Some v \<and> mms_ok v \<and> depth v = 1"
    and "\<exists>v. decode_binary_time True buffer len pos = Some v \<and> (\<forall>w. v = Some w \<longrightarrow> mms_ok w \<and> depth w = 1)"
    and "len = 8 \<Longrightarrow> \<exists>v. decode_utc_time True buffer pos = Some v \<and> mms_ok v \<and> depth v = 1"
proof -
  have "int len mod 65536 < 65536" "int len mod 65536 \<le> int len" by (simp_all add: zmod_le_nonneg_dividend)
  then have "nat (int len mod 65536) < 65536" "int (nat (int len mod 65536)) \<le> int len" by linarith+
  then show "\<exists>v. decode_octets True buffer len pos = Some v \<and> mms_ok v \<and> depth v = 1"
    using assms by (simp add: decode_octets_def MmsValue_newOctetString_def memcpy_eq uint16_def)
  show "\<exists>v. decode_binary_time True buffer len pos = Some v \<and> (\<forall>w. v = Some w \<longrightarrow> mms_ok w \<and> depth w = 1)"
    using assms by (auto simp: decode_binary_time_def MmsValue_newBinaryTime_def memcpy_eq)
  show "\<exists>v. decode_utc_time True buffer pos = Some v \<and> mms_ok v \<and> depth v = 1" if "len = 8"
    using assms that by (simp add: decode_utc_time_def MmsValue_newUtcTime_def MmsValue_setUtcTimeByBuffer_def utc_bytes_def memcpy_prefix)
qed

lemma decode_float_ok:
  assumes "pos + len \<le> length buffer"
  shows "len = 9 \<Longrightarrow> \<exists>d. BerDecoder_decodeDouble buffer pos = Some d \<and> length d = 8"
    and "len = 5 \<Longrightarrow> \<exists>d. BerDecoder_decodeFloat buffer pos = Some d \<and> length d = 4"
  using assms by (auto simp: BerDecoder_decodeDouble_def BerDecoder_decodeFloat_def rd_block_eq)

lemma decode_simple_ok:
  assumes "bufPos + len \<le> endPos" and "endPos \<le> length buffer" and "short \<longrightarrow> length buffer < 32768"
    and "len = 0 \<Longrightarrow> tag \<in> {0, 0x8a, 0x90, 0x89}"
  shows "decoded_ok short (Suc k) bufPos endPos (decode_simple True buffer tag len bufPos)"
proof -
  have fit: "bufPos + len \<le> length buffer" using assms(1,2) by simp
  consider "tag = 0x80" | "tag = 0x83" | "tag = 0x84" | "tag = 0x85" | "tag = 0x86" | "tag = 0x87" | "tag = 0x89" | "tag = 0x8a"
    | "tag = 0x8c" | "tag = 0x90" | "tag = 0x91" | "tag = 0"
    | "tag \<notin> {0x80, 0x83, 0x84, 0x85, 0x86, 0x87, 0x89, 0x8a, 0x8c, 0x90, 0x91, 0}" by blast
  then show ?thesis
  proof cases
    case 1
    then show ?thesis using decodeUint32_safe [OF fit] assms(1)
      by (auto simp: decode_simple_def MmsValue_newDataAccessError_def intro!: decoded_value)
  next
    case 2
    then have "0 < len" using assms(4) by auto
    then show ?thesis using 2 fit assms(1)
      by (auto simp: decode_simple_def BerDecoder_decodeBoolean_def MmsValue_newBoolean_def intro!: decoded_value)
  next
    case 3
    then have "0 < len" using assms(4) by auto
    then show ?thesis using 3 decode_bits_ok [OF _ fit] assms(1)
      by (auto simp: decode_simple_def intro!: decoded_value split: ret.split)
  next
    case 4
    then have "0 < len" using assms(4) by auto
    then show ?thesis using 4 decode_integer_ok(1) [OF _ fit] assms(1)
      by (auto simp: decode_simple_def intro!: decoded_value split: ret.split)
  next
    case 5
    then have "0 < len" using assms(4) by auto
    then show ?thesis using 5 decode_integer_ok(2) [OF _ fit] assms(1)
      by (auto simp: decode_simple_def intro!: decoded_value split: ret.split)
  next
    case 6
    then show ?thesis using decode_float_ok [OF fit] assms(1)
      by (auto simp: decode_simple_def MmsValue_newDouble_def MmsValue_newFloat_def Let_def intro!: decoded_value)
  next
    case 7
    then show ?thesis using decode_fixed_ok(1) [OF fit] assms(1) by (auto simp: decode_simple_def intro!: decoded_value)
  next
    case 8
    then show ?thesis using visible_string_ok [OF fit] assms(1,3) by (auto simp: decode_simple_def intro!: decoded_value)
  next
    case 9
    then show ?thesis using decode_fixed_ok(2) [OF fit] assms(1) by (auto simp: decode_simple_def intro!: decoded_value)
  next
    case 10
    then show ?thesis using visible_string_ok [OF fit] assms(1,3) by (auto simp: decode_simple_def intro!: decoded_value)
  next
    case 11
    then show ?thesis using decode_fixed_ok(3) [OF fit] assms(1) by (auto simp: decode_simple_def intro!: decoded_value)
  qed (use assms(1) in \<open>auto simp: decode_simple_def intro!: decoded_value\<close>)
qed

lemma setElement_container:
  assumes "C = MMS_ARRAY \<or> C = MMS_STRUCTURE" and "i < length cs"
  shows "MmsValue_setElement (C cs) (int i) e = C (cs[i := e])"
  using assms by (auto simp: MmsValue_setElement_def)

lemma decode_elements_ok:
  assumes C: "C = MMS_ARRAY \<or> C = MMS_STRUCTURE"
    and dec: "\<And>p e. p < length buffer \<Longrightarrow> e \<le> length buffer \<Longrightarrow> decoded_ok short k p e (dec p e)"
    and "endPos \<le> length buffer"
  shows "length cs = i + n \<Longrightarrow> (short \<longrightarrow> list_all mms_ptr_ok (take i cs)) \<Longrightarrow> (\<forall>v. Some v \<in> set (take i cs) \<longrightarrow> depth v \<le> k) \<Longrightarrow> pos \<le> endPos \<Longrightarrow>
    decoded_ok short (Suc k) pos endPos (decode_elements dec buffer endPos i n (Some (C cs)) pos)"
proof (induction n arbitrary: i cs pos)
  case 0
  then have "short \<longrightarrow> mms_ok (C cs)" "depth (C cs) \<le> Suc k" using C depth_container [OF C] by auto
  then show ?case using 0 by (simp add: decoded_ok_def)
next
  case (Suc n)
  from decodeLength_ok [OF assms(3), of "Suc pos"] show ?case
  proof (cases rule: length_okE)
    case (2 p l)
    then have "decoded_ok short k pos (p + l) (dec pos (p + l))" using dec assms(3) by simp
    then obtain r where r: "dec pos (p + l) = Some r" "\<forall>v q. r = Ret (v, q) \<longrightarrow> (\<forall>w. v = Some w \<longrightarrow> (short \<longrightarrow> mms_ok w) \<and> depth w \<le> k)"
      by (auto simp: decoded_ok_def)
    show ?thesis
    proof (cases "\<exists>w q. r = Ret (Some w, q)")
      case True
      then obtain w q where w: "r = Ret (Some w, q)" by blast
      have t: "take (Suc i) (cs[i := Some w]) = take i cs @ [Some w]"
        using Suc.prems(1) by (simp add: take_Suc_conv_app_nth)
      have ok: "(short \<longrightarrow> mms_ok w) \<and> depth w \<le> k" using r(2) w by blast
      have IH: "decoded_ok short (Suc k) (p + l) endPos (decode_elements dec buffer endPos (Suc i) n (Some (C (cs[i := Some w]))) (p + l))"
        by (rule Suc.IH) (use Suc.prems ok t 2 in auto)
      have "decoded_ok short (Suc k) pos endPos (decode_elements dec buffer endPos (Suc i) n (Some (C (cs[i := Some w]))) (p + l))"
        by (rule decoded_weaken [OF IH]) (use 2 in auto)
      then show ?thesis using 2 r(1) w setElement_container [OF C, of i cs] Suc.prems(1) by simp
    next
      case False
      then show ?thesis using 2 r(1) by (cases r) (auto split: option.splits)
    qed
  qed simp
qed

lemma decode_ok:
  assumes "endPos \<le> length buffer" and "pos < length buffer" and "short \<longrightarrow> length buffer < 32768"
  shows "decoded_ok short k pos endPos (MmsValue_decodeMmsDataRecursive k True buffer pos endPos)"
  using assms(1,2)
proof (induction k arbitrary: pos endPos)
  case (Suc k)
  show ?case
  proof (cases "endPos < 1")
    case False
    from decodeLength_ok [OF Suc.prems(1), of "Suc pos"] show ?thesis
    proof (cases rule: length_okE)
      case (2 p l)
      let ?t = "buffer ! pos"
      have simple: "decoded_ok short (Suc k) pos endPos (decode_simple True buffer ?t l p)" if "l = 0 \<longrightarrow> ?t \<in> {0, 0x8a, 0x90, 0x89}"
        using decoded_weaken [OF decode_simple_ok [OF 2(3) Suc.prems(1) assms(3)]] that 2(2) by simp
      obtain m where m: "getNumberOfElements buffer p l = Some m" using getNumberOfElements_safe [of p l buffer] 2(3) Suc.prems(1) by auto
      have elements: "decoded_ok short (Suc k) pos endPos (decode_elements (MmsValue_decodeMmsDataRecursive k True buffer) buffer endPos 0 n
          (Some (C (replicate n None))) p)" if "C = MMS_ARRAY \<or> C = MMS_STRUCTURE" for C n
        using decoded_weaken [OF decode_elements_ok [OF that Suc.IH Suc.prems(1)], of "replicate n None" 0 n p pos endPos] 2 by simp
      show ?thesis using 2 False Suc.prems(2) simple m elements
        by (auto simp: MmsValue_createEmptyArray_def MmsValue_createEmptyStructure_def split: ret.split)
    qed (use False Suc.prems in simp)
  qed simp
qed simp



subsection \<open>Round trip\<close>

text \<open>The values that survive the way over the wire: arrays and structures are not empty and have no MMS
  strings as components, integers have at most eight bytes, error codes are below \<open>2^31\<close>, and the padding
  bits of bit strings are zero (the encoder clears them).\<close>

definition padding_clear :: "nat \<Rightarrow> byte list \<Rightarrow> bool" where
  "padding_clear n buf \<longleftrightarrow> buf = [] \<or> last buf AND mask (bitstring_bytes n * 8 - n) = 0"

definition is_mms_string :: "MmsValue option \<Rightarrow> bool" where
  "is_mms_string p \<longleftrightarrow> (\<exists>b n. p = Some (MMS_STRING b n))"

primrec transferable :: "MmsValue \<Rightarrow> bool" where
  "transferable (MMS_ARRAY cs) = (cs \<noteq> [] \<and> list_all (\<lambda>p. p \<noteq> Some False) (map (map_option transferable) cs) \<and> list_all (Not \<circ> is_mms_string) cs)"
| "transferable (MMS_STRUCTURE cs) = (cs \<noteq> [] \<and> list_all (\<lambda>p. p \<noteq> Some False) (map (map_option transferable) cs) \<and> list_all (Not \<circ> is_mms_string) cs)"
| "transferable (MMS_BOOLEAN b) = True"
| "transferable (MMS_BIT_STRING n buf) = padding_clear n buf"
| "transferable (MMS_INTEGER i) = (psize i \<le> 8)"
| "transferable (MMS_UNSIGNED i) = (psize i \<le> 8)"
| "transferable (MMS_FLOAT e f buf) = True"
| "transferable (MMS_OCTET_STRING n m buf) = True"
| "transferable (MMS_VISIBLE_STRING b n) = True"
| "transferable (MMS_STRING b n) = True"
| "transferable (MMS_BINARY_TIME n buf) = True"
| "transferable (MMS_UTC_TIME t) = True"
| "transferable (MMS_DATA_ACCESS_ERROR e) = (uint e < 2 ^ 31)"

lemma transferable_components:
  "list_all (\<lambda>p. p \<noteq> Some False) (map (map_option transferable) cs) \<longleftrightarrow> (\<forall>v. Some v \<in> set cs \<longrightarrow> transferable v)"
  by (auto simp: list_all_iff)

text \<open>Tag and contents of every simple value.\<close>

definition simple_tlv :: "MmsValue \<Rightarrow> byte \<times> byte list" where
  "simple_tlv self =
     (case self of
        MMS_BOOLEAN b \<Rightarrow> (0x83, [if b then 1 else 0])
      | MMS_DATA_ACCESS_ERROR e \<Rightarrow> (0x80, ber_uint32 e)
      | MMS_VISIBLE_STRING buf n \<Rightarrow> (0x8a, case buf of None \<Rightarrow> [] | Some cs \<Rightarrow> cs)
      | MMS_UNSIGNED i \<Rightarrow> (0x86, stored i)
      | MMS_INTEGER i \<Rightarrow> (0x85, stored i)
      | MMS_UTC_TIME t \<Rightarrow> (0x91, t)
      | MMS_BIT_STRING n buf \<Rightarrow> (0x84, of_nat (bitstring_bytes n * 8 - n) # buf)
      | MMS_BINARY_TIME n buf \<Rightarrow> (0x8c, take n buf)
      | MMS_OCTET_STRING n m buf \<Rightarrow> (0x89, take n buf)
      | MMS_FLOAT e f buf \<Rightarrow> (0x87, e # rev (take (unat f div 8) buf))
      | MMS_STRING buf n \<Rightarrow> (0x90, case buf of None \<Rightarrow> [] | Some cs \<Rightarrow> cs)
      | _ \<Rightarrow> (0, []))"

lemma ber_bitstring_clear:
  assumes "length buf = bitstring_bytes n" and "padding_clear n buf"
  shows "ber_bitstring tag n buf = ber_tlv tag (of_nat (bitstring_bytes n * 8 - n) # buf)"
proof (cases "buf = []")
  case True
  then have "n = 0" using assms(1) by (auto simp: bitstring_bytes_def split: if_splits)
  then show ?thesis using True assms(1) by (simp add: ber_bitstring_def ber_tlv_def bitstring_bytes_def)
next
  case False
  have "w AND NOT m = w" if "w AND m = 0" for w m :: byte
  proof (rule bit_word_eqI)
    fix i
    assume "i < LENGTH(8)"
    then show "bit (w AND NOT m) i = bit w i" using arg_cong [OF that, of "\<lambda>x. bit x i"] by (auto simp: bit_and_iff bit_not_iff)
  qed
  then have "last buf AND NOT (mask (bitstring_bytes n * 8 - n)) = last buf" using assms(2) False by (simp add: padding_clear_def)
  moreover have "0 < bitstring_bytes n" using False assms(1) by (metis length_greater_0_conv)
  ultimately show ?thesis using False assms(1) by (simp add: ber_bitstring_def ber_tlv_def Let_def)
qed

lemma simple_bytes_tlv:
  assumes "is_simple v" and "mms_ok v" and "transferable v"
  shows "simple_bytes v = ber_tlv (fst (simple_tlv v)) (snd (simple_tlv v))"
  using assms by (cases v) (simp_all add: simple_bytes_def simple_tlv_def ber_bitstring_clear bitStringByteSize_eq)

text \<open>The decoder at an element with known tag and contents.\<close>

lemma decode_tlv:
  assumes "has buffer pos (ber_tlv tag bs)" and "length bs < 2 ^ 24" and "pos + length (ber_tlv tag bs) \<le> endPos"
    and "bs = [] \<longrightarrow> tag \<in> {0, 0x8a, 0x90, 0x89}"
  defines "q \<equiv> pos + 1 + length (ber_length (length bs))"
  shows "has buffer q bs" and "q + length bs = pos + length (ber_tlv tag bs)"
    and "tag \<notin> {0xa1, 0xa2} \<Longrightarrow> MmsValue_decodeMmsDataRecursive (Suc k) True buffer pos endPos = decode_simple True buffer tag (length bs) q"
proof -
  have h: "pos < length buffer" "buffer ! pos = tag" "has buffer (Suc pos) (ber_length (length bs))" "has buffer q bs"
    using assms(1) by (simp_all add: ber_tlv_def q_def)
  show "has buffer q bs" by (rule h)
  show "q + length bs = pos + length (ber_tlv tag bs)" by (simp add: q_def ber_tlv_def)
  moreover have "BerDecoder_decodeLength buffer (Suc pos) endPos = Some (Ret (q, length bs))"
    using decodeLength_has [OF h(3) assms(2), of endPos] assms(3) by (simp add: q_def ber_tlv_def)
  moreover have "1 \<le> endPos" using assms(3) by (simp add: ber_tlv_def)
  ultimately show "MmsValue_decodeMmsDataRecursive (Suc k) True buffer pos endPos = decode_simple True buffer tag (length bs) q"
    if "tag \<notin> {0xa1, 0xa2}" using h(1,2) assms(4) that by auto
qed

text \<open>What the decoder returns for a value.\<close>

definition returned :: "MmsValue \<Rightarrow> nat \<Rightarrow> decoded \<Rightarrow> bool" where
  "returned v p x \<longleftrightarrow> (\<exists>w. x = Some (Ret (Some w, p)) \<and> content w = content v)"

lemma returned_boolean:
  "returned (MMS_BOOLEAN b) (q + 1) (decode_simple True buffer 0x83 1 q)" if "has buffer q [if b then 1 else 0]"
  using that by (auto simp: returned_def decode_simple_def BerDecoder_decodeBoolean_def MmsValue_newBoolean_def at_end_def split: if_splits)

lemma returned_error:
  assumes "has buffer q (ber_uint32 e)" and "uint e < 2 ^ 31"
  shows "returned (MMS_DATA_ACCESS_ERROR e) (q + length (ber_uint32 e)) (decode_simple True buffer 0x80 (length (ber_uint32 e)) q)"
  using decodeUint32_has [OF assms(1)] assms(2) uval_take_4_ber_uint32 [of e]
  by (simp add: returned_def decode_simple_def MmsValue_newDataAccessError_def at_end_def)

lemma returned_string:
  assumes "has buffer q cs" and "0 \<notin> set cs"
  shows "returned (MMS_VISIBLE_STRING (Some cs) n) (q + length cs) (decode_simple True buffer 0x8a (length cs) q)"
    and "returned (MMS_STRING (Some cs) n) (q + length cs) (decode_simple True buffer 0x90 (length cs) q)"
proof -
  have "takeWhile (\<lambda>b. b \<noteq> 0) cs = cs" using assms(2) by (auto simp: takeWhile_eq_all_conv)
  then have "string_from_bytes buffer q (length cs) = Some cs" using rd_block_has [OF assms(1)] by (simp add: string_from_bytes_def)
  then show "returned (MMS_VISIBLE_STRING (Some cs) n) (q + length cs) (decode_simple True buffer 0x8a (length cs) q)"
    "returned (MMS_STRING (Some cs) n) (q + length cs) (decode_simple True buffer 0x90 (length cs) q)"
    by (simp_all add: returned_def decode_simple_def MmsValue_newVisibleStringFromByteArray_def at_end_def Let_def)
qed

lemma memcpy_has:
  assumes "has buffer q bs" and "length bs \<le> length dst"
  shows "memcpy dst 0 buffer q (length bs) = Some (bs @ drop (length bs) dst)"
  using rd_block_has [OF assms(1)] assms(2) by (simp add: memcpy_def)

lemma stored_append: "length bs = n \<Longrightarrow> stored \<lparr>psize = n, maxSize = m, octets = bs @ x\<rparr> = bs"
  by (simp add: stored_def)

lemma returned_integer:
  assumes "has buffer q (stored i)" and "mms_ok (MMS_INTEGER i)" and "psize i \<le> 8"
  shows "returned (MMS_INTEGER i) (q + psize i) (decode_simple True buffer 0x85 (psize i) q)"
    and "returned (MMS_UNSIGNED i) (q + psize i) (decode_simple True buffer 0x86 (psize i) q)"
proof -
  have l: "length (stored i) = psize i" using assms(2) by (simp add: length_stored)
  have m: "memcpy (replicate n 0) 0 buffer q (psize i) = Some (stored i @ replicate (n - psize i) 0)" if "psize i \<le> n" for n
    using memcpy_has [OF assms(1), of "replicate n 0"] that l by simp
  show "returned (MMS_INTEGER i) (q + psize i) (decode_simple True buffer 0x85 (psize i) q)"
    "returned (MMS_UNSIGNED i) (q + psize i) (decode_simple True buffer 0x86 (psize i) q)"
    using assms(3) l
    by (cases "psize i \<le> 4"; simp add: returned_def decode_simple_def decode_integer_def MmsValue_newInteger_def MmsValue_newUnsigned_def with_integer_def
      BerInteger_createInt32_def BerInteger_createInt64_def Asn1PrimitiveValue_create_def m Let_def at_end_def stored_append)+
qed

lemma returned_fixed:
  "has buffer q t \<Longrightarrow> length t = 8 \<Longrightarrow> returned (MMS_UTC_TIME t) (q + 8) (decode_simple True buffer 0x91 8 q)"
  "has buffer q (take n b) \<Longrightarrow> n = 4 \<or> n = 6 \<Longrightarrow> length b = 6 \<Longrightarrow>
     returned (MMS_BINARY_TIME n b) (q + n) (decode_simple True buffer 0x8c n q)"
  "has buffer q (take n b) \<Longrightarrow> n < 65536 \<Longrightarrow> n \<le> length b \<Longrightarrow>
     returned (MMS_OCTET_STRING n m b) (q + n) (decode_simple True buffer 0x89 n q)"
proof -
  show "returned (MMS_UTC_TIME t) (q + 8) (decode_simple True buffer 0x91 8 q)" if h: "has buffer q t" and "length t = 8"
  proof -
    have "rd_block (drop q buffer) 0 8 = Some t" using h that(2) by (simp add: rd_block_eq has_def) (metis length_drop length_take min.absorb_iff2)
    then show ?thesis
      by (simp add: returned_def decode_simple_def decode_utc_time_def MmsValue_newUtcTime_def MmsValue_setUtcTimeByBuffer_def utc_bytes_def memcpy_def at_end_def)
  qed
  show "returned (MMS_BINARY_TIME n b) (q + n) (decode_simple True buffer 0x8c n q)"
    if "has buffer q (take n b)" "n = 4 \<or> n = 6" "length b = 6"
    using memcpy_has [OF that(1), of "replicate 6 0"] that(2,3)
    by (auto simp: returned_def decode_simple_def decode_binary_time_def MmsValue_newBinaryTime_def at_end_def)
  show "returned (MMS_OCTET_STRING n m b) (q + n) (decode_simple True buffer 0x89 n q)"
    if "has buffer q (take n b)" "n < 65536" "n \<le> length b"
    using memcpy_has [OF that(1), of "replicate n 0"] that(2,3)
    by (simp add: returned_def decode_simple_def decode_octets_def MmsValue_newOctetString_def uint16_def at_end_def min_absorb2)
qed

lemma returned_float:
  assumes "has buffer q (e # rev (take (unat f div 8) b))" and "mms_ok (MMS_FLOAT e f b)"
  shows "returned (MMS_FLOAT e f b) (q + Suc (unat f div 8)) (decode_simple True buffer 0x87 (Suc (unat f div 8)) q)"
proof (cases "f = 32")
  case True
  then show ?thesis using assms decodeFloat_has(1) [of buffer q "rev (take 4 b)"]
    by (simp add: returned_def decode_simple_def MmsValue_newFloat_def at_end_def Let_def)
next
  case False
  then show ?thesis using assms decodeFloat_has(2) [of buffer q "rev (take 8 b)"]
    by (simp add: returned_def decode_simple_def MmsValue_newDouble_def at_end_def Let_def)
qed

lemma padding_small: "bitstring_bytes n * 8 - n \<le> 7"
  by (auto simp: bitstring_bytes_def) presburger+

lemma returned_bits:
  assumes "has buffer q (of_nat (bitstring_bytes n * 8 - n) # b)" and "length b = bitstring_bytes n"
  shows "returned (MMS_BIT_STRING n b) (q + Suc (bitstring_bytes n)) (decode_simple True buffer 0x84 (Suc (bitstring_bytes n)) q)"
proof -
  define p where "p = bitstring_bytes n * 8 - n"
  have p: "p \<le> 7" "n \<le> bitstring_bytes n * 8" unfolding p_def using padding_small by (auto simp: bitstring_bytes_def)
  have u: "uint (of_nat p :: byte) = int p" "\<not> (7 :: byte) < of_nat p" using p(1) by (simp_all add: unsigned_of_nat word_less_nat_alt take_bit_nat_eq_self)
  have "8 * (int (Suc (bitstring_bytes n)) - 1) - int p = int n" unfolding p_def using p(2) by simp
  then show ?thesis
    using assms u memcpy_has [of buffer "Suc q" b "replicate (bitstring_bytes n) 0"] unfolding p_def [symmetric]
    by (simp add: returned_def decode_simple_def decode_bits_def MmsValue_newBitString_def bitStringByteSize_eq at_end_def)
qed

lemma simple_tlv_tag:
  assumes "is_simple v" and "mms_ok v"
  shows "fst (simple_tlv v) \<notin> {0xa1, 0xa2}" and "snd (simple_tlv v) = [] \<longrightarrow> fst (simple_tlv v) \<in> {0, 0x8a, 0x90, 0x89}"
  using assms length_ber_uint32
  by (cases v; auto simp: simple_tlv_def stored_def primitive_ok_def simp flip: length_greater_0_conv)+

lemma returned_contents:
  assumes "is_simple v" and "mms_ok v" and "transferable v" and "has buffer q (snd (simple_tlv v))"
  shows "returned v (q + length (snd (simple_tlv v))) (decode_simple True buffer (fst (simple_tlv v)) (length (snd (simple_tlv v))) q)"
proof (cases v)
  case (MMS_FLOAT e f b)
  then have "unat f div 8 \<le> length b" using assms(2) by auto
  then show ?thesis using MMS_FLOAT assms returned_float [of buffer q e f b] by (simp add: simple_tlv_def)
next
  case (MMS_OCTET_STRING n m b)
  then have "n \<le> length b" using assms(2) octets_fit by blast
  then show ?thesis using MMS_OCTET_STRING assms returned_fixed(3) [of buffer q n b m] by (simp add: simple_tlv_def min_absorb2)
next
  case (MMS_BINARY_TIME n b)
  then show ?thesis using assms returned_fixed(2) [of buffer q n b] by (auto simp: simple_tlv_def)
next
  case (MMS_BIT_STRING n b)
  then show ?thesis using assms returned_bits [of buffer q n b] by (simp add: simple_tlv_def bitStringByteSize_eq)
next
  case (MMS_INTEGER i)
  then show ?thesis using assms returned_integer(1) [of buffer q i] by (simp add: simple_tlv_def length_stored)
next
  case (MMS_UNSIGNED i)
  then show ?thesis using assms returned_integer(2) [of buffer q i] by (simp add: simple_tlv_def length_stored)
next
  case (MMS_BOOLEAN b)
  then show ?thesis using assms returned_boolean [of buffer q b] by (simp add: simple_tlv_def)
qed (use assms returned_error returned_string returned_fixed(1) in \<open>auto simp: simple_tlv_def\<close>)

definition survives :: "MmsValue \<Rightarrow> bool" where
  "survives v \<longleftrightarrow> (\<forall>buffer pos endPos k. has buffer pos (data_bytes v) \<longrightarrow> length (data_bytes v) < 2 ^ 24 \<longrightarrow>
     pos + length (data_bytes v) \<le> endPos \<longrightarrow> depth v \<le> k \<longrightarrow>
     returned v (pos + length (data_bytes v)) (MmsValue_decodeMmsDataRecursive k True buffer pos endPos))"

lemma survives_simple:
  assumes "is_simple v" and "mms_ok v" and "transferable v"
  shows "survives v"
  unfolding survives_def
proof (intro allI impI)
  fix buffer pos endPos k
  assume h: "has buffer pos (data_bytes v)" and l: "length (data_bytes v) < 2 ^ 24" and e: "pos + length (data_bytes v) \<le> endPos"
    and "depth v \<le> k"
  then obtain k' where k: "k = Suc k'" using depth_simple [OF assms(1)] by (cases k) auto
  let ?t = "fst (simple_tlv v)" and ?b = "snd (simple_tlv v)"
  have d: "data_bytes v = ber_tlv ?t ?b" using assms by (simp add: data_bytes_simple simple_bytes_tlv)
  have "length ?b < 2 ^ 24" using l unfolding d by (simp add: ber_tlv_def)
  note step = decode_tlv [OF h [unfolded d] this e [unfolded d] simple_tlv_tag(2) [OF assms(1,2)]]
  show "returned v (pos + length (data_bytes v)) (MmsValue_decodeMmsDataRecursive k True buffer pos endPos)"
    using returned_contents [OF assms step(1)] unfolding d k step(2) step(3) [OF simple_tlv_tag(1) [OF assms(1,2)]] .
qed

lemma component_tlv:
  assumes "mms_ok v" and "transferable v" and "\<not> is_mms_string (Some v)"
  obtains tag bs where "data_bytes v = ber_tlv tag bs"
    and "tag \<in> {0x80, 0xa1, 0xa2, 0x83, 0x84, 0x85, 0x86, 0x87, 0x89, 0x8a, 0x8c, 0x91, 0x00}"
proof (cases "is_simple v")
  case True
  then have "fst (simple_tlv v) \<in> {0x80, 0xa1, 0xa2, 0x83, 0x84, 0x85, 0x86, 0x87, 0x89, 0x8a, 0x8c, 0x91, 0x00}"
    using assms(3) by (cases v) (simp_all add: simple_tlv_def is_mms_string_def)
  then show ?thesis using that True assms by (simp add: data_bytes_simple simple_bytes_tlv)
next
  case False
  then show ?thesis using that by (cases v) auto
qed

text \<open>The hypotheses on the components of a container.\<close>

definition good_components :: "MmsValue option list \<Rightarrow> bool" where
  "good_components cs \<longleftrightarrow> (\<forall>p \<in> set cs. \<exists>v. p = Some v \<and> mms_ok v \<and> transferable v \<and> \<not> is_mms_string p)"

lemma count_components:
  assumes "good_components cs" and "has buffer pos (component_bytes cs)" and "length (component_bytes cs) < 2 ^ 24"
    and "pos + length (component_bytes cs) = endPos"
  shows "tlv_loop count_element buffer endPos pos n = Some (n + length cs, Ret endPos)"
  using assms
proof (induction cs arbitrary: pos n)
  case Nil
  then show ?case by (simp add: tlv_loop_end)
next
  case (Cons p cs)
  then obtain v where v: "p = Some v" "mms_ok v" "transferable v" "\<not> is_mms_string (Some v)" by (auto simp: good_components_def)
  obtain tag bs where t: "data_bytes v = ber_tlv tag bs"
    "tag \<in> {0x80, 0xa1, 0xa2, 0x83, 0x84, 0x85, 0x86, 0x87, 0x89, 0x8a, 0x8c, 0x91, 0x00}" using component_tlv [OF v(2-4)] .
  have "tlv_loop count_element buffer endPos pos n = tlv_loop count_element buffer endPos (pos + 1 + length (ber_length (length bs)) + length bs) (Suc n)"
    by (rule tlv_loop_goto [of _ _ tag "length bs"]) (use Cons.prems(2-4) v(1) t in \<open>auto simp: ber_tlv_def count_element_def\<close>)
  moreover have "pos + 1 + length (ber_length (length bs)) + length bs = pos + length (data_bytes v)" by (simp add: t(1) ber_tlv_def)
  moreover have "tlv_loop count_element buffer endPos (pos + length (data_bytes v)) (Suc n) = Some (Suc n + length cs, Ret endPos)"
    using Cons.IH [of "pos + length (data_bytes v)" "Suc n"] Cons.prems v(1) by (auto simp: good_components_def)
  ultimately show ?case by (simp only: list.size) simp
qed

lemma decode_components:
  assumes C: "C = MMS_ARRAY \<or> C = MMS_STRUCTURE" and "good_components cs" and "\<And>v. Some v \<in> set cs \<Longrightarrow> survives v \<and> depth v \<le> k"
    and "has buffer pos (component_bytes cs)" and "length (component_bytes cs) < 2 ^ 24" and "pos + length (component_bytes cs) \<le> endPos"
    and "length xs = i + length cs"
  shows "\<exists>ys. decode_elements (MmsValue_decodeMmsDataRecursive k True buffer) buffer endPos i (length cs) (Some (C xs)) pos =
      Some (Ret (Some (C ys), pos + length (component_bytes cs))) \<and> length ys = length xs \<and> take i ys = take i xs \<and>
      map (map_option content) (drop i ys) = map (map_option content) cs"
  using assms(2-)
proof (induction cs arbitrary: pos i xs)
  case (Cons p cs)
  then obtain v where v: "p = Some v" "mms_ok v" "transferable v" "\<not> is_mms_string (Some v)" by (auto simp: good_components_def)
  obtain tag bs where t: "data_bytes v = ber_tlv tag bs" using component_tlv [OF v(2-4)] by blast
  let ?q = "pos + length (data_bytes v)"
  have "BerDecoder_decodeLength buffer (Suc pos) endPos = Some (Ret (Suc pos + length (ber_length (length bs)), length bs))"
    by (rule decodeLength_has) (use Cons.prems(3-5) v(1) t in \<open>auto simp: ber_tlv_def\<close>)
  then obtain r l where len: "BerDecoder_decodeLength buffer (Suc pos) endPos = Some (Ret (r, l))" and q: "r + l = ?q"
    by (simp add: t ber_tlv_def)
  have "returned v ?q (MmsValue_decodeMmsDataRecursive k True buffer pos ?q)"
    using Cons.prems(2) [of v] Cons.prems(3,4) v(1) by (simp add: survives_def)
  then obtain w where w: "MmsValue_decodeMmsDataRecursive k True buffer pos ?q = Some (Ret (Some w, ?q))" "content w = content v"
    by (auto simp: returned_def)
  have "\<exists>ys. decode_elements (MmsValue_decodeMmsDataRecursive k True buffer) buffer endPos (Suc i) (length cs) (Some (C (xs[i := Some w]))) ?q =
      Some (Ret (Some (C ys), ?q + length (component_bytes cs))) \<and> length ys = length (xs[i := Some w]) \<and>
      take (Suc i) ys = take (Suc i) (xs[i := Some w]) \<and> map (map_option content) (drop (Suc i) ys) = map (map_option content) cs"
    by (rule Cons.IH) (use Cons.prems v(1) in \<open>auto simp: good_components_def\<close>)
  then obtain ys where ys: "decode_elements (MmsValue_decodeMmsDataRecursive k True buffer) buffer endPos (Suc i) (length cs) (Some (C (xs[i := Some w]))) ?q =
      Some (Ret (Some (C ys), ?q + length (component_bytes cs)))" "length ys = length xs"
      "take (Suc i) ys = take (Suc i) (xs[i := Some w])" "map (map_option content) (drop (Suc i) ys) = map (map_option content) cs" by auto
  have i: "i < length xs" using Cons.prems(6) by simp
  have "take i ys = take i xs" "ys ! i = Some w"
    using arg_cong [OF ys(3), of "take i"] arg_cong [OF ys(3), of "\<lambda>l. l ! i"] i ys(2) by (simp_all add: min_def)
  moreover from this have "drop i ys = Some w # drop (Suc i) ys" using i ys(2) by (metis Cons_nth_drop_Suc)
  ultimately show ?case
    using len q w ys v(1) setElement_container [OF C i] by (intro exI [of _ ys]) (simp add: add.assoc)
qed auto

lemma survives_container:
  fixes tag :: byte
  assumes C: "C = MMS_ARRAY \<and> tag = 0xa1 \<or> C = MMS_STRUCTURE \<and> tag = 0xa2" and "good_components cs" and "cs \<noteq> []"
    and "\<And>v. Some v \<in> set cs \<Longrightarrow> survives v"
  shows "survives (C cs)"
  unfolding survives_def
proof (intro allI impI)
  fix buffer pos endPos k
  have D: "C = MMS_ARRAY \<or> C = MMS_STRUCTURE" using C by blast
  let ?b = "component_bytes cs"
  have d: "data_bytes (C cs) = ber_tlv tag ?b" using C by auto
  assume h: "has buffer pos (data_bytes (C cs))" and l: "length (data_bytes (C cs)) < 2 ^ 24"
    and e: "pos + length (data_bytes (C cs)) \<le> endPos" and dep: "depth (C cs) \<le> k"
  then obtain k' where k: "k = Suc k'" using D by (cases k) auto
  obtain v cs' where "cs = Some v # cs'" "mms_ok v" "transferable v" "\<not> is_mms_string (Some v)"
    using assms(2,3) by (cases cs) (auto simp: good_components_def)
  then have ne: "?b \<noteq> []" using data_bytes_nonempty by simp
  have bl: "length ?b < 2 ^ 24" using l unfolding d by (simp add: ber_tlv_def)
  let ?q = "pos + 1 + length (ber_length (length ?b))"
  have q: "has buffer ?q ?b" "?q + length ?b = pos + length (ber_tlv tag ?b)"
    using decode_tlv(1,2) [OF h [unfolded d] bl e [unfolded d]] ne by simp_all
  have hd: "pos < length buffer" "buffer ! pos = tag" "has buffer (Suc pos) (ber_length (length ?b))" "1 \<le> endPos"
    using h e unfolding d by (simp_all add: ber_tlv_def)
  have len: "BerDecoder_decodeLength buffer (Suc pos) endPos = Some (Ret (?q, length ?b))"
    using decodeLength_has [OF hd(3) bl, of endPos] e unfolding d by (simp add: ber_tlv_def)
  have count: "getNumberOfElements buffer ?q (length ?b) = Some (Ret (length cs))"
    using count_components [OF assms(2) q(1) bl refl, of 0] by (simp add: getNumberOfElements_def)
  have "\<exists>ys. decode_elements (MmsValue_decodeMmsDataRecursive k' True buffer) buffer endPos 0 (length cs) (Some (C (replicate (length cs) None))) ?q =
      Some (Ret (Some (C ys), ?q + length ?b)) \<and> length ys = length (replicate (length cs) (None :: MmsValue option)) \<and>
      take 0 ys = take 0 (replicate (length cs) None) \<and> map (map_option content) (drop 0 ys) = map (map_option content) cs"
    by (rule decode_components [OF D assms(2)]) (use assms(4) depth_container [OF D, of cs k'] dep k q e bl in \<open>simp_all add: d\<close>)
  then obtain ys where ys: "decode_elements (MmsValue_decodeMmsDataRecursive k' True buffer) buffer endPos 0 (length cs) (Some (C (replicate (length cs) None))) ?q =
      Some (Ret (Some (C ys), ?q + length ?b))" "map (map_option content) ys = map (map_option content) cs" by auto
  then have "MmsValue_decodeMmsDataRecursive k True buffer pos endPos = Some (Ret (Some (C ys), ?q + length ?b))"
    using hd len count ne C by (auto simp: k MmsValue_createEmptyArray_def MmsValue_createEmptyStructure_def)
  then show "returned (C cs) (pos + length (data_bytes (C cs))) (MmsValue_decodeMmsDataRecursive k True buffer pos endPos)"
    using ys(2) D q(2) unfolding d returned_def by auto
qed

lemma survives_all: "mms_ok v \<Longrightarrow> transferable v \<Longrightarrow> survives v"
proof (induction v)
  case (MMS_ARRAY cs)
  then have g: "good_components cs" by (auto simp: good_components_def list_all_iff mms_ptr_ok_def transferable_components)
  have "survives v" if "Some v \<in> set cs" for v using MMS_ARRAY.IH [OF that] g that by (auto simp: good_components_def)
  then show ?case using survives_container [of MMS_ARRAY "0xa1" cs] g MMS_ARRAY.prems by simp
next
  case (MMS_STRUCTURE cs)
  then have g: "good_components cs" by (auto simp: good_components_def list_all_iff mms_ptr_ok_def transferable_components)
  have "survives v" if "Some v \<in> set cs" for v using MMS_STRUCTURE.IH [OF that] g that by (auto simp: good_components_def)
  then show ?case using survives_container [of MMS_STRUCTURE "0xa2" cs] g MMS_STRUCTURE.prems by simp
qed (rule survives_simple, simp, assumption, assumption)+

text \<open>The two exclusions for arrays and structures are real: what the encoder writes for an empty one, or
  for one with an MMS string as component, is rejected by the decoder.\<close>

lemma empty_container_rejected:
  "MmsValue_decodeMmsData True (data_bytes (MMS_ARRAY []) @ rest) 0 (2 + length rest) = Some Fail"
  "MmsValue_decodeMmsData True (data_bytes (MMS_STRUCTURE []) @ rest) 0 (2 + length rest) = Some Fail"
proof -
  have "BerDecoder_decodeLength (t # 0 # rest) (Suc 0) (Suc (Suc (length rest))) = Some (Ret (2, 0))" for t :: byte
    using decodeLength_has [of "t # 0 # rest" 1 0 "2 + length rest"] by (simp add: ber_length_def has_def numeral_2_eq_2)
  then have "MmsValue_decodeMmsDataRecursive (Suc k) True (t # 0 # rest) 0 (2 + length rest) = Some Fail" if "t = 0xa1 \<or> t = 0xa2" for t :: byte and k
    using that by auto
  from this [where k = 24] show "MmsValue_decodeMmsData True (data_bytes (MMS_ARRAY []) @ rest) 0 (2 + length rest) = Some Fail"
    "MmsValue_decodeMmsData True (data_bytes (MMS_STRUCTURE []) @ rest) 0 (2 + length rest) = Some Fail"
    by (simp_all add: MmsValue_decodeMmsData_def MmsValue_decodeMmsDataMaxRecursion_def ber_tlv_def ber_length_def del: MmsValue_decodeMmsDataRecursive.simps)
qed

text \<open>C8: A value that is encoded into a buffer and decoded from there, with whatever follows it, comes
  back with the same content, at the position where the encoder stopped, and the comparison finds it
  equal. It may be nested 25 levels deep, in a buffer of less than 32768 bytes. Not every value
  survives; excluded (\<open>transferable\<close>, \<open>exact\<close>) are empty arrays and structures, MMS strings as
  components of arrays and structures, data access errors of 2^31 and more, integers of more than
  eight bytes, bit strings with padding bits set, and the few sizes for which the announced length
  is one byte too short. The decoder in fact rejects what the encoder writes for an empty array or
  structure and, as an example of the second exclusion, for an array of one MMS string.\<close>

theorem mms_data_roundtrip:
  assumes "mms_ok v" and "exact v" and "transferable v" and "depth v \<le> 25"
    and "MmsValue_encodeMmsData (Some v) (buf, pos) = Some (buf', pos')" and "pos \<le> length buf"
    and "pos' \<le> endPos" and "endPos \<le> length buf" and "length buf < 32768"
  shows "(\<exists>w. MmsValue_decodeMmsData True buf' pos endPos = Some (Ret (Some w, pos')) \<and> mms_ok w \<and> content w = content v \<and>
      MmsValue_equals (Some v) (Some w) = Some True) \<and>
    (\<forall>rest. MmsValue_decodeMmsData True (data_bytes (MMS_ARRAY []) @ rest) 0 (2 + length rest) = Some Fail \<and>
       MmsValue_decodeMmsData True (data_bytes (MMS_STRUCTURE []) @ rest) 0 (2 + length rest) = Some Fail) \<and>
    MmsValue_decodeMmsData True (data_bytes (MMS_ARRAY [Some (MMS_STRING (Some [65]) 8)])) 0 5 = Some Fail"
proof -
  have wr: "writes (MmsValue_encodeMmsData (Some v)) (data_bytes v)" using written_all [OF assms(1,2)] by (simp add: written_def)
  note w = writes_has [OF wr assms(6,5)]
  have "returned v (pos + length (data_bytes v)) (MmsValue_decodeMmsDataRecursive 25 True buf' pos endPos)"
    using survives_all [OF assms(1,3)] w assms(4,7,9) by (simp add: survives_def)
  then obtain x where x: "MmsValue_decodeMmsDataRecursive 25 True buf' pos endPos = Some (Ret (Some x, pos'))" "content x = content v"
    using w(2) by (auto simp: returned_def)
  have "data_bytes v \<noteq> []" by (rule data_bytes_nonempty)
  then have "pos < length buf'" using has_length [OF w(5)] by (cases "data_bytes v") auto
  then have ok: "mms_ok x" using decode_ok [of endPos buf' pos True 25] x(1) assms(8,9) w(4) by (simp add: decoded_ok_def)
  have "MmsValue_equals (Some v) (Some x) = Some True" using compared_all [OF assms(1) ok] x(2) by (auto simp: compared_def)
  moreover have "MmsValue_decodeMmsData True (data_bytes (MMS_ARRAY [Some (MMS_STRING (Some [65]) 8)])) 0 5 = Some Fail" by code_simp
  ultimately show ?thesis
    using x ok empty_container_rejected unfolding MmsValue_decodeMmsData_def MmsValue_decodeMmsDataMaxRecursion_def by blast
qed

theorem mms_data_roundtrip_witness:
  "\<exists>w. MmsValue_decodeMmsData True [0xa2, 6, 0x83, 1, 1, 0x8a, 1, 65] 0 8 = Some (Ret (Some w, 8)) \<and>
     content w = D_structure [Some (D_boolean True), Some (D_visible (Some [65]))]"
proof -
  have "MmsValue_encodeMmsData (Some (MMS_STRUCTURE [Some (MMS_BOOLEAN True), Some (MMS_VISIBLE_STRING (Some [65]) 8)])) (replicate 8 0, 0) =
      Some ([0xa2, 6, 0x83, 1, 1, 0x8a, 1, 65], 8)"
    by code_simp
  from mms_data_roundtrip [OF _ _ _ _ this, of 8] show ?thesis
    by (auto simp: simple_bytes_def ber_tlv_def ber_length_def is_mms_string_def)
qed

end
