(* ===== verification/Mms_Type_Spec.thy ===== *)
theory Mms_Type_Spec
  imports Mms_Data
begin

section \<open>Type specifications of MMS variables\<close>

text \<open>
  Model of \<open>src/mms/iso_mms/common/mms_type_spec.c\<close>, of the functions of \<open>mms_value.c\<close> that create values
  from a type specification, and of \<open>MmsVariableSpecification_getMaxEncodedSize\<close>. The tag of the C struct
  is the constructor, as for values; the first argument is the name. The names of structure elements are
  always set; the name of an array's element type is never read. The type \<open>MMS_DATA_ACCESS_ERROR\<close>, which
  describes no variable, has no constructor: the functions below have no case for it but in the size
  bound. Functions that follow a value pointer return an option of their result, as everywhere. Sizes
  are \<open>int\<close> in the code and integers without a bound here; the sums and products of the size bound agree
  with the code as long as they stay below \<open>2^31\<close>.

  The theorems show that the default value of a type is well formed, has this type and fits the size bound
  of the type, that updates with values of the type keep the type, and that looking up a component in a
  value and looking up its type in the type agree.
\<close>

subsection \<open>Specifications\<close>

datatype MmsVariableSpecification =
  SPEC_ARRAY "byte list" int MmsVariableSpecification
| SPEC_STRUCTURE "byte list" "MmsVariableSpecification list"
| SPEC_BOOLEAN "byte list"
| SPEC_BIT_STRING "byte list" int
| SPEC_INTEGER "byte list" int
| SPEC_UNSIGNED "byte list" int
| SPEC_FLOAT "byte list" byte byte
| SPEC_OCTET_STRING "byte list" int
| SPEC_VISIBLE_STRING "byte list" int
| SPEC_STRING "byte list" int
| SPEC_BINARY_TIME "byte list" int
| SPEC_UTC_TIME "byte list"

fun MmsVariableSpecification_getType :: "MmsVariableSpecification \<Rightarrow> MmsType" where
  "MmsVariableSpecification_getType (SPEC_ARRAY _ _ _) = TYPE_ARRAY"
| "MmsVariableSpecification_getType (SPEC_STRUCTURE _ _) = TYPE_STRUCTURE"
| "MmsVariableSpecification_getType (SPEC_BOOLEAN _) = TYPE_BOOLEAN"
| "MmsVariableSpecification_getType (SPEC_BIT_STRING _ _) = TYPE_BIT_STRING"
| "MmsVariableSpecification_getType (SPEC_INTEGER _ _) = TYPE_INTEGER"
| "MmsVariableSpecification_getType (SPEC_UNSIGNED _ _) = TYPE_UNSIGNED"
| "MmsVariableSpecification_getType (SPEC_FLOAT _ _ _) = TYPE_FLOAT"
| "MmsVariableSpecification_getType (SPEC_OCTET_STRING _ _) = TYPE_OCTET_STRING"
| "MmsVariableSpecification_getType (SPEC_VISIBLE_STRING _ _) = TYPE_VISIBLE_STRING"
| "MmsVariableSpecification_getType (SPEC_STRING _ _) = TYPE_STRING"
| "MmsVariableSpecification_getType (SPEC_BINARY_TIME _ _) = TYPE_BINARY_TIME"
| "MmsVariableSpecification_getType (SPEC_UTC_TIME _) = TYPE_UTC_TIME"

fun MmsVariableSpecification_getName :: "MmsVariableSpecification \<Rightarrow> byte list" where
  "MmsVariableSpecification_getName (SPEC_ARRAY name _ _) = name"
| "MmsVariableSpecification_getName (SPEC_STRUCTURE name _) = name"
| "MmsVariableSpecification_getName (SPEC_BOOLEAN name) = name"
| "MmsVariableSpecification_getName (SPEC_BIT_STRING name _) = name"
| "MmsVariableSpecification_getName (SPEC_INTEGER name _) = name"
| "MmsVariableSpecification_getName (SPEC_UNSIGNED name _) = name"
| "MmsVariableSpecification_getName (SPEC_FLOAT name _ _) = name"
| "MmsVariableSpecification_getName (SPEC_OCTET_STRING name _) = name"
| "MmsVariableSpecification_getName (SPEC_VISIBLE_STRING name _) = name"
| "MmsVariableSpecification_getName (SPEC_STRING name _) = name"
| "MmsVariableSpecification_getName (SPEC_BINARY_TIME name _) = name"
| "MmsVariableSpecification_getName (SPEC_UTC_TIME name) = name"

definition MmsVariableSpecification_getSize :: "MmsVariableSpecification \<Rightarrow> int" where
  "MmsVariableSpecification_getSize self =
     (case self of
        SPEC_STRUCTURE _ es \<Rightarrow> int (length es)
      | SPEC_ARRAY _ elementCount _ \<Rightarrow> elementCount
      | SPEC_INTEGER _ n \<Rightarrow> n
      | SPEC_UNSIGNED _ n \<Rightarrow> n
      | SPEC_FLOAT _ e f \<Rightarrow> uint f
      | SPEC_BIT_STRING _ n \<Rightarrow> n
      | SPEC_BINARY_TIME _ n \<Rightarrow> n
      | SPEC_OCTET_STRING _ n \<Rightarrow> n
      | SPEC_VISIBLE_STRING _ n \<Rightarrow> n
      | SPEC_STRING _ n \<Rightarrow> n
      | _ \<Rightarrow> - 1)"

definition MmsVariableSpecification_getStructureElements :: "MmsVariableSpecification \<Rightarrow> byte list list option" where
  "MmsVariableSpecification_getStructureElements self =
     (case self of SPEC_STRUCTURE _ es \<Rightarrow> Some (map MmsVariableSpecification_getName es) | _ \<Rightarrow> None)"

definition MmsVariableSpecification_getChildSpecificationByIndex :: "MmsVariableSpecification \<Rightarrow> int \<Rightarrow> MmsVariableSpecification option" where
  "MmsVariableSpecification_getChildSpecificationByIndex self index =
     (case self of
        SPEC_STRUCTURE _ es \<Rightarrow> if index \<ge> int (length es) then None else if index < 0 then None else Some (es ! nat index)
      | _ \<Rightarrow> None)"

text \<open>The loops that look for the element of a structure with a given name.\<close>

fun find_name :: "MmsVariableSpecification list \<Rightarrow> byte list \<Rightarrow> nat \<Rightarrow> nat option" where
  "find_name [] name i = None"
| "find_name (e # es) name i = (if MmsVariableSpecification_getName e = name then Some i else find_name es name (Suc i))"

definition MmsVariableSpecification_getChildSpecificationByName ::
  "MmsVariableSpecification \<Rightarrow> byte list \<Rightarrow> (MmsVariableSpecification \<times> nat) option" where
  "MmsVariableSpecification_getChildSpecificationByName self name =
     (case self of
        SPEC_STRUCTURE _ es \<Rightarrow> (case find_name es name 0 of None \<Rightarrow> None | Some i \<Rightarrow> Some (es ! i, i))
      | _ \<Rightarrow> None)"

definition MmsVariableSpecification_getArrayElementSpecification :: "MmsVariableSpecification \<Rightarrow> MmsVariableSpecification option" where
  "MmsVariableSpecification_getArrayElementSpecification self = (case self of SPEC_ARRAY _ _ e \<Rightarrow> Some e | _ \<Rightarrow> None)"

definition MmsVariableSpecification_getExponentWidth :: "MmsVariableSpecification \<Rightarrow> int" where
  "MmsVariableSpecification_getExponentWidth self = (case self of SPEC_FLOAT _ e f \<Rightarrow> uint e | _ \<Rightarrow> - 1)"

subsection \<open>Types of values\<close>

text \<open>Components are checked in order, up to the first that has another type.\<close>

fun check_all :: "(MmsValue option \<Rightarrow> bool option) list \<Rightarrow> MmsValue option list \<Rightarrow> bool option" where
  "check_all [] vs = Some True"
| "check_all (f # fs) vs =
     (case vs of [] \<Rightarrow> Some True | v # vs \<Rightarrow> do { b \<leftarrow> f v; if b then check_all fs vs else Some False })"

primrec MmsVariableSpecification_isValueOfType :: "MmsVariableSpecification \<Rightarrow> MmsValue option \<Rightarrow> bool option" where
  "MmsVariableSpecification_isValueOfType (SPEC_ARRAY name elementCount e) value =
     (case value of None \<Rightarrow> None
      | Some (MMS_ARRAY cs) \<Rightarrow>
          if elementCount \<noteq> int (length cs) then Some False
          else check_all (replicate (length cs) (MmsVariableSpecification_isValueOfType e)) cs
      | _ \<Rightarrow> Some False)"
| "MmsVariableSpecification_isValueOfType (SPEC_STRUCTURE name es) value =
     (case value of None \<Rightarrow> None
      | Some (MMS_STRUCTURE cs) \<Rightarrow>
          if length es \<noteq> length cs then Some False else check_all (map MmsVariableSpecification_isValueOfType es) cs
      | _ \<Rightarrow> Some False)"
| "MmsVariableSpecification_isValueOfType (SPEC_BOOLEAN name) value =
     (case value of None \<Rightarrow> None | Some v \<Rightarrow> Some (MmsValue_getType v = TYPE_BOOLEAN))"
| "MmsVariableSpecification_isValueOfType (SPEC_BIT_STRING name bits) value =
     (case value of None \<Rightarrow> None | Some (MMS_BIT_STRING n buf) \<Rightarrow> Some (bits = int n \<or> bits < 0) | _ \<Rightarrow> Some False)"
| "MmsVariableSpecification_isValueOfType (SPEC_INTEGER name n) value =
     (case value of None \<Rightarrow> None | Some v \<Rightarrow> Some (MmsValue_getType v = TYPE_INTEGER))"
| "MmsVariableSpecification_isValueOfType (SPEC_UNSIGNED name n) value =
     (case value of None \<Rightarrow> None | Some v \<Rightarrow> Some (MmsValue_getType v = TYPE_UNSIGNED))"
| "MmsVariableSpecification_isValueOfType (SPEC_FLOAT name e f) value =
     (case value of None \<Rightarrow> None | Some (MMS_FLOAT e' f' buf) \<Rightarrow> Some (e = e' \<and> f = f') | _ \<Rightarrow> Some False)"
| "MmsVariableSpecification_isValueOfType (SPEC_OCTET_STRING name n) value =
     (case value of None \<Rightarrow> None | Some v \<Rightarrow> Some (MmsValue_getType v = TYPE_OCTET_STRING))"
| "MmsVariableSpecification_isValueOfType (SPEC_VISIBLE_STRING name n) value =
     (case value of None \<Rightarrow> None | Some v \<Rightarrow> Some (MmsValue_getType v = TYPE_VISIBLE_STRING))"
| "MmsVariableSpecification_isValueOfType (SPEC_STRING name n) value =
     (case value of None \<Rightarrow> None | Some v \<Rightarrow> Some (MmsValue_getType v = TYPE_STRING))"
| "MmsVariableSpecification_isValueOfType (SPEC_BINARY_TIME name n) value =
     (case value of None \<Rightarrow> None | Some (MMS_BINARY_TIME k buf) \<Rightarrow> Some (n = int k) | _ \<Rightarrow> Some False)"
| "MmsVariableSpecification_isValueOfType (SPEC_UTC_TIME name) value =
     (case value of None \<Rightarrow> None | Some v \<Rightarrow> Some (MmsValue_getType v = TYPE_UTC_TIME))"

subsection \<open>Default values\<close>

text \<open>The components are created in order; the first that fails makes the whole fail.\<close>

fun create_all :: "MmsValue ret option list \<Rightarrow> MmsValue option list ret option" where
  "create_all [] = Some (Ret [])"
| "create_all (x # xs) = do {
     r \<leftarrow> x;
     (case r of
        Fail \<Rightarrow> Some Fail
      | Ret v \<Rightarrow> do { rs \<leftarrow> create_all xs; Some (case rs of Fail \<Rightarrow> Fail | Ret vs \<Rightarrow> Ret (Some v # vs)) }) }"

definition MmsValue_newStructure :: "bool \<Rightarrow> MmsValue ret option list \<Rightarrow> MmsValue ret option" where
  "MmsValue_newStructure mem components =
     (if mem then do { r \<leftarrow> create_all components; Some (case r of Fail \<Rightarrow> Fail | Ret cs \<Rightarrow> Ret (MMS_STRUCTURE cs)) } else Some Fail)"

text \<open>The allocation of an array of negative size fails.\<close>

definition MmsValue_createArray :: "bool \<Rightarrow> MmsValue ret option \<Rightarrow> int \<Rightarrow> MmsValue ret option" where
  "MmsValue_createArray mem element n =
     (if mem \<and> n \<ge> 0 then do { r \<leftarrow> create_all (replicate (nat n) element); Some (case r of Fail \<Rightarrow> Fail | Ret cs \<Rightarrow> Ret (MMS_ARRAY cs)) }
      else Some Fail)"

text \<open>For arrays and structures \<open>MmsValue_createArray\<close> and \<open>MmsValue_newStructure\<close> get the default values of
  the elements.\<close>

primrec MmsValue_newDefaultValue :: "bool \<Rightarrow> MmsVariableSpecification \<Rightarrow> MmsValue ret option" where
  "MmsValue_newDefaultValue mem (SPEC_INTEGER name n) = MmsValue_newInteger mem n"
| "MmsValue_newDefaultValue mem (SPEC_UNSIGNED name n) = MmsValue_newUnsigned mem n"
| "MmsValue_newDefaultValue mem (SPEC_FLOAT name e f) = Some (if mem then Ret (MMS_FLOAT e f (replicate 8 0)) else Fail)"
| "MmsValue_newDefaultValue mem (SPEC_BIT_STRING name bits) =
     Some (if mem then Ret (MMS_BIT_STRING (nat \<bar>bits\<bar>) (replicate (bitStringByteSize (nat \<bar>bits\<bar>)) 0)) else Fail)"
| "MmsValue_newDefaultValue mem (SPEC_OCTET_STRING name n) =
     Some (if mem then Ret (MMS_OCTET_STRING (if n < 0 then 0 else uint16 n) \<bar>n\<bar> (replicate (nat \<bar>n\<bar>) 0)) else Fail)"
| "MmsValue_newDefaultValue mem (SPEC_VISIBLE_STRING name n) = Some (MmsValue_newVisibleStringWithSize mem \<bar>n\<bar>)"
| "MmsValue_newDefaultValue mem (SPEC_BOOLEAN name) = Some (MmsValue_newBoolean mem False)"
| "MmsValue_newDefaultValue mem (SPEC_UTC_TIME name) = Some (if mem then Ret (MMS_UTC_TIME (replicate 8 0)) else Fail)"
| "MmsValue_newDefaultValue mem (SPEC_ARRAY name elementCount e) = MmsValue_createArray mem (MmsValue_newDefaultValue mem e) elementCount"
| "MmsValue_newDefaultValue mem (SPEC_STRUCTURE name es) = MmsValue_newStructure mem (map (MmsValue_newDefaultValue mem) es)"
| "MmsValue_newDefaultValue mem (SPEC_STRING name n) = Some (MmsValue_newMmsStringWithSize mem \<bar>n\<bar>)"
| "MmsValue_newDefaultValue mem (SPEC_BINARY_TIME name n) = Some (MmsValue_newBinaryTime mem (n = 4))"

subsection \<open>Size bound\<close>

text \<open>A negative size is converted to a large unsigned one.\<close>

definition length_size :: "int \<Rightarrow> int" where
  "length_size n = (if n < 0 then 4 else int (BerEncoder_determineLengthSize (nat n)))"

definition bytes_of_bits :: "int \<Rightarrow> int" where
  "bytes_of_bits n = (if n < 0 then - (- n div 8) else n div 8)"

definition getMaxStructSize :: "int list \<Rightarrow> int" where
  "getMaxStructSize ns = 1 + sum_list ns + length_size (sum_list ns)"

primrec MmsVariableSpecification_getMaxEncodedSize :: "MmsVariableSpecification \<Rightarrow> int" where
  "MmsVariableSpecification_getMaxEncodedSize (SPEC_STRUCTURE name es) = getMaxStructSize (map MmsVariableSpecification_getMaxEncodedSize es)"
| "MmsVariableSpecification_getMaxEncodedSize (SPEC_ARRAY name elementCount e) =
     (let elementSize = MmsVariableSpecification_getMaxEncodedSize e * elementCount in 1 + elementSize + length_size elementSize)"
| "MmsVariableSpecification_getMaxEncodedSize (SPEC_BOOLEAN name) = 3"
| "MmsVariableSpecification_getMaxEncodedSize (SPEC_VISIBLE_STRING name n) = 1 + \<bar>n\<bar> + length_size \<bar>n\<bar>"
| "MmsVariableSpecification_getMaxEncodedSize (SPEC_UNSIGNED name n) = 2 + bytes_of_bits n + 1"
| "MmsVariableSpecification_getMaxEncodedSize (SPEC_INTEGER name n) = 2 + bytes_of_bits n + 1"
| "MmsVariableSpecification_getMaxEncodedSize (SPEC_UTC_TIME name) = 10"
| "MmsVariableSpecification_getMaxEncodedSize (SPEC_BIT_STRING name n) = int (BerEncoder_determineEncodedBitStringSize (nat \<bar>n\<bar>))"
| "MmsVariableSpecification_getMaxEncodedSize (SPEC_BINARY_TIME name n) = 2 + n"
| "MmsVariableSpecification_getMaxEncodedSize (SPEC_OCTET_STRING name n) = 1 + length_size \<bar>n\<bar> + \<bar>n\<bar>"
| "MmsVariableSpecification_getMaxEncodedSize (SPEC_FLOAT name e f) = (uint f div 8 + 1) + 2"
| "MmsVariableSpecification_getMaxEncodedSize (SPEC_STRING name n) = 1 + \<bar>n\<bar> + length_size \<bar>n\<bar>"

subsection \<open>Components by name\<close>

text \<open>The length of the part of a path before the first \<open>$\<close> (\<open>0x24\<close>) or \<open>.\<close> (\<open>0x2e\<close>).\<close>

fun directChildStrLen :: "byte list \<Rightarrow> nat" where
  "directChildStrLen [] = 0"
| "directChildStrLen (c # cs) = (if c = 0x24 then 0 else if c = 0x2e then 0 else Suc (directChildStrLen cs))"

lemma directChildStrLen_le: "directChildStrLen cs \<le> length cs"
  by (induction cs) auto

function MmsVariableSpecification_getChildValue ::
  "MmsVariableSpecification \<Rightarrow> MmsValue option \<Rightarrow> byte list \<Rightarrow> MmsValue option option" where
  "MmsVariableSpecification_getChildValue typeSpec value childId =
     (case typeSpec of
        SPEC_STRUCTURE _ es \<Rightarrow>
          (case value of
             None \<Rightarrow> None
           | Some (MMS_STRUCTURE cs) \<Rightarrow>
               let childLen = directChildStrLen childId in
               if length es \<noteq> length cs then Some None
               else (case find_name es (take childLen childId) 0 of
                       None \<Rightarrow> Some None
                     | Some i \<Rightarrow>
                         if childLen = length childId then Some (cs ! i)
                         else MmsVariableSpecification_getChildValue (es ! i) (cs ! i) (drop (childLen + 1) childId))
           | _ \<Rightarrow> Some None)
      | _ \<Rightarrow> Some None)"
  by pat_completeness auto
termination
proof (relation "measure (\<lambda>(typeSpec, value, childId). length childId)")
  fix childId :: "byte list" and n
  assume n: "n = directChildStrLen childId" and ne: "n \<noteq> length childId"
  have "n \<le> length childId" using n directChildStrLen_le by simp
  with ne show "((e :: MmsVariableSpecification, c :: MmsValue option, drop (n + 1) childId), t, v, childId) \<in>
      measure (\<lambda>(typeSpec, value, childId). length childId)" for e c t v
    by auto
qed simp

declare MmsVariableSpecification_getChildValue.simps [simp del]

definition MmsValue_getSubElement :: "MmsValue option \<Rightarrow> MmsVariableSpecification \<Rightarrow> byte list \<Rightarrow> MmsValue option option" where
  "MmsValue_getSubElement self varSpec mmsPath = MmsVariableSpecification_getChildValue varSpec self mmsPath"

text \<open>\<open>strchr (nameId, '$')\<close>: the position of the first separator.\<close>

fun separator :: "byte list \<Rightarrow> nat \<Rightarrow> nat option" where
  "separator [] i = None"
| "separator (c # cs) i = (if c = 0x24 then Some i else separator cs (Suc i))"

lemma separator_less: "separator cs i = Some k \<Longrightarrow> k < i + length cs"
  by (induction cs arbitrary: i) (fastforce split: if_splits)+

function MmsVariableSpecification_getNamedVariableRecursive ::
  "MmsVariableSpecification \<Rightarrow> byte list \<Rightarrow> MmsVariableSpecification option" where
  "MmsVariableSpecification_getNamedVariableRecursive variable nameId =
     (case variable of
        SPEC_ARRAY _ _ e \<Rightarrow> MmsVariableSpecification_getNamedVariableRecursive e nameId
      | SPEC_STRUCTURE _ es \<Rightarrow>
          (case separator nameId 0 of
             None \<Rightarrow> (case find_name es nameId 0 of None \<Rightarrow> None | Some i \<Rightarrow> Some (es ! i))
           | Some k \<Rightarrow>
               (case find_name es (take k nameId) 0 of
                  None \<Rightarrow> None
                | Some i \<Rightarrow>
                    (case es ! i of
                       SPEC_STRUCTURE _ _ \<Rightarrow> MmsVariableSpecification_getNamedVariableRecursive (es ! i) (drop (k + 1) nameId)
                     | SPEC_ARRAY _ _ e \<Rightarrow> MmsVariableSpecification_getNamedVariableRecursive e (drop (k + 1) nameId)
                     | _ \<Rightarrow> None)))
      | _ \<Rightarrow> None)"
  by pat_completeness auto
termination
  by (relation "measures [\<lambda>(variable, nameId). length nameId, \<lambda>(variable, nameId). size variable]")
     (auto dest: separator_less)

declare MmsVariableSpecification_getNamedVariableRecursive.simps [simp del]

subsection \<open>Default values have their type\<close>

text \<open>Specifications as the server and the client build them: sizes fit their members.\<close>

primrec spec_ok :: "MmsVariableSpecification \<Rightarrow> bool" where
  "spec_ok (SPEC_ARRAY name n e) = (n \<ge> 0 \<and> spec_ok e)"
| "spec_ok (SPEC_STRUCTURE name es) = list_all (\<lambda>b. b) (map spec_ok es)"
| "spec_ok (SPEC_BOOLEAN name) = True"
| "spec_ok (SPEC_BIT_STRING name n) = True"
| "spec_ok (SPEC_INTEGER name n) = (n \<ge> 0)"
| "spec_ok (SPEC_UNSIGNED name n) = (n \<ge> 0)"
| "spec_ok (SPEC_FLOAT name e f) = (f = 32 \<or> f = 64)"
| "spec_ok (SPEC_OCTET_STRING name n) = (\<bar>n\<bar> < 65536)"
| "spec_ok (SPEC_VISIBLE_STRING name n) = (\<bar>n\<bar> < 32768)"
| "spec_ok (SPEC_STRING name n) = (\<bar>n\<bar> < 32768)"
| "spec_ok (SPEC_BINARY_TIME name n) = (n = 4 \<or> n = 6)"
| "spec_ok (SPEC_UTC_TIME name) = True"

definition has_default :: "MmsVariableSpecification \<Rightarrow> bool" where
  "has_default s \<longleftrightarrow> (\<exists>v m. MmsValue_newDefaultValue True s = Some (Ret v) \<and> mms_ok v \<and>
     MmsVariableSpecification_isValueOfType s (Some v) = Some True \<and>
     mmsData_size (Some v) = Some m \<and> int m \<le> MmsVariableSpecification_getMaxEncodedSize s)"

lemma container_size_bound:
  assumes "int m \<le> n"
  shows "int (container_size m) \<le> 1 + n + length_size n"
proof -
  have "0 \<le> n" using assms by linarith
  then obtain k where "n = int k" by (rule nonneg_int_cases)
  then show ?thesis using container_size_mono [of m k] assms by (simp add: container_size_def length_size_def)
qed

lemma default_components:
  assumes "\<forall>e \<in> set es. has_default e"
  shows "\<exists>cs m. create_all (map (MmsValue_newDefaultValue True) es) = Some (Ret cs) \<and> length cs = length es \<and> list_all mms_ptr_ok cs \<and>
    check_all (map MmsVariableSpecification_isValueOfType es) cs = Some True \<and>
    components_size cs = Some m \<and> int m \<le> sum_list (map MmsVariableSpecification_getMaxEncodedSize es)"
  using assms
proof (induction es)
  case (Cons e es)
  then obtain v m where v: "MmsValue_newDefaultValue True e = Some (Ret v)" "mms_ok v" "MmsVariableSpecification_isValueOfType e (Some v) = Some True"
    "mmsData_size (Some v) = Some m" "int m \<le> MmsVariableSpecification_getMaxEncodedSize e"
    by (auto simp: has_default_def)
  obtain cs k where cs: "create_all (map (MmsValue_newDefaultValue True) es) = Some (Ret cs)" "length cs = length es" "list_all mms_ptr_ok cs"
    "check_all (map MmsVariableSpecification_isValueOfType es) cs = Some True" "components_size cs = Some k"
    "int k \<le> sum_list (map MmsVariableSpecification_getMaxEncodedSize es)"
    using Cons by auto
  show ?case
    by (rule exI [of _ "Some v # cs"], rule exI [of _ "m + k"]) (use v cs in simp)
qed simp

lemma default_container:
  assumes "\<forall>e \<in> set es. has_default e"
  obtains cs m where "create_all (map (MmsValue_newDefaultValue True) es) = Some (Ret cs)" "length cs = length es" "list_all mms_ptr_ok cs"
    "check_all (map MmsVariableSpecification_isValueOfType es) cs = Some True"
    "components_size cs = Some m"
    "int (container_size m) \<le> 1 + sum_list (map MmsVariableSpecification_getMaxEncodedSize es) +
       length_size (sum_list (map MmsVariableSpecification_getMaxEncodedSize es))"
  using default_components [OF assms] container_size_bound that by blast

lemma sum_list_replicate_int: "sum_list (replicate n (x :: int)) = x * int n"
  by (induction n) (simp_all add: algebra_simps)

lemma default_string_ok: "\<bar>n\<bar> < 32768 \<Longrightarrow> int16 \<bar>n\<bar> = \<bar>n\<bar>"
  by (simp add: int16_def)

lemma has_default_all: "spec_ok s \<Longrightarrow> has_default s"
proof (induction s)
  case (SPEC_ARRAY name n e)
  then have "\<forall>x \<in> set (replicate (nat n) e). has_default x" by simp
  then obtain cs m where cs: "create_all (map (MmsValue_newDefaultValue True) (replicate (nat n) e)) = Some (Ret cs)"
    "length cs = length (replicate (nat n) e)" "list_all mms_ptr_ok cs"
    "check_all (map MmsVariableSpecification_isValueOfType (replicate (nat n) e)) cs = Some True" "components_size cs = Some m"
    "int (container_size m) \<le> 1 + sum_list (map MmsVariableSpecification_getMaxEncodedSize (replicate (nat n) e)) +
       length_size (sum_list (map MmsVariableSpecification_getMaxEncodedSize (replicate (nat n) e)))"
    by (rule default_container)
  then show ?case using SPEC_ARRAY.prems by (simp add: has_default_def MmsValue_createArray_def Let_def sum_list_replicate_int)
next
  case (SPEC_STRUCTURE name es)
  then have "\<forall>e \<in> set es. has_default e" by (simp add: list_all_iff)
  then obtain cs m where "create_all (map (MmsValue_newDefaultValue True) es) = Some (Ret cs)" "length cs = length es" "list_all mms_ptr_ok cs"
    "check_all (map MmsVariableSpecification_isValueOfType es) cs = Some True" "components_size cs = Some m"
    "int (container_size m) \<le> 1 + sum_list (map MmsVariableSpecification_getMaxEncodedSize es) +
       length_size (sum_list (map MmsVariableSpecification_getMaxEncodedSize es))"
    by (rule default_container)
  then show ?case by (simp add: has_default_def MmsValue_newStructure_def getMaxStructSize_def)
next
  case (SPEC_VISIBLE_STRING name n)
  then show ?case using container_size_bound [of 0 "\<bar>n\<bar>"]
    by (simp add: has_default_def MmsValue_newVisibleStringWithSize_def default_string_ok simple_size_def BerEncoder_determineEncodedStringSize_def container_size_def)
next
  case (SPEC_STRING name n)
  then show ?case using container_size_bound [of 0 "\<bar>n\<bar>"]
    by (simp add: has_default_def MmsValue_newMmsStringWithSize_def default_string_ok simple_size_def BerEncoder_determineEncodedStringSize_def container_size_def)
next
  case (SPEC_OCTET_STRING name n)
  then show ?case using container_size_bound [of "if n < 0 then 0 else uint16 n" "\<bar>n\<bar>"]
    by (auto simp: has_default_def uint16_def simple_size_def container_size_def)
next
  case (SPEC_INTEGER name n)
  then show ?case
    by (simp add: has_default_def MmsValue_newInteger_def with_integer_def BerInteger_createInt32_def BerInteger_createInt64_def
        Asn1PrimitiveValue_create_def simple_size_def bytes_of_bits_def primitive_ok_def)
next
  case (SPEC_UNSIGNED name n)
  then show ?case
    by (simp add: has_default_def MmsValue_newUnsigned_def with_integer_def BerInteger_createInt32_def BerInteger_createInt64_def
        Asn1PrimitiveValue_create_def simple_size_def bytes_of_bits_def primitive_ok_def)
next
  case (SPEC_FLOAT name e f)
  then show ?case by (auto simp: has_default_def simple_size_def)
next
  case (SPEC_BINARY_TIME name n)
  then show ?case by (auto simp: has_default_def simple_size_def MmsValue_newBinaryTime_def)
qed (auto simp: has_default_def simple_size_def MmsValue_newBoolean_def)

text \<open>C12: With memory, every type specification has a default value; it is well formed, of this type, and its
  encoding fits the bound that \<open>MmsVariableSpecification_getMaxEncodedSize\<close> computes from the type.\<close>

theorem default_value_of_type:
  assumes "spec_ok s"
  shows "\<exists>v m. MmsValue_newDefaultValue True s = Some (Ret v) \<and> mms_ok v \<and>
     MmsVariableSpecification_isValueOfType s (Some v) = Some True \<and>
     mmsData_size (Some v) = Some m \<and> int m \<le> MmsVariableSpecification_getMaxEncodedSize s"
  using has_default_all [OF assms] by (simp add: has_default_def)

theorem default_value_of_type_witness:
  "\<exists>v. MmsValue_newDefaultValue True (SPEC_STRUCTURE [] [SPEC_ARRAY [1] 2 (SPEC_BOOLEAN []), SPEC_OCTET_STRING [2] (- 64)]) = Some (Ret v) \<and> mms_ok v"
  using default_value_of_type [of "SPEC_STRUCTURE [] [SPEC_ARRAY [1] 2 (SPEC_BOOLEAN []), SPEC_OCTET_STRING [2] (- 64)]"] by auto

subsection \<open>Updates keep the type\<close>

definition keeps_type :: "MmsVariableSpecification \<Rightarrow> bool" where
  "keeps_type s \<longleftrightarrow> (\<forall>a b v ok. mms_ok a \<longrightarrow> mms_ok b \<longrightarrow> MmsVariableSpecification_isValueOfType s (Some a) = Some True \<longrightarrow>
     MmsVariableSpecification_isValueOfType s (Some b) = Some True \<longrightarrow> MmsValue_update True (Some a) (Some b) = Some (Some v, ok) \<longrightarrow>
     MmsVariableSpecification_isValueOfType s (Some v) = Some True)"

lemma check_all_Cons: "check_all (f # fs) (v # vs) = Some True \<longleftrightarrow> f v = Some True \<and> check_all fs vs = Some True"
  by (auto simp: bind_eq_Some_conv)

lemma update_keeps_components:
  assumes "length cs = length es" and "length ds = length es" and "\<forall>e \<in> set es. keeps_type e"
    and "list_all mms_ptr_ok cs" and "list_all mms_ptr_ok ds"
    and "check_all (map MmsVariableSpecification_isValueOfType es) cs = Some True"
    and "check_all (map MmsVariableSpecification_isValueOfType es) ds = Some True"
    and "updateStructuredComponent True cs ds = Some (ws, ok)"
  shows "length ws = length es \<and> check_all (map MmsVariableSpecification_isValueOfType es) ws = Some True"
  using assms
proof (induction es arbitrary: cs ds ws ok)
  case (Cons e es)
  obtain a cs' b ds' where cd: "cs = Some a # cs'" "mms_ok a" "ds = Some b # ds'" "mms_ok b"
    using Cons.prems(1,2,4,5) by (cases cs; cases ds) (auto simp: mms_ptr_ok_def)
  note ty = Cons.prems(6,7) [unfolded cd list.map check_all_Cons]
  obtain v o1 where v: "MmsValue_update True (Some a) (Some b) = Some (Some v, o1)"
    using updated_all [OF cd(2,4)] by (auto simp: updated_def)
  have tv: "MmsVariableSpecification_isValueOfType e (Some v) = Some True"
    using Cons.prems(3) cd(2,4) ty v unfolding keeps_type_def by (meson list.set_intros(1))
  have len: "length cs' = length es" "length ds' = length es" using Cons.prems(1,2) cd by simp_all
  show ?case
  proof (cases o1)
    case True
    then obtain us where us: "updateStructuredComponent True cs' ds' = Some (us, ok)" "ws = Some v # us"
      using Cons.prems(8) v cd by (auto simp: bind_eq_Some_conv simp del: MmsValue_update.simps)
    have "length us = length es \<and> check_all (map MmsVariableSpecification_isValueOfType es) us = Some True"
      using Cons.IH [OF len _ _ _ _ _ us(1)] Cons.prems(3-5) cd ty by simp
    then show ?thesis using us(2) tv by (simp add: check_all_Cons del: check_all.simps(2))
  next
    case False
    then have "ws = Some v # cs'" using Cons.prems(8) v cd by (simp del: MmsValue_update.simps)
    then show ?thesis using tv ty len by (simp add: check_all_Cons del: check_all.simps(2))
  qed
qed simp

lemma update_type:
  assumes "mms_ok a" and "mms_ok b" and "is_simple a" and "MmsValue_update True (Some a) (Some b) = Some (Some v, ok)"
  shows "MmsValue_getType v = MmsValue_getType a"
  using update_simple_ok [OF assms(1-3)] assms(3,4) by auto

lemma keeps_type_simple:
  assumes "\<And>v. MmsVariableSpecification_isValueOfType s (Some v) = Some (MmsValue_getType v = T)" and "T \<noteq> TYPE_ARRAY" and "T \<noteq> TYPE_STRUCTURE"
  shows "keeps_type s"
  unfolding keeps_type_def
proof (intro allI impI)
  fix a b v ok
  assume ok: "mms_ok a" "mms_ok b" and t: "MmsVariableSpecification_isValueOfType s (Some a) = Some True"
    and u: "MmsValue_update True (Some a) (Some b) = Some (Some v, ok)"
  then have "is_simple a" using assms by (cases a) auto
  then show "MmsVariableSpecification_isValueOfType s (Some v) = Some True" using update_type [OF ok _ u] t assms(1) by simp
qed

lemma keeps_type_all: "keeps_type s"
proof (induction s)
  case (SPEC_ARRAY name n e)
  show ?case
    unfolding keeps_type_def
  proof (intro allI impI)
    fix a b v ok
    assume ok: "mms_ok a" "mms_ok b" and t: "MmsVariableSpecification_isValueOfType (SPEC_ARRAY name n e) (Some a) = Some True"
      "MmsVariableSpecification_isValueOfType (SPEC_ARRAY name n e) (Some b) = Some True"
      and u: "MmsValue_update True (Some a) (Some b) = Some (Some v, ok)"
    obtain cs ds where ab: "a = MMS_ARRAY cs" "b = MMS_ARRAY ds" using t by (cases a; cases b) auto
    then obtain ws where ws: "updateStructuredComponent True cs ds = Some (ws, ok)" "v = MMS_ARRAY ws" "length cs = length ds"
      using t u by (auto simp: bind_eq_Some_conv split: if_splits)
    have "length ws = length (replicate (length cs) e) \<and>
        check_all (map MmsVariableSpecification_isValueOfType (replicate (length cs) e)) ws = Some True"
      by (rule update_keeps_components [OF _ _ _ _ _ _ _ ws(1)]) (use ok t ab ws(3) SPEC_ARRAY in \<open>auto split: if_splits\<close>)
    then show "MmsVariableSpecification_isValueOfType (SPEC_ARRAY name n e) (Some v) = Some True"
      using t ab ws by (auto split: if_splits)
  qed
next
  case (SPEC_STRUCTURE name es)
  show ?case
    unfolding keeps_type_def
  proof (intro allI impI)
    fix a b v ok
    assume ok: "mms_ok a" "mms_ok b" and t: "MmsVariableSpecification_isValueOfType (SPEC_STRUCTURE name es) (Some a) = Some True"
      "MmsVariableSpecification_isValueOfType (SPEC_STRUCTURE name es) (Some b) = Some True"
      and u: "MmsValue_update True (Some a) (Some b) = Some (Some v, ok)"
    obtain cs ds where ab: "a = MMS_STRUCTURE cs" "b = MMS_STRUCTURE ds" using t by (cases a; cases b) auto
    then obtain ws where ws: "updateStructuredComponent True cs ds = Some (ws, ok)" "v = MMS_STRUCTURE ws" "length cs = length ds"
      using t u by (auto simp: bind_eq_Some_conv split: if_splits)
    have "length ws = length es \<and> check_all (map MmsVariableSpecification_isValueOfType es) ws = Some True"
      by (rule update_keeps_components [OF _ _ _ _ _ _ _ ws(1)]) (use ok t ab ws(3) SPEC_STRUCTURE in \<open>auto split: if_splits\<close>)
    then show "MmsVariableSpecification_isValueOfType (SPEC_STRUCTURE name es) (Some v) = Some True"
      using t ab ws by (auto split: if_splits)
  qed
next
  case (SPEC_BIT_STRING name n)
  show ?case
    unfolding keeps_type_def
  proof (intro allI impI)
    fix a b v ok
    assume ok: "mms_ok a" "mms_ok b" and t: "MmsVariableSpecification_isValueOfType (SPEC_BIT_STRING name n) (Some a) = Some True"
      "MmsVariableSpecification_isValueOfType (SPEC_BIT_STRING name n) (Some b) = Some True"
      and u: "MmsValue_update True (Some a) (Some b) = Some (Some v, ok)"
    obtain i buf j src where ab: "a = MMS_BIT_STRING i buf" "b = MMS_BIT_STRING j src" using t by (cases a; cases b) auto
    have "is_bit_string i a" "is_bit_string j b" using ok ab by (auto simp: is_bit_string_def)
    then obtain s where "copy_bits b 0 j a = Some s" "is_bit_string i s" using copy_bits_ok by blast
    then have "\<exists>c. v = MMS_BIT_STRING i c"
      using u ab by (auto simp: update_simple_def is_bit_string_def bind_eq_Some_conv split: if_splits)
    then show "MmsVariableSpecification_isValueOfType (SPEC_BIT_STRING name n) (Some v) = Some True" using t ab by auto
  qed
next
  case (SPEC_FLOAT name e f)
  show ?case
    by (auto simp: keeps_type_def update_simple_def bind_eq_Some_conv split: MmsValue.splits if_splits)
next
  case (SPEC_BINARY_TIME name n)
  show ?case
    by (auto simp: keeps_type_def update_simple_def bind_eq_Some_conv split: MmsValue.splits if_splits)
qed (rule keeps_type_simple, simp, simp, simp)+

text \<open>C13: A value of a type that is updated with another value of this type keeps the type, also when the update
  is reported as failed and only a part of it was done.\<close>

theorem update_keeps_type:
  assumes "mms_ok a" and "mms_ok b" and "MmsVariableSpecification_isValueOfType s (Some a) = Some True"
    and "MmsVariableSpecification_isValueOfType s (Some b) = Some True"
  shows "\<exists>v ok. MmsValue_update True (Some a) (Some b) = Some (Some v, ok) \<and> mms_ok v \<and>
    MmsVariableSpecification_isValueOfType s (Some v) = Some True"
proof -
  obtain v ok where "MmsValue_update True (Some a) (Some b) = Some (Some v, ok)" "mms_ok v"
    using updated_all [OF assms(1,2)] unfolding updated_def by blast
  moreover from this have "MmsVariableSpecification_isValueOfType s (Some v) = Some True"
    using keeps_type_all [of s] assms unfolding keeps_type_def by blast
  ultimately show ?thesis by blast
qed

theorem update_keeps_type_witness:
  "\<exists>v ok. MmsValue_update True (Some (MMS_BIT_STRING 4 [0xf0])) (Some (MMS_BIT_STRING 13 [0xaa, 0xa8])) = Some (Some v, ok) \<and>
     MmsVariableSpecification_isValueOfType (SPEC_BIT_STRING [] (- 20)) (Some v) = Some True"
  using update_keeps_type [of "MMS_BIT_STRING 4 [0xf0]" "MMS_BIT_STRING 13 [0xaa, 0xa8]" "SPEC_BIT_STRING [] (- 20)"]
  by (auto simp: bitStringByteSize_def)

subsection \<open>Components and their types\<close>

lemma find_name_bounds: "find_name es name i = Some j \<Longrightarrow> i \<le> j \<and> j < i + length es \<and> MmsVariableSpecification_getName (es ! (j - i)) = name"
proof (induction es arbitrary: i)
  case (Cons e es)
  show ?case
  proof (cases "MmsVariableSpecification_getName e = name")
    case False
    then have "Suc i \<le> j \<and> j < Suc i + length es \<and> MmsVariableSpecification_getName (es ! (j - Suc i)) = name"
      using Cons.IH [of "Suc i"] Cons.prems by simp
    moreover from this have "j - i = Suc (j - Suc i)" by linarith
    ultimately show ?thesis by simp
  qed (use Cons.prems in simp)
qed simp

lemma check_all_nth:
  "check_all fs vs = Some True \<Longrightarrow> length fs = length vs \<Longrightarrow> i < length vs \<Longrightarrow> (fs ! i) (vs ! i) = Some True"
proof (induction fs arbitrary: vs i)
  case (Cons f fs)
  then obtain v vs' where "vs = v # vs'" by (cases vs) auto
  then show ?case using Cons by (cases i) (auto simp: check_all_Cons simp del: check_all.simps(2))
qed simp

lemma separator_direct:
  "0x2e \<notin> set cs \<Longrightarrow> separator cs i = (if directChildStrLen cs = length cs then None else Some (i + directChildStrLen cs))"
  by (induction cs arbitrary: i) auto

lemma typed_structure:
  assumes "MmsVariableSpecification_isValueOfType (SPEC_STRUCTURE name es) value = Some True"
  obtains cs where "value = Some (MMS_STRUCTURE cs)" "length es = length cs"
    "\<And>i. i < length cs \<Longrightarrow> MmsVariableSpecification_isValueOfType (es ! i) (cs ! i) = Some True"
proof -
  obtain cs where "value = Some (MMS_STRUCTURE cs)" "length es = length cs" "check_all (map MmsVariableSpecification_isValueOfType es) cs = Some True"
    using assms by (auto split: option.splits MmsValue.splits if_splits)
  then show thesis using that check_all_nth [of "map MmsVariableSpecification_isValueOfType es" cs] by simp
qed

lemma typed_not_null: "MmsVariableSpecification_isValueOfType s p = Some True \<Longrightarrow> \<exists>v. p = Some v"
  by (cases s; cases p) auto

lemma child_value_typed:
  assumes "MmsVariableSpecification_isValueOfType s p = Some True"
  shows "\<exists>r. MmsVariableSpecification_getChildValue s p path = Some r \<and>
    (0x2e \<notin> set path \<longrightarrow> (\<forall>c. r = Some c \<longrightarrow>
       (\<exists>t. MmsVariableSpecification_getNamedVariableRecursive s path = Some t \<and> MmsVariableSpecification_isValueOfType t (Some c) = Some True)))"
  using assms
proof (induction "length path" arbitrary: s p path rule: less_induct)
  case less
  note child = MmsVariableSpecification_getChildValue.simps [of s p path]
  note named = MmsVariableSpecification_getNamedVariableRecursive.simps [of s path]
  show ?case
  proof (cases "\<exists>name es. s = SPEC_STRUCTURE name es")
    case False
    then have "MmsVariableSpecification_getChildValue s p path = Some None" by (subst child) (cases s; simp)
    then show ?thesis by simp
  next
    case True
    then obtain name es where s: "s = SPEC_STRUCTURE name es" by blast
    obtain cs where cs: "p = Some (MMS_STRUCTURE cs)" "length es = length cs"
      "\<And>i. i < length cs \<Longrightarrow> MmsVariableSpecification_isValueOfType (es ! i) (cs ! i) = Some True"
      using typed_structure [OF less.prems [unfolded s]] by metis
    let ?n = "directChildStrLen path"
    show ?thesis
    proof (cases "find_name es (take ?n path) 0")
      case None
      then have "MmsVariableSpecification_getChildValue s p path = Some None" by (subst child) (simp add: s cs Let_def)
      then show ?thesis by simp
    next
      case (Some i)
      have i: "i < length cs" using find_name_bounds [OF Some] cs(2) by simp
      note ty = cs(3) [OF i]
      obtain c where c: "cs ! i = Some c" using typed_not_null [OF ty] by blast
      show ?thesis
      proof (cases "?n = length path")
        case True
        have "MmsVariableSpecification_getChildValue s p path = Some (Some c)" by (subst child) (use Some True in \<open>simp add: s cs c Let_def\<close>)
        moreover have "MmsVariableSpecification_getNamedVariableRecursive s path = Some (es ! i)" if "0x2e \<notin> set path"
          by (subst named) (use Some True separator_direct [OF that, of 0] in \<open>simp add: s\<close>)
        ultimately show ?thesis using ty c by auto
      next
        case False
        then have lt: "length (drop (?n + 1) path) < length path" using directChildStrLen_le [of path] by simp
        have g: "MmsVariableSpecification_getChildValue s p path = MmsVariableSpecification_getChildValue (es ! i) (cs ! i) (drop (?n + 1) path)"
          by (subst child) (use Some False in \<open>simp add: s cs Let_def\<close>)
        note IH = less.hyps [OF lt ty]
        have nv: "MmsVariableSpecification_getNamedVariableRecursive s path = MmsVariableSpecification_getNamedVariableRecursive (es ! i) (drop (?n + 1) path)"
          if "0x2e \<notin> set path" "\<exists>nm xs. es ! i = SPEC_STRUCTURE nm xs"
          by (subst named) (use Some False separator_direct [OF that(1), of 0] that(2) in \<open>auto simp: s\<close>)
        have st: "\<exists>nm xs. es ! i = SPEC_STRUCTURE nm xs"
          if "MmsVariableSpecification_getChildValue (es ! i) (cs ! i) (drop (?n + 1) path) = Some (Some d)" for d
          using that by (cases "es ! i") (simp_all add: MmsVariableSpecification_getChildValue.simps)
        have nd: "0x2e \<notin> set (drop (?n + 1) path)" if "0x2e \<notin> set path" using that by (meson in_set_dropD)
        show ?thesis using IH g nv st nd by (metis (no_types, lifting))
      qed
    qed
  qed
qed

text \<open>C14: Looking up a component of a value of a type follows no null pointer. For a path with the separator \<open>$\<close>, a
  component that is found has the type that the same path has in the type specification.\<close>

theorem child_value_type:
  assumes "MmsVariableSpecification_isValueOfType s (Some v) = Some True"
  shows "\<exists>r. MmsValue_getSubElement (Some v) s path = Some r \<and>
    (0x2e \<notin> set path \<longrightarrow> (\<forall>c. r = Some c \<longrightarrow>
       (\<exists>t. MmsVariableSpecification_getNamedVariableRecursive s path = Some t \<and> MmsVariableSpecification_isValueOfType t (Some c) = Some True)))"
  using child_value_typed [OF assms, of path] by (simp only: MmsValue_getSubElement_def)

theorem child_value_type_witness:
  "\<exists>r. MmsValue_getSubElement (Some (MMS_STRUCTURE [Some (MMS_STRUCTURE [Some (MMS_BOOLEAN True)])]))
     (SPEC_STRUCTURE [] [SPEC_STRUCTURE [0x41] [SPEC_BOOLEAN [0x42]]]) [0x41, 0x24, 0x42] = Some r"
  using child_value_type [of "SPEC_STRUCTURE [] [SPEC_STRUCTURE [0x41] [SPEC_BOOLEAN [0x42]]]"
      "MMS_STRUCTURE [Some (MMS_STRUCTURE [Some (MMS_BOOLEAN True)])]" "[0x41, 0x24, 0x42]"] by auto

end
