(* ===== verification/Spec2Isabelle.thy ===== *)
theory Spec2Isabelle
  imports Iso_Client Mms_Type_Spec
begin

text \<open>
  \<^bold>\<open>The OSI protocol stack of libiec61850.\<close> The application talks to protection devices through the C
  library under \<open>src/source_code/deps/libiec61850\<close> (paths below are relative to it). This
  development models the library's protocol stack from the byte encodings up to the associations
  of the MMS client and server, and the values that MMS exchanges over them, as it is built here:
  little endian, no TLS, threads, MMS PDUs of at most 65000 bytes, TPDUs of at most 8192 bytes.

  \<^bold>\<open>Parts and theories.\<close>
  \<^item> \<open>Prelude\<close>: bytes, checked memory access (\<open>rd\<close>, \<open>wr\<close>, \<open>memcpy\<close>; \<open>None\<close> is an access outside the
    buffer or of a null pointer), writers and the law \<open>writes w bs\<close>: \<open>w\<close> stores exactly \<open>bs\<close>.
  \<^item> \<open>Ber_Encoder\<close>, \<open>Ber_Decoder\<close>, \<open>Ber_Oid\<close>, \<open>Ber_Integer\<close>: \<open>src/mms/asn1/\<close> (\<open>ber_encoder.c\<close>,
    \<open>ber_decode.c\<close>, \<open>ber_integer.c\<close>, \<open>asn1_ber_primitive_value.c\<close>).
  \<^item> \<open>Byte_Buffer\<close>: \<open>src/common/byte_buffer.c\<close> and \<open>buffer_chain.c\<close>, and the contract of a protocol layer
    as locales: \<open>layer\<close> (a layer puts a header in front of a chain), \<open>layer_in_place\<close> and \<open>layers\<close> (two
    layers on top of each other).
  \<^item> \<open>Connection_Parameters\<close>: \<open>src/mms/iso_common/iso_connection_parameters.c\<close>.
  \<^item> \<open>Iso_Session\<close>: \<open>src/mms/iso_session/iso_session.c\<close>.
  \<^item> \<open>Tlv_Loop\<close>, \<open>Iso_Presentation\<close>: \<open>src/mms/iso_presentation/iso_presentation.c\<close>; the parsers are
    instances of one loop over BER elements, with the locale \<open>tlv_handler\<close> as its contract.
  \<^item> \<open>Hal_Socket\<close>: the reads and writes of \<open>hal/socket/linux/socket_linux.c\<close>. A socket is a script of
    what the system calls will return, so that statements for all sockets are statements for every
    segmentation, error and blocking behaviour.
  \<^item> \<open>Cotp\<close>, \<open>Cotp_Transfer\<close>, \<open>Cotp_Receive\<close>, \<open>Cotp_Connect\<close>, \<open>Cotp_Invariant\<close>:
    \<open>src/mms/iso_cotp/cotp.c\<close>: the operations, sending, receiving, connecting, and the invariant of a
    transport connection.
  \<^item> \<open>Acse\<close>: \<open>src/mms/iso_acse/acse.c\<close>; the authenticator is a parameter.
  \<^item> \<open>Iso_Connection\<close>: \<open>src/mms/iso_server/iso_connection.c\<close>, the server side of an association; the
    message handler of the MMS server is a parameter.
  \<^item> \<open>Iso_Client\<close>: \<open>src/mms/iso_client/iso_client_connection.c\<close>, the client's state machine; the
    callback of the MMS client is a parameter.
  \<^item> \<open>Mms_Value\<close>, \<open>Mms_Equality\<close>: \<open>src/mms/iso_mms/common/mms_value.c\<close>: the values of all MMS types with
    their operations, their comparison, update and copying. Reading and writing single bits is the
    interface \<open>bit_store\<close>, under which integers are stored in bit strings.
  \<^item> \<open>Mms_Data\<close>: the encoding of values in \<open>src/mms/iso_mms/server/mms_access_result.c\<close>. The decoder counts
    the elements of an array with the element loop of \<open>Tlv_Loop\<close>.
  \<^item> \<open>Mms_Type_Spec\<close>: \<open>src/mms/iso_mms/common/mms_type_spec.c\<close>, type specifications of variables, with the
    values created from them.

  Records have the fields of the C structs, with a prefix where two structs share a name. Every C
  function is a definition with its name; long functions are cut at their \<open>switch\<close> cases. A pointer
  into a buffer is the buffer's suffix, or the buffer and an offset; a buffer that a function
  changes is returned. Functions that can access memory return an option.

  \<^bold>\<open>What the lemmas show.\<close>
  \<^item> Encodings: what each encoder writes, sizes announced are sizes written, and decoders return what
    was encoded, with the exceptions the code has.
  \<^item> Parsers of every layer: on every input they return, access nothing outside their buffers and
    hand only parts of the message to the layer above.
  \<^item> Round trips of every message of the session, presentation, ACSE and transport layers.
  \<^item> Transport: what is sent is the message cut into data TPDUs whatever the socket accepts, and what
    is received from such a stream, in any segmentation, is the message.
  \<^item> Reading packets: a packet is complete, waited for or refused as the bytes received and the
    failures of system calls say.
  \<^item> Server association: an invariant of all reachable connections, with every pass of the receive
    loop free of memory errors but for two packets named in the theorem; a request reaches the
    handler unchanged, and the TPDUs of its answer are appended to the outgoing stream.
  \<^item> Client association: each step refines an abstract protocol of phases, and in all runs, with
    releases, aborts and closings at any time, each attempt to associate is given at most one outcome
    and exactly one closing.
  \<^item> MMS values: a well-formedness predicate \<open>mms_ok\<close> that the operations keep; an abstract \<open>content\<close>, in
    whose terms comparison, update and copies are specified; times and bit strings are read back as
    stored; values survive the way over the wire, with the exceptions the code has, and decoding is
    safe for every input as long as its allocations succeed. Default values have their type, updates
    keep it, and lookups in values and in types agree.

  \<^bold>\<open>Loops and fuel.\<close> Parsing loops are total functions, with termination shown by a measure or with
  fuel that the bytes left bound; the safety theorems show that the fuel given suffices. The read
  loop of a transport connection makes progress on its socket script. The thread of a server
  connection (\<open>handleTcpConnection\<close>) may run for ever; its fuel is the number of passes. The recursion of
  the value decoder is bounded by the levels left, of the 25 that the code allows.

  \<^bold>\<open>Limits.\<close> Handlers and callbacks change their own state and the buffers they are given, and do not
  call back into the connection. The handler of a server connection stays inside the response buffer
  and below the largest MMS PDU of 65000 bytes. Semaphores are counts, and waiting at 0 is \<open>None\<close>.
  Memory is not released, so that uses after a release are not represented; in particular the server's
  \<open>IsoConnection_close\<close> is only its final state and no step of the runs considered. Functions
  that allocate take a flag \<open>mem\<close>, by which the allocations of one call all succeed or all fail. A view of a
  buffer that is kept in a struct (session user data, presentation payload) is the contents at the
  time it is set. A client run may lose its transmit buffer, as the code does; the connection is then
  followed in a state of its own. Releases and aborts are requested of established connections.

  The size of a string is a 16 bit member of the value. Decoding is memory safe for buffers of every
  length, and decoded values are well formed for buffers below 32768 bytes. In type specifications
  sizes are unbounded integers, and \<open>1 << 31\<close> is the bit pattern the target's compilers give it.

  \<^bold>\<open>Not modelled.\<close> MMS PDUs and services, the memory management and printing of values, conversions
  between \<open>float\<close> and \<open>double\<close>, the IEC 61850 client and server, GOOSE and sampled values, the
  server's table of connections, operating system calls other than socket reads and writes, TLS
  (not part of the build) and the Go application.
\<close>

end
